(* ===== verification/Prelude.thy ===== *)
theory Prelude
  imports Main "HOL-Library.Word"
begin

text \<open>
  Shared vocabulary of the development: the fixed-width integer types of \<open>Define.h\<close>, the size
  arithmetic of \<open>size_t\<close>, two's complement wrap-around of the signed types, and the ordered
  containers \<open>std::map\<close> and \<open>std::set\<close>, modelled as key-sorted lists so that iteration order
  (\<open>begin()\<close> is the least key) is the one of the C++ containers.
  The locales \<open>kv_store\<close> and \<open>id_set\<close> state what the components rely on; they are interpreted
  here on the sorted-list models.  The locale \<open>guarded_machine\<close> lifts a one-step invariant to whole
  runs; each component with state interprets it on its own step function.
\<close>

unbundle bit_operations_syntax

section \<open>Machine integers\<close>

type_synonym uint8 = "8 word"
type_synonym uint16 = "16 word"
type_synonym uint32 = "32 word"
type_synonym uint64 = "64 word"

named_theorems int_simps \<open>wrap-around arithmetic of fixed-width integers\<close>
named_theorems store_simps \<open>laws of the ordered containers\<close>

text \<open>\<open>size_t\<close> is a 64-bit unsigned integer; sums of sizes wrap.\<close>

definition sz_add :: "nat \<Rightarrow> nat \<Rightarrow> nat" where
  "sz_add a b = (a + b) mod 2 ^ 64"

lemma sz_add_small [int_simps]: "a + b < 2 ^ 64 \<Longrightarrow> sz_add a b = a + b"
  by (simp add: sz_add_def)

text \<open>Signed 32-bit and 64-bit values are integers with the wrap-around written out.\<close>

definition wrap32 :: "int \<Rightarrow> int" where
  "wrap32 x = (x + 2147483648) mod 4294967296 - 2147483648"

definition wrap64 :: "int \<Rightarrow> int" where
  "wrap64 x = (x + 9223372036854775808) mod 18446744073709551616 - 9223372036854775808"

lemma wrap32_small [int_simps]: "- 2147483648 \<le> x \<Longrightarrow> x < 2147483648 \<Longrightarrow> wrap32 x = x"
  by (simp add: wrap32_def)

lemma wrap32_bounds: "- 2147483648 \<le> wrap32 x \<and> wrap32 x < 2147483648"
  by (simp add: wrap32_def)

lemma wrap64_small [int_simps]:
  "- 9223372036854775808 \<le> x \<Longrightarrow> x < 9223372036854775808 \<Longrightarrow> wrap64 x = x"
  by (simp add: wrap64_def)

text \<open>C's division and remainder truncate towards zero; a zero divisor is left to the callers.\<close>

definition c_div :: "int \<Rightarrow> int \<Rightarrow> int" where
  "c_div a b = sgn a * sgn b * (\<bar>a\<bar> div \<bar>b\<bar>)"

definition c_mod :: "int \<Rightarrow> int \<Rightarrow> int" where
  "c_mod a b = sgn a * (\<bar>a\<bar> mod \<bar>b\<bar>)"

lemma c_mod_nonneg [int_simps]: "0 \<le> a \<Longrightarrow> 0 < b \<Longrightarrow> c_mod a b = a mod b"
  by (cases "a = 0") (simp_all add: c_mod_def)

lemma c_div_mod: "c_div a b * b + c_mod a b = a"
proof -
  have "sgn a * (sgn b * b * (\<bar>a\<bar> div \<bar>b\<bar>) + \<bar>a\<bar> mod \<bar>b\<bar>) = sgn a * \<bar>a\<bar>"
    by (simp add: sgn_mult_self_eq linordered_idom_class.abs_sgn [symmetric] mult.commute [of "sgn b"])
  then show ?thesis by (simp add: c_div_def c_mod_def algebra_simps abs_mult_sgn)
qed

section \<open>Single bits of flag words\<close>

text \<open>C's \<open>flags & f\<close> used as a condition.\<close>

definition has_flag :: "'a::len word \<Rightarrow> 'a word \<Rightarrow> bool" where
  "has_flag w f \<longleftrightarrow> w AND f \<noteq> 0"

definition set_flag :: "'a::len word \<Rightarrow> 'a word \<Rightarrow> bool \<Rightarrow> 'a word" where
  "set_flag w f state = (if state then w OR f else w AND NOT f)"

lemma set_flag_bit [int_simps]:
  "bit (set_flag w f b) n \<longleftrightarrow> (if b then bit w n \<or> bit f n else bit w n \<and> \<not> bit f n)"
  by (auto simp: set_flag_def bit_simps dest: bit_imp_le_length)

lemma has_flag_bit: "has_flag w f \<longleftrightarrow> (\<exists>n. bit w n \<and> bit f n)"
  by (auto simp: has_flag_def bit_eq_iff bit_simps dest: bit_imp_le_length)

lemma has_flag_set_same [simp]: "f \<noteq> 0 \<Longrightarrow> has_flag (set_flag w f b) f = b"
  by (auto simp: has_flag_bit set_flag_bit bit_eq_iff)

lemma has_flag_set_other:
  assumes "f AND g = 0"
  shows "has_flag (set_flag w f b) g = has_flag w g"
proof -
  have "\<not> (bit f n \<and> bit g n)" for n
    using arg_cong [OF assms, of "\<lambda>x. bit x n"] by (auto simp: bit_simps dest: bit_imp_le_length)
  then show ?thesis
    by (cases b) (auto simp: has_flag_bit set_flag_bit)
qed

lemma has_flag_zero [simp]: "\<not> has_flag 0 f"
  by (simp add: has_flag_def)

section \<open>std::map: an association list sorted by key\<close>

type_synonym ('k, 'v) omap = "('k \<times> 'v) list"

fun om_get :: "('k, 'v) omap \<Rightarrow> 'k \<Rightarrow> 'v option" where
  "om_get [] k = None"
| "om_get ((a, v) # m) k = (if k = a then Some v else om_get m k)"

fun om_put :: "'k::linorder \<Rightarrow> 'v \<Rightarrow> ('k, 'v) omap \<Rightarrow> ('k, 'v) omap" where
  "om_put k v [] = [(k, v)]"
| "om_put k v ((a, w) # m) =
     (if k < a then (k, v) # (a, w) # m else if k = a then (k, v) # m else (a, w) # om_put k v m)"

fun om_erase :: "'k \<Rightarrow> ('k, 'v) omap \<Rightarrow> ('k, 'v) omap" where
  "om_erase k [] = []"
| "om_erase k ((a, w) # m) = (if k = a then m else (a, w) # om_erase k m)"

definition om_keys :: "('k, 'v) omap \<Rightarrow> 'k list" where
  "om_keys m = map fst m"

definition om_ok :: "('k::linorder, 'v) omap \<Rightarrow> bool" where
  "om_ok m \<longleftrightarrow> sorted_wrt (<) (om_keys m)"

lemma om_keys_simps [simp]:
  "om_keys [] = []" "om_keys (p # m) = fst p # om_keys m"
  by (simp_all add: om_keys_def)

lemma om_ok_simps [simp]:
  "om_ok []" "om_ok (p # m) \<longleftrightarrow> (\<forall>k \<in> set (om_keys m). fst p < k) \<and> om_ok m"
  by (auto simp: om_ok_def)

lemma om_get_put: "om_get (om_put k v m) k' = (if k' = k then Some v else om_get m k')"
  by (induction m) auto

lemma om_get_notin: "k \<notin> set (om_keys m) \<Longrightarrow> om_get m k = None"
  by (induction m) auto

lemma om_get_dom: "om_get m k \<noteq> None \<longleftrightarrow> k \<in> set (om_keys m)"
  by (induction m) auto

lemma om_keys_put [simp]: "set (om_keys (om_put k v m)) = insert k (set (om_keys m))"
  by (induction k v m rule: om_put.induct) auto

lemma om_ok_put: "om_ok m \<Longrightarrow> om_ok (om_put k v m)"
  by (induction k v m rule: om_put.induct) (auto dest: less_trans)

lemma om_keys_erase: "om_ok m \<Longrightarrow> set (om_keys (om_erase k m)) = set (om_keys m) - {k}"
  by (induction k m rule: om_erase.induct) (auto split: if_splits)

lemma om_ok_erase: "om_ok m \<Longrightarrow> om_ok (om_erase k m)"
  by (induction k m rule: om_erase.induct) (auto simp: om_keys_erase)

lemma om_get_erase: "om_ok m \<Longrightarrow> om_get (om_erase k m) k' = (if k' = k then None else om_get m k')"
  by (induction k m rule: om_erase.induct) (auto simp: om_keys_erase om_get_notin)

lemma om_get_in_set: "om_get m k = Some v \<Longrightarrow> (k, v) \<in> set m"
  by (induction m) (auto split: if_splits)

lemma om_in_set_get: "om_ok m \<Longrightarrow> (k, v) \<in> set m \<Longrightarrow> om_get m k = Some v"
  by (induction m) (auto simp: om_keys_def)

lemma om_set_iff: "om_ok m \<Longrightarrow> (k, v) \<in> set m \<longleftrightarrow> om_get m k = Some v"
  by (auto intro: om_get_in_set om_in_set_get)

lemma om_get_above: "\<forall>k \<in> set (om_keys m). a < k \<Longrightarrow> om_get m k = Some v \<Longrightarrow> a < k"
  using om_get_dom [of m k] by simp

lemma om_put_same: "om_ok m \<Longrightarrow> om_get m k = Some v \<Longrightarrow> om_put k v m = m"
  by (induction k v m rule: om_put.induct) (auto split: if_splits dest: om_get_above)

lemma om_put_put [simp]: "om_put k v (om_put k w m) = om_put k v m"
  by (induction k w m rule: om_put.induct) auto

text \<open>How many entries have a property.\<close>

definition om_count :: "('v \<Rightarrow> bool) \<Rightarrow> ('k, 'v) omap \<Rightarrow> nat" where
  "om_count P m = length (filter (P \<circ> snd) m)"

lemma om_count_simps [simp]:
  "om_count P [] = 0" "om_count P (p # m) = (if P (snd p) then Suc (om_count P m) else om_count P m)"
  by (simp_all add: om_count_def)

lemma om_count_put_new:
  "om_get m k = None \<Longrightarrow> om_count P (om_put k v m) = (if P v then Suc (om_count P m) else om_count P m)"
  by (induction k v m rule: om_put.induct) (auto split: if_splits)

lemma om_count_put_old:
  "om_ok m \<Longrightarrow> om_get m k = Some w \<Longrightarrow>
   om_count P (om_put k v m) + (if P w then 1 else 0) = om_count P m + (if P v then 1 else 0)"
  by (induction k v m rule: om_put.induct) (auto split: if_splits dest: om_get_above)

lemma om_get_map: "om_get (map (\<lambda>(k, v). (k, f k v)) m) k = map_option (f k) (om_get m k)"
  by (induction m) auto

lemma om_keys_map [simp]: "om_keys (map (\<lambda>(k, v). (k, f k v)) m) = om_keys m"
  by (induction m) auto

lemma om_ok_map [simp]: "om_ok (map (\<lambda>(k, v). (k, f k v)) m) \<longleftrightarrow> om_ok m"
  by (simp add: om_ok_def)

lemma om_count_map:
  fixes m :: "('k, 'v) omap"
  assumes keeps: "\<And>v. P (f v) = P v"
  shows "om_count P (map (\<lambda>(k, v). (k, f v)) m) = om_count P m"
proof -
  have "P \<circ> snd \<circ> (\<lambda>(k :: 'k, v). (k, f v)) = P \<circ> snd"
    by (rule ext) (simp add: case_prod_beta keeps)
  then show ?thesis
    by (simp add: om_count_def filter_map)
qed

text \<open>What the components rely on when they keep objects in a \<open>std::map\<close>.\<close>

locale kv_store =
  fixes get :: "'m \<Rightarrow> 'k \<Rightarrow> 'v option"
    and put :: "'k \<Rightarrow> 'v \<Rightarrow> 'm \<Rightarrow> 'm"
    and erase :: "'k \<Rightarrow> 'm \<Rightarrow> 'm"
    and ok :: "'m \<Rightarrow> bool"
  assumes get_put: "get (put k v m) k' = (if k' = k then Some v else get m k')"
    and get_erase: "ok m \<Longrightarrow> get (erase k m) k' = (if k' = k then None else get m k')"
    and ok_put: "ok m \<Longrightarrow> ok (put k v m)"
    and ok_erase: "ok m \<Longrightarrow> ok (erase k m)"
begin

lemma get_put_same: "get (put k v m) k = Some v"
  by (simp add: get_put)

lemma get_put_other: "k' \<noteq> k \<Longrightarrow> get (put k v m) k' = get m k'"
  by (simp add: get_put)

lemma all_put:
  assumes "\<And>k' v'. get m k' = Some v' \<Longrightarrow> k' \<noteq> k \<Longrightarrow> P k' v'" and "P k v"
  shows "get (put k v m) k' = Some v' \<Longrightarrow> P k' v'"
  using assms by (auto simp: get_put split: if_splits)

lemma all_erase:
  assumes "ok m" and "\<And>k' v'. get m k' = Some v' \<Longrightarrow> P k' v'"
  shows "get (erase k m) k' = Some v' \<Longrightarrow> P k' v'"
  using assms by (auto simp: get_erase split: if_splits)

end

interpretation om: kv_store om_get om_put om_erase om_ok
  by unfold_locales (simp_all add: om_get_put om_get_erase om_ok_put om_ok_erase)

lemmas om_laws [store_simps] = om_get_put om_get_erase om_ok_put om_ok_erase

section \<open>std::set: a strictly sorted list\<close>

type_synonym 'k oset = "'k list"

fun os_insert :: "'k::linorder \<Rightarrow> 'k oset \<Rightarrow> 'k oset" where
  "os_insert x [] = [x]"
| "os_insert x (a # s) = (if x < a then x # a # s else if x = a then a # s else a # os_insert x s)"

fun os_erase :: "'k \<Rightarrow> 'k oset \<Rightarrow> 'k oset" where
  "os_erase x [] = []"
| "os_erase x (a # s) = (if x = a then s else a # os_erase x s)"

definition os_mem :: "'k oset \<Rightarrow> 'k \<Rightarrow> bool" where
  "os_mem s x \<longleftrightarrow> x \<in> set s"

definition os_ok :: "'k::linorder oset \<Rightarrow> bool" where
  "os_ok s \<longleftrightarrow> sorted_wrt (<) s"

lemma os_ok_simps [simp]: "os_ok []" "os_ok (x # s) \<longleftrightarrow> (\<forall>y \<in> set s. x < y) \<and> os_ok s"
  by (auto simp: os_ok_def)

lemma set_os_insert [simp]: "set (os_insert x s) = insert x (set s)"
  by (induction s) auto

lemma os_ok_insert: "os_ok s \<Longrightarrow> os_ok (os_insert x s)"
  by (induction s) auto

lemma set_os_erase: "os_ok s \<Longrightarrow> set (os_erase x s) = set s - {x}"
  by (induction s) auto

lemma os_ok_erase: "os_ok s \<Longrightarrow> os_ok (os_erase x s)"
  by (induction s) (auto simp: set_os_erase)

lemma os_ok_distinct: "os_ok s \<Longrightarrow> distinct s"
  by (induction s) auto

lemma os_ok_unique: "os_ok s \<Longrightarrow> os_ok t \<Longrightarrow> set s = set t \<Longrightarrow> s = t"
  by (simp add: os_ok_def strict_sorted_equal)

locale id_set =
  fixes mem :: "'s \<Rightarrow> 'k \<Rightarrow> bool"
    and ins :: "'k \<Rightarrow> 's \<Rightarrow> 's"
    and del :: "'k \<Rightarrow> 's \<Rightarrow> 's"
    and ok :: "'s \<Rightarrow> bool"
  assumes mem_ins: "mem (ins x s) y \<longleftrightarrow> y = x \<or> mem s y"
    and mem_del: "ok s \<Longrightarrow> mem (del x s) y \<longleftrightarrow> y \<noteq> x \<and> mem s y"
    and ok_ins: "ok s \<Longrightarrow> ok (ins x s)"
    and ok_del: "ok s \<Longrightarrow> ok (del x s)"
begin

text \<open>Folding insertions and deletions: the loops \<open>AddPermissions\<close>/\<open>RemovePermissions\<close> of the
  clients.\<close>

lemma mem_fold_ins: "mem (fold ins xs s) y \<longleftrightarrow> y \<in> set xs \<or> mem s y"
  by (induction xs arbitrary: s) (auto simp: mem_ins)

lemma ok_fold_ins: "ok s \<Longrightarrow> ok (fold ins xs s)"
  by (induction xs arbitrary: s) (auto simp: ok_ins)

lemma ok_fold_del: "ok s \<Longrightarrow> ok (fold del xs s)"
  by (induction xs arbitrary: s) (auto simp: ok_del)

lemma mem_fold_del: "ok s \<Longrightarrow> mem (fold del xs s) y \<longleftrightarrow> y \<notin> set xs \<and> mem s y"
  by (induction xs arbitrary: s) (auto simp: mem_del ok_del)

end

interpretation os: id_set os_mem os_insert os_erase os_ok
  by unfold_locales (auto simp: os_mem_def set_os_erase os_ok_insert os_ok_erase)

lemmas os_laws [store_simps] = os.mem_ins os.mem_del os_ok_insert os_ok_erase

section \<open>std::multimap with times as keys\<close>

text \<open>A list sorted by key; \<open>multimap::insert\<close> places an entry behind every entry whose key is not
  greater.\<close>

type_synonym ('k, 'v) mmap = "('k \<times> 'v) list"

fun mm_insert :: "'k::linorder \<Rightarrow> 'v \<Rightarrow> ('k, 'v) mmap \<Rightarrow> ('k, 'v) mmap" where
  "mm_insert t e [] = [(t, e)]"
| "mm_insert t e ((a, x) # l) = (if t < a then (t, e) # (a, x) # l else (a, x) # mm_insert t e l)"

definition mm_sorted :: "('k::linorder, 'v) mmap \<Rightarrow> bool" where
  "mm_sorted l \<longleftrightarrow> sorted (map fst l)"

text \<open>The entries whose time has come.\<close>

definition due :: "'k::linorder \<Rightarrow> ('k, 'v) mmap \<Rightarrow> ('k, 'v) mmap" where
  "due now l = filter (\<lambda>(t, e). t \<le> now) l"

lemma set_mm_insert [simp]: "set (mm_insert t e l) = insert (t, e) (set l)"
  by (induction t e l rule: mm_insert.induct) auto

lemma length_mm_insert [simp]: "length (mm_insert t e l) = Suc (length l)"
  by (induction t e l rule: mm_insert.induct) auto

lemma mm_sorted_simps [simp]:
  "mm_sorted []" "mm_sorted (x # l) \<longleftrightarrow> (\<forall>y \<in> set l. fst x \<le> fst y) \<and> mm_sorted l"
  by (auto simp: mm_sorted_def)

lemma mm_sorted_insert: "mm_sorted l \<Longrightarrow> mm_sorted (mm_insert t e l)"
  by (induction t e l rule: mm_insert.induct) auto

lemma mm_sorted_filter: "mm_sorted l \<Longrightarrow> mm_sorted (filter P l)"
  by (induction l) auto

lemma due_insert_later: "now < t \<Longrightarrow> due now (mm_insert t e l) = due now l"
  by (induction t e l rule: mm_insert.induct) (auto simp: due_def)

lemma due_none: "mm_sorted (x # l) \<Longrightarrow> now < fst x \<Longrightarrow> due now (x # l) = []"
  by (auto simp: due_def filter_empty_conv)

text \<open>An insertion keeps the entries of equal time in the order in which they were added.\<close>

lemma mm_insert_stable:
  "mm_sorted l \<Longrightarrow> filter (\<lambda>x. fst x = t') (mm_insert t e l) =
     filter (\<lambda>x. fst x = t') l @ (if t = t' then [(t, e)] else [])"
proof (induction t e l rule: mm_insert.induct)
  case (2 t e a x l)
  have "filter (\<lambda>x. fst x = t) ((a, x) # l) = []" if "t < a"
    using that "2.prems" by (auto simp: filter_empty_conv)
  with 2 show ?case by auto
qed simp

section \<open>State machines: from one step to whole runs\<close>

text \<open>
  A component with state is a step function over its operations.  Its client only knows that every
  operation keeps the invariant under the guard the environment grants (\<open>pre\<close>).
\<close>

locale guarded_machine =
  fixes step :: "'op \<Rightarrow> 's \<Rightarrow> 's"
    and pre :: "'op \<Rightarrow> 's \<Rightarrow> bool"
    and inv :: "'s \<Rightarrow> bool"
  assumes step_inv: "inv s \<Longrightarrow> pre a s \<Longrightarrow> inv (step a s)"
begin

inductive run :: "'s \<Rightarrow> 'op list \<Rightarrow> 's \<Rightarrow> bool" where
  run_nil: "run s [] s"
| run_cons: "pre a s \<Longrightarrow> run (step a s) as t \<Longrightarrow> run s (a # as) t"

lemma run_step: "step a s = s' \<Longrightarrow> pre a s \<Longrightarrow> run s' as t \<Longrightarrow> run s (a # as) t"
  using run_cons by blast

lemma run_inv: "run s as t \<Longrightarrow> inv s \<Longrightarrow> inv t"
  by (induction rule: run.induct) (auto intro: step_inv)

text \<open>When the guard always holds, running is folding the step function.\<close>

lemma fold_inv:
  assumes "\<And>a s. inv s \<Longrightarrow> a \<in> set as \<Longrightarrow> pre a s" and "inv s"
  shows "inv (fold step as s)"
  using assms by (induction as arbitrary: s) (auto intro: step_inv)

end

section \<open>Simulation: from one step to whole runs\<close>

text \<open>
  Operations with an answer; a step that must not be made, or cannot be made, has no result.  A detailed
  model simulates an abstract one when it can follow every abstract step with the same answer.
\<close>

fun run_ops :: "('op \<Rightarrow> 's \<Rightarrow> ('s \<times> 'r) option) \<Rightarrow> 'op list \<Rightarrow> 's \<Rightarrow> ('s \<times> 'r list) option" where
  "run_ops step [] s = Some (s, [])"
| "run_ops step (x # xs) s =
     (case step x s of
        None \<Rightarrow> None
      | Some (s', r) \<Rightarrow> map_option (\<lambda>(t, rs). (t, r # rs)) (run_ops step xs s'))"

locale simulation =
  fixes cstep :: "'op \<Rightarrow> 'c \<Rightarrow> ('c \<times> 'r) option"
    and astep :: "'op \<Rightarrow> 'a \<Rightarrow> ('a \<times> 'r) option"
    and R :: "'c \<Rightarrow> 'a \<Rightarrow> bool"
  assumes step_sim: "R c a \<Longrightarrow> astep x a = Some (a', r) \<Longrightarrow> \<exists>c'. cstep x c = Some (c', r) \<and> R c' a'"
begin

lemma run_sim: "R c a \<Longrightarrow> run_ops astep xs a = Some (a', rs) \<Longrightarrow> \<exists>c'. run_ops cstep xs c = Some (c', rs) \<and> R c' a'"
proof (induction xs arbitrary: c a rs)
  case (Cons x xs)
  from Cons.prems(2) obtain a1 r rs' where a1: "astep x a = Some (a1, r)" "run_ops astep xs a1 = Some (a', rs')" "rs = r # rs'"
    by (auto split: option.splits)
  from step_sim [OF Cons.prems(1) a1(1)] obtain c1 where c1: "cstep x c = Some (c1, r)" "R c1 a1" by blast
  from Cons.IH [OF c1(2) a1(2)] show ?case
    using c1(1) a1(3) by auto
qed simp

end

end
