(* ===== verification/ByteBuffer.thy ===== *)
theory ByteBuffer
  imports Prelude
begin

text \<open>
  \<open>ByteBuffer\<close> (src/server/shared/Packets/ByteBuffer.h): the read/write buffer behind every packet.
  The state is the storage vector with a read and a write position.  Every throw, the size
  assertion and every access the C++ leaves undefined is a value of \<open>bb_error\<close>.  Positions are
  \<open>size_t\<close> values, sums of positions wrap (\<open>sz_add\<close>).
  Values are written in little-endian order on every host: \<open>EndianConvert\<close> is the identity on
  little-endian hosts and reverses the bytes on big-endian ones.  Once a bounds check has shown that a
  position stays within the storage the sum needs no wrap: a vector is shorter than \<open>2 ^ 64\<close>.
  The locale \<open>codec\<close> is the interface the container operators (\<open>operator<<\<close> and \<open>operator>>\<close> on
  vectors, lists and maps) need from their element type; it is interpreted on the fixed-width
  integers and on strings.
\<close>

section \<open>State and errors\<close>

datatype bb_error =
    ByteBufferPositionException bool nat nat nat
  | ByteBufferSourceException nat nat nat
  | ByteBufferException
  | AssertionFailed
  | UndefinedAccess

record ByteBuffer =
  rpos :: nat
  wpos :: nat
  storage :: "uint8 list"

named_theorems bb_simps \<open>evaluation of the buffer operations\<close>

definition ByteBuffer_new :: ByteBuffer where
  "ByteBuffer_new = \<lparr>rpos = 0, wpos = 0, storage = []\<rparr>"

definition bb_size :: "ByteBuffer \<Rightarrow> nat" where
  "bb_size b = length (storage b)"

definition bb_clear :: "ByteBuffer \<Rightarrow> ByteBuffer" where
  "bb_clear b = b\<lparr>storage := [], rpos := 0, wpos := 0\<rparr>"

definition set_rpos :: "nat \<Rightarrow> ByteBuffer \<Rightarrow> ByteBuffer" where
  "set_rpos p b = b\<lparr>rpos := p\<rparr>"

definition rfinish :: "ByteBuffer \<Rightarrow> ByteBuffer" where
  "rfinish b = b\<lparr>rpos := wpos b\<rparr>"

definition set_wpos :: "nat \<Rightarrow> ByteBuffer \<Rightarrow> ByteBuffer" where
  "set_wpos p b = b\<lparr>wpos := p\<rparr>"

text \<open>\<open>std::vector::resize(n, 0)\<close>.\<close>

definition vec_resize :: "nat \<Rightarrow> uint8 list \<Rightarrow> uint8 list" where
  "vec_resize n xs = take n xs @ replicate (n - length xs) 0"

definition bb_resize :: "nat \<Rightarrow> ByteBuffer \<Rightarrow> ByteBuffer" where
  "bb_resize n b = (let b' = b\<lparr>storage := vec_resize n (storage b), rpos := 0\<rparr>
                    in b'\<lparr>wpos := bb_size b'\<rparr>)"

text \<open>\<open>memcpy\<close> into the storage at \<open>pos\<close>; undefined past the end.\<close>

definition mem_write :: "nat \<Rightarrow> uint8 list \<Rightarrow> uint8 list \<Rightarrow> uint8 list" where
  "mem_write pos src xs = take pos xs @ src @ drop (pos + length src) xs"

section \<open>Writing\<close>

text \<open>\<open>append(const uint8 *src, size_t cnt)\<close>; \<open>None\<close> is the null pointer.\<close>

definition append_ptr :: "uint8 list option \<Rightarrow> nat \<Rightarrow> ByteBuffer \<Rightarrow> bb_error + ByteBuffer" where
  "append_ptr src cnt b =
     (if cnt = 0 then Inl (ByteBufferSourceException (wpos b) (bb_size b) cnt)
      else case src of
        None \<Rightarrow> Inl (ByteBufferSourceException (wpos b) (bb_size b) cnt)
      | Some bs \<Rightarrow>
          (if \<not> bb_size b < 10000000 then Inl AssertionFailed
           else
             let st = (if bb_size b < sz_add (wpos b) cnt
                       then vec_resize (sz_add (wpos b) cnt) (storage b) else storage b)
             in if length bs < cnt \<or> length st < wpos b + cnt then Inl UndefinedAccess
                else Inr (b\<lparr>storage := mem_write (wpos b) (take cnt bs) st,
                             wpos := wpos b + cnt\<rparr>)))"

abbreviation append_bytes :: "uint8 list \<Rightarrow> ByteBuffer \<Rightarrow> bb_error + ByteBuffer" where
  "append_bytes bs b \<equiv> append_ptr (Some bs) (length bs) b"

text \<open>The bytes of a value of type \<open>T\<close>, least significant first, and \<open>sizeof(T)\<close>.\<close>

definition size_of :: "'a::len word \<Rightarrow> nat" where
  "size_of w = LENGTH('a) div 8"

definition word_bytes :: "'a::len word \<Rightarrow> uint8 list" where
  "word_bytes w = map (\<lambda>i. ucast (drop_bit (8 * i) w)) [0..<size_of w]"

definition append_val :: "'a::len word \<Rightarrow> ByteBuffer \<Rightarrow> bb_error + ByteBuffer" where
  "append_val v b = append_ptr (Some (word_bytes v)) (size_of v) b"

text \<open>\<open>operator<<(std::string const&)\<close>: the characters, if any, and a terminating zero byte.\<close>

definition byte_of_char :: "char \<Rightarrow> uint8" where
  "byte_of_char c = word_of_nat (of_char c)"

definition char_of_byte :: "uint8 \<Rightarrow> char" where
  "char_of_byte w = char_of (unat w)"

definition append_string :: "string \<Rightarrow> ByteBuffer \<Rightarrow> bb_error + ByteBuffer" where
  "append_string s b =
     (case (if length s \<noteq> 0 then append_ptr (Some (map byte_of_char s)) (length s) b else Inr b) of
        Inl e \<Rightarrow> Inl e
      | Inr b' \<Rightarrow> append_val (0::uint8) b')"

text \<open>\<open>append(ByteBuffer const&)\<close>, with \<open>contents()\<close>.\<close>

definition contents :: "ByteBuffer \<Rightarrow> bb_error + uint8 list" where
  "contents b = (if storage b = [] then Inl ByteBufferException else Inr (storage b))"

definition append_buffer :: "ByteBuffer \<Rightarrow> ByteBuffer \<Rightarrow> bb_error + ByteBuffer" where
  "append_buffer src b =
     (if wpos src \<noteq> 0 then
        (case contents src of Inl e \<Rightarrow> Inl e | Inr bs \<Rightarrow> append_ptr (Some bs) (wpos src) b)
      else Inr b)"

text \<open>\<open>put(size_t pos, const uint8 *src, size_t cnt)\<close> and \<open>put<T>\<close>.\<close>

definition put_ptr :: "nat \<Rightarrow> uint8 list option \<Rightarrow> nat \<Rightarrow> ByteBuffer \<Rightarrow> bb_error + ByteBuffer" where
  "put_ptr pos src cnt b =
     (if sz_add pos cnt > bb_size b
      then Inl (ByteBufferPositionException True pos cnt (bb_size b))
      else case src of
        None \<Rightarrow> Inl (ByteBufferSourceException (wpos b) (bb_size b) cnt)
      | Some bs \<Rightarrow>
          (if length bs < cnt \<or> length (storage b) < pos + cnt then Inl UndefinedAccess
           else Inr (b\<lparr>storage := mem_write pos (take cnt bs) (storage b)\<rparr>)))"

definition put_val :: "nat \<Rightarrow> 'a::len word \<Rightarrow> ByteBuffer \<Rightarrow> bb_error + ByteBuffer" where
  "put_val pos v b = put_ptr pos (Some (word_bytes v)) (size_of v) b"

section \<open>Reading\<close>

definition bytes_word :: "uint8 list \<Rightarrow> 'a::len word" where
  "bytes_word bs = foldr (\<lambda>b acc. push_bit 8 acc OR ucast b) bs 0"

text \<open>\<open>read<T>(pos)\<close>; the type of the result fixes \<open>sizeof(T)\<close>.\<close>

definition read_at :: "nat \<Rightarrow> ByteBuffer \<Rightarrow> bb_error + 'a::len word" where
  "read_at pos b =
     (let n = size_of (0 :: 'a word) in
      if sz_add pos n > bb_size b then Inl (ByteBufferPositionException False pos n (bb_size b))
      else if pos + n > bb_size b then Inl UndefinedAccess
      else Inr (bytes_word (take n (drop pos (storage b)))))"

definition read_val :: "ByteBuffer \<Rightarrow> bb_error + ('a::len word \<times> ByteBuffer)" where
  "read_val b =
     (case read_at (rpos b) b of
        Inl e \<Rightarrow> Inl e
      | Inr r \<Rightarrow> Inr (r, b\<lparr>rpos := rpos b + size_of r\<rparr>))"

definition read_skip :: "nat \<Rightarrow> ByteBuffer \<Rightarrow> bb_error + ByteBuffer" where
  "read_skip skip b =
     (if sz_add (rpos b) skip > bb_size b
      then Inl (ByteBufferPositionException False (rpos b) skip (bb_size b))
      else Inr (b\<lparr>rpos := sz_add (rpos b) skip\<rparr>))"

text \<open>\<open>read(uint8 *dest, size_t len)\<close>: the bytes copied to \<open>dest\<close>.\<close>

definition read_bytes :: "nat \<Rightarrow> ByteBuffer \<Rightarrow> bb_error + (uint8 list \<times> ByteBuffer)" where
  "read_bytes n b =
     (if sz_add (rpos b) n > bb_size b
      then Inl (ByteBufferPositionException False (rpos b) n (bb_size b))
      else if rpos b + n > bb_size b then Inl UndefinedAccess
      else Inr (take n (drop (rpos b) (storage b)), b\<lparr>rpos := rpos b + n\<rparr>))"

text \<open>\<open>operator[]\<close>.\<close>

definition bb_index :: "nat \<Rightarrow> ByteBuffer \<Rightarrow> bb_error + uint8" where
  "bb_index pos b =
     (if pos \<ge> bb_size b then Inl (ByteBufferPositionException False pos 1 (bb_size b))
      else Inr (storage b ! pos))"

text \<open>\<open>operator>>(bool&)\<close> reads a \<open>char\<close>, signed on the supported hosts, and tests it for being
  positive.\<close>

definition read_bool :: "ByteBuffer \<Rightarrow> bb_error + (bool \<times> ByteBuffer)" where
  "read_bool b =
     (case read_val b of
        Inl e \<Rightarrow> Inl e
      | Inr (c :: uint8, b') \<Rightarrow> Inr (sint c > 0, b'))"

text \<open>\<open>operator>>(float&)\<close> and \<open>operator>>(double&)\<close> refuse infinities and NaNs: in the IEEE 754
  encoding the exponent field is then all ones.\<close>

definition isfinite32 :: "uint32 \<Rightarrow> bool" where
  "isfinite32 f \<longleftrightarrow> f AND 0x7F800000 \<noteq> 0x7F800000"

definition isfinite64 :: "uint64 \<Rightarrow> bool" where
  "isfinite64 d \<longleftrightarrow> d AND 0x7FF0000000000000 \<noteq> 0x7FF0000000000000"

definition read_float :: "ByteBuffer \<Rightarrow> bb_error + (uint32 \<times> ByteBuffer)" where
  "read_float b =
     (case read_val b of
        Inl e \<Rightarrow> Inl e
      | Inr (f, b') \<Rightarrow> (if \<not> isfinite32 f then Inl ByteBufferException else Inr (f, b')))"

definition read_double :: "ByteBuffer \<Rightarrow> bb_error + (uint64 \<times> ByteBuffer)" where
  "read_double b =
     (case read_val b of
        Inl e \<Rightarrow> Inl e
      | Inr (d, b') \<Rightarrow> (if \<not> isfinite64 d then Inl ByteBufferException else Inr (d, b')))"

text \<open>\<open>operator>>(std::string&)\<close>: characters up to a zero byte or the end of the buffer.  The
  recursion is the \<open>while\<close> loop, \<open>value\<close> the string built so far.\<close>

function read_string_loop :: "string \<Rightarrow> ByteBuffer \<Rightarrow> bb_error + (string \<times> ByteBuffer)" where
  "read_string_loop value b =
     (if rpos b < bb_size b then
        (case read_val b of
           Inl e \<Rightarrow> Inl e
         | Inr (c :: uint8, b') \<Rightarrow>
             (if c = 0 then Inr (value, b')
              else read_string_loop (value @ [char_of_byte c]) b'))
      else Inr (value, b))"
  by pat_completeness auto
termination
proof (relation "measure (\<lambda>(v, b). bb_size b - rpos b)", goal_cases)
  case (2 v b p c b')
  then have "rpos b' = rpos b + 1" and "storage b' = storage b"
    by (auto simp: read_val_def size_of_def split: sum.splits)
  with 2 show ?case by (simp add: bb_size_def)
qed simp

declare read_string_loop.simps [simp del]

definition read_string :: "ByteBuffer \<Rightarrow> bb_error + (string \<times> ByteBuffer)" where
  "read_string b = read_string_loop [] b"

definition read_skip_string :: "ByteBuffer \<Rightarrow> bb_error + ByteBuffer" where
  "read_skip_string b = map_sum id snd (read_string b)"

section \<open>Packed GUIDs and packed times\<close>

text \<open>\<open>appendPackGUID\<close>: a mark byte with one bit per non-zero byte of the GUID, then these bytes.
  The recursion is the loop \<open>for (uint8 i = 0; guid != 0; ++i)\<close> over the array \<open>packGUID\<close>.\<close>

function pack_guid_loop :: "nat \<Rightarrow> uint64 \<Rightarrow> uint8 \<Rightarrow> uint8 list \<Rightarrow> uint8 \<times> uint8 list" where
  "pack_guid_loop i guid mark bs =
     (if guid \<noteq> 0 then
        (if guid AND 0xFF \<noteq> 0
         then pack_guid_loop (i + 1) (drop_bit 8 guid) (mark OR push_bit i 1) (bs @ [ucast (guid AND 0xFF)])
         else pack_guid_loop (i + 1) (drop_bit 8 guid) mark bs)
      else (mark, bs))"
  by pat_completeness auto
termination
  by (relation "measure (\<lambda>(i, guid, mark, bs). unat guid)")
     (auto simp: drop_bit_eq_div unat_div unat_gt_0)

declare pack_guid_loop.simps [simp del]

definition appendPackGUID :: "uint64 \<Rightarrow> ByteBuffer \<Rightarrow> bb_error + ByteBuffer" where
  "appendPackGUID guid b = (let (mark, bs) = pack_guid_loop 0 guid 0 [] in append_bytes (mark # bs) b)"

fun read_guid_loop :: "nat list \<Rightarrow> uint8 \<Rightarrow> uint64 \<Rightarrow> ByteBuffer \<Rightarrow> bb_error + (uint64 \<times> ByteBuffer)" where
  "read_guid_loop [] mark guid b = Inr (guid, b)"
| "read_guid_loop (i # is) mark guid b =
     (if mark AND push_bit i 1 \<noteq> 0 then
        (if sz_add (rpos b) 1 > bb_size b
         then Inl (ByteBufferPositionException False (rpos b) 1 (bb_size b))
         else case read_val b of
           Inl e \<Rightarrow> Inl e
         | Inr (c :: uint8, b') \<Rightarrow> read_guid_loop is mark (guid OR push_bit (i * 8) (ucast c)) b')
      else read_guid_loop is mark guid b)"

definition readPackGUID :: "ByteBuffer \<Rightarrow> bb_error + (uint64 \<times> ByteBuffer)" where
  "readPackGUID b =
     (if sz_add (rpos b) 1 > bb_size b
      then Inl (ByteBufferPositionException False (rpos b) 1 (bb_size b))
      else case read_val b of
        Inl e \<Rightarrow> Inl e
      | Inr (mark, b') \<Rightarrow> read_guid_loop [0..<8] mark 0 b')"

record tm =
  tm_min :: int
  tm_hour :: int
  tm_mday :: int
  tm_mon :: int
  tm_year :: int
  tm_wday :: int

definition pack_tm :: "tm \<Rightarrow> uint32" where
  "pack_tm lt = push_bit 24 (word_of_int (tm_year lt - 100)) OR push_bit 20 (word_of_int (tm_mon lt))
     OR push_bit 14 (word_of_int (tm_mday lt - 1)) OR push_bit 11 (word_of_int (tm_wday lt))
     OR push_bit 6 (word_of_int (tm_hour lt)) OR word_of_int (tm_min lt)"

definition unpack_tm :: "uint32 \<Rightarrow> tm" where
  "unpack_tm packedDate =
     \<lparr>tm_min = uint (packedDate AND 0x3F),
      tm_hour = uint (drop_bit 6 packedDate AND 0x1F),
      tm_mday = uint (drop_bit 14 packedDate AND 0x3F) + 1,
      tm_mon = uint (drop_bit 20 packedDate AND 0xF),
      tm_year = uint (drop_bit 24 packedDate AND 0x1F) + 100,
      tm_wday = 0\<rparr>"

text \<open>\<open>AppendPackedTime\<close> and \<open>ReadPackedTime\<close> over the C library's \<open>localtime_r\<close> and \<open>mktime\<close> and
  the process's \<open>timezone\<close>.\<close>

definition AppendPackedTime :: "(int \<Rightarrow> tm) \<Rightarrow> int \<Rightarrow> ByteBuffer \<Rightarrow> bb_error + ByteBuffer" where
  "AppendPackedTime localtime_r time b = append_val (pack_tm (localtime_r time)) b"

definition ReadPackedTime ::
  "(tm \<Rightarrow> int) \<Rightarrow> int \<Rightarrow> ByteBuffer \<Rightarrow> bb_error + (uint32 \<times> ByteBuffer)" where
  "ReadPackedTime mktime timezone b =
     (case read_val b of
        Inl e \<Rightarrow> Inl e
      | Inr (packedDate, b') \<Rightarrow> Inr (word_of_int (mktime (unpack_tm packedDate) + timezone), b'))"

section \<open>Containers\<close>

text \<open>The loops of \<open>operator<<\<close> and \<open>operator>>\<close> on \<open>std::vector<T>\<close> and \<open>std::list<T>\<close>, over the
  element operators they instantiate.\<close>

fun write_seq :: "('a \<Rightarrow> ByteBuffer \<Rightarrow> bb_error + ByteBuffer) \<Rightarrow> 'a list \<Rightarrow> ByteBuffer \<Rightarrow> bb_error + ByteBuffer"
where
  "write_seq put [] b = Inr b"
| "write_seq put (x # xs) b = (case put x b of Inl e \<Rightarrow> Inl e | Inr b' \<Rightarrow> write_seq put xs b')"

fun read_seq :: "(ByteBuffer \<Rightarrow> bb_error + ('a \<times> ByteBuffer)) \<Rightarrow> nat \<Rightarrow> 'a list \<Rightarrow> ByteBuffer
  \<Rightarrow> bb_error + ('a list \<times> ByteBuffer)" where
  "read_seq get 0 v b = Inr (v, b)"
| "read_seq get (Suc vsize) v b =
     (case get b of Inl e \<Rightarrow> Inl e | Inr (t, b') \<Rightarrow> read_seq get vsize (v @ [t]) b')"

definition put_vector :: "('a \<Rightarrow> ByteBuffer \<Rightarrow> bb_error + ByteBuffer) \<Rightarrow> 'a list \<Rightarrow> ByteBuffer
  \<Rightarrow> bb_error + ByteBuffer" where
  "put_vector put v b =
     (case append_val (word_of_nat (length v) :: uint32) b of
        Inl e \<Rightarrow> Inl e | Inr b' \<Rightarrow> write_seq put v b')"

definition get_vector :: "(ByteBuffer \<Rightarrow> bb_error + ('a \<times> ByteBuffer)) \<Rightarrow> ByteBuffer
  \<Rightarrow> bb_error + ('a list \<times> ByteBuffer)" where
  "get_vector get b =
     (case read_val b of
        Inl e \<Rightarrow> Inl e | Inr (vsize :: uint32, b') \<Rightarrow> read_seq get (unat vsize) [] b')"

text \<open>\<open>operator<<\<close> and \<open>operator>>\<close> on \<open>std::map<K, V>\<close>: \<open>insert\<close> keeps an existing entry.\<close>

definition put_pair :: "('k \<Rightarrow> ByteBuffer \<Rightarrow> bb_error + ByteBuffer) \<Rightarrow>
  ('v \<Rightarrow> ByteBuffer \<Rightarrow> bb_error + ByteBuffer) \<Rightarrow> 'k \<times> 'v \<Rightarrow> ByteBuffer \<Rightarrow> bb_error + ByteBuffer" where
  "put_pair putk putv p b = (case putk (fst p) b of Inl e \<Rightarrow> Inl e | Inr b' \<Rightarrow> putv (snd p) b')"

definition get_pair :: "(ByteBuffer \<Rightarrow> bb_error + ('k \<times> ByteBuffer)) \<Rightarrow>
  (ByteBuffer \<Rightarrow> bb_error + ('v \<times> ByteBuffer)) \<Rightarrow> ByteBuffer \<Rightarrow> bb_error + (('k \<times> 'v) \<times> ByteBuffer)"
where
  "get_pair getk getv b =
     (case getk b of
        Inl e \<Rightarrow> Inl e
      | Inr (k, b') \<Rightarrow> (case getv b' of Inl e \<Rightarrow> Inl e | Inr (v, b'') \<Rightarrow> Inr ((k, v), b'')))"

definition map_insert :: "'k::linorder \<times> 'v \<Rightarrow> ('k, 'v) omap \<Rightarrow> ('k, 'v) omap" where
  "map_insert p m = (case om_get m (fst p) of None \<Rightarrow> om_put (fst p) (snd p) m | Some _ \<Rightarrow> m)"

definition put_map :: "('k \<Rightarrow> ByteBuffer \<Rightarrow> bb_error + ByteBuffer) \<Rightarrow>
  ('v \<Rightarrow> ByteBuffer \<Rightarrow> bb_error + ByteBuffer) \<Rightarrow> ('k, 'v) omap \<Rightarrow> ByteBuffer \<Rightarrow> bb_error + ByteBuffer"
where
  "put_map putk putv m b = put_vector (put_pair putk putv) m b"

definition get_map :: "(ByteBuffer \<Rightarrow> bb_error + ('k::linorder \<times> ByteBuffer)) \<Rightarrow>
  (ByteBuffer \<Rightarrow> bb_error + ('v \<times> ByteBuffer)) \<Rightarrow> ByteBuffer \<Rightarrow> bb_error + (('k, 'v) omap \<times> ByteBuffer)"
where
  "get_map getk getv b =
     map_sum id (\<lambda>(ps, b'). (fold map_insert ps [], b')) (get_vector (get_pair getk getv) b)"

section \<open>Exception messages\<close>

text \<open>The message a \<open>ByteBufferPositionException(add, pos, size, valueSize)\<close> carries.\<close>

datatype bb_message = PositionMessage (msg_put: bool) (msg_value_size: nat) (msg_pos: nat) (msg_size: nat)
  | SourceMessage (msg_null: bool) (msg_spos: nat) (msg_ssize: nat)

fun exception_message :: "bb_error \<Rightarrow> bb_message option" where
  "exception_message (ByteBufferPositionException add pos sz valueSize) =
     Some (PositionMessage add valueSize pos sz)"
| "exception_message (ByteBufferSourceException pos sz valueSize) =
     Some (SourceMessage (valueSize > 0) pos sz)"
| "exception_message _ = None"

section \<open>Bytes of a word\<close>

lemma length_word_bytes [simp]: "length (word_bytes w) = size_of w"
  by (simp add: word_bytes_def)

lemma bytes_word_Cons: "bytes_word (c # bs) = push_bit 8 (bytes_word bs) OR ucast c"
  by (simp add: bytes_word_def)

lemma bit_bytes_word:
  "bit (bytes_word bs :: 'a::len word) n \<longleftrightarrow>
     n < LENGTH('a) \<and> n div 8 < length bs \<and> bit (bs ! (n div 8)) (n mod 8)"
proof (induction bs arbitrary: n)
  case Nil
  show ?case by (simp add: bytes_word_def)
next
  case (Cons c bs)
  show ?case
  proof (cases "n < 8")
    case True
    then show ?thesis
      by (auto simp: bytes_word_Cons bit_simps dest: bit_imp_le_length)
  next
    case False
    then have "n div 8 = Suc ((n - 8) div 8)" and "n mod 8 = (n - 8) mod 8"
      by (auto simp: le_div_geq le_mod_geq)
    then show ?thesis
      using False Cons [of "n - 8"]
      by (auto simp: bytes_word_Cons bit_simps dest: bit_imp_le_length)
  qed
qed

lemma bytes_word_word_bytes:
  assumes "8 dvd LENGTH('a)"
  shows "bytes_word (word_bytes w) = (w :: 'a::len word)"
proof (rule bit_word_eqI)
  fix n assume n: "n < LENGTH('a)"
  have "n div 8 < LENGTH('a) div 8"
    using n assms by (auto elim!: dvdE)
  moreover have "8 * (n div 8) + n mod 8 = n"
    by simp
  ultimately show "bit (bytes_word (word_bytes w) :: 'a word) n = bit w n"
    using n by (simp add: bit_bytes_word size_of_def word_bytes_def bit_simps)
qed

lemma char_byte_inverse [simp]: "char_of_byte (byte_of_char c) = c"
proof -
  have "of_char c mod 2 ^ 8 = (of_char c :: nat)"
    using nat_of_char_less_256 [of c] by simp
  then show ?thesis
    by (simp add: char_of_byte_def byte_of_char_def unat_of_nat)
qed

lemma byte_of_char_eq_0 [simp]: "byte_of_char c = 0 \<longleftrightarrow> c = CHR 0x00"
proof
  assume "byte_of_char c = 0"
  then have "c = char_of_byte 0" by (metis char_byte_inverse)
  then have "c = char_of (0 :: nat)" by (simp only: char_of_byte_def unat_0)
  then show "c = CHR 0x00" by (simp add: char_of_def)
qed (simp add: byte_of_char_def)

section \<open>Appending and reading back\<close>

text \<open>A buffer in append mode with room for \<open>n\<close> more bytes; the bytes at the read position.\<close>

definition writable :: "ByteBuffer \<Rightarrow> nat \<Rightarrow> bool" where
  "writable b n \<longleftrightarrow> wpos b = bb_size b \<and> bb_size b + n \<le> 10000000"

definition readable :: "ByteBuffer \<Rightarrow> uint8 list \<Rightarrow> bool" where
  "readable b bs \<longleftrightarrow> rpos b + length bs \<le> bb_size b \<and> bb_size b < 2 ^ 64 \<and>
     take (length bs) (drop (rpos b) (storage b)) = bs"

definition bb_extend :: "ByteBuffer \<Rightarrow> uint8 list \<Rightarrow> ByteBuffer" where
  "bb_extend b bs = b\<lparr>storage := storage b @ bs, wpos := wpos b + length bs\<rparr>"

definition bb_advance :: "ByteBuffer \<Rightarrow> nat \<Rightarrow> ByteBuffer" where
  "bb_advance b n = b\<lparr>rpos := rpos b + n\<rparr>"

lemma bb_extend_simps [simp]:
  "bb_extend b [] = b" "bb_extend (bb_extend b xs) ys = bb_extend b (xs @ ys)"
  "storage (bb_extend b bs) = storage b @ bs" "rpos (bb_extend b bs) = rpos b"
  "wpos (bb_extend b bs) = wpos b + length bs" "bb_size (bb_extend b bs) = bb_size b + length bs"
  by (simp_all add: bb_extend_def bb_size_def)

lemma bb_advance_simps [simp]:
  "bb_advance b 0 = b" "bb_advance (bb_advance b m) n = bb_advance b (m + n)"
  "storage (bb_advance b n) = storage b" "rpos (bb_advance b n) = rpos b + n"
  "wpos (bb_advance b n) = wpos b" "bb_size (bb_advance b n) = bb_size b"
  by (simp_all add: bb_advance_def bb_size_def)

lemma writable_extend: "writable b (length bs + n) \<Longrightarrow> writable (bb_extend b bs) n"
  by (simp add: writable_def)

lemma writable_less: "writable b n \<Longrightarrow> m \<le> n \<Longrightarrow> writable b m"
  by (simp add: writable_def)

lemma readable_append:
  assumes "readable b (xs @ ys)"
  shows "readable b xs" and "readable (bb_advance b (length xs)) ys"
  using assms by (auto simp: readable_def bb_size_def take_add add.commute append_eq_append_conv)

lemma readable_extend:
  "wpos b = bb_size b \<Longrightarrow> bb_size b + length bs < 2 ^ 64 \<Longrightarrow> 
   readable (set_rpos (bb_size b) (bb_extend b bs)) bs"
  by (simp add: readable_def set_rpos_def bb_size_def)

lemma append_bytes_writable:
  "bs \<noteq> [] \<Longrightarrow> writable b (length bs) \<Longrightarrow> append_bytes bs b = Inr (bb_extend b bs)"
  by (cases bs) (simp_all add: append_ptr_def writable_def bb_extend_def bb_size_def vec_resize_def
      mem_write_def sz_add_small)

lemma read_at_readable:
  fixes w :: "'a::len word"
  assumes "8 dvd LENGTH('a)" and "readable b (word_bytes w)"
  shows "read_at (rpos b) b = Inr w"
  using assms by (simp add: read_at_def readable_def size_of_def sz_add_small bytes_word_word_bytes)

lemma size_of_pos: "8 dvd LENGTH('a) \<Longrightarrow> 0 < size_of (w :: 'a::len word)"
  by (metis div_greater_zero_iff dvd_imp_le len_gt_0 size_of_def zero_less_numeral)

subsection \<open>The interface of an element type\<close>

locale codec =
  fixes put :: "'a \<Rightarrow> ByteBuffer \<Rightarrow> bb_error + ByteBuffer"
    and get :: "ByteBuffer \<Rightarrow> bb_error + ('a \<times> ByteBuffer)"
    and enc :: "'a \<Rightarrow> uint8 list"
    and ok :: "'a \<Rightarrow> bool"
  assumes put_enc: "ok x \<Longrightarrow> writable b (length (enc x)) \<Longrightarrow> put x b = Inr (bb_extend b (enc x))"
    and get_enc: "ok x \<Longrightarrow> readable b (enc x) \<Longrightarrow> get b = Inr (x, bb_advance b (length (enc x)))"
begin

lemma write_seq_enc:
  "list_all ok xs \<Longrightarrow> writable b (length (concat (map enc xs))) \<Longrightarrow>
   write_seq put xs b = Inr (bb_extend b (concat (map enc xs)))"
proof (induction xs arbitrary: b)
  case (Cons x xs)
  then have "writable b (length (enc x))" and "writable (bb_extend b (enc x)) (length (concat (map enc xs)))"
    by (auto intro: writable_less writable_extend)
  with Cons show ?case by (simp add: put_enc)
qed simp

lemma read_seq_enc:
  "list_all ok xs \<Longrightarrow> readable b (concat (map enc xs)) \<Longrightarrow>
   read_seq get (length xs) acc b = Inr (acc @ xs, bb_advance b (length (concat (map enc xs))))"
proof (induction xs arbitrary: b acc)
  case (Cons x xs)
  then have "readable b (enc x)" and "readable (bb_advance b (length (enc x))) (concat (map enc xs))"
    using readable_append [of b "enc x"] by simp_all
  with Cons show ?case by (simp add: get_enc [of x b])
qed simp

text \<open>What is written at the end of a buffer is read back from there.\<close>

lemma roundtrip:
  assumes "ok x" and "writable b (length (enc x))"
  shows "put x b = Inr (bb_extend b (enc x)) \<and>
    get (set_rpos (bb_size b) (bb_extend b (enc x))) =
      Inr (x, set_rpos (bb_size b + length (enc x)) (bb_extend b (enc x)))"
proof -
  have "readable (set_rpos (bb_size b) (bb_extend b (enc x))) (enc x)"
    using assms(2) by (intro readable_extend) (auto simp: writable_def)
  with assms show ?thesis
    by (simp add: put_enc get_enc [of x] bb_advance_def set_rpos_def)
qed

end

lemma word_codec:
  assumes "8 dvd LENGTH('a)"
  shows "codec (append_val :: 'a::len word \<Rightarrow> _) read_val word_bytes (\<lambda>_. True)"
proof
  fix w :: "'a word" and b
  have "word_bytes w \<noteq> []"
    using size_of_pos [OF assms, of w] by (metis length_word_bytes less_numeral_extra(3) list.size(3))
  then show "append_val w b = Inr (bb_extend b (word_bytes w))" if "writable b (length (word_bytes w))"
    using append_bytes_writable [OF _ that] by (simp add: append_val_def)
  show "read_val b = Inr (w, bb_advance b (length (word_bytes w)))" if "readable b (word_bytes w)"
    using read_at_readable [OF assms that] by (simp add: read_val_def bb_advance_def)
qed

interpretation u8: codec "append_val :: uint8 \<Rightarrow> _" read_val word_bytes "\<lambda>_. True"
  by (rule word_codec) simp

interpretation u16: codec "append_val :: uint16 \<Rightarrow> _" read_val word_bytes "\<lambda>_. True"
  by (rule word_codec) simp

interpretation u32: codec "append_val :: uint32 \<Rightarrow> _" read_val word_bytes "\<lambda>_. True"
  by (rule word_codec) simp

interpretation u64: codec "append_val :: uint64 \<Rightarrow> _" read_val word_bytes "\<lambda>_. True"
  by (rule word_codec) simp

subsection \<open>Strings\<close>

definition enc_string :: "string \<Rightarrow> uint8 list" where
  "enc_string s = map byte_of_char s @ [0]"

definition no_nul :: "string \<Rightarrow> bool" where
  "no_nul s \<longleftrightarrow> CHR 0x00 \<notin> set s"

lemma word_bytes_uint8 [simp]: "word_bytes (c :: uint8) = [c]"
  by (simp add: word_bytes_def size_of_def)

lemma read_string_loop_enc:
  "no_nul s \<Longrightarrow> readable b (enc_string s) \<Longrightarrow>
   read_string_loop v b = Inr (v @ s, bb_advance b (length (enc_string s)))"
proof (induction s arbitrary: v b)
  case Nil
  then have "rpos b < bb_size b"
    by (simp add: readable_def enc_string_def)
  with Nil show ?case
    by (simp add: read_string_loop.simps [of v b] u8.get_enc [where x = 0] enc_string_def)
next
  case (Cons c s)
  let ?b = "bb_advance b 1"
  have *: "readable b [byte_of_char c]" "readable ?b (enc_string s)"
    using readable_append [of b "[byte_of_char c]"] Cons.prems(2) by (simp_all add: enc_string_def)
  have "byte_of_char c \<noteq> 0" and "no_nul s"
    using Cons.prems(1) by (auto simp: no_nul_def)
  moreover have "rpos b < bb_size b"
    using *(1) by (simp add: readable_def)
  ultimately show ?case
    using * Cons.IH [of ?b "v @ [c]"]
    by (simp add: read_string_loop.simps [of v b] u8.get_enc [where x = "byte_of_char c"] enc_string_def)
qed

interpretation str: codec append_string read_string enc_string no_nul
proof
  fix s b assume w: "writable b (length (enc_string s))"
  let ?bs = "map byte_of_char s"
  have tail: "append_val (0 :: uint8) (bb_extend b ?bs) = Inr (bb_extend b (enc_string s))"
    using writable_extend [of b ?bs 1] w u8.put_enc [where x = 0 and b = "bb_extend b ?bs"] by (simp add: enc_string_def)
  show "append_string s b = Inr (bb_extend b (enc_string s))"
  proof (cases s)
    case (Cons c s')
    have "append_bytes ?bs b = Inr (bb_extend b ?bs)"
      using w Cons by (intro append_bytes_writable) (auto intro: writable_less simp: enc_string_def)
    with tail show ?thesis by (simp add: append_string_def Cons)
  qed (use tail in \<open>simp add: append_string_def\<close>)
next
  fix s b assume "no_nul s" and "readable b (enc_string s)"
  then show "read_string b = Inr (s, bb_advance b (length (enc_string s)))"
    by (simp add: read_string_def read_string_loop_enc)
qed

subsection \<open>Vectors, lists and maps over any element type\<close>

definition enc_vector :: "('a \<Rightarrow> uint8 list) \<Rightarrow> 'a list \<Rightarrow> uint8 list" where
  "enc_vector enc xs = word_bytes (word_of_nat (length xs) :: uint32) @ concat (map enc xs)"

definition ok_vector :: "('a \<Rightarrow> bool) \<Rightarrow> 'a list \<Rightarrow> bool" where
  "ok_vector ok xs \<longleftrightarrow> length xs < 2 ^ 32 \<and> list_all ok xs"

context codec
begin

lemma vector_codec: "codec (put_vector put) (get_vector get) (enc_vector enc) (ok_vector ok)"
proof
  fix xs b assume ok: "ok_vector ok xs"
  let ?n = "word_of_nat (length xs) :: uint32"
  {
    assume w: "writable b (length (enc_vector enc xs))"
    then have "writable b (length (word_bytes ?n))"
      and w': "writable (bb_extend b (word_bytes ?n)) (length (concat (map enc xs)))"
      by (auto simp: enc_vector_def intro: writable_less writable_extend)
    then have "append_val ?n b = Inr (bb_extend b (word_bytes ?n))"
      by (intro u32.put_enc) simp_all
    with w' ok show "put_vector put xs b = Inr (bb_extend b (enc_vector enc xs))"
      by (simp add: put_vector_def ok_vector_def write_seq_enc enc_vector_def)
  next
    assume r: "readable b (enc_vector enc xs)"
    then have "readable b (word_bytes ?n)"
      and r': "readable (bb_advance b (length (word_bytes ?n))) (concat (map enc xs))"
      using readable_append [of b "word_bytes ?n"] by (simp_all add: enc_vector_def)
    then have "read_val b = Inr (?n, bb_advance b (length (word_bytes ?n)))"
      by (intro u32.get_enc) simp_all
    moreover have "unat ?n = length xs"
      using ok by (simp add: ok_vector_def unat_of_nat)
    ultimately show "get_vector get b = Inr (xs, bb_advance b (length (enc_vector enc xs)))"
      using r' ok read_seq_enc [of xs "bb_advance b (length (word_bytes ?n))" "[]"]
      by (simp add: get_vector_def ok_vector_def enc_vector_def)
  }
qed

end

definition enc_pair :: "('k \<Rightarrow> uint8 list) \<Rightarrow> ('v \<Rightarrow> uint8 list) \<Rightarrow> 'k \<times> 'v \<Rightarrow> uint8 list" where
  "enc_pair enck encv p = enck (fst p) @ encv (snd p)"

locale pair_codec = key: codec putk getk enck okk + val: codec putv getv encv okv
  for putk :: "'k::linorder \<Rightarrow> ByteBuffer \<Rightarrow> bb_error + ByteBuffer" and getk and enck and okk
    and putv :: "'v \<Rightarrow> ByteBuffer \<Rightarrow> bb_error + ByteBuffer" and getv and encv and okv

sublocale pair_codec \<subseteq> entry: codec "put_pair putk putv" "get_pair getk getv" "enc_pair enck encv"
    "\<lambda>p. okk (fst p) \<and> okv (snd p)"
proof
  fix p b assume ok: "okk (fst p) \<and> okv (snd p)"
  show "put_pair putk putv p b = Inr (bb_extend b (enc_pair enck encv p))"
    if "writable b (length (enc_pair enck encv p))"
    using that ok writable_less [OF that, of "length (enck (fst p))"]
      writable_extend [of b "enck (fst p)" "length (encv (snd p))"]
    by (simp add: put_pair_def enc_pair_def key.put_enc val.put_enc)
  show "get_pair getk getv b = Inr (p, bb_advance b (length (enc_pair enck encv p)))"
    if "readable b (enc_pair enck encv p)"
    using readable_append [of b "enck (fst p)" "encv (snd p)"] that ok
    by (simp add: get_pair_def enc_pair_def key.get_enc [of "fst p"] val.get_enc [of "snd p"])
qed

lemma map_insert_snoc:
  "\<forall>k \<in> set (om_keys m). k < fst p \<Longrightarrow> map_insert p m = m @ [p]"
proof -
  assume less: "\<forall>k \<in> set (om_keys m). k < fst p"
  then have "om_get m (fst p) = None"
    by (auto intro: om_get_notin)
  moreover have "om_put (fst p) (snd p) m = m @ [p]"
    using less by (induction m) auto
  ultimately show ?thesis by (simp add: map_insert_def)
qed

lemma fold_map_insert_sorted: "om_ok (m @ ps) \<Longrightarrow> fold map_insert ps m = m @ ps"
proof (induction ps arbitrary: m)
  case (Cons p ps)
  then have "map_insert p m = m @ [p]"
    by (intro map_insert_snoc) (auto simp: om_ok_def om_keys_def sorted_wrt_append)
  with Cons show ?case by simp
qed simp

context pair_codec
begin

lemma map_roundtrip:
  assumes "om_ok m" and "ok_vector (\<lambda>p. okk (fst p) \<and> okv (snd p)) m"
    and "writable b (length (enc_vector (enc_pair enck encv) m))"
  shows "put_map putk putv m b = Inr (bb_extend b (enc_vector (enc_pair enck encv) m)) \<and>
    get_map getk getv (set_rpos (bb_size b) (bb_extend b (enc_vector (enc_pair enck encv) m))) =
      Inr (m, set_rpos (bb_size b + length (enc_vector (enc_pair enck encv) m))
                (bb_extend b (enc_vector (enc_pair enck encv) m)))"
  using codec.roundtrip [OF entry.vector_codec assms(2,3)] fold_map_insert_sorted [of "[]" m] assms(1)
  by (simp add: put_map_def get_map_def)

end

interpretation u32_str: pair_codec "append_val :: uint32 \<Rightarrow> _" read_val word_bytes "\<lambda>_. True"
    append_string read_string enc_string no_nul ..

subsection \<open>Packed GUIDs\<close>

text \<open>The bytes of a GUID, and the non-zero ones from index \<open>i\<close> on.\<close>

definition guid_byte :: "nat \<Rightarrow> uint64 \<Rightarrow> uint8" where
  "guid_byte i g = ucast (drop_bit (8 * i) g)"

definition guid_bytes_from :: "nat \<Rightarrow> uint64 \<Rightarrow> uint8 list" where
  "guid_bytes_from i g = filter (\<lambda>c. c \<noteq> 0) (map (\<lambda>j. guid_byte j g) [i..<8])"

lemma bit_guid_byte: "bit (guid_byte i g) n \<longleftrightarrow> n < 8 \<and> bit g (8 * i + n)"
  by (auto simp: guid_byte_def bit_simps)

lemma low_byte: "ucast (guid AND 0xFF) = (ucast guid :: uint8)" "guid AND 0xFF = 0 \<longleftrightarrow> (ucast guid :: uint8) = 0"
  for guid :: uint64
proof -
  have mask: "(0xFF :: uint64) = mask 8" by (simp add: mask_eq_exp_minus_1)
  show "ucast (guid AND 0xFF) = (ucast guid :: uint8)"
    unfolding mask by (rule bit_word_eqI) (auto simp: bit_simps)
  show "guid AND 0xFF = 0 \<longleftrightarrow> (ucast guid :: uint8) = 0"
  proof -
    have "(\<forall>n < 64. bit guid n \<longrightarrow> \<not> n < 8) \<longleftrightarrow> (\<forall>n < 8. \<not> bit guid n)"
      by (meson bit_imp_le_length less_trans numeral_less_iff semiring_norm(76,78,80))
    then show ?thesis unfolding mask by (simp add: bit_eq_iff bit_simps)
  qed
qed

lemma guid_bytes_from_step:
  "i < 8 \<Longrightarrow> guid_bytes_from i g =
     (if guid_byte i g = 0 then guid_bytes_from (Suc i) g else guid_byte i g # guid_bytes_from (Suc i) g)"
  by (simp add: guid_bytes_from_def upt_conv_Cons)

lemma guid_bytes_from_8 [simp]: "guid_bytes_from 8 g = []"
  by (simp add: guid_bytes_from_def)

lemma guid_high_bytes_zero: "drop_bit (8 * i) g = 0 \<Longrightarrow> i \<le> j \<Longrightarrow> guid_byte j g = 0"
proof -
  assume zero: "drop_bit (8 * i) g = 0" and "i \<le> j"
  then have "8 * j = 8 * (j - i) + 8 * i" by simp
  then have "drop_bit (8 * j) g = drop_bit (8 * (j - i)) (drop_bit (8 * i) g)"
    by (simp only: drop_bit_drop_bit)
  with zero show ?thesis by (simp add: guid_byte_def)
qed

lemma guid_bytes_from_zero: "drop_bit (8 * i) g = 0 \<Longrightarrow> guid_bytes_from i g = []"
  by (auto simp: guid_bytes_from_def filter_empty_conv intro: guid_high_bytes_zero)

lemma pack_guid_loop_spec:
  "i \<le> 8 \<Longrightarrow> \<exists>mark'. pack_guid_loop i (drop_bit (8 * i) g) mark bs = (mark', bs @ guid_bytes_from i g) \<and>
     (\<forall>j < 8. bit mark' j \<longleftrightarrow> bit mark j \<or> i \<le> j \<and> guid_byte j g \<noteq> 0)"
proof (induction "8 - i" arbitrary: i mark bs)
  case 0
  then have "i = 8" by simp
  moreover have "drop_bit 64 g = 0"
    by (rule bit_word_eqI) (simp add: bit_simps)
  ultimately show ?case by (simp add: pack_guid_loop.simps)
next
  case (Suc d)
  show ?case
  proof (cases "drop_bit (8 * i) g = 0")
    case True
    then show ?thesis
      by (auto simp: pack_guid_loop.simps guid_bytes_from_zero dest: guid_high_bytes_zero)
  next
    case False
    let ?m = "if guid_byte i g = 0 then mark else mark OR push_bit i 1"
    let ?bs = "if guid_byte i g = 0 then bs else bs @ [guid_byte i g]"
    have i: "i < 8" using Suc by simp
    have "drop_bit 8 (drop_bit (8 * i) g) = drop_bit (8 * Suc i) g"
      by (simp add: drop_bit_drop_bit algebra_simps)
    then have "pack_guid_loop i (drop_bit (8 * i) g) mark bs = pack_guid_loop (Suc i) (drop_bit (8 * Suc i) g) ?m ?bs"
      using False by (simp add: pack_guid_loop.simps [of i] low_byte guid_byte_def)
    moreover obtain mark' where
      "pack_guid_loop (Suc i) (drop_bit (8 * Suc i) g) ?m ?bs = (mark', ?bs @ guid_bytes_from (Suc i) g)"
      and bits: "\<forall>j < 8. bit mark' j \<longleftrightarrow> bit ?m j \<or> Suc i \<le> j \<and> guid_byte j g \<noteq> 0"
      using Suc(1) [of "Suc i" ?m ?bs] Suc(2) i by fastforce
    moreover have "\<forall>j < 8. bit mark' j \<longleftrightarrow> bit mark j \<or> i \<le> j \<and> guid_byte j g \<noteq> 0"
      using bits i by (auto simp: bit_simps le_less Suc_le_eq)
    ultimately show ?thesis
      using i by (auto simp: guid_bytes_from_step)
  qed
qed

lemma take_bit_guid_byte:
  "take_bit (8 * i) g OR push_bit (i * 8) (ucast (guid_byte i g)) = take_bit (8 * Suc i) g"
proof (rule bit_word_eqI)
  fix n assume n: "n < LENGTH(64)"
  show "bit (take_bit (8 * i) g OR push_bit (i * 8) (ucast (guid_byte i g))) n = bit (take_bit (8 * Suc i) g) n"
    using n by (auto simp: bit_simps bit_guid_byte algebra_simps)
qed

lemma read_guid_loop_spec:
  "i \<le> 8 \<Longrightarrow> \<forall>j < 8. bit mark j \<longleftrightarrow> guid_byte j g \<noteq> 0 \<Longrightarrow> readable b (guid_bytes_from i g) \<Longrightarrow>
   read_guid_loop [i..<8] mark (take_bit (8 * i) g) b = Inr (g, bb_advance b (length (guid_bytes_from i g)))"
proof (induction "8 - i" arbitrary: i b)
  case 0
  moreover have "take_bit 64 g = g"
    by (rule bit_word_eqI) (simp add: bit_simps)
  ultimately show ?case by simp
next
  case (Suc d)
  then have i: "i < 8" by simp
  have mark: "mark AND push_bit i 1 \<noteq> 0 \<longleftrightarrow> guid_byte i g \<noteq> 0"
  proof -
    have "mark AND push_bit i 1 \<noteq> 0 \<longleftrightarrow> bit mark i"
      using i by (simp add: push_bit_of_1 and_exp_eq_0_iff_not_bit)
    then show ?thesis using Suc.prems(2) i by simp
  qed
  show ?case
  proof (cases "guid_byte i g = 0")
    case True
    then show ?thesis
      using Suc.hyps(1) [of "Suc i" b] Suc.hyps(2) Suc.prems i mark take_bit_guid_byte [of i g]
      by (simp add: upt_conv_Cons guid_bytes_from_step)
  next
    case False
    then have bs: "guid_bytes_from i g = guid_byte i g # guid_bytes_from (Suc i) g"
      using i by (simp add: guid_bytes_from_step)
    have r: "readable b [guid_byte i g]" "readable (bb_advance b 1) (guid_bytes_from (Suc i) g)"
      using readable_append [of b "[guid_byte i g]"] Suc.prems(3) bs by simp_all
    then have "\<not> sz_add (rpos b) 1 > bb_size b"
      by (simp add: readable_def sz_add_small)
    moreover have "read_val b = Inr (guid_byte i g, bb_advance b 1)"
      using u8.get_enc [where x = "guid_byte i g" and b = b] r(1) by simp
    moreover have "read_guid_loop [Suc i..<8] mark (take_bit (8 * Suc i) g) (bb_advance b 1) =
        Inr (g, bb_advance (bb_advance b 1) (length (guid_bytes_from (Suc i) g)))"
      using Suc i r(2) by (intro Suc.hyps) simp_all
    ultimately show ?thesis
      using i mark False bs by (simp add: upt_conv_Cons take_bit_guid_byte)
  qed
qed

text \<open>What \<open>appendPackGUID\<close> writes.\<close>

definition enc_guid :: "uint64 \<Rightarrow> uint8 list" where
  "enc_guid g = fst (pack_guid_loop 0 g 0 []) # guid_bytes_from 0 g"

lemma pack_guid_loop_0:
  obtains mark where "pack_guid_loop 0 g 0 [] = (mark, guid_bytes_from 0 g)"
    and "enc_guid g = mark # guid_bytes_from 0 g"
    and "\<forall>j < 8. bit mark j \<longleftrightarrow> guid_byte j g \<noteq> 0"
  using pack_guid_loop_spec [of 0 g 0 "[]"] by (auto simp: enc_guid_def)

interpretation guid: codec appendPackGUID readPackGUID enc_guid "\<lambda>_. True"
proof
  fix g b
  obtain mark where pack: "pack_guid_loop 0 g 0 [] = (mark, guid_bytes_from 0 g)"
    and enc: "enc_guid g = mark # guid_bytes_from 0 g"
    and mark: "\<forall>j < 8. bit mark j \<longleftrightarrow> guid_byte j g \<noteq> 0"
    by (rule pack_guid_loop_0)
  show "appendPackGUID g b = Inr (bb_extend b (enc_guid g))" if "writable b (length (enc_guid g))"
    using that append_bytes_writable [of "enc_guid g" b] by (simp add: appendPackGUID_def pack enc)
  assume "readable b (enc_guid g)"
  then have r: "readable b [mark]" "readable (bb_advance b 1) (guid_bytes_from 0 g)"
    using readable_append [of b "[mark]"] by (simp_all add: enc)
  then have "\<not> sz_add (rpos b) 1 > bb_size b"
    by (simp add: readable_def sz_add_small)
  then show "readPackGUID b = Inr (g, bb_advance b (length (enc_guid g)))"
    using u8.get_enc [where x = mark and b = b] r read_guid_loop_spec [of 0 mark g "bb_advance b 1"] mark
    by (simp add: readPackGUID_def enc)
qed

lemma length_enc_guid: "length (enc_guid g) \<le> 9"
  using length_filter_le [of "\<lambda>c. c \<noteq> 0" "map (\<lambda>j. guid_byte j g) [0..<8]"]
  by (simp add: enc_guid_def guid_bytes_from_def)

subsection \<open>Packed times\<close>

definition tm_valid :: "tm \<Rightarrow> bool" where
  "tm_valid lt \<longleftrightarrow> 0 \<le> tm_min lt \<and> tm_min lt < 60 \<and> 0 \<le> tm_hour lt \<and> tm_hour lt < 24 \<and>
     1 \<le> tm_mday lt \<and> tm_mday lt \<le> 31 \<and> 0 \<le> tm_mon lt \<and> tm_mon lt < 12 \<and>
     100 \<le> tm_year lt \<and> tm_year lt < 132 \<and> 0 \<le> tm_wday lt \<and> tm_wday lt < 7"

lemma small_int_bit: "0 \<le> (k :: int) \<Longrightarrow> k < 2 ^ m \<Longrightarrow> m \<le> n \<Longrightarrow> \<not> bit k n"
  by (metis bit_take_bit_iff not_le take_bit_int_eq_self)

lemma uint_field: "0 \<le> k \<Longrightarrow> k < 64 \<Longrightarrow> uint (word_of_int k :: uint32) = k"
  by (simp add: uint_word_of_int)

lemma field_masks:
  "(0x3F :: uint32) = mask 6" "(0x1F :: uint32) = mask 5" "(0xF :: uint32) = mask 4"
  by (simp_all add: mask_eq_exp_minus_1)

lemma packed_fields:
  fixes y mo d w h mi :: int
  assumes "0 \<le> y" "y < 32" "0 \<le> mo" "mo < 16" "0 \<le> d" "d < 64" "0 \<le> w" "w < 8" "0 \<le> h" "h < 32"
    "0 \<le> mi" "mi < 64"
  defines "p \<equiv> (push_bit 24 (word_of_int y) OR push_bit 20 (word_of_int mo) OR push_bit 14 (word_of_int d)
    OR push_bit 11 (word_of_int w) OR push_bit 6 (word_of_int h) OR word_of_int mi :: uint32)"
  shows "p AND 0x3F = word_of_int mi" and "drop_bit 6 p AND 0x1F = word_of_int h"
    and "drop_bit 14 p AND 0x3F = word_of_int d" and "drop_bit 20 p AND 0xF = word_of_int mo"
    and "drop_bit 24 p AND 0x1F = word_of_int y"
proof -
  have b: "6 \<le> n \<Longrightarrow> \<not> bit mi n" "5 \<le> n \<Longrightarrow> \<not> bit h n" "6 \<le> n \<Longrightarrow> \<not> bit d n" "4 \<le> n \<Longrightarrow> \<not> bit mo n"
    "5 \<le> n \<Longrightarrow> \<not> bit y n" "3 \<le> n \<Longrightarrow> \<not> bit w n" for n
    using assms small_int_bit [of mi 6 n] small_int_bit [of h 5 n] small_int_bit [of d 6 n]
      small_int_bit [of mo 4 n] small_int_bit [of y 5 n] small_int_bit [of w 3 n]
    by simp_all
  then have c: "bit mi n \<Longrightarrow> n < 6" "bit h n \<Longrightarrow> n < 5" "bit d n \<Longrightarrow> n < 6" "bit mo n \<Longrightarrow> n < 4"
    "bit y n \<Longrightarrow> n < 5" for n
    by (meson not_le)+
  note simps = p_def field_masks bit_simps
  show "p AND 0x3F = word_of_int mi" "drop_bit 6 p AND 0x1F = word_of_int h"
    "drop_bit 14 p AND 0x3F = word_of_int d" "drop_bit 20 p AND 0xF = word_of_int mo"
    "drop_bit 24 p AND 0x1F = word_of_int y"
    by (rule bit_word_eqI, use b in \<open>auto simp: simps dest: c\<close>)+
qed

lemma unpack_pack_tm:
  assumes "tm_valid lt"
  shows "unpack_tm (pack_tm lt) = lt\<lparr>tm_wday := 0\<rparr>"
proof -
  define y d where "y = tm_year lt - 100" and "d = tm_mday lt - 1"
  then have v: "0 \<le> y" "y < 32" "0 \<le> d" "d < 64" "tm_year lt = y + 100" "tm_mday lt = d + 1"
    using assms by (auto simp: tm_valid_def)
  show ?thesis
    using v assms packed_fields [of y "tm_mon lt" d "tm_wday lt" "tm_hour lt" "tm_min lt"]
    by (simp add: unpack_tm_def pack_tm_def tm_valid_def uint_field flip: y_def d_def)
qed

section \<open>Reading a hostile packet\<close>

text \<open>A read either throws, because a value would end behind the end of the buffer, or advances the read position
  within the storage; it never touches memory outside the storage and changes nothing else.  The flag \<open>fl\<close>
  tells whether the reader may also throw the exception for a number that is not finite.\<close>

definition read_ready :: "ByteBuffer \<Rightarrow> bool" where
  "read_ready b \<longleftrightarrow> rpos b \<le> bb_size b \<and> bb_size b < 2 ^ 63"

fun safe_result :: "bool \<Rightarrow> ByteBuffer \<Rightarrow> bb_error + ('a \<times> ByteBuffer) \<Rightarrow> bool" where
  "safe_result fl b (Inl e) \<longleftrightarrow>
     (\<exists>pos n. e = ByteBufferPositionException False pos n (bb_size b) \<and> rpos b \<le> pos \<and> bb_size b < pos + n) \<or>
     fl \<and> e = ByteBufferException"
| "safe_result fl b (Inr (x, b')) \<longleftrightarrow> storage b' = storage b \<and> wpos b' = wpos b \<and> rpos b \<le> rpos b' \<and>
     rpos b' \<le> bb_size b'"

lemma safe_result_ready: "safe_result fl b (Inr (x, b')) \<Longrightarrow> read_ready b \<Longrightarrow> read_ready b'"
  by (auto simp: read_ready_def bb_size_def)

lemma safe_result_trans:
  "safe_result fl b (Inr (x, b')) \<Longrightarrow> safe_result fl b' r \<Longrightarrow> safe_result fl b r"
  by (cases r) (fastforce simp: bb_size_def)+

locale safe_reader =
  fixes fl :: bool
    and get :: "ByteBuffer \<Rightarrow> bb_error + ('a \<times> ByteBuffer)"
  assumes safe: "read_ready b \<Longrightarrow> safe_result fl b (get b)"
begin

lemma read_seq_safe: "read_ready b \<Longrightarrow> safe_result fl b (read_seq get n acc b)"
proof (induction n arbitrary: acc b)
  case 0
  then show ?case by (simp add: read_ready_def)
next
  case (Suc n)
  show ?case
  proof (cases "get b")
    case (Inl e)
    with safe [OF Suc.prems] show ?thesis by simp
  next
    case (Inr p)
    obtain x b' where p: "p = (x, b')" by fastforce
    with Inr safe [OF Suc.prems] have s: "safe_result fl b (Inr (x, b'))" by simp
    then have "safe_result fl b' (read_seq get n (acc @ [x]) b')"
      using Suc.IH safe_result_ready [OF s Suc.prems] by blast
    with s have "safe_result fl b (read_seq get n (acc @ [x]) b')"
      by (rule safe_result_trans)
    then show ?thesis by (simp add: Inr p)
  qed
qed

end

lemma read_val_safe: "size_of (0 :: 'a::len word) < 2 ^ 62 \<Longrightarrow> read_ready b \<Longrightarrow>
  safe_result fl b (read_val b :: bb_error + ('a word \<times> ByteBuffer))"
  by (auto simp: read_val_def read_at_def Let_def read_ready_def sz_add_small size_of_def bb_size_def)

interpretation u8r: safe_reader fl "read_val :: _ \<Rightarrow> bb_error + (uint8 \<times> ByteBuffer)"
  by unfold_locales (simp add: read_val_safe size_of_def)

interpretation u16r: safe_reader fl "read_val :: _ \<Rightarrow> bb_error + (uint16 \<times> ByteBuffer)"
  by unfold_locales (simp add: read_val_safe size_of_def)

interpretation u32r: safe_reader fl "read_val :: _ \<Rightarrow> bb_error + (uint32 \<times> ByteBuffer)"
  by unfold_locales (simp add: read_val_safe size_of_def)

interpretation u64r: safe_reader fl "read_val :: _ \<Rightarrow> bb_error + (uint64 \<times> ByteBuffer)"
  by unfold_locales (simp add: read_val_safe size_of_def)

lemma safe_result_case:
  assumes "safe_result fl b r" and "read_ready b"
    and "\<And>x b'. r = Inr (x, b') \<Longrightarrow> safe_result fl b (Inr (x, b')) \<Longrightarrow> read_ready b' \<Longrightarrow> safe_result fl b' (f x b')"
  shows "safe_result fl b (case r of Inl e \<Rightarrow> Inl e | Inr (x, b') \<Rightarrow> f x b')"
proof (cases r)
  case (Inr p)
  obtain x b' where p: "p = (x, b')" by fastforce
  have s: "safe_result fl b (Inr (x, b'))" using assms(1) Inr p by simp
  have "safe_result fl b' (f x b')"
    using assms(3) [of x b'] Inr p s safe_result_ready [OF s assms(2)] by blast
  with s have "safe_result fl b (f x b')" by (rule safe_result_trans)
  then show ?thesis by (simp add: Inr p)
qed (use assms in auto)

lemma safe_result_refl: "read_ready b \<Longrightarrow> safe_result fl b (Inr (x, b))"
  by (simp add: read_ready_def)

interpretation fltr: safe_reader True read_float
  by unfold_locales (unfold read_float_def, rule safe_result_case, auto simp: u32r.safe safe_result_refl)

interpretation boolr: safe_reader fl read_bool
  by unfold_locales (unfold read_bool_def, rule safe_result_case, auto simp: u8r.safe safe_result_refl)

interpretation timer: safe_reader fl "ReadPackedTime mktime timezone"
  by unfold_locales (unfold ReadPackedTime_def, rule safe_result_case, auto simp: u32r.safe safe_result_refl)

interpretation dblr: safe_reader True read_double
  by unfold_locales (unfold read_double_def, rule safe_result_case, auto simp: u64r.safe safe_result_refl)

lemma read_string_loop_safe: "read_ready b \<Longrightarrow> safe_result fl b (read_string_loop v b)"
proof (induction v b rule: read_string_loop.induct)
  case (1 v b)
  show ?case
  proof (cases "rpos b < bb_size b")
    case True
    have "safe_result fl b (case read_val b of Inl e \<Rightarrow> Inl e
      | Inr (c :: uint8, b') \<Rightarrow> if c = 0 then Inr (v, b') else read_string_loop (v @ [char_of_byte c]) b')"
      by (rule safe_result_case) (use "1" True u8r.safe in \<open>auto simp: safe_result_refl\<close>)
    with True show ?thesis by (simp add: read_string_loop.simps [of v b])
  next
    case False
    with "1.prems" show ?thesis by (simp add: read_string_loop.simps [of v b] read_ready_def)
  qed
qed

interpretation strr: safe_reader fl read_string
  by unfold_locales (simp add: read_string_def read_string_loop_safe)

lemma read_guid_loop_safe: "read_ready b \<Longrightarrow> safe_result fl b (read_guid_loop is mark g b)"
proof (induction "is" arbitrary: g b)
  case (Cons i "is")
  have "safe_result fl b (case read_val b of Inl e \<Rightarrow> Inl e
      | Inr (c :: uint8, b') \<Rightarrow> read_guid_loop is mark (g OR push_bit (i * 8) (ucast c)) b')"
    by (rule safe_result_case) (use Cons u8r.safe in auto)
  with Cons show ?case by (auto simp: read_ready_def sz_add_small)
qed (simp add: read_ready_def)

interpretation guidr: safe_reader fl readPackGUID
proof
  fix b assume b: "read_ready b"
  have "safe_result fl b (case read_val b of Inl e \<Rightarrow> Inl e
      | Inr (mark :: uint8, b') \<Rightarrow> read_guid_loop [0..<8] mark 0 b')"
    by (rule safe_result_case) (use b u8r.safe read_guid_loop_safe in auto)
  then show "safe_result fl b (readPackGUID b)"
    using b by (auto simp: readPackGUID_def read_ready_def sz_add_small)
qed

context safe_reader
begin

lemma vector_safe: "safe_reader fl (get_vector get)"
proof
  fix b assume "read_ready b"
  then show "safe_result fl b (get_vector get b)"
    unfolding get_vector_def by (intro safe_result_case) (auto simp: u32r.safe read_seq_safe)
qed

end

locale safe_pair_reader = key: safe_reader fl getk + val: safe_reader fl getv
  for fl :: bool and getk :: "ByteBuffer \<Rightarrow> bb_error + ('k::linorder \<times> ByteBuffer)"
    and getv :: "ByteBuffer \<Rightarrow> bb_error + ('v \<times> ByteBuffer)"

sublocale safe_pair_reader \<subseteq> entry: safe_reader fl "get_pair getk getv"
proof
  fix b assume b: "read_ready b"
  have inner: "safe_result fl b' (case getv b' of Inl e \<Rightarrow> Inl e | Inr (v, b'') \<Rightarrow> Inr ((k, v), b''))"
    if "read_ready b'" for k b'
    by (rule safe_result_case) (use that val.safe safe_result_refl in auto)
  show "safe_result fl b (get_pair getk getv b)"
    unfolding get_pair_def by (rule safe_result_case [OF key.safe [OF b] b]) (rule inner)
qed

context safe_pair_reader
begin

lemma map_safe:
  assumes "read_ready b"
  shows "safe_result fl b (get_map getk getv b)"
  using safe_reader.safe [OF entry.vector_safe assms]
  by (cases "get_vector (get_pair getk getv) b") (auto simp: get_map_def)

end

lemma sized_reads_safe:
  assumes "read_ready b" and "n < 2 ^ 63"
  shows "safe_result fl b (read_bytes n b)" "safe_result fl b (map_sum id (Pair ()) (read_skip n b))"
  using assms by (auto simp: read_bytes_def read_skip_def read_ready_def sz_add_small bb_size_def)

interpretation u32_strr: safe_pair_reader fl "read_val :: _ \<Rightarrow> bb_error + (uint32 \<times> ByteBuffer)" read_string ..

section \<open>Properties of the buffer\<close>

text \<open>(C27) A \<open>std::vector\<close> of integers of any byte width written by \<open>operator<<\<close> at the end of a
  buffer is read back by \<open>operator>>\<close>, which stops exactly at the end of what was written.\<close>

theorem vector_roundtrip:
  fixes v :: "'a::len word list"
  assumes "8 dvd LENGTH('a)" and "writable b (4 + length v * (LENGTH('a) div 8))"
  shows "\<exists>b'. put_vector append_val v b = Inr b' \<and>
    get_vector read_val (set_rpos (bb_size b) b') = Inr (v, set_rpos (bb_size b') b')"
proof -
  have len: "length (enc_vector word_bytes v) = 4 + length v * (LENGTH('a) div 8)"
    by (simp add: enc_vector_def length_concat comp_def size_of_def sum_list_triv)
  have "0 < LENGTH('a) div 8"
    using size_of_pos [OF assms(1)] by (simp add: size_of_def)
  then have "length v \<le> length v * (LENGTH('a) div 8)" by simp
  then have "length v \<le> 10000000"
    using assms(2) unfolding writable_def by linarith
  then have ok: "ok_vector (\<lambda>_. True) v"
    by (simp add: ok_vector_def list_all_iff)
  have "writable b (length (enc_vector word_bytes v))"
    using assms(2) by (simp add: len)
  from codec.roundtrip [OF codec.vector_codec [OF word_codec [OF assms(1)]] ok this]
  show ?thesis by simp
qed

theorem vector_roundtrip_witness:
  "\<exists>b'. put_vector append_val [7, 65535 :: uint16] ByteBuffer_new = Inr b' \<and>
    get_vector read_val (set_rpos (bb_size ByteBuffer_new) b') = Inr ([7, 65535 :: uint16], set_rpos (bb_size b') b')"
  by (rule vector_roundtrip) (simp_all add: writable_def ByteBuffer_new_def bb_size_def)

text \<open>(C28) A \<open>std::map<uint32, std::string>\<close> is read back as written, entry by entry and in key
  order, if no string contains a zero byte.\<close>

theorem string_map_roundtrip:
  fixes m :: "(uint32, string) omap"
  assumes "om_ok m" and "\<forall>(k, s) \<in> set m. no_nul s" and "length m < 2 ^ 32"
    and "writable b (length (enc_vector (enc_pair word_bytes enc_string) m))"
  shows "\<exists>b'. put_map append_val append_string m b = Inr b' \<and>
    get_map read_val read_string (set_rpos (bb_size b) b') = Inr (m, set_rpos (bb_size b') b')"
proof -
  have "ok_vector (\<lambda>p. True \<and> no_nul (snd p)) m"
    using assms(2,3) by (auto simp: ok_vector_def list_all_iff)
  from u32_str.map_roundtrip [OF assms(1) this assms(4)] show ?thesis by simp
qed

theorem string_map_roundtrip_witness:
  "\<exists>b'. put_map append_val append_string [(1 :: uint32, ''Trade''), (5, [])] ByteBuffer_new = Inr b' \<and>
    get_map read_val read_string (set_rpos (bb_size ByteBuffer_new) b') =
      Inr ([(1 :: uint32, ''Trade''), (5, [])], set_rpos (bb_size b') b')"
  by (rule string_map_roundtrip)
    (simp_all add: writable_def ByteBuffer_new_def bb_size_def no_nul_def enc_vector_def enc_pair_def
      enc_string_def size_of_def)

text \<open>(C29) A GUID written by \<open>appendPackGUID\<close>, in at most nine bytes, is read back by
  \<open>readPackGUID\<close>.\<close>

theorem packed_guid_roundtrip:
  assumes "writable b 9"
  shows "\<exists>b'. appendPackGUID g b = Inr b' \<and> bb_size b' \<le> bb_size b + 9 \<and>
    readPackGUID (set_rpos (bb_size b) b') = Inr (g, set_rpos (bb_size b') b')"
proof -
  have "writable b (length (enc_guid g))"
    using writable_less [OF assms length_enc_guid] .
  from guid.roundtrip [OF _ this] show ?thesis
    using length_enc_guid [of g] by simp
qed

theorem packed_guid_roundtrip_witness:
  "\<exists>b'. appendPackGUID 0x0A00000000FF0001 ByteBuffer_new = Inr b' \<and> bb_size b' \<le> bb_size ByteBuffer_new + 9 \<and>
    readPackGUID (set_rpos (bb_size ByteBuffer_new) b') = Inr (0x0A00000000FF0001, set_rpos (bb_size b') b')"
  by (rule packed_guid_roundtrip) (simp add: writable_def ByteBuffer_new_def bb_size_def)

text \<open>A calendar time of the years 2000 to 2031 written by \<open>AppendPackedTime\<close> is handed to
  \<open>mktime\<close> by \<open>ReadPackedTime\<close> with every field but the weekday unchanged.\<close>

theorem packed_time_roundtrip:
  assumes "tm_valid (localtime_r t)" and "writable b 4"
  shows "\<exists>b'. AppendPackedTime localtime_r t b = Inr b' \<and>
    ReadPackedTime mktime timezone (set_rpos (bb_size b) b') =
      Inr (word_of_int (mktime ((localtime_r t)\<lparr>tm_wday := 0\<rparr>) + timezone), set_rpos (bb_size b') b')"
proof -
  have "writable b (length (word_bytes (pack_tm (localtime_r t))))"
    using assms(2) by (simp add: size_of_def)
  from u32.roundtrip [OF _ this] show ?thesis
    by (simp add: AppendPackedTime_def ReadPackedTime_def unpack_pack_tm [OF assms(1)])
qed

theorem packed_time_roundtrip_witness:
  "\<exists>b'. AppendPackedTime (\<lambda>t. \<lparr>tm_min = t, tm_hour = 23, tm_mday = 31, tm_mon = 11, tm_year = 113, tm_wday = 2\<rparr>)
      59 ByteBuffer_new = Inr b' \<and>
    ReadPackedTime tm_mday 0 (set_rpos (bb_size ByteBuffer_new) b') =
      Inr (word_of_int (tm_mday (\<lparr>tm_min = 59, tm_hour = 23, tm_mday = 31, tm_mon = 11, tm_year = 113,
        tm_wday = 2\<rparr>\<lparr>tm_wday := 0\<rparr>) + 0), set_rpos (bb_size b') b')"
  by (rule packed_time_roundtrip)
    (simp_all add: tm_valid_def writable_def ByteBuffer_new_def bb_size_def)

text \<open>(C4) Reading from a buffer with arbitrary contents is memory safe, whatever sizes the packet announces.  The
  stream operators of the integers of one to eight bytes, of \<open>bool\<close>, strings, \<open>float\<close> and \<open>double\<close>, packed GUIDs
  and packed times, those of vectors and maps over any element operators with this property, and \<open>read_skip\<close> and
  \<open>read\<close> of a number of bytes below \<open>2 ^ 63\<close> either throw the position exception, and then a value would indeed
  end behind the buffer, or advance the read position within the storage and change nothing else.  Only
  \<open>float\<close> and \<open>double\<close> may throw another exception, that of a number which is not finite.  (Larger numbers of
  bytes make the bounds check wrap around.)\<close>

theorem hostile_reads_safe:
  fixes get :: "ByteBuffer \<Rightarrow> bb_error + ('e \<times> ByteBuffer)"
    and getk :: "ByteBuffer \<Rightarrow> bb_error + ('k::linorder \<times> ByteBuffer)"
    and getv :: "ByteBuffer \<Rightarrow> bb_error + ('v \<times> ByteBuffer)"
  assumes "read_ready b"
  shows "(LENGTH('a::len) \<le> 64 \<longrightarrow> safe_result False b (read_val b :: bb_error + ('a word \<times> ByteBuffer))) \<and>
    safe_result False b (read_bool b) \<and>
    safe_result False b (read_string b) \<and>
    safe_result True b (read_float b) \<and>
    safe_result True b (read_double b) \<and>
    safe_result False b (readPackGUID b) \<and>
    safe_result False b (ReadPackedTime mktime timezone b) \<and>
    ((\<forall>b. read_ready b \<longrightarrow> safe_result fl b (get b)) \<longrightarrow> safe_result fl b (get_vector get b)) \<and>
    ((\<forall>b. read_ready b \<longrightarrow> safe_result fl b (getk b) \<and> safe_result fl b (getv b)) \<longrightarrow>
      safe_result fl b (get_map getk getv b)) \<and>
    (n < 2 ^ 63 \<longrightarrow> safe_result False b (read_bytes n b) \<and> safe_result False b (map_sum id (Pair ()) (read_skip n b)))"
proof (intro conjI)
  show "LENGTH('a::len) \<le> 64 \<longrightarrow> safe_result False b (read_val b :: bb_error + ('a word \<times> ByteBuffer))"
    using read_val_safe [where 'a = 'a, OF _ assms] by (auto simp: size_of_def)
  show "(\<forall>b. read_ready b \<longrightarrow> safe_result fl b (get b)) \<longrightarrow> safe_result fl b (get_vector get b)"
    using safe_reader.safe [OF safe_reader.vector_safe assms] by (auto simp: safe_reader_def)
  show "(\<forall>b. read_ready b \<longrightarrow> safe_result fl b (getk b) \<and> safe_result fl b (getv b)) \<longrightarrow>
      safe_result fl b (get_map getk getv b)"
    using safe_pair_reader.map_safe [OF _ assms] by (auto simp: safe_pair_reader_def safe_reader_def)
qed (use assms boolr.safe strr.safe fltr.safe dblr.safe guidr.safe timer.safe sized_reads_safe in blast)+

text \<open>A packet that announces four billion entries: the map of strings and the vector of numbers are refused or
  end at the end of the four bytes.\<close>

theorem hostile_reads_safe_witness:
  "let b = \<lparr>rpos = 0, wpos = 4, storage = [255, 255, 255, 255]\<rparr> in
    read_ready b \<and> safe_result False b (get_map (read_val :: _ \<Rightarrow> _ + (uint32 \<times> _)) read_string b) \<and>
    safe_result False b (get_vector (read_val :: _ \<Rightarrow> _ + (uint64 \<times> _)) b) \<and>
    safe_result True b (get_vector read_float b) \<and> safe_result False b (read_bytes 5 b)"
proof -
  let ?b = "\<lparr>rpos = 0, wpos = 4, storage = [255, 255, 255, 255]\<rparr> :: ByteBuffer"
  have r: "read_ready ?b" by (simp add: read_ready_def bb_size_def)
  note safe = hostile_reads_safe [where ?'a = 64] hostile_reads_safe [where ?'a = 32]
  have "safe_result False b (read_val b :: _ + (uint64 \<times> _))" "safe_result False b (read_val b :: _ + (uint32 \<times> _))"
    "safe_result True b (read_float b)" "safe_result False b (read_string b)" if "read_ready b" for b
    using safe [OF that, of undefined undefined False read_string "read_val :: _ \<Rightarrow> _ + (uint32 \<times> _)" read_string 0] by simp_all
  then show ?thesis
    using r safe(1) [OF r, of undefined undefined False "read_val :: _ \<Rightarrow> _ + (uint64 \<times> _)"
        "read_val :: _ \<Rightarrow> _ + (uint32 \<times> _)" read_string 5]
      safe(1) [OF r, of undefined undefined True read_float "read_val :: _ \<Rightarrow> _ + (uint32 \<times> _)" read_string 5]
    by (simp add: Let_def)
qed

text \<open>A read past the end throws; the message of the exception names the size of the buffer as
  the size of the value and the size of the value as the size of the buffer, since the throw sites
  pass \<open>(pos, valueSize, size())\<close> to a constructor declared \<open>(pos, size, valueSize)\<close>.\<close>

theorem position_message_swapped:
  assumes "rpos b + size_of (0 :: 'a::len word) > bb_size b" and "rpos b + size_of (0 :: 'a word) < 2 ^ 64"
  shows "\<exists>e. read_val b = (Inl e :: bb_error + ('a word \<times> ByteBuffer)) \<and>
    exception_message e = Some (PositionMessage False (bb_size b) (rpos b) (size_of (0 :: 'a word)))"
  using assms by (simp add: read_val_def read_at_def Let_def sz_add_small)

theorem position_message_swapped_witness:
  "\<exists>e. read_val \<lparr>rpos = 3, wpos = 5, storage = [1, 2, 3, 4, 5]\<rparr> = (Inl e :: bb_error + (uint32 \<times> ByteBuffer)) \<and>
    exception_message e = Some (PositionMessage False (bb_size \<lparr>rpos = 3, wpos = 5, storage = [1, 2, 3, 4, 5]\<rparr>)
      (rpos \<lparr>rpos = 3, wpos = 5, storage = [1, 2, 3, 4, 5]\<rparr>) (size_of (0 :: uint32)))"
  by (rule position_message_swapped) (simp_all add: bb_size_def size_of_def)

end
