(* ===== verification/WorldPacket.thy ===== *)
theory WorldPacket
  imports ByteBuffer
begin

text \<open>
  Outgoing packets (\<open>WorldPacket.h\<close>): an opcode and the values streamed into the buffer, kept as a list of
  typed fields so that handlers can be compared by what they send.  \<open>packet_buffer\<close> streams the fields
  into an empty \<open>ByteBuffer\<close>, as the \<open>operator<<\<close> calls do; the lemmas below show that this never fails
  below the 10,000,000 byte limit of \<open>append\<close> and that the fields can be read back in order.
\<close>

datatype field =
    U8 uint8
  | U16 uint16
  | U32 uint32
  | U64 uint64
  | Str string
  | PackGuid uint64

record WorldPacket =
  m_opcode :: uint16
  pkt_fields :: "field list"

definition WorldPacket_init :: "uint16 \<Rightarrow> WorldPacket" where
  "WorldPacket_init opcode = \<lparr>m_opcode = opcode, pkt_fields = []\<rparr>"

definition stream :: "field list \<Rightarrow> WorldPacket \<Rightarrow> WorldPacket" where
  "stream fs p = p\<lparr>pkt_fields := pkt_fields p @ fs\<rparr>"

fun write_field :: "field \<Rightarrow> ByteBuffer \<Rightarrow> bb_error + ByteBuffer" where
  "write_field (U8 v) b = append_val v b"
| "write_field (U16 v) b = append_val v b"
| "write_field (U32 v) b = append_val v b"
| "write_field (U64 v) b = append_val v b"
| "write_field (Str s) b = append_string s b"
| "write_field (PackGuid g) b = appendPackGUID g b"

definition packet_buffer :: "WorldPacket \<Rightarrow> bb_error + ByteBuffer" where
  "packet_buffer p = write_seq write_field (pkt_fields p) ByteBuffer_new"

text \<open>Reading a field of a known kind.\<close>

fun read_like :: "field \<Rightarrow> ByteBuffer \<Rightarrow> bb_error + (field \<times> ByteBuffer)" where
  "read_like (U8 _) b = map_sum id (map_prod U8 id) (read_val b)"
| "read_like (U16 _) b = map_sum id (map_prod U16 id) (read_val b)"
| "read_like (U32 _) b = map_sum id (map_prod U32 id) (read_val b)"
| "read_like (U64 _) b = map_sum id (map_prod U64 id) (read_val b)"
| "read_like (Str _) b = map_sum id (map_prod Str id) (read_string b)"
| "read_like (PackGuid _) b = map_sum id (map_prod PackGuid id) (readPackGUID b)"

fun read_likes :: "field list \<Rightarrow> ByteBuffer \<Rightarrow> bb_error + (field list \<times> ByteBuffer)" where
  "read_likes [] b = Inr ([], b)"
| "read_likes (f # fs) b =
     (case read_like f b of
        Inl e \<Rightarrow> Inl e
      | Inr (x, b) \<Rightarrow> (case read_likes fs b of Inl e \<Rightarrow> Inl e | Inr (xs, b) \<Rightarrow> Inr (x # xs, b)))"

section \<open>The bytes of a packet\<close>

fun enc_field :: "field \<Rightarrow> uint8 list" where
  "enc_field (U8 v) = word_bytes v"
| "enc_field (U16 v) = word_bytes v"
| "enc_field (U32 v) = word_bytes v"
| "enc_field (U64 v) = word_bytes v"
| "enc_field (Str s) = enc_string s"
| "enc_field (PackGuid g) = enc_guid g"

fun field_ok :: "field \<Rightarrow> bool" where
  "field_ok (Str s) = no_nul s"
| "field_ok _ = True"

definition packet_bytes :: "WorldPacket \<Rightarrow> uint8 list" where
  "packet_bytes p = concat (map enc_field (pkt_fields p))"

lemma write_field_enc:
  "field_ok f \<Longrightarrow> writable b (length (enc_field f)) \<Longrightarrow> write_field f b = Inr (bb_extend b (enc_field f))"
  by (cases f) (simp_all add: u8.put_enc u16.put_enc u32.put_enc u64.put_enc guid.put_enc str.put_enc)

lemma read_like_enc:
  "field_ok f \<Longrightarrow> readable b (enc_field f) \<Longrightarrow> read_like f b = Inr (f, bb_advance b (length (enc_field f)))"
  by (cases f)
    (simp_all add: u8.get_enc [where b = b] u16.get_enc [where b = b] u32.get_enc [where b = b]
      u64.get_enc [where b = b] guid.get_enc [where b = b] str.get_enc [where b = b])

lemma write_fields_enc:
  "list_all field_ok fs \<Longrightarrow> writable b (length (concat (map enc_field fs))) \<Longrightarrow>
   write_seq write_field fs b = Inr (bb_extend b (concat (map enc_field fs)))"
proof (induction fs arbitrary: b)
  case (Cons f fs)
  then have "writable b (length (enc_field f))"
    and "writable (bb_extend b (enc_field f)) (length (concat (map enc_field fs)))"
    by (auto intro: writable_less writable_extend)
  with Cons show ?case by (simp add: write_field_enc)
qed simp

lemma read_likes_enc:
  "list_all field_ok fs \<Longrightarrow> readable b (concat (map enc_field fs)) \<Longrightarrow>
   read_likes fs b = Inr (fs, bb_advance b (length (concat (map enc_field fs))))"
proof (induction fs arbitrary: b)
  case (Cons f fs)
  then have "readable b (enc_field f)"
    and "readable (bb_advance b (length (enc_field f))) (concat (map enc_field fs))"
    using readable_append [of b "enc_field f"] by simp_all
  with Cons show ?case by (simp add: read_like_enc)
qed simp

text \<open>(C30) Streaming the fields of a packet into an empty buffer succeeds and stores exactly their
  encodings one after the other; a reader that knows the kinds of the fields gets back all of them and
  ends at the end of the packet.\<close>

theorem packet_fields_roundtrip:
  assumes "list_all field_ok (pkt_fields p)" and "length (packet_bytes p) < 10000000"
  shows "\<exists>b. packet_buffer p = Inr b \<and> storage b = packet_bytes p \<and>
    read_likes (pkt_fields p) b = Inr (pkt_fields p, set_rpos (length (packet_bytes p)) b)"
proof -
  let ?b = "bb_extend ByteBuffer_new (packet_bytes p)"
  have w: "writable ByteBuffer_new (length (packet_bytes p))"
    using assms(2) by (simp add: writable_def ByteBuffer_new_def bb_size_def)
  have put: "packet_buffer p = Inr ?b"
    using write_fields_enc [OF assms(1)] w by (simp add: packet_buffer_def packet_bytes_def)
  have b: "storage ?b = packet_bytes p" "rpos ?b = 0"
    by (simp_all add: bb_extend_def ByteBuffer_new_def)
  then have "readable ?b (packet_bytes p)"
    using assms(2) by (simp add: readable_def bb_size_def)
  then have "read_likes (pkt_fields p) ?b = Inr (pkt_fields p, bb_advance ?b (length (packet_bytes p)))"
    using read_likes_enc [OF assms(1), of ?b] by (simp add: packet_bytes_def)
  moreover have "bb_advance ?b n = set_rpos n ?b" for n
    using b(2) by (simp add: bb_advance_def set_rpos_def)
  ultimately show ?thesis using put b(1) by auto
qed

theorem packet_fields_roundtrip_witness:
  "let p = stream [U8 5, Str ''ab'', U32 7] (WorldPacket_init 0x99) in
   \<exists>b. packet_buffer p = Inr b \<and> read_likes (pkt_fields p) b = Inr (pkt_fields p, set_rpos 8 b)"
proof -
  let ?p = "stream [U8 5, Str ''ab'', U32 7] (WorldPacket_init 0x99)"
  have f: "pkt_fields ?p = [U8 5, Str ''ab'', U32 7]"
    by (simp add: stream_def WorldPacket_init_def)
  have len: "length (packet_bytes ?p) = 8"
    by (simp add: packet_bytes_def f enc_string_def size_of_def)
  have ok: "list_all field_ok (pkt_fields ?p)" by (simp add: f no_nul_def)
  obtain b where "packet_buffer ?p = Inr b" "read_likes (pkt_fields ?p) b = Inr (pkt_fields ?p, set_rpos 8 b)"
    using packet_fields_roundtrip [OF ok] len by auto
  then show ?thesis unfolding Let_def by blast
qed

end
