(* ===== verification/RBAC.thy ===== *)
theory RBAC
  imports Prelude
begin

text \<open>
  Role based access control (src/server/game/Accounts/RBAC.h, RBAC.cpp and the RBAC part of
  AccountMgr.cpp).  Permissions are numbers, each with a set of linked permissions; an account has a
  set of granted and a set of denied permissions, and the set \<open>_globalPerms\<close> that every permission
  check of the server consults.  \<open>AccountMgr::_permissions\<close> is the ordered map \<open>perm_table\<close>; rows read
  from the login database are arguments, statements sent to it are collected in order.
  \<open>ExpandPermissions\<close> is the work-list loop of the source with its own termination proof; it is shown
  to compute reachability along links.
\<close>

section \<open>Data\<close>

datatype RBACCommandResult =
    RBAC_OK
  | RBAC_CANT_ADD_ALREADY_ADDED
  | RBAC_CANT_REVOKE_NOT_IN_LIST
  | RBAC_IN_GRANTED_LIST
  | RBAC_IN_DENIED_LIST
  | RBAC_ID_DOES_NOT_EXISTS

type_synonym RBACPermissionContainer = "uint32 oset"

record RBACPermission =
  perm_id :: uint32
  perm_name :: string
  linked_perms :: RBACPermissionContainer

type_synonym perm_table = "(uint32, RBACPermission) omap"
type_synonym default_perms = "(uint8, RBACPermissionContainer) omap"

record RBACData =
  rbac_id :: uint32
  rbac_name :: string
  rbac_realmId :: int
  secLevel :: uint8
  grantedPerms :: RBACPermissionContainer
  deniedPerms :: RBACPermissionContainer
  globalPerms :: RBACPermissionContainer

datatype login_stmt =
    LOGIN_INS_RBAC_ACCOUNT_PERMISSION uint32 uint32 bool int
  | LOGIN_DEL_RBAC_ACCOUNT_PERMISSION uint32 uint32 int
  | LOGIN_DEL_ACCOUNT_ACCESS uint32
  | LOGIN_DEL_ACCOUNT_ACCESS_BY_REALM uint32 int
  | LOGIN_INS_ACCOUNT_ACCESS uint32 uint8 int

definition AddLinkedPermission :: "uint32 \<Rightarrow> RBACPermission \<Rightarrow> RBACPermission" where
  "AddLinkedPermission i p = p\<lparr>linked_perms := os_insert i (linked_perms p)\<rparr>"

definition RemoveLinkedPermission :: "uint32 \<Rightarrow> RBACPermission \<Rightarrow> RBACPermission" where
  "RemoveLinkedPermission i p = p\<lparr>linked_perms := os_erase i (linked_perms p)\<rparr>"

definition RBACData_new :: "uint32 \<Rightarrow> string \<Rightarrow> int \<Rightarrow> uint8 \<Rightarrow> RBACData" where
  "RBACData_new i name realm sec = \<lparr>rbac_id = i, rbac_name = name, rbac_realmId = realm, secLevel = sec,
     grantedPerms = [], deniedPerms = [], globalPerms = []\<rparr>"

definition GetRBACPermission :: "perm_table \<Rightarrow> uint32 \<Rightarrow> RBACPermission option" where
  "GetRBACPermission T p = om_get T p"

definition HasPermission :: "RBACData \<Rightarrow> uint32 \<Rightarrow> bool" where
  "HasPermission d p \<longleftrightarrow> os_mem (globalPerms d) p"

definition HasGrantedPermission :: "RBACData \<Rightarrow> uint32 \<Rightarrow> bool" where
  "HasGrantedPermission d p \<longleftrightarrow> os_mem (grantedPerms d) p"

definition HasDeniedPermission :: "RBACData \<Rightarrow> uint32 \<Rightarrow> bool" where
  "HasDeniedPermission d p \<longleftrightarrow> os_mem (deniedPerms d) p"

definition AddGrantedPermission :: "uint32 \<Rightarrow> RBACData \<Rightarrow> RBACData" where
  "AddGrantedPermission p d = d\<lparr>grantedPerms := os_insert p (grantedPerms d)\<rparr>"

definition RemoveGrantedPermission :: "uint32 \<Rightarrow> RBACData \<Rightarrow> RBACData" where
  "RemoveGrantedPermission p d = d\<lparr>grantedPerms := os_erase p (grantedPerms d)\<rparr>"

definition AddDeniedPermission :: "uint32 \<Rightarrow> RBACData \<Rightarrow> RBACData" where
  "AddDeniedPermission p d = d\<lparr>deniedPerms := os_insert p (deniedPerms d)\<rparr>"

definition RemoveDeniedPermission :: "uint32 \<Rightarrow> RBACData \<Rightarrow> RBACData" where
  "RemoveDeniedPermission p d = d\<lparr>deniedPerms := os_erase p (deniedPerms d)\<rparr>"

section \<open>Computing the effective permissions\<close>

text \<open>The loop of \<open>ExpandPermissions\<close>: \<open>tc\<close> is \<open>toCheck\<close>, \<open>ps\<close> the expanded list.\<close>

definition check_linked :: "RBACPermissionContainer \<Rightarrow> uint32 list \<Rightarrow> RBACPermissionContainer \<Rightarrow> RBACPermissionContainer"
where
  "check_linked ps linked tc = fold (\<lambda>l tc. if os_mem ps l then tc else os_insert l tc) linked tc"

lemma check_linked_simps [simp]:
  "check_linked ps [] tc = tc"
  "check_linked ps (l # ls) tc = check_linked ps ls (if os_mem ps l then tc else os_insert l tc)"
  by (simp_all add: check_linked_def)

lemma set_check_linked: "set (check_linked ps ls tc) = set tc \<union> (set ls - set ps)"
  by (induction ls arbitrary: tc) (auto simp: os_mem_def)

lemma os_insert_filter: "x \<notin> A \<Longrightarrow> filter (\<lambda>y. y \<in> A) (os_insert x tc) = filter (\<lambda>y. y \<in> A) tc"
  by (induction tc) auto

lemma check_linked_filter:
  "filter (\<lambda>y. y \<in> set ps) (check_linked ps ls tc) = filter (\<lambda>y. y \<in> set ps) tc"
  by (induction ls arbitrary: tc) (auto simp: os_mem_def os_insert_filter)

function expand_loop :: "perm_table \<Rightarrow> RBACPermissionContainer \<Rightarrow> RBACPermissionContainer \<Rightarrow> RBACPermissionContainer"
where
  "expand_loop T [] ps = ps"
| "expand_loop T (p # tc) ps =
     (case GetRBACPermission T p of
        None \<Rightarrow> expand_loop T tc ps
      | Some perm \<Rightarrow>
          (let ps' = os_insert p ps in expand_loop T (check_linked ps' (linked_perms perm) tc) ps'))"
  by pat_completeness auto
termination
proof (relation "measures [\<lambda>(T, tc, ps). card (set (om_keys T) - set ps),
    \<lambda>(T, tc, ps). length (filter (\<lambda>x. x \<in> set ps) tc), \<lambda>(T, tc, ps). length tc]", goal_cases)
  case (3 T p tc ps perm ps')
  have "p \<in> set (om_keys T)"
    using 3(1) om_get_dom [of T p] by (simp add: GetRBACPermission_def)
  then have "p \<notin> set ps \<Longrightarrow> card (set (om_keys T) - set ps') < card (set (om_keys T) - set ps)"
    using 3(2) by (intro psubset_card_mono) auto
  moreover have "p \<in> set ps \<Longrightarrow> set ps' = set ps"
    using 3(2) by auto
  ultimately show ?case
    using 3(2) check_linked_filter [of ps' "linked_perms perm" tc] by (cases "p \<in> set ps") auto
qed auto

definition ExpandPermissions :: "perm_table \<Rightarrow> RBACPermissionContainer \<Rightarrow> RBACPermissionContainer" where
  "ExpandPermissions T permissions = expand_loop T permissions []"

text \<open>\<open>AddPermissions(permsFrom, permsTo)\<close> and \<open>RemovePermissions(permsFrom, permsTo)\<close>: the second
  argument is the one changed.\<close>

definition AddPermissions :: "RBACPermissionContainer \<Rightarrow> RBACPermissionContainer \<Rightarrow> RBACPermissionContainer" where
  "AddPermissions permsFrom permsTo = fold os_insert permsFrom permsTo"

definition RemovePermissions :: "RBACPermissionContainer \<Rightarrow> RBACPermissionContainer \<Rightarrow> RBACPermissionContainer" where
  "RemovePermissions permsFrom permsTo = fold os_erase permsFrom permsTo"

text \<open>\<open>CalculateNewPermissions\<close>: the expanded grants become \<open>_globalPerms\<close>; the local \<open>revoked\<close> is
  expanded and then passed as the container \<open>RemovePermissions\<close> changes.\<close>

definition CalculateNewPermissions :: "perm_table \<Rightarrow> RBACData \<Rightarrow> RBACData" where
  "CalculateNewPermissions T d =
     (let g = ExpandPermissions T (grantedPerms d);
          revoked = ExpandPermissions T (deniedPerms d);
          revoked' = RemovePermissions g revoked
      in d\<lparr>globalPerms := g\<rparr>)"

section \<open>Commands\<close>

definition SavePermission :: "RBACData \<Rightarrow> uint32 \<Rightarrow> bool \<Rightarrow> int \<Rightarrow> login_stmt list" where
  "SavePermission d p granted realm = [LOGIN_INS_RBAC_ACCOUNT_PERMISSION (rbac_id d) p granted realm]"

definition GrantPermission ::
  "perm_table \<Rightarrow> uint32 \<Rightarrow> int \<Rightarrow> RBACData \<Rightarrow> RBACCommandResult \<times> RBACData \<times> login_stmt list" where
  "GrantPermission T p realm d =
     (if GetRBACPermission T p = None then (RBAC_ID_DOES_NOT_EXISTS, d, [])
      else if HasDeniedPermission d p then (RBAC_IN_DENIED_LIST, d, [])
      else if HasGrantedPermission d p then (RBAC_CANT_ADD_ALREADY_ADDED, d, [])
      else
        let d1 = AddGrantedPermission p d in
        if realm \<noteq> 0 then (RBAC_OK, CalculateNewPermissions T d1, SavePermission d1 p True realm)
        else (RBAC_OK, d1, []))"

definition DenyPermission ::
  "perm_table \<Rightarrow> uint32 \<Rightarrow> int \<Rightarrow> RBACData \<Rightarrow> RBACCommandResult \<times> RBACData \<times> login_stmt list" where
  "DenyPermission T p realm d =
     (if GetRBACPermission T p = None then (RBAC_ID_DOES_NOT_EXISTS, d, [])
      else if HasGrantedPermission d p then (RBAC_IN_GRANTED_LIST, d, [])
      else if HasDeniedPermission d p then (RBAC_CANT_ADD_ALREADY_ADDED, d, [])
      else
        let d1 = AddDeniedPermission p d in
        if realm \<noteq> 0 then (RBAC_OK, CalculateNewPermissions T d1, SavePermission d1 p False realm)
        else (RBAC_OK, d1, []))"

definition RevokePermission ::
  "perm_table \<Rightarrow> uint32 \<Rightarrow> int \<Rightarrow> RBACData \<Rightarrow> RBACCommandResult \<times> RBACData \<times> login_stmt list" where
  "RevokePermission T p realm d =
     (if \<not> HasGrantedPermission d p \<and> \<not> HasDeniedPermission d p then (RBAC_CANT_REVOKE_NOT_IN_LIST, d, [])
      else
        let d1 = RemoveDeniedPermission p (RemoveGrantedPermission p d) in
        if realm \<noteq> 0
        then (RBAC_OK, CalculateNewPermissions T d1, [LOGIN_DEL_RBAC_ACCOUNT_PERMISSION (rbac_id d) p realm])
        else (RBAC_OK, d1, []))"

definition ClearData :: "RBACData \<Rightarrow> RBACData" where
  "ClearData d = d\<lparr>grantedPerms := [], deniedPerms := [], globalPerms := []\<rparr>"

definition GetRBACDefaultPermissions :: "default_perms \<Rightarrow> uint8 \<Rightarrow> RBACPermissionContainer" where
  "GetRBACDefaultPermissions D sec = (case om_get D sec of None \<Rightarrow> [] | Some s \<Rightarrow> s)"

text \<open>\<open>LoadFromDB\<close>: the account's rows \<open>(permissionId, granted)\<close>, then the defaults of its security
  level.  Commands with realm 0 do not touch the database.\<close>

definition load_row :: "perm_table \<Rightarrow> uint32 \<times> bool \<Rightarrow> RBACData \<Rightarrow> RBACData" where
  "load_row T row d =
     fst (snd (if snd row then GrantPermission T (fst row) 0 d else DenyPermission T (fst row) 0 d))"

definition LoadFromDB :: "perm_table \<Rightarrow> default_perms \<Rightarrow> (uint32 \<times> bool) list \<Rightarrow> RBACData \<Rightarrow> RBACData" where
  "LoadFromDB T D rows d =
     (let d1 = fold (load_row T) rows (ClearData d);
          d2 = fold (\<lambda>p d. fst (snd (GrantPermission T p 0 d))) (GetRBACDefaultPermissions D (secLevel d1)) d1
      in CalculateNewPermissions T d2)"

definition SetSecurityLevel ::
  "perm_table \<Rightarrow> default_perms \<Rightarrow> (uint32 \<times> bool) list \<Rightarrow> uint8 \<Rightarrow> RBACData \<Rightarrow> RBACData" where
  "SetSecurityLevel T D rows sec d = LoadFromDB T D rows (d\<lparr>secLevel := sec\<rparr>)"

section \<open>The permission tables of AccountMgr\<close>

datatype rbac_error = NullDereference

text \<open>\<open>LoadRBAC\<close>, the linked permissions: \<open>_permissions[newId]\<close> of an unknown id is a null pointer,
  and the next call through it is undefined.  The rows come ordered by id, so keeping the pointer of
  the last id is looking the id up again; only for id 0, the initial value of \<open>permissionId\<close>, it is never
  looked up and stays null.\<close>

fun load_linked :: "(uint32 \<times> uint32) list \<Rightarrow> perm_table \<Rightarrow> rbac_error + perm_table" where
  "load_linked [] T = Inr T"
| "load_linked ((i, l) # rows) T =
     (if l = i then load_linked rows T
      else case (if i = 0 then None else om_get T i) of
        None \<Rightarrow> Inl NullDereference
      | Some perm \<Rightarrow> load_linked rows (om_put i (AddLinkedPermission l perm) T))"

definition load_permissions :: "(uint32 \<times> string) list \<Rightarrow> perm_table" where
  "load_permissions rows =
     fold (\<lambda>(i, n). om_put i \<lparr>perm_id = i, perm_name = n, linked_perms = []\<rparr>) rows []"

definition load_defaults :: "(uint8 \<times> uint32) list \<Rightarrow> default_perms" where
  "load_defaults rows =
     fold (\<lambda>(sec, p) D. om_put sec (os_insert p (GetRBACDefaultPermissions D sec)) D) rows []"

definition UpdateAccountAccess ::
  "perm_table \<Rightarrow> default_perms \<Rightarrow> (uint32 \<times> bool) list \<Rightarrow> RBACData option \<Rightarrow> uint32 \<Rightarrow> uint8 \<Rightarrow> int
   \<Rightarrow> RBACData option \<times> login_stmt list" where
  "UpdateAccountAccess T D rows rbac accountId securityLevel realmId =
     ((case rbac of
         None \<Rightarrow> None
       | Some d \<Rightarrow>
           (if securityLevel = secLevel d then Some (SetSecurityLevel T D rows securityLevel d) else Some d)),
      (if realmId = - 1 then [LOGIN_DEL_ACCOUNT_ACCESS accountId]
       else [LOGIN_DEL_ACCOUNT_ACCESS_BY_REALM accountId realmId]) @
      (if securityLevel \<noteq> 0 then [LOGIN_INS_ACCOUNT_ACCESS accountId securityLevel realmId] else []))"

definition AccountMgr_HasPermission ::
  "perm_table \<Rightarrow> default_perms \<Rightarrow> (uint32 \<times> bool) list \<Rightarrow> uint32 \<Rightarrow> uint8 \<Rightarrow> uint32 \<Rightarrow> int \<Rightarrow> bool" where
  "AccountMgr_HasPermission T D rows accountId sec permissionId realmId =
     (if accountId = 0 then False
      else HasPermission (LoadFromDB T D rows (RBACData_new accountId [] realmId sec)) permissionId)"

section \<open>Expansion is reachability along links\<close>

inductive perm_reach :: "perm_table \<Rightarrow> uint32 set \<Rightarrow> uint32 \<Rightarrow> bool" for T S where
  direct: "p \<in> S \<Longrightarrow> GetRBACPermission T p \<noteq> None \<Longrightarrow> perm_reach T S p"
| linked: "perm_reach T S p \<Longrightarrow> GetRBACPermission T p = Some perm \<Longrightarrow> q \<in> set (linked_perms perm) \<Longrightarrow>
    GetRBACPermission T q \<noteq> None \<Longrightarrow> perm_reach T S q"

text \<open>A set is closed relative to \<open>W\<close> when every existing link of a member leads into it or into \<open>W\<close>.\<close>

definition links_within :: "perm_table \<Rightarrow> uint32 set \<Rightarrow> uint32 set \<Rightarrow> bool" where
  "links_within T A B \<longleftrightarrow> (\<forall>p perm q. p \<in> A \<longrightarrow> GetRBACPermission T p = Some perm \<longrightarrow>
     q \<in> set (linked_perms perm) \<longrightarrow> GetRBACPermission T q \<noteq> None \<longrightarrow> q \<in> B)"

lemma expand_loop_ok: "os_ok ps \<Longrightarrow> os_ok (expand_loop T tc ps)"
  by (induction T tc ps rule: expand_loop.induct)
    (auto simp: Let_def os_ok_insert split: option.splits)

lemma expand_loop_upper:
  "set ps \<subseteq> R \<Longrightarrow> {x \<in> set tc. GetRBACPermission T x \<noteq> None} \<subseteq> R \<Longrightarrow> links_within T R R \<Longrightarrow>
   set (expand_loop T tc ps) \<subseteq> R"
proof (induction T tc ps rule: expand_loop.induct)
  case (2 T p tc ps)
  show ?case
  proof (cases "GetRBACPermission T p")
    case None
    have "{x \<in> set tc. GetRBACPermission T x \<noteq> None} \<subseteq> R"
      using "2.prems"(2) by auto
    from "2.IH"(1) [OF None "2.prems"(1) this "2.prems"(3)] None show ?thesis by simp
  next
    case (Some perm)
    have "set (expand_loop T (check_linked (os_insert p ps) (linked_perms perm) tc) (os_insert p ps)) \<subseteq> R"
    proof (rule "2.IH"(2) [OF Some refl])
      have p: "p \<in> R" using "2.prems"(2) Some by auto
      then show "set (os_insert p ps) \<subseteq> R"
        using "2.prems"(1) by auto
      have "q \<in> set (linked_perms perm) \<Longrightarrow> GetRBACPermission T q \<noteq> None \<Longrightarrow> q \<in> R" for q
        using "2.prems"(3) p Some unfolding links_within_def by blast
      then show "{x \<in> set (check_linked (os_insert p ps) (linked_perms perm) tc). GetRBACPermission T x \<noteq> None} \<subseteq> R"
        using "2.prems"(2) unfolding set_check_linked by auto
    qed (rule "2.prems"(3))
    with Some show ?thesis by (simp add: Let_def)
  qed
qed auto

lemma expand_loop_lower:
  "links_within T (set ps) (set ps \<union> set tc) \<Longrightarrow>
   set ps \<subseteq> set (expand_loop T tc ps) \<and> {x \<in> set tc. GetRBACPermission T x \<noteq> None} \<subseteq> set (expand_loop T tc ps) \<and>
   links_within T (set (expand_loop T tc ps)) (set (expand_loop T tc ps))"
proof (induction T tc ps rule: expand_loop.induct)
  case (2 T p tc ps)
  show ?case
  proof (cases "GetRBACPermission T p")
    case None
    then have "links_within T (set ps) (set ps \<union> set tc)"
      using "2.prems" unfolding links_within_def by (metis UnE UnI1 UnI2 set_ConsD)
    from "2.IH"(1) [OF None this] None show ?thesis by auto
  next
    case (Some perm)
    let ?ps = "os_insert p ps" and ?tc = "check_linked (os_insert p ps) (linked_perms perm) tc"
    have "links_within T (set ?ps) (set ?ps \<union> set ?tc)"
      using "2.prems" Some by (auto simp: links_within_def set_check_linked)
    from "2.IH"(2) [OF Some refl this] Some show ?thesis
      by (auto simp: Let_def set_check_linked)
  qed
qed (auto simp: links_within_def)

lemma mem_ExpandPermissions: "os_mem (ExpandPermissions T S) p \<longleftrightarrow> perm_reach T (set S) p"
proof
  have "set (ExpandPermissions T S) \<subseteq> {p. perm_reach T (set S) p}"
    unfolding ExpandPermissions_def
    by (rule expand_loop_upper) (auto simp: links_within_def intro: perm_reach.intros)
  then show "os_mem (ExpandPermissions T S) p \<Longrightarrow> perm_reach T (set S) p"
    by (auto simp: os_mem_def)
next
  let ?E = "set (ExpandPermissions T S)"
  have "links_within T {} (set S)" by (simp add: links_within_def)
  then have S: "{x \<in> set S. GetRBACPermission T x \<noteq> None} \<subseteq> ?E" and E: "links_within T ?E ?E"
    using expand_loop_lower [of T "[]" S] by (simp_all add: ExpandPermissions_def)
  assume "perm_reach T (set S) p"
  then have "p \<in> ?E"
    by induction (use S E in \<open>auto simp: links_within_def\<close>)
  then show "os_mem (ExpandPermissions T S) p" by (simp add: os_mem_def)
qed

lemma ExpandPermissions_ok: "os_ok (ExpandPermissions T S)"
  by (simp add: ExpandPermissions_def expand_loop_ok)

lemma mem_RemovePermissions: "os_ok to \<Longrightarrow> os_mem (RemovePermissions from to) p \<longleftrightarrow> p \<notin> set from \<and> os_mem to p"
  by (simp add: RemovePermissions_def os.mem_fold_del)

lemma mem_AddPermissions: "os_mem (AddPermissions from to) p \<longleftrightarrow> p \<in> set from \<or> os_mem to p"
  by (simp add: AddPermissions_def os.mem_fold_ins)

section \<open>The account state machine\<close>

datatype rbac_op =
    Grant uint32 int
  | Deny uint32 int
  | Revoke uint32 int
  | Reload "(uint32 \<times> bool) list"
  | SetLevel uint8 "(uint32 \<times> bool) list"

fun rbac_step :: "perm_table \<Rightarrow> default_perms \<Rightarrow> rbac_op \<Rightarrow> RBACData \<Rightarrow> RBACData" where
  "rbac_step T D (Grant p realm) d = fst (snd (GrantPermission T p realm d))"
| "rbac_step T D (Deny p realm) d = fst (snd (DenyPermission T p realm d))"
| "rbac_step T D (Revoke p realm) d = fst (snd (RevokePermission T p realm d))"
| "rbac_step T D (Reload rows) d = LoadFromDB T D rows d"
| "rbac_step T D (SetLevel sec rows) d = SetSecurityLevel T D rows sec d"

text \<open>The invariant: both lists are ordered sets of existing permissions and no permission is in
  both.\<close>

definition rbac_inv :: "perm_table \<Rightarrow> RBACData \<Rightarrow> bool" where
  "rbac_inv T d \<longleftrightarrow> os_ok (grantedPerms d) \<and> os_ok (deniedPerms d) \<and>
     set (grantedPerms d) \<inter> set (deniedPerms d) = {} \<and>
     (\<forall>p \<in> set (grantedPerms d) \<union> set (deniedPerms d). GetRBACPermission T p \<noteq> None)"

lemmas rbac_ops = GrantPermission_def DenyPermission_def RevokePermission_def Let_def
  AddGrantedPermission_def AddDeniedPermission_def RemoveGrantedPermission_def RemoveDeniedPermission_def
  HasGrantedPermission_def HasDeniedPermission_def os_mem_def CalculateNewPermissions_def

lemma rbac_inv_calculate [simp]: "rbac_inv T (CalculateNewPermissions T d) = rbac_inv T d"
  by (simp add: rbac_inv_def CalculateNewPermissions_def Let_def)

lemma rbac_inv_clear [simp]: "rbac_inv T (ClearData d)"
  by (simp add: rbac_inv_def ClearData_def)

lemma rbac_inv_grant: "rbac_inv T d \<Longrightarrow> rbac_inv T (fst (snd (GrantPermission T p realm d)))"
  by (auto simp: rbac_ops rbac_inv_def os_ok_insert)

lemma rbac_inv_deny: "rbac_inv T d \<Longrightarrow> rbac_inv T (fst (snd (DenyPermission T p realm d)))"
  by (auto simp: rbac_ops rbac_inv_def os_ok_insert)

lemma rbac_inv_revoke: "rbac_inv T d \<Longrightarrow> rbac_inv T (fst (snd (RevokePermission T p realm d)))"
  by (auto simp: rbac_ops rbac_inv_def set_os_erase os_ok_erase)

lemma rbac_inv_load: "rbac_inv T (LoadFromDB T D rows d)"
proof -
  have row: "rbac_inv T d \<Longrightarrow> rbac_inv T (load_row T row d)" for row d
    by (simp add: load_row_def rbac_inv_grant rbac_inv_deny)
  have rows: "rbac_inv T d \<Longrightarrow> rbac_inv T (fold (load_row T) rows d)" for rows d
    by (induction rows arbitrary: d) (auto intro: row)
  have defs: "rbac_inv T d \<Longrightarrow> rbac_inv T (fold (\<lambda>p d. fst (snd (GrantPermission T p 0 d))) ps d)" for ps d
    by (induction ps arbitrary: d) (auto intro: rbac_inv_grant)
  show ?thesis
    by (simp add: LoadFromDB_def Let_def rows defs)
qed

interpretation account: guarded_machine "rbac_step T D" "\<lambda>_ _. True" "rbac_inv T"
proof
  fix s a assume "rbac_inv T s"
  then show "rbac_inv T (rbac_step T D a s)"
    by (cases a) (auto simp: rbac_inv_grant rbac_inv_deny rbac_inv_revoke rbac_inv_load SetSecurityLevel_def)
qed

lemma globalPerms_LoadFromDB:
  "HasPermission (LoadFromDB T D rows d) p \<longleftrightarrow> perm_reach T (set (grantedPerms (LoadFromDB T D rows d))) p"
  by (simp add: LoadFromDB_def Let_def CalculateNewPermissions_def HasPermission_def mem_ExpandPermissions)

section \<open>Properties of RBAC\<close>

text \<open>(C5) \<open>ExpandPermissions\<close> terminates on every permission table, also a cyclic one, and returns
  the ordered set of exactly the existing permissions that are reachable from the given ones along
  links.\<close>

theorem expand_permissions_closure:
  "os_ok (ExpandPermissions T S) \<and> set (ExpandPermissions T S) = {p. perm_reach T (set S) p}"
  using mem_ExpandPermissions [of T S] by (auto simp: ExpandPermissions_ok os_mem_def)

text \<open>(C6) Every sequence of grants, denials, revocations, reloads and security level changes keeps
  the granted and denied lists disjoint sets of existing permissions.\<close>

theorem rbac_lists_disjoint:
  assumes "rbac_inv T d"
  shows "rbac_inv T (fold (rbac_step T D) ops d)"
  by (rule account.fold_inv) (use assms in auto)

theorem rbac_lists_disjoint_witness:
  "let T = [(1, \<lparr>perm_id = 1, perm_name = [], linked_perms = [2]\<rparr>),
            (2, \<lparr>perm_id = 2, perm_name = [], linked_perms = []\<rparr>)] in
   rbac_inv T (RBACData_new 7 ''A'' 1 0) \<and>
   rbac_inv T (fold (rbac_step T []) [Grant 1 1, Deny 2 1, Revoke 1 0] (RBACData_new 7 ''A'' 1 0))"
proof -
  have "rbac_inv T (RBACData_new 7 ''A'' 1 0)" for T
    by (simp add: rbac_inv_def RBACData_new_def)
  then show ?thesis
    unfolding Let_def by (intro conjI rbac_lists_disjoint)
qed

text \<open>(C35) Denying takes nothing away: for an account whose effective permissions are those computed from its
  present lists, \<open>DenyPermission\<close>, whatever it answers and for every realm, leaves every permission as effective as
  it was; in particular a permission that is effective through a link of a granted one stays effective when it is
  denied.  What is effective afterwards is exactly what is reachable from the granted permissions.  (The rules at
  the top of RBAC.h ask for the granted permissions minus the denied ones; \<open>RemovePermissions\<close> is called with its
  arguments swapped.  A denial does have an effect on later grants, which \<open>GrantPermission\<close> refuses.)\<close>

theorem deny_takes_nothing_away:
  assumes "globalPerms d = globalPerms (CalculateNewPermissions T d)"
    and "DenyPermission T p realm d = (r, d', stmts)"
  shows "(HasPermission d' q \<longleftrightarrow> HasPermission d q) \<and>
    (HasPermission d' q \<longleftrightarrow> perm_reach T (set (grantedPerms d)) q)"
proof -
  have eff: "HasPermission d q \<longleftrightarrow> perm_reach T (set (grantedPerms d)) q" for q
    using assms(1) by (simp add: HasPermission_def CalculateNewPermissions_def Let_def mem_ExpandPermissions)
  have "globalPerms d' = globalPerms d"
    using assms by (auto simp: DenyPermission_def Let_def AddDeniedPermission_def CalculateNewPermissions_def split: if_splits)
  then show ?thesis
    using eff by (simp add: HasPermission_def)
qed

text \<open>Permission 1 is granted and linked to 2: denying 2 for realm 1 succeeds and 2 stays effective.\<close>

theorem deny_takes_nothing_away_witness:
  "let T = [(1, \<lparr>perm_id = 1, perm_name = [], linked_perms = [2]\<rparr>),
            (2, \<lparr>perm_id = 2, perm_name = [], linked_perms = []\<rparr>)];
       d = fst (snd (GrantPermission T 1 1 (RBACData_new 7 ''A'' 1 0))) in
   fst (DenyPermission T 2 1 d) = RBAC_OK \<and> HasDeniedPermission (fst (snd (DenyPermission T 2 1 d))) 2 \<and>
   HasPermission (fst (snd (DenyPermission T 2 1 d))) 2"
proof -
  let ?T = "[(1, \<lparr>perm_id = 1, perm_name = [], linked_perms = [2]\<rparr>),
            (2, \<lparr>perm_id = 2, perm_name = [], linked_perms = []\<rparr>)]"
  let ?d = "fst (snd (GrantPermission ?T 1 1 (RBACData_new 7 ''A'' 1 0)))"
  have up: "globalPerms ?d = globalPerms (CalculateNewPermissions ?T ?d)" by code_simp
  have "HasPermission ?d 2" by code_simp
  moreover have "fst (DenyPermission ?T 2 1 ?d) = RBAC_OK \<and> HasDeniedPermission (fst (snd (DenyPermission ?T 2 1 ?d))) 2"
    by code_simp
  ultimately show ?thesis
    using deny_takes_nothing_away [OF up, of 2 1] unfolding Let_def by (metis prod.collapse)
qed

text \<open>\<open>GrantPermission\<close> reports why it refuses, in the order unknown, denied, already granted,
  and then changes nothing and writes nothing; otherwise it adds the permission to the granted list
  and, for a realm other than 0, writes one row and makes the permission and everything linked to it
  effective.\<close>

theorem grant_permission_result:
  assumes "GrantPermission T p realm d = (r, d', stmts)"
  shows "(r = RBAC_ID_DOES_NOT_EXISTS \<longleftrightarrow> GetRBACPermission T p = None) \<and>
    (r = RBAC_IN_DENIED_LIST \<longleftrightarrow> GetRBACPermission T p \<noteq> None \<and> HasDeniedPermission d p) \<and>
    (r = RBAC_CANT_ADD_ALREADY_ADDED \<longleftrightarrow>
       GetRBACPermission T p \<noteq> None \<and> \<not> HasDeniedPermission d p \<and> HasGrantedPermission d p) \<and>
    (r \<noteq> RBAC_OK \<longrightarrow> d' = d \<and> stmts = []) \<and>
    (r = RBAC_OK \<longrightarrow> set (grantedPerms d') = insert p (set (grantedPerms d)) \<and> deniedPerms d' = deniedPerms d) \<and>
    (r = RBAC_OK \<and> realm \<noteq> 0 \<longrightarrow>
       stmts = [LOGIN_INS_RBAC_ACCOUNT_PERMISSION (rbac_id d) p True realm] \<and>
       (\<forall>q. perm_reach T {p} q \<longrightarrow> HasPermission d' q))"
proof -
  have mono: "perm_reach T {p} q \<Longrightarrow> perm_reach T (insert p S) q" for q S
    by (induction rule: perm_reach.induct) (auto intro: perm_reach.intros)
  show ?thesis
    using assms mono
    by (auto simp: GrantPermission_def Let_def AddGrantedPermission_def CalculateNewPermissions_def
        SavePermission_def HasPermission_def mem_ExpandPermissions split: if_splits)
qed

theorem grant_permission_result_witness:
  "let T = [(1, \<lparr>perm_id = 1, perm_name = [], linked_perms = [2]\<rparr>),
            (2, \<lparr>perm_id = 2, perm_name = [], linked_perms = []\<rparr>)];
       d = RBACData_new 7 ''A'' 1 0 in
   HasPermission (fst (snd (GrantPermission T 1 1 d))) 2"
proof -
  let ?T = "[(1, \<lparr>perm_id = 1, perm_name = [], linked_perms = [2]\<rparr>),
             (2, \<lparr>perm_id = 2, perm_name = [], linked_perms = []\<rparr>)] :: perm_table"
  have one: "perm_reach ?T {1} 1"
    by (rule perm_reach.direct) (simp_all add: GetRBACPermission_def)
  have "perm_reach ?T {1} 2"
    by (rule perm_reach.linked [OF one, where perm = "\<lparr>perm_id = 1, perm_name = [], linked_perms = [2]\<rparr>"])
      (simp_all add: GetRBACPermission_def)
  moreover have "fst (GrantPermission ?T 1 1 (RBACData_new 7 ''A'' 1 0)) = RBAC_OK"
    by (simp add: GrantPermission_def Let_def GetRBACPermission_def HasDeniedPermission_def
        HasGrantedPermission_def RBACData_new_def os_mem_def)
  ultimately show ?thesis
    using grant_permission_result [of ?T 1 1 "RBACData_new 7 ''A'' 1 0"]
    by (auto simp: Let_def prod_eq_iff)
qed

text \<open>(C36) \<open>UpdateAccountAccess\<close> never changes the security level of the session that is online: it
  calls \<open>SetSecurityLevel\<close> only when the new level equals the old one, so a new level reaches the
  database but not the session.\<close>

theorem update_account_access_keeps_session_level:
  "(case fst (UpdateAccountAccess T D rows (Some d) accountId newLevel realmId) of
      None \<Rightarrow> False | Some d' \<Rightarrow> secLevel d' = secLevel d \<and> (newLevel \<noteq> secLevel d \<longrightarrow> d' = d)) \<and>
   (newLevel \<noteq> 0 \<longrightarrow> LOGIN_INS_ACCOUNT_ACCESS accountId newLevel realmId
      \<in> set (snd (UpdateAccountAccess T D rows (Some d) accountId newLevel realmId)))"
proof -
  have grant: "secLevel (fst (snd (GrantPermission T p r d))) = secLevel d" for p r d
    by (simp add: rbac_ops)
  have deny: "secLevel (fst (snd (DenyPermission T p r d))) = secLevel d" for p r d
    by (simp add: rbac_ops)
  have rows: "secLevel (fold (load_row T) rs d) = secLevel d" for rs d
    by (induction rs arbitrary: d) (simp_all add: load_row_def grant deny)
  have defs: "secLevel (fold (\<lambda>p d. fst (snd (GrantPermission T p 0 d))) ps d) = secLevel d" for ps d
    by (induction ps arbitrary: d) (simp_all add: grant)
  show ?thesis
    by (simp add: UpdateAccountAccess_def SetSecurityLevel_def LoadFromDB_def Let_def
        CalculateNewPermissions_def defs rows ClearData_def)
qed

theorem update_account_access_keeps_session_level_witness:
  "(case fst (UpdateAccountAccess [] [] [] (Some (RBACData_new 7 ''A'' 1 0)) 7 3 1) of
      None \<Rightarrow> False | Some d' \<Rightarrow> secLevel d' = 0) \<and>
   LOGIN_INS_ACCOUNT_ACCESS 7 3 1
     \<in> set (snd (UpdateAccountAccess [] [] [] (Some (RBACData_new 7 ''A'' 1 0)) 7 3 1))"
  using update_account_access_keeps_session_level [where T = "[]" and D = "[]" and rows = "[]" and
      d = "RBACData_new 7 ''A'' 1 0" and accountId = 7 and newLevel = 3 and realmId = 1]
  by (auto simp: RBACData_new_def split: option.splits)

end
