(* ===== verification/UpdateMask.thy ===== *)
theory UpdateMask
  imports ByteBuffer
begin

text \<open>
  The field mask of object updates (\<open>UpdateMask.h\<close>): one byte per field, allocated in blocks of 32
  and sent to the client as one 32-bit word per block.  Accesses outside the allocation are the
  error \<open>OutOfBounds\<close>, a failed \<open>ASSERT\<close> is \<open>AssertFailed\<close>.  The section on the wire format shows that the
  client can recover every field bit from the words.
\<close>

section \<open>The mask\<close>

datatype um_error = OutOfBounds | AssertFailed

record UpdateMask =
  fieldCount :: uint32
  blockCount :: uint32
  bits :: "uint8 list"

definition CLIENT_UPDATE_MASK_BITS :: uint32 where
  "CLIENT_UPDATE_MASK_BITS = 32"

definition UpdateMask_new :: UpdateMask where
  "UpdateMask_new = \<lparr>fieldCount = 0, blockCount = 0, bits = []\<rparr>"

definition mask_bytes :: "uint32 \<Rightarrow> uint8 list" where
  "mask_bytes blocks = replicate (unat (blocks * CLIENT_UPDATE_MASK_BITS)) 0"

definition SetCount :: "uint32 \<Rightarrow> UpdateMask \<Rightarrow> UpdateMask" where
  "SetCount valuesCount m =
     (let blocks = (valuesCount + CLIENT_UPDATE_MASK_BITS - 1) div CLIENT_UPDATE_MASK_BITS in
      m\<lparr>fieldCount := valuesCount, blockCount := blocks, bits := mask_bytes blocks\<rparr>)"

definition SetBit :: "uint32 \<Rightarrow> UpdateMask \<Rightarrow> um_error + UpdateMask" where
  "SetBit index m =
     (if unat index < length (bits m) then Inr (m\<lparr>bits := (bits m)[unat index := 1]\<rparr>) else Inl OutOfBounds)"

definition UnsetBit :: "uint32 \<Rightarrow> UpdateMask \<Rightarrow> um_error + UpdateMask" where
  "UnsetBit index m =
     (if unat index < length (bits m) then Inr (m\<lparr>bits := (bits m)[unat index := 0]\<rparr>) else Inl OutOfBounds)"

definition GetBit :: "uint32 \<Rightarrow> UpdateMask \<Rightarrow> um_error + bool" where
  "GetBit index m =
     (if unat index < length (bits m) then Inr (bits m ! unat index \<noteq> 0) else Inl OutOfBounds)"

definition mask_clear :: "UpdateMask \<Rightarrow> UpdateMask" where
  "mask_clear m = m\<lparr>bits := mask_bytes (blockCount m)\<rparr>"

text \<open>The copy constructor and \<open>operator=\<close>: \<open>SetCount\<close>, then a \<open>memcpy\<close> of the whole allocation.\<close>

definition mask_assign :: "UpdateMask \<Rightarrow> UpdateMask \<Rightarrow> UpdateMask" where
  "mask_assign m right =
     (let m' = SetCount (fieldCount right) m in m'\<lparr>bits := take (length (bits m')) (bits right)\<rparr>)"

text \<open>\<open>operator&=\<close> and \<open>operator|=\<close> loop over the fields of the left operand and read the same index of
  the right one.\<close>

fun combine_loop :: "(uint8 \<Rightarrow> uint8 \<Rightarrow> uint8) \<Rightarrow> nat list \<Rightarrow> uint8 list \<Rightarrow> uint8 list \<Rightarrow> um_error + uint8 list" where
  "combine_loop f [] l r = Inr l"
| "combine_loop f (i # is) l r =
     (if i < length l \<and> i < length r then combine_loop f is (l[i := f (l ! i) (r ! i)]) r
      else Inl OutOfBounds)"

definition combine :: "(uint8 \<Rightarrow> uint8 \<Rightarrow> uint8) \<Rightarrow> UpdateMask \<Rightarrow> UpdateMask \<Rightarrow> um_error + UpdateMask" where
  "combine f m right =
     (if fieldCount right \<le> fieldCount m
      then case combine_loop f [0..<unat (fieldCount m)] (bits m) (bits right) of
             Inl e \<Rightarrow> Inl e
           | Inr bs \<Rightarrow> Inr (m\<lparr>bits := bs\<rparr>)
      else Inl AssertFailed)"

definition mask_and :: "UpdateMask \<Rightarrow> UpdateMask \<Rightarrow> um_error + UpdateMask" where
  "mask_and = combine (AND)"

definition mask_or :: "UpdateMask \<Rightarrow> UpdateMask \<Rightarrow> um_error + UpdateMask" where
  "mask_or = combine (OR)"

definition mask_union :: "UpdateMask \<Rightarrow> UpdateMask \<Rightarrow> um_error + UpdateMask" where
  "mask_union m right = mask_or (mask_assign UpdateMask_new m) right"

text \<open>\<open>AppendToPacket\<close>: the inner loop builds \<open>maskPart\<close>, the outer one writes a word per block.\<close>

fun mask_part :: "nat list \<Rightarrow> uint8 list \<Rightarrow> uint32 \<Rightarrow> uint32" where
  "mask_part [] bs part = part"
| "mask_part (j # js) bs part = mask_part js bs (if bs ! j \<noteq> 0 then part OR push_bit j 1 else part)"

definition block_word :: "UpdateMask \<Rightarrow> nat \<Rightarrow> uint32" where
  "block_word m i = mask_part [0..<32] (drop (32 * i) (bits m)) 0"

definition AppendToPacket :: "UpdateMask \<Rightarrow> ByteBuffer \<Rightarrow> bb_error + ByteBuffer" where
  "AppendToPacket m data = write_seq append_val (map (block_word m) [0..<unat (blockCount m)]) data"

section \<open>The invariant of the allocation\<close>

definition mask_wf :: "UpdateMask \<Rightarrow> bool" where
  "mask_wf m \<longleftrightarrow> length (bits m) = 32 * unat (blockCount m) \<and> unat (fieldCount m) \<le> length (bits m) \<and>
     32 * unat (blockCount m) < unat (fieldCount m) + 32"

lemma block_count_bounds:
  fixes v :: uint32
  assumes "unat v \<le> 2 ^ 32 - 32"
  defines "n \<equiv> (v + CLIENT_UPDATE_MASK_BITS - 1) div CLIENT_UPDATE_MASK_BITS"
  shows "unat n = (unat v + 31) div 32" and "unat (n * CLIENT_UPDATE_MASK_BITS) = 32 * unat n"
proof -
  have *: "v + CLIENT_UPDATE_MASK_BITS - 1 = v + 31" by (simp add: CLIENT_UPDATE_MASK_BITS_def)
  have "unat (v + 31) = unat v + 31"
    using assms(1) by (simp add: unat_word_ariths)
  then show n: "unat n = (unat v + 31) div 32"
    unfolding n_def * by (simp add: unat_div CLIENT_UPDATE_MASK_BITS_def)
  have "32 * unat n < 2 ^ 32"
    using assms(1) n by simp
  then show "unat (n * CLIENT_UPDATE_MASK_BITS) = 32 * unat n"
    by (simp add: unat_word_ariths CLIENT_UPDATE_MASK_BITS_def)
qed

lemma mask_wf_SetCount: "unat v \<le> 2 ^ 32 - 32 \<Longrightarrow> mask_wf (SetCount v m)"
  using block_count_bounds [of v] by (auto simp: mask_wf_def SetCount_def Let_def mask_bytes_def)

text \<open>Copying a well-formed mask yields the same mask.\<close>

lemma mask_assign_copy:
  assumes "mask_wf right" and "unat (fieldCount right) \<le> 2 ^ 32 - 32"
  shows "mask_assign m right = right"
proof -
  let ?n = "(fieldCount right + CLIENT_UPDATE_MASK_BITS - 1) div CLIENT_UPDATE_MASK_BITS"
  have "unat (blockCount right) = (unat (fieldCount right) + 31) div 32"
    using assms(1) by (auto simp: mask_wf_def)
  then have "unat (blockCount right) = unat ?n"
    using block_count_bounds(1) [OF assms(2)] by simp
  then have n: "blockCount right = ?n"
    by (simp add: word_unat_eq_iff)
  moreover have "length (mask_bytes ?n) = length (bits right)"
    using block_count_bounds(2) [OF assms(2)] assms(1) n by (simp add: mask_bytes_def mask_wf_def)
  ultimately show ?thesis
    by (simp add: mask_assign_def SetCount_def Let_def)
qed

lemma mask_wf_bit: "mask_wf m \<Longrightarrow> mask_wf (m\<lparr>bits := (bits m)[i := c]\<rparr>)"
  by (simp add: mask_wf_def)

lemma combine_loop_ok:
  "\<forall>i \<in> set is. i < length l \<and> i < length r \<Longrightarrow> distinct is \<Longrightarrow>
   \<exists>bs. combine_loop f is l r = Inr bs \<and> length bs = length l \<and>
     (\<forall>i < length l. bs ! i = (if i \<in> set is then f (l ! i) (r ! i) else l ! i))"
proof (induction "is" arbitrary: l)
  case (Cons i "is")
  then obtain bs where "combine_loop f is (l[i := f (l ! i) (r ! i)]) r = Inr bs" "length bs = length l"
    "\<forall>j < length l. bs ! j = (if j \<in> set is then f (l[i := f (l ! i) (r ! i)] ! j) (r ! j)
       else l[i := f (l ! i) (r ! i)] ! j)"
    using Cons.IH [of "l[i := f (l ! i) (r ! i)]"] by auto
  with Cons.prems show ?case by (auto simp: nth_list_update)
qed simp

lemma combine_loop_error:
  "\<exists>i \<in> set is. \<not> (i < length l \<and> i < length r) \<Longrightarrow> combine_loop f is l r = Inl OutOfBounds"
  by (induction "is" arbitrary: l) auto

section \<open>The wire format\<close>

lemma bit_mask_part:
  "bit (mask_part js bs part) n \<longleftrightarrow> bit part n \<or> (n < 32 \<and> n \<in> set js \<and> bs ! n \<noteq> 0)"
  by (induction js bs part rule: mask_part.induct) (auto simp: bit_simps)

lemma bit_block_word:
  "n < 32 \<Longrightarrow> 32 * i + n < length (bits m) \<Longrightarrow> bit (block_word m i) n \<longleftrightarrow> bits m ! (32 * i + n) \<noteq> 0"
  by (simp add: block_word_def bit_mask_part)

section \<open>Properties of the update mask\<close>

text \<open>(C39) The words \<open>AppendToPacket\<close> writes are one per block, reading them back yields the same words,
  and bit \<open>k mod 32\<close> of word \<open>k div 32\<close> is set exactly when field \<open>k\<close> of the mask is.\<close>

theorem update_mask_wire_format:
  assumes "mask_wf m" and "writable data (4 * unat (blockCount m))"
  shows "\<exists>data' ws after. AppendToPacket m data = Inr data' \<and>
    read_seq read_val (unat (blockCount m)) [] (set_rpos (bb_size data) data') = Inr (ws, after) \<and>
    length ws = unat (blockCount m) \<and>
    (\<forall>k < length (bits m). bit (ws ! (k div 32) :: uint32) (k mod 32) \<longleftrightarrow> bits m ! k \<noteq> 0)"
proof -
  let ?ws = "map (block_word m) [0..<unat (blockCount m)]"
  have len: "length (concat (map word_bytes ws)) = 4 * length ws" for ws :: "uint32 list"
    by (induction ws) (simp_all add: size_of_def)
  have w: "writable data (length (concat (map word_bytes ?ws)))"
    unfolding len using assms(2) by simp
  let ?d = "bb_extend data (concat (map word_bytes ?ws))"
  have put: "AppendToPacket m data = Inr ?d"
    unfolding AppendToPacket_def by (rule u32.write_seq_enc) (use w in \<open>simp_all add: list_all_iff\<close>)
  have "readable (set_rpos (bb_size data) ?d) (concat (map word_bytes ?ws))"
    by (rule readable_extend) (use w in \<open>auto simp: writable_def\<close>)
  then have "read_seq read_val (length ?ws) [] (set_rpos (bb_size data) ?d) =
      Inr ([] @ ?ws, bb_advance (set_rpos (bb_size data) ?d) (length (concat (map word_bytes ?ws))))"
    by (intro u32.read_seq_enc) (simp_all add: list_all_iff)
  moreover have "bit (?ws ! (k div 32)) (k mod 32) \<longleftrightarrow> bits m ! k \<noteq> 0" if "k < length (bits m)" for k
    using that assms(1) bit_block_word [of "k mod 32" "k div 32" m]
    by (simp add: mask_wf_def less_mult_imp_div_less mult.commute)
  ultimately show ?thesis
    using put by auto
qed

theorem update_mask_wire_format_witness:
  "let m = SetCount 40 UpdateMask_new in
   mask_wf m \<and> (\<exists>data' ws after. AppendToPacket m ByteBuffer_new = Inr data' \<and>
     read_seq read_val (unat (blockCount m)) [] (set_rpos 0 data') = Inr (ws :: uint32 list, after) \<and> length ws = 2)"
proof -
  let ?m = "SetCount 40 UpdateMask_new"
  have wf: "mask_wf ?m" by (rule mask_wf_SetCount) simp
  have blocks: "unat (blockCount ?m) = 2"
    using block_count_bounds(1) [of 40] by (simp add: SetCount_def Let_def)
  have "writable ByteBuffer_new (4 * unat (blockCount ?m))"
    unfolding blocks by (simp add: writable_def ByteBuffer_new_def bb_size_def)
  from update_mask_wire_format [OF wf this] show ?thesis
    using wf by (auto simp: blocks Let_def bb_size_def ByteBuffer_new_def)
qed

text \<open>\<open>operator|=\<close> on two well-formed masks: a right operand with more fields fails the assertion;
  when the right operand's blocks cover the fields of the left one the result is the union; when they
  do not, although the assertion holds, the loop reads past the end of the right operand.\<close>

theorem update_mask_or_result:
  assumes "mask_wf m" and "mask_wf right"
  shows "(fieldCount m < fieldCount right \<longrightarrow> mask_or m right = Inl AssertFailed) \<and>
    (fieldCount right \<le> fieldCount m \<and> unat (fieldCount m) \<le> 32 * unat (blockCount right) \<longrightarrow>
       (\<exists>m'. mask_or m right = Inr m' \<and> mask_wf m' \<and> fieldCount m' = fieldCount m \<and>
          (\<forall>i < unat (fieldCount m). bits m' ! i = bits m ! i OR bits right ! i))) \<and>
    (fieldCount right \<le> fieldCount m \<and> 32 * unat (blockCount right) < unat (fieldCount m) \<longrightarrow>
       mask_or m right = Inl OutOfBounds)"
proof (intro conjI impI)
  show "fieldCount m < fieldCount right \<Longrightarrow> mask_or m right = Inl AssertFailed"
    by (simp add: mask_or_def combine_def)
next
  let ?is = "[0..<unat (fieldCount m)]"
  assume le: "fieldCount right \<le> fieldCount m \<and> unat (fieldCount m) \<le> 32 * unat (blockCount right)"
  obtain bs where "combine_loop (OR) ?is (bits m) (bits right) = Inr bs" "length bs = length (bits m)"
    "\<forall>i < length (bits m). bs ! i = (if i \<in> set ?is then bits m ! i OR bits right ! i else bits m ! i)"
    using combine_loop_ok [of ?is "bits m" "bits right" "(OR)"] assms le by (auto simp: mask_wf_def)
  then show "\<exists>m'. mask_or m right = Inr m' \<and> mask_wf m' \<and> fieldCount m' = fieldCount m \<and>
      (\<forall>i < unat (fieldCount m). bits m' ! i = bits m ! i OR bits right ! i)"
    using le assms(1) by (simp add: mask_or_def combine_def mask_wf_def)
next
  assume "fieldCount right \<le> fieldCount m \<and> 32 * unat (blockCount right) < unat (fieldCount m)"
  then show "mask_or m right = Inl OutOfBounds"
    using combine_loop_error [of "[0..<unat (fieldCount m)]" "bits m" "bits right" "(OR)"] assms
    by (fastforce simp: mask_or_def combine_def mask_wf_def)
qed

theorem update_mask_or_result_witness:
  "mask_or (SetCount 40 UpdateMask_new) (SetCount 20 UpdateMask_new) = Inl OutOfBounds"
proof -
  have wf: "mask_wf (SetCount 40 UpdateMask_new)" "mask_wf (SetCount 20 UpdateMask_new)"
    by (rule mask_wf_SetCount, simp)+
  have "unat (blockCount (SetCount 20 UpdateMask_new)) = 1"
    using block_count_bounds(1) [of 20] by (simp add: SetCount_def Let_def)
  then show ?thesis
    using update_mask_or_result [OF wf] by (simp add: SetCount_def Let_def)
qed

end
