(* ===== verification/Timer.thy ===== *)
theory Timer
  imports Prelude
begin

text \<open>
  The timers of \<open>Timer.h\<close>: the difference of two millisecond readings, \<open>IntervalTimer\<close>, \<open>TimeTracker\<close>,
  \<open>TimeTrackerSmall\<close> and \<open>PeriodicTimer\<close>.  \<open>time_t\<close> is a signed 64-bit integer and \<open>int32\<close> a signed 32-bit one,
  both with wrap-around; \<open>Reset\<close> of an interval timer divides by the interval, so an interval of 0 is
  the error \<open>None\<close>.
\<close>

section \<open>Millisecond differences\<close>

definition getMSTimeDiff :: "uint32 \<Rightarrow> uint32 \<Rightarrow> uint32" where
  "getMSTimeDiff oldMSTime newMSTime =
     (if oldMSTime > newMSTime then (0xFFFFFFFF - oldMSTime) + newMSTime else newMSTime - oldMSTime)"

section \<open>IntervalTimer\<close>

record IntervalTimer =
  it_interval :: int
  it_current :: int

definition IntervalTimer_new :: IntervalTimer where
  "IntervalTimer_new = \<lparr>it_interval = 0, it_current = 0\<rparr>"

definition IT_Update :: "int \<Rightarrow> IntervalTimer \<Rightarrow> IntervalTimer" where
  "IT_Update diff t =
     (let c = wrap64 (it_current t + diff) in t\<lparr>it_current := (if c < 0 then 0 else c)\<rparr>)"

definition IT_Passed :: "IntervalTimer \<Rightarrow> bool" where
  "IT_Passed t \<longleftrightarrow> it_current t \<ge> it_interval t"

definition IT_Reset :: "IntervalTimer \<Rightarrow> IntervalTimer option" where
  "IT_Reset t =
     (if it_current t \<ge> it_interval t
      then if it_interval t = 0 then None else Some (t\<lparr>it_current := c_mod (it_current t) (it_interval t)\<rparr>)
      else Some t)"

definition IT_SetCurrent :: "int \<Rightarrow> IntervalTimer \<Rightarrow> IntervalTimer" where
  "IT_SetCurrent c t = t\<lparr>it_current := c\<rparr>"

definition IT_SetInterval :: "int \<Rightarrow> IntervalTimer \<Rightarrow> IntervalTimer" where
  "IT_SetInterval i t = t\<lparr>it_interval := i\<rparr>"

section \<open>TimeTracker and TimeTrackerSmall\<close>

record TimeTracker =
  i_expiryTime :: int

definition TT_Update :: "int \<Rightarrow> TimeTracker \<Rightarrow> TimeTracker" where
  "TT_Update diff t = t\<lparr>i_expiryTime := wrap64 (i_expiryTime t - diff)\<rparr>"

definition TT_Passed :: "TimeTracker \<Rightarrow> bool" where
  "TT_Passed t \<longleftrightarrow> i_expiryTime t \<le> 0"

definition TT_Reset :: "int \<Rightarrow> TimeTracker \<Rightarrow> TimeTracker" where
  "TT_Reset interval t = t\<lparr>i_expiryTime := interval\<rparr>"

definition TTS_new :: "uint32 \<Rightarrow> TimeTracker" where
  "TTS_new expiry = \<lparr>i_expiryTime = wrap32 (uint expiry)\<rparr>"

definition TTS_Update :: "int \<Rightarrow> TimeTracker \<Rightarrow> TimeTracker" where
  "TTS_Update diff t = t\<lparr>i_expiryTime := wrap32 (i_expiryTime t - diff)\<rparr>"

definition TTS_Passed :: "TimeTracker \<Rightarrow> bool" where
  "TTS_Passed t \<longleftrightarrow> i_expiryTime t \<le> 0"

definition TTS_Reset :: "uint32 \<Rightarrow> TimeTracker \<Rightarrow> TimeTracker" where
  "TTS_Reset interval t = t\<lparr>i_expiryTime := wrap32 (uint interval)\<rparr>"

section \<open>PeriodicTimer\<close>

record PeriodicTimer =
  i_period :: int
  i_expireTime :: int

text \<open>\<open>diff\<close> is a \<open>uint32\<close>: the subtraction and the sum are done in unsigned arithmetic and converted
  back, only the comparison with the period casts it to \<open>int32\<close>.\<close>

definition PT_Update :: "uint32 \<Rightarrow> PeriodicTimer \<Rightarrow> bool \<times> PeriodicTimer" where
  "PT_Update diff t =
     (let e = wrap32 (i_expireTime t - uint diff) in
      if e > 0 then (False, t\<lparr>i_expireTime := e\<rparr>)
      else (True, t\<lparr>i_expireTime :=
              wrap32 (e + (if i_period t > wrap32 (uint diff) then i_period t else uint diff))\<rparr>))"

definition PT_SetPeriodic :: "int \<Rightarrow> int \<Rightarrow> PeriodicTimer \<Rightarrow> PeriodicTimer" where
  "PT_SetPeriodic period start_time t = t\<lparr>i_expireTime := start_time, i_period := period\<rparr>"

definition PT_TUpdate :: "int \<Rightarrow> PeriodicTimer \<Rightarrow> PeriodicTimer" where
  "PT_TUpdate diff t = t\<lparr>i_expireTime := wrap32 (i_expireTime t - diff)\<rparr>"

definition PT_TPassed :: "PeriodicTimer \<Rightarrow> bool" where
  "PT_TPassed t \<longleftrightarrow> i_expireTime t \<le> 0"

definition PT_TReset :: "int \<Rightarrow> int \<Rightarrow> PeriodicTimer \<Rightarrow> PeriodicTimer" where
  "PT_TReset diff period t = t\<lparr>i_expireTime := wrap32 (i_expireTime t + (if period > diff then period else diff))\<rparr>"

section \<open>The way the world loop uses an interval timer\<close>

text \<open>One tick: \<open>Update\<close>, and \<open>Reset\<close> when the interval has \<open>Passed\<close>.  The result counts the ticks at which
  the timer fired.\<close>

definition it_tick :: "int \<Rightarrow> nat \<times> IntervalTimer \<Rightarrow> (nat \<times> IntervalTimer) option" where
  "it_tick diff = (\<lambda>(n, t).
     (let t = IT_Update diff t in
      if IT_Passed t then map_option (Pair (Suc n)) (IT_Reset t) else Some (n, t)))"

fun it_ticks :: "int list \<Rightarrow> nat \<times> IntervalTimer \<Rightarrow> (nat \<times> IntervalTimer) option" where
  "it_ticks [] s = Some s"
| "it_ticks (d # ds) s = Option.bind (it_tick d s) (it_ticks ds)"

definition it_wf :: "IntervalTimer \<Rightarrow> bool" where
  "it_wf t \<longleftrightarrow> 0 < it_interval t \<and> it_interval t < 2 ^ 62 \<and> 0 \<le> it_current t \<and> it_current t < it_interval t"

lemma it_tick_wf:
  assumes "it_wf t" and "0 \<le> d" and "d < 2 ^ 62"
  shows "\<exists>n'. it_tick d (n, t) = Some (n', t\<lparr>it_current := (it_current t + d) mod it_interval t\<rparr>) \<and>
    n' = (if it_current t + d \<ge> it_interval t then Suc n else n)"
proof -
  have "wrap64 (it_current t + d) = it_current t + d"
    using assms by (intro wrap64_small) (auto simp: it_wf_def)
  with assms show ?thesis
    by (auto simp: it_tick_def IT_Update_def IT_Passed_def IT_Reset_def it_wf_def c_mod_nonneg)
qed

lemma it_ticks_wf:
  "it_wf t \<Longrightarrow> \<forall>d \<in> set ds. 0 \<le> d \<and> d < 2 ^ 62 \<Longrightarrow>
   \<exists>n'. it_ticks ds (n, t) = Some (n', t\<lparr>it_current := (it_current t + sum_list ds) mod it_interval t\<rparr>)"
proof (induction ds arbitrary: n t)
  case Nil
  then show ?case by (simp add: it_wf_def)
next
  case (Cons d ds)
  let ?t = "t\<lparr>it_current := (it_current t + d) mod it_interval t\<rparr>"
  obtain n' where n': "it_tick d (n, t) = Some (n', ?t)"
    using it_tick_wf Cons.prems by fastforce
  moreover have "it_wf ?t" using Cons.prems by (simp add: it_wf_def)
  ultimately show ?case
    using Cons.IH [of ?t n'] Cons.prems by (auto simp: mod_add_left_eq add.assoc)
qed

section \<open>Properties of the timers\<close>

text \<open>An interval timer keeps its phase exactly: after any sequence of non-negative updates, with a
  reset whenever the interval has passed, it stands at the elapsed time modulo the interval, and no
  reset divides by zero.\<close>

theorem interval_timer_phase:
  assumes "it_wf t" and "\<forall>d \<in> set ds. 0 \<le> d \<and> d < 2 ^ 62"
  shows "\<exists>n t'. it_ticks ds (0, t) = Some (n, t') \<and> it_wf t' \<and> it_interval t' = it_interval t \<and>
    it_current t' = (it_current t + sum_list ds) mod it_interval t"
  using it_ticks_wf [OF assms, of 0] assms(1) by (auto simp: it_wf_def)

theorem interval_timer_phase_witness:
  "\<exists>n t'. it_ticks [70, 50] (0, IT_SetInterval 100 IntervalTimer_new) = Some (n, t') \<and> it_current t' = 20"
  using interval_timer_phase [of "IT_SetInterval 100 IntervalTimer_new" "[70, 50]"]
  by (auto simp: it_wf_def IT_SetInterval_def IntervalTimer_new_def)

text \<open>\<open>getMSTimeDiff\<close> is the number of milliseconds between two readings while the counter has not
  overflowed in between, and one millisecond short of it when it has.\<close>

theorem ms_time_diff:
  "(getMSTimeDiff old new = new - old \<longleftrightarrow> old \<le> new) \<and>
   getMSTimeDiff old new = (if old \<le> new then new - old else new - old - 1)"
  by (auto simp: getMSTimeDiff_def not_le)

end
