(* ===== verification/EventProcessor.thy ===== *)
theory EventProcessor
  imports Prelude
begin

text \<open>
  The delayed-event queue of units and other world objects (\<open>EventProcessor.h\<close>, \<open>EventProcessor.cpp\<close>).
  The \<open>std::multimap\<close> of events is a list of (time, event) pairs sorted by time in which an insertion
  goes behind its equals.  What an event does when it is executed or asked whether it may be deleted
  is a virtual function of \<open>BasicEvent\<close>, and so a parameter: \<open>Execute\<close> may change the processor at will.
  The locale \<open>deferring_events\<close> names what the main loop needs of it to end: an event only schedules
  events for later.
\<close>

section \<open>Events and the processor\<close>

record 'e BasicEvent =
  payload :: 'e
  to_Abort :: bool
  m_addTime :: uint64
  m_execTime :: uint64

definition BasicEvent_new :: "'e \<Rightarrow> 'e BasicEvent" where
  "BasicEvent_new e = \<lparr>payload = e, to_Abort = False, m_addTime = 0, m_execTime = 0\<rparr>"

type_synonym 'e EventList = "(uint64, 'e BasicEvent) mmap"

record 'e EventProcessor =
  m_time :: uint64
  m_events :: "'e EventList"
  m_aborting :: bool

definition EventProcessor_new :: "'e EventProcessor" where
  "EventProcessor_new = \<lparr>m_time = 0, m_events = [], m_aborting = False\<rparr>"

definition AddEvent :: "'e BasicEvent \<Rightarrow> uint64 \<Rightarrow> bool \<Rightarrow> 'e EventProcessor \<Rightarrow> 'e EventProcessor" where
  "AddEvent event e_time set_addtime p =
     (let e = (if set_addtime then event\<lparr>m_addTime := m_time p\<rparr> else event) in
      p\<lparr>m_events := mm_insert e_time (e\<lparr>m_execTime := e_time\<rparr>) (m_events p)\<rparr>)"

definition CalculateTime :: "uint64 \<Rightarrow> 'e EventProcessor \<Rightarrow> uint64" where
  "CalculateTime t_offset p = m_time p + t_offset"

text \<open>What happens to the events, in order.\<close>

datatype 'e ep_action =
    Executed "'e BasicEvent" uint64 uint32
  | Aborted "'e BasicEvent" uint64
  | Deleted "'e BasicEvent"

type_synonym 'e execute = "'e BasicEvent \<Rightarrow> uint64 \<Rightarrow> uint32 \<Rightarrow> 'e EventProcessor \<Rightarrow> bool \<times> 'e EventProcessor"

text \<open>The default \<open>BasicEvent::Execute\<close>: nothing to do, the event is to be deleted.\<close>

definition BasicEvent_Execute :: "'e execute" where
  "BasicEvent_Execute e e_time p_time p = (True, p)"

text \<open>The main loop of \<open>Update\<close>.  An event that schedules another one for a time already reached keeps it
  going, so the loop may run for ever: that is the value \<open>None\<close>.\<close>

partial_function (option) update_loop ::
  "'e execute \<Rightarrow> uint32 \<Rightarrow> 'e ep_action list \<Rightarrow> 'e EventProcessor \<Rightarrow> ('e ep_action list \<times> 'e EventProcessor) option"
where
  "update_loop Execute p_time log p =
     (case m_events p of
        [] \<Rightarrow> Some (log, p)
      | (t, e) # rest \<Rightarrow>
          if t \<le> m_time p
          then if \<not> to_Abort e
               then case Execute e (m_time p) p_time (p\<lparr>m_events := rest\<rparr>) of
                      (del, p') \<Rightarrow>
                        update_loop Execute p_time
                          (log @ [Executed e (m_time p) p_time] @ (if del then [Deleted e] else [])) p'
               else update_loop Execute p_time (log @ [Aborted e (m_time p), Deleted e]) (p\<lparr>m_events := rest\<rparr>)
          else Some (log, p))"

definition EP_Update ::
  "'e execute \<Rightarrow> uint32 \<Rightarrow> 'e EventProcessor \<Rightarrow> ('e ep_action list \<times> 'e EventProcessor) option" where
  "EP_Update Execute p_time p = update_loop Execute p_time [] (p\<lparr>m_time := m_time p + ucast p_time\<rparr>)"

text \<open>\<open>KillAllEvents\<close>: the loop over the events, then the clear of the forced case.\<close>

fun kill_loop :: "('e BasicEvent \<Rightarrow> bool) \<Rightarrow> bool \<Rightarrow> uint64 \<Rightarrow> 'e EventList \<Rightarrow> 'e ep_action list \<times> 'e EventList" where
  "kill_loop IsDeletable force now [] = ([], [])"
| "kill_loop IsDeletable force now ((t, e) # l) =
     (let e = e\<lparr>to_Abort := True\<rparr>;
          (log, l') = kill_loop IsDeletable force now l in
      if force \<or> IsDeletable e
      then ([Aborted e now, Deleted e] @ log, if \<not> force then l' else (t, e) # l')
      else (Aborted e now # log, (t, e) # l'))"

definition KillAllEvents ::
  "('e BasicEvent \<Rightarrow> bool) \<Rightarrow> bool \<Rightarrow> 'e EventProcessor \<Rightarrow> 'e ep_action list \<times> 'e EventProcessor" where
  "KillAllEvents IsDeletable force p =
     (let (log, l) = kill_loop IsDeletable force (m_time p) (m_events p) in
      (log, p\<lparr>m_aborting := True, m_events := (if force then [] else l)\<rparr>))"

section \<open>Running the queue\<close>

fun outcome :: "('e BasicEvent \<Rightarrow> bool) \<Rightarrow> uint64 \<Rightarrow> uint32 \<Rightarrow> uint64 \<times> 'e BasicEvent \<Rightarrow> 'e ep_action list" where
  "outcome del now dt (t, e) =
     (if to_Abort e then [Aborted e now, Deleted e] else Executed e now dt # (if del e then [Deleted e] else []))"

text \<open>The contract of the events: executing one keeps the clock, the order of the queue and the events
  already due, as long as the millisecond clock is below \<open>2 ^ 63\<close> (events add their delay to it);
  \<open>del\<close> tells whether the event asks to be deleted.\<close>

locale deferring_events =
  fixes Execute :: "'e execute" and del :: "'e BasicEvent \<Rightarrow> bool"
  assumes keeps_time: "m_time (snd (Execute e now dt p)) = m_time p"
    and keeps_due: "m_time p = now \<Longrightarrow> now < 2 ^ 63 \<Longrightarrow>
      due now (m_events (snd (Execute e now dt p))) = due now (m_events p)"
    and keeps_order: "mm_sorted (m_events p) \<Longrightarrow> mm_sorted (m_events (snd (Execute e now dt p)))"
    and del_result: "fst (Execute e now dt p) = del e"
begin

lemma update_loop_due:
  assumes "mm_sorted (m_events p)" and "due (m_time p) (m_events p) = ds" and "m_time p < 2 ^ 63"
  shows "\<exists>p'. update_loop Execute dt log p = Some (log @ concat (map (outcome del (m_time p) dt) ds), p') \<and>
    m_time p' = m_time p \<and> mm_sorted (m_events p') \<and> due (m_time p) (m_events p') = []"
  using assms
proof (induction ds arbitrary: log p)
  case Nil
  have "update_loop Execute dt log p = Some (log, p)"
  proof (cases "m_events p")
    case (Cons x rest)
    then have "\<not> fst x \<le> m_time p"
      using Nil.prems(2) by (cases x) (auto simp: due_def)
    with Cons show ?thesis by (cases x) (simp add: update_loop.simps [of Execute dt log p])
  qed (simp add: update_loop.simps [of Execute dt log p])
  with Nil show ?case by simp
next
  case (Cons d ds)
  then obtain x rest where ev: "m_events p = x # rest" by (cases "m_events p") (auto simp: due_def)
  have now: "fst x \<le> m_time p"
    using due_none [of x rest "m_time p"] Cons.prems ev by (auto simp: not_le [symmetric])
  have d: "d = x" "due (m_time p) rest = ds"
    using Cons.prems(2) now unfolding ev by (cases x; simp add: due_def)+
  have sorted: "mm_sorted rest" using Cons.prems(1) by (simp add: ev)
  obtain t e where x: "x = (t, e)" by (cases x)
  let ?p = "p\<lparr>m_events := rest\<rparr>"
  show ?case
  proof (cases "to_Abort e")
    case True
    then have "update_loop Execute dt log p = update_loop Execute dt (log @ outcome del (m_time p) dt x) ?p"
      using now by (simp add: update_loop.simps [of Execute dt log p] ev x)
    with Cons.IH [of ?p "log @ outcome del (m_time p) dt x"] sorted d Cons.prems(3) show ?thesis by simp
  next
    case False
    let ?r = "Execute e (m_time p) dt ?p"
    have "update_loop Execute dt log p = update_loop Execute dt (log @ outcome del (m_time p) dt x) (snd ?r)"
      using now False del_result [of e "m_time p" dt ?p]
      by (cases ?r) (auto simp: update_loop.simps [of Execute dt log p] ev x)
    with Cons.IH [of "snd ?r" "log @ outcome del (m_time p) dt x"] sorted d Cons.prems(3) show ?thesis
      by (simp add: keeps_time keeps_due keeps_order)
  qed
qed

lemma update_due:
  assumes "mm_sorted (m_events p)" and "now = m_time p + ucast dt" and "now < 2 ^ 63"
  shows "\<exists>p'. EP_Update Execute dt p = Some (concat (map (outcome del now dt) (due now (m_events p))), p') \<and>
    m_time p' = now \<and> mm_sorted (m_events p') \<and> due now (m_events p') = []"
  using update_loop_due [of "p\<lparr>m_time := now\<rparr>" _ dt "[]"] assms by (simp add: EP_Update_def)

end

interpretation basic: deferring_events BasicEvent_Execute "\<lambda>_. True"
  by unfold_locales (simp_all add: BasicEvent_Execute_def)

text \<open>Events that re-schedule themselves with \<open>AddEvent\<close> and a positive delay keep the contract.\<close>

lemma AddEvent_later:
  assumes "m_time p = now" and "now < 2 ^ 63" and "0 < d" and "d < 2 ^ 63"
  shows "due now (m_events (AddEvent e (now + d) a p)) = due now (m_events p)"
proof -
  have "unat now < 2 ^ 63" "unat d < 2 ^ 63" "0 < unat d"
    using assms(2-4) by (simp_all add: word_less_nat_alt)
  then have "now < now + d"
    by (simp add: word_less_nat_alt unat_word_ariths)
  then show ?thesis
    by (simp add: AddEvent_def Let_def due_insert_later)
qed

definition repeat_event :: "uint64 \<Rightarrow> 'e execute" where
  "repeat_event delay e e_time p_time p = (False, AddEvent e (e_time + delay) False p)"

lemma repeat_event_defers:
  assumes "0 < d" and "d < 2 ^ 63"
  shows "deferring_events (repeat_event d) (\<lambda>_. False)"
proof
  fix e :: "'e BasicEvent" and now :: uint64 and dt p
  show "due now (m_events (snd (repeat_event d e now dt p))) = due now (m_events p)"
    if "m_time p = now" "now < 2 ^ 63"
    using that assms AddEvent_later [of p now d e False] by (simp add: repeat_event_def)
qed (simp_all add: repeat_event_def AddEvent_def Let_def mm_sorted_insert)

subsection \<open>Killing events\<close>

fun aborted_events :: "'e ep_action list \<Rightarrow> 'e BasicEvent list" where
  "aborted_events [] = []"
| "aborted_events (Aborted e t # log) = e # aborted_events log"
| "aborted_events (_ # log) = aborted_events log"

lemma kill_loop_events:
  "snd (kill_loop IsDeletable False now l) =
     map (\<lambda>(t, e). (t, e\<lparr>to_Abort := True\<rparr>)) (filter (\<lambda>(t, e). \<not> IsDeletable (e\<lparr>to_Abort := True\<rparr>)) l)"
  by (induction l) (auto simp: Let_def case_prod_beta)

lemma kill_loop_aborts:
  "aborted_events (fst (kill_loop IsDeletable force now l)) = map (\<lambda>(t, e). e\<lparr>to_Abort := True\<rparr>) l"
  by (induction l) (auto simp: Let_def split: prod.splits)

section \<open>Properties of the event processor\<close>

text \<open>(C7) When executing an event only schedules events for later, \<open>Update\<close> terminates, and it handles
  exactly the events that are due at the new time, in the order of their times and, among equal
  times, in the order in which they were added: an aborted event is aborted and deleted, any other is
  executed and deleted when it asks for it.  Afterwards no event is due and the queue is in order.\<close>

theorem event_update_runs_due_events:
  assumes "deferring_events Execute del" and "mm_sorted (m_events p)"
    and "now = m_time p + ucast dt" and "now < 2 ^ 63"
  shows "\<exists>p'. EP_Update Execute dt p = Some (concat (map (outcome del now dt) (due now (m_events p))), p') \<and>
    m_time p' = now \<and> mm_sorted (m_events p') \<and> due now (m_events p') = []"
  using deferring_events.update_due [OF assms] .

theorem event_update_runs_due_events_witness:
  "let p = AddEvent (BasicEvent_new ''b'') 20 True (AddEvent (BasicEvent_new ''a'') 10 True EventProcessor_new) in
   \<exists>log p'. EP_Update (repeat_event 5) 15 p = Some (log, p') \<and> length log = 1 \<and> due 15 (m_events p') = []"
proof -
  let ?p = "AddEvent (BasicEvent_new ''b'') 20 True (AddEvent (BasicEvent_new ''a'') 10 True EventProcessor_new)"
  have "mm_sorted (m_events ?p)"
    by (simp add: AddEvent_def EventProcessor_new_def Let_def)
  moreover have "15 = m_time ?p + ucast (15 :: uint32)"
    by (simp add: AddEvent_def EventProcessor_new_def Let_def)
  moreover have "length (concat (map (outcome (\<lambda>_. False) 15 15) (due 15 (m_events ?p)))) = 1"
    by (simp add: AddEvent_def EventProcessor_new_def BasicEvent_new_def due_def Let_def)
  ultimately show ?thesis
    using event_update_runs_due_events [OF repeat_event_defers [of 5], of ?p 15 15] by (auto simp: Let_def)
qed

text \<open>\<open>KillAllEvents\<close> aborts every queued event once, in order.  What stays in the queue when it is
  not forced is marked, so that no later \<open>Update\<close> executes it.  The flag \<open>m_aborting\<close> it sets is never
  looked at: \<open>AddEvent\<close> still inserts afterwards, and an event added then is executed.\<close>

theorem kill_all_events_result:
  assumes "KillAllEvents IsDeletable force p = (log, p')"
  shows "aborted_events log = map (\<lambda>(t, e). e\<lparr>to_Abort := True\<rparr>) (m_events p) \<and>
    (if force then m_events p' = [] else
       (\<forall>(t, e) \<in> set (m_events p'). to_Abort e \<and> \<not> IsDeletable e) \<and>
       map fst (m_events p') = map fst (filter (\<lambda>(t, e). \<not> IsDeletable (e\<lparr>to_Abort := True\<rparr>)) (m_events p))) \<and>
    m_aborting p' \<and>
    (\<exists>e'. payload e' = payload e \<and> to_Abort e' = to_Abort e \<and> (t, e') \<in> set (m_events (AddEvent e t True p')))"
proof (intro conjI)
  show "aborted_events log = map (\<lambda>(t, e). e\<lparr>to_Abort := True\<rparr>) (m_events p)"
    using assms kill_loop_aborts [of IsDeletable force "m_time p" "m_events p"]
    by (auto simp: KillAllEvents_def split: prod.splits)
  show "if force then m_events p' = [] else
       (\<forall>(t, e) \<in> set (m_events p'). to_Abort e \<and> \<not> IsDeletable e) \<and>
       map fst (m_events p') = map fst (filter (\<lambda>(t, e). \<not> IsDeletable (e\<lparr>to_Abort := True\<rparr>)) (m_events p))"
    using assms kill_loop_events [of IsDeletable "m_time p" "m_events p"]
    by (auto simp: KillAllEvents_def split: prod.splits if_splits)
  show "m_aborting p'"
    using assms by (auto simp: KillAllEvents_def split: prod.splits)
  show "\<exists>e'. payload e' = payload e \<and> to_Abort e' = to_Abort e \<and> (t, e') \<in> set (m_events (AddEvent e t True p'))"
    by (rule exI [of _ "e\<lparr>m_addTime := m_time p', m_execTime := t\<rparr>"]) (simp add: AddEvent_def Let_def)
qed

theorem kill_all_events_result_witness:
  "let p = AddEvent (BasicEvent_new ''a'') 10 True EventProcessor_new in
   m_events (snd (KillAllEvents (\<lambda>_. True) True p)) = [] \<and> m_aborting (snd (KillAllEvents (\<lambda>_. True) True p))"
proof -
  let ?p = "AddEvent (BasicEvent_new ''a'') 10 True EventProcessor_new"
  show ?thesis
    using kill_all_events_result [of "\<lambda>_. True" True ?p "fst (KillAllEvents (\<lambda>_. True) True ?p)"
        "snd (KillAllEvents (\<lambda>_. True) True ?p)"]
    by (simp add: Let_def)
qed

end
