(* ===== verification/EventMap.thy ===== *)
theory EventMap
  imports Prelude "HOL-Library.Multiset"
begin

text \<open>
  \<open>EventMap\<close> of \<open>Util.h\<close>, the scheduler of creature scripts: a multimap from 32-bit times to 32-bit event
  data, the low 16 bits of which are the event id, the next 8 the group bits and the top 8 the phase
  bits.  Time arithmetic wraps at 32 bits.
\<close>

section \<open>The map and its operations\<close>

record EventMap =
  em_time :: uint32
  em_phase :: uint8
  em_lastEvent :: uint32
  em_events :: "(uint32, uint32) mmap"

definition EventMap_new :: EventMap where
  "EventMap_new = \<lparr>em_time = 0, em_phase = 0, em_lastEvent = 0, em_events = []\<rparr>"

definition em_Reset :: "EventMap \<Rightarrow> EventMap" where
  "em_Reset m = m\<lparr>em_events := [], em_time := 0, em_phase := 0\<rparr>"

definition em_Update :: "uint32 \<Rightarrow> EventMap \<Rightarrow> EventMap" where
  "em_Update time m = m\<lparr>em_time := em_time m + time\<rparr>"

definition SetPhase :: "uint8 \<Rightarrow> EventMap \<Rightarrow> EventMap" where
  "SetPhase phase m =
     (if phase = 0 then m\<lparr>em_phase := 0\<rparr>
      else if phase \<le> 8 then m\<lparr>em_phase := push_bit (unat phase - 1) 1\<rparr> else m)"

definition AddPhase :: "uint8 \<Rightarrow> EventMap \<Rightarrow> EventMap" where
  "AddPhase phase m =
     (if phase \<noteq> 0 \<and> phase \<le> 8 then m\<lparr>em_phase := em_phase m OR push_bit (unat phase - 1) 1\<rparr> else m)"

definition RemovePhase :: "uint8 \<Rightarrow> EventMap \<Rightarrow> EventMap" where
  "RemovePhase phase m =
     (if phase \<noteq> 0 \<and> phase \<le> 8 then m\<lparr>em_phase := em_phase m AND NOT (push_bit (unat phase - 1) 1)\<rparr> else m)"

definition group_bit :: "uint32 \<Rightarrow> uint32" where
  "group_bit grp = push_bit (unat grp + 15) 1"

definition event_data :: "uint32 \<Rightarrow> uint32 \<Rightarrow> uint8 \<Rightarrow> uint32" where
  "event_data eventId grp phase =
     (let e = (if grp \<noteq> 0 \<and> grp \<le> 8 then eventId OR group_bit grp else eventId) in
      if phase \<noteq> 0 \<and> phase \<le> 8 then e OR push_bit (unat phase + 23) 1 else e)"

definition ScheduleEvent :: "uint32 \<Rightarrow> uint32 \<Rightarrow> uint32 \<Rightarrow> uint8 \<Rightarrow> EventMap \<Rightarrow> EventMap" where
  "ScheduleEvent eventId time grp phase m =
     m\<lparr>em_events := mm_insert (em_time m + time) (event_data eventId grp phase) (em_events m)\<rparr>"

definition event_id :: "uint32 \<Rightarrow> uint32" where
  "event_id e = e AND 0x0000FFFF"

definition CancelEvent :: "uint32 \<Rightarrow> EventMap \<Rightarrow> EventMap" where
  "CancelEvent eventId m =
     (if em_events m = [] then m
      else m\<lparr>em_events := filter (\<lambda>(t, e). eventId \<noteq> event_id e) (em_events m)\<rparr>)"

definition RescheduleEvent :: "uint32 \<Rightarrow> uint32 \<Rightarrow> uint32 \<Rightarrow> uint8 \<Rightarrow> EventMap \<Rightarrow> EventMap" where
  "RescheduleEvent eventId time grp phase m = ScheduleEvent eventId time grp phase (CancelEvent eventId m)"

definition em_Repeat :: "uint32 \<Rightarrow> EventMap \<Rightarrow> EventMap" where
  "em_Repeat time m = m\<lparr>em_events := mm_insert (em_time m + time) (em_lastEvent m) (em_events m)\<rparr>"

text \<open>The phase test of \<open>ExecuteEvent\<close>: an event is skipped when the map is in some phase, the event is
  bound to phases, and none of them is active.\<close>

definition out_of_phase :: "uint8 \<Rightarrow> uint32 \<Rightarrow> bool" where
  "out_of_phase phase e \<longleftrightarrow>
     phase \<noteq> 0 \<and> e AND 0xFF000000 \<noteq> 0 \<and> drop_bit 24 e AND ucast phase = 0"

fun execute_loop :: "uint32 \<Rightarrow> uint8 \<Rightarrow> uint32 \<Rightarrow> (uint32, uint32) mmap \<Rightarrow> uint32 \<times> uint32 \<times> (uint32, uint32) mmap" where
  "execute_loop now phase lastEv [] = (0, lastEv, [])"
| "execute_loop now phase lastEv ((t, e) # l) =
     (if t > now then (0, lastEv, (t, e) # l)
      else if out_of_phase phase e then execute_loop now phase lastEv l
      else (event_id e, e, l))"

definition ExecuteEvent :: "EventMap \<Rightarrow> uint32 \<times> EventMap" where
  "ExecuteEvent m =
     (case execute_loop (em_time m) (em_phase m) (em_lastEvent m) (em_events m) of
        (r, lastEv, l) \<Rightarrow> (r, m\<lparr>em_lastEvent := lastEv, em_events := l\<rparr>))"

definition DelayAllEvents :: "uint32 \<Rightarrow> EventMap \<Rightarrow> EventMap" where
  "DelayAllEvents delay m = m\<lparr>em_time := (if delay < em_time m then em_time m - delay else 0)\<rparr>"

text \<open>\<open>DelayEvents(delay, group)\<close>: the events of the group move to a second multimap, which is then
  inserted back in its order.\<close>

fun delay_loop :: "uint32 \<Rightarrow> uint32 \<Rightarrow> (uint32, uint32) mmap \<Rightarrow> (uint32, uint32) mmap
    \<Rightarrow> (uint32, uint32) mmap \<times> (uint32, uint32) mmap" where
  "delay_loop delay bitmask [] delayed = ([], delayed)"
| "delay_loop delay bitmask ((t, e) # l) delayed =
     (if has_flag e bitmask then delay_loop delay bitmask l (mm_insert (t + delay) e delayed)
      else case delay_loop delay bitmask l delayed of (kept, d) \<Rightarrow> ((t, e) # kept, d))"

definition DelayEvents :: "uint32 \<Rightarrow> uint32 \<Rightarrow> EventMap \<Rightarrow> EventMap" where
  "DelayEvents delay grp m =
     (if grp = 0 \<or> grp > 8 \<or> em_events m = [] then m
      else case delay_loop delay (group_bit grp) (em_events m) [] of
             (kept, delayed) \<Rightarrow> m\<lparr>em_events := fold (\<lambda>(t, e). mm_insert t e) delayed kept\<rparr>)"

definition CancelEventGroup :: "uint32 \<Rightarrow> EventMap \<Rightarrow> EventMap" where
  "CancelEventGroup grp m =
     (if grp = 0 \<or> grp > 8 \<or> em_events m = [] then m
      else m\<lparr>em_events := filter (\<lambda>(t, e). \<not> has_flag e (group_bit grp)) (em_events m)\<rparr>)"

fun find_event :: "uint32 \<Rightarrow> (uint32, uint32) mmap \<Rightarrow> uint32 option" where
  "find_event eventId [] = None"
| "find_event eventId ((t, e) # l) = (if eventId = event_id e then Some t else find_event eventId l)"

definition GetNextEventTime :: "uint32 \<Rightarrow> EventMap \<Rightarrow> uint32" where
  "GetNextEventTime eventId m = (case find_event eventId (em_events m) of None \<Rightarrow> 0 | Some t \<Rightarrow> t)"

definition GetFirstEventTime :: "EventMap \<Rightarrow> uint32" where
  "GetFirstEventTime m = (case em_events m of [] \<Rightarrow> 0 | (t, e) # _ \<Rightarrow> t)"

definition IsInPhase :: "uint8 \<Rightarrow> EventMap \<Rightarrow> bool" where
  "IsInPhase phase m \<longleftrightarrow> phase \<le> 8 \<and> (phase = 0 \<or> has_flag (em_phase m) (push_bit (unat phase - 1) 1))"

definition GetTimeUntilEvent :: "uint32 \<Rightarrow> EventMap \<Rightarrow> uint32" where
  "GetTimeUntilEvent eventId m =
     (case find_event eventId (em_events m) of None \<Rightarrow> 0xFFFFFFFF | Some t \<Rightarrow> t - em_time m)"

section \<open>Every operation keeps the queue in order\<close>

datatype em_op =
    OpReset
  | OpUpdate uint32
  | OpSetPhase uint8
  | OpAddPhase uint8
  | OpRemovePhase uint8
  | OpSchedule uint32 uint32 uint32 uint8
  | OpReschedule uint32 uint32 uint32 uint8
  | OpRepeat uint32
  | OpExecute
  | OpDelayAll uint32
  | OpDelay uint32 uint32
  | OpCancel uint32
  | OpCancelGroup uint32

fun em_step :: "em_op \<Rightarrow> EventMap \<Rightarrow> EventMap" where
  "em_step OpReset m = em_Reset m"
| "em_step (OpUpdate t) m = em_Update t m"
| "em_step (OpSetPhase p) m = SetPhase p m"
| "em_step (OpAddPhase p) m = AddPhase p m"
| "em_step (OpRemovePhase p) m = RemovePhase p m"
| "em_step (OpSchedule i t g p) m = ScheduleEvent i t g p m"
| "em_step (OpReschedule i t g p) m = RescheduleEvent i t g p m"
| "em_step (OpRepeat t) m = em_Repeat t m"
| "em_step OpExecute m = snd (ExecuteEvent m)"
| "em_step (OpDelayAll d) m = DelayAllEvents d m"
| "em_step (OpDelay d g) m = DelayEvents d g m"
| "em_step (OpCancel i) m = CancelEvent i m"
| "em_step (OpCancelGroup g) m = CancelEventGroup g m"

definition em_inv :: "EventMap \<Rightarrow> bool" where
  "em_inv m \<longleftrightarrow> mm_sorted (em_events m)"

lemma execute_loop_sorted: "mm_sorted l \<Longrightarrow> mm_sorted (snd (snd (execute_loop now phase lastEv l)))"
  by (induction now phase lastEv l rule: execute_loop.induct) auto

lemma delay_loop_kept: "fst (delay_loop delay b l d) = filter (\<lambda>(t, e). \<not> has_flag e b) l"
  by (induction delay b l d rule: delay_loop.induct) (auto split: prod.splits)

lemma fold_mm_insert_sorted: "mm_sorted l \<Longrightarrow> mm_sorted (fold (\<lambda>(t, e). mm_insert t e) xs l)"
  by (induction xs arbitrary: l) (auto simp: mm_sorted_insert)

lemmas em_ops = em_Reset_def em_Update_def SetPhase_def AddPhase_def RemovePhase_def ScheduleEvent_def
  RescheduleEvent_def CancelEvent_def em_Repeat_def DelayAllEvents_def CancelEventGroup_def

interpretation script: guarded_machine em_step "\<lambda>_ _. True" em_inv
proof
  fix m a assume m: "em_inv m"
  have delay: "em_inv (DelayEvents d g m)" for d g
    using m delay_loop_kept [of d "group_bit g" "em_events m" "[]"]
    by (auto simp: em_inv_def DelayEvents_def mm_sorted_filter fold_mm_insert_sorted split: prod.splits)
  have exec: "em_inv (snd (ExecuteEvent m))"
    using m execute_loop_sorted [of "em_events m"]
    by (auto simp: em_inv_def ExecuteEvent_def split: prod.splits) (metis snd_conv)
  show "em_inv (em_step a m)"
    using m delay exec by (cases a) (simp_all add: em_inv_def em_ops mm_sorted_insert mm_sorted_filter)
qed

section \<open>Executing what is due\<close>

text \<open>The idiom of the scripts, \<open>while (uint32 eventId = events.ExecuteEvent())\<close>, on a map that the
  handlers leave alone.\<close>

lemma ExecuteEvent_shorter:
  "ExecuteEvent m = (r, m') \<Longrightarrow> r \<noteq> 0 \<Longrightarrow> length (em_events m') < length (em_events m)"
proof -
  have "fst (execute_loop now phase lastEv l) \<noteq> 0 \<Longrightarrow>
      length (snd (snd (execute_loop now phase lastEv l))) < length l" for now phase lastEv l
    by (induction now phase lastEv l rule: execute_loop.induct) (auto split: if_splits)
  from this [of "em_time m" "em_phase m" "em_lastEvent m" "em_events m"]
  show "ExecuteEvent m = (r, m') \<Longrightarrow> r \<noteq> 0 \<Longrightarrow> ?thesis"
    by (auto simp: ExecuteEvent_def split: prod.splits)
qed

function em_drain :: "EventMap \<Rightarrow> uint32 list \<times> EventMap" where
  "em_drain m =
     (let r = fst (ExecuteEvent m); m' = snd (ExecuteEvent m) in
      if r = 0 then ([], m') else (case em_drain m' of (rs, m'') \<Rightarrow> (r # rs, m'')))"
  by pat_completeness auto
termination
  by (relation "measure (\<lambda>m. length (em_events m))") (auto intro: ExecuteEvent_shorter simp: prod_eq_iff)

declare em_drain.simps [simp del]

definition due_active :: "EventMap \<Rightarrow> (uint32, uint32) mmap" where
  "due_active m = filter (\<lambda>(t, e). \<not> out_of_phase (em_phase m) e) (due (em_time m) (em_events m))"

definition not_due :: "uint32 \<Rightarrow> (uint32, uint32) mmap \<Rightarrow> (uint32, uint32) mmap" where
  "not_due now l = filter (\<lambda>(t, e). now < t) l"

lemma not_due_all: "mm_sorted ((t, e) # l) \<Longrightarrow> now < t \<Longrightarrow> not_due now ((t, e) # l) = (t, e) # l"
  by (auto simp: not_due_def filter_id_conv)

lemma execute_loop_cases:
  assumes "mm_sorted l"
  shows "case filter (\<lambda>(t, e). \<not> out_of_phase phase e) (due now l) of
      [] \<Rightarrow> execute_loop now phase lastEv l = (0, lastEv, not_due now l)
    | (t, e) # rest \<Rightarrow> (\<exists>l'. execute_loop now phase lastEv l = (event_id e, e, l') \<and> mm_sorted l' \<and>
        filter (\<lambda>(t, e). \<not> out_of_phase phase e) (due now l') = rest \<and> not_due now l' = not_due now l)"
  using assms
proof (induction l)
  case (Cons x l)
  obtain t e where x: "x = (t, e)" by (cases x)
  show ?case
  proof (cases "now < t")
    case True
    then show ?thesis
      using due_none [of x l now] not_due_all [of t e l now] Cons.prems by (simp add: x)
  next
    case False
    then have "due now (x # l) = x # due now l" "not_due now (x # l) = not_due now l"
      by (simp_all add: due_def not_due_def x)
    then show ?thesis
      using Cons False by (auto simp: x split: list.splits)
  qed
qed (simp add: due_def not_due_def)

lemma em_drain_due:
  "em_inv m \<Longrightarrow> \<forall>(t, e) \<in> set (due_active m). event_id e \<noteq> 0 \<Longrightarrow>
   fst (em_drain m) = map (event_id \<circ> snd) (due_active m) \<and>
   em_events (snd (em_drain m)) = not_due (em_time m) (em_events m) \<and> em_time (snd (em_drain m)) = em_time m"
proof (induction m rule: em_drain.induct)
  case (1 m)
  let ?l = "em_events m" and ?now = "em_time m" and ?phase = "em_phase m"
  note step = em_drain.simps [of m]
  have sorted: "mm_sorted ?l" using "1.prems"(1) by (simp add: em_inv_def)
  show ?case
  proof (cases "due_active m")
    case Nil
    then have "execute_loop ?now ?phase (em_lastEvent m) ?l = (0, em_lastEvent m, not_due ?now ?l)"
      using execute_loop_cases [OF sorted, where phase = ?phase and now = ?now and lastEv = "em_lastEvent m"] by (simp add: due_active_def)
    then have "ExecuteEvent m = (0, m\<lparr>em_events := not_due ?now ?l\<rparr>)"
      by (simp add: ExecuteEvent_def)
    with Nil step show ?thesis by (simp add: Let_def)
  next
    case (Cons x rest)
    obtain t e where x: "x = (t, e)" by (cases x)
    obtain l' where l': "execute_loop ?now ?phase (em_lastEvent m) ?l = (event_id e, e, l')" "mm_sorted l'"
      "filter (\<lambda>(t, e). \<not> out_of_phase ?phase e) (due ?now l') = rest" "not_due ?now l' = not_due ?now ?l"
      using execute_loop_cases [OF sorted, where phase = ?phase and now = ?now and lastEv = "em_lastEvent m"] Cons by (auto simp: due_active_def x)
    let ?m = "m\<lparr>em_lastEvent := e, em_events := l'\<rparr>"
    have ex: "ExecuteEvent m = (event_id e, ?m)" using l'(1) by (simp add: ExecuteEvent_def)
    have id: "event_id e \<noteq> 0" using "1.prems"(2) Cons by (simp add: x)
    have rest: "due_active ?m = rest" using l'(3) by (simp add: due_active_def)
    have "fst (em_drain ?m) = map (event_id \<circ> snd) (due_active ?m) \<and>
        em_events (snd (em_drain ?m)) = not_due (em_time ?m) (em_events ?m) \<and> em_time (snd (em_drain ?m)) = em_time ?m"
    proof (rule "1.IH")
      show "\<forall>(t, e) \<in> set (due_active ?m). event_id e \<noteq> 0"
        unfolding rest using "1.prems"(2) Cons by simp
    qed (use ex id l'(2) in \<open>simp_all add: em_inv_def\<close>)
    moreover note rest
    moreover have "em_drain m = (event_id e # fst (em_drain ?m), snd (em_drain ?m))"
      unfolding step ex using id by (simp add: case_prod_beta Let_def)
    ultimately show ?thesis
      using l'(4) Cons by (simp add: x)
  qed
qed

section \<open>The layout of the event data\<close>

lemma small_id_bits: "i < 0x10000 \<Longrightarrow> bit (i :: uint32) n \<Longrightarrow> n < 16"
proof -
  assume "i < 0x10000"
  then have "take_bit 16 i = i"
    by (simp add: unsigned_take_bit_eq word_unat_eq_iff take_bit_nat_eq_self_iff word_less_nat_alt)
  then show "bit i n \<Longrightarrow> n < 16" by (metis bit_take_bit_iff)
qed

lemma bit_event_data:
  "bit (event_data i g p) n \<longleftrightarrow> bit i n \<or> (g \<noteq> 0 \<and> g \<le> 8 \<and> n = unat g + 15) \<or> (p \<noteq> 0 \<and> p \<le> 8 \<and> n = unat p + 23)"
proof -
  have "g \<le> 8 \<Longrightarrow> unat g \<le> 8" "p \<le> 8 \<Longrightarrow> unat p \<le> 8"
    by (simp_all add: word_le_nat_alt)
  then show ?thesis
    by (auto simp: event_data_def group_bit_def Let_def bit_simps)
qed

lemma event_id_low: "event_id e = take_bit 16 e"
proof -
  have "(0x0000FFFF :: uint32) = mask 16" by (simp add: mask_eq_exp_minus_1)
  then show ?thesis unfolding event_id_def by (simp only: take_bit_eq_mask)
qed

lemma phase_field: "e AND 0xFF000000 = 0 \<longleftrightarrow> drop_bit 24 e = (0 :: uint32)"
proof -
  have m: "(0xFF000000 :: uint32) = push_bit 24 (mask 8)" by (simp add: mask_eq_exp_minus_1)
  have "e AND push_bit 24 (mask 8) = push_bit 24 (drop_bit 24 e)"
    by (rule bit_word_eqI) (auto simp: bit_simps)
  moreover have "push_bit 24 (drop_bit 24 e) = 0 \<longleftrightarrow> drop_bit 24 e = 0"
  proof
    assume *: "push_bit 24 (drop_bit 24 e) = 0"
    show "drop_bit 24 e = 0"
    proof (rule bit_word_eqI)
      fix n
      have "bit (push_bit 24 (drop_bit 24 e)) (24 + n) = bit (0 :: uint32) (24 + n)" by (simp only: *)
      then show "bit (drop_bit 24 e) n = bit 0 n"
        by (auto simp: bit_simps dest: bit_imp_le_length)
    qed
  qed simp
  ultimately show ?thesis unfolding m by simp
qed

lemma event_id_data: "i < 0x10000 \<Longrightarrow> event_id (event_data i g p) = i"
proof -
  assume i: "i < 0x10000"
  show ?thesis
    unfolding event_id_low
    by (rule bit_word_eqI) (use small_id_bits [OF i] in \<open>auto simp: bit_simps bit_event_data unat_eq_zero\<close>)
qed

lemma group_of_data:
  assumes "i < 0x10000" and "g \<le> 8" and "0 < h" and "h \<le> 8"
  shows "has_flag (event_data i g p) (group_bit h) \<longleftrightarrow> g = h"
proof -
  have h: "unat h \<le> 8" "0 < unat h" "unat g \<le> 8"
    using assms by (simp_all add: word_le_nat_alt word_less_nat_alt)
  have "has_flag (event_data i g p) (group_bit h) \<longleftrightarrow> bit (event_data i g p) (unat h + 15)"
    using h by (auto simp: has_flag_bit group_bit_def bit_simps)
  also have "\<dots> \<longleftrightarrow> g = h"
    using h assms small_id_bits [OF assms(1), of "unat h + 15"]
    by (auto simp: bit_event_data word_unat_eq_iff word_le_nat_alt)
  finally show ?thesis .
qed

lemma phase_of_data:
  assumes "i < 0x10000" and "p \<le> 8" and "g \<le> 8"
  shows "out_of_phase ph (event_data i g p) \<longleftrightarrow> ph \<noteq> 0 \<and> p \<noteq> 0 \<and> \<not> bit ph (unat p - 1)"
proof -
  have pg: "unat p \<le> 8" "unat g \<le> 8" using assms by (simp_all add: word_le_nat_alt)
  let ?d = "drop_bit 24 (event_data i g p)"
  have bits: "bit ?d n \<longleftrightarrow> p \<noteq> 0 \<and> n = unat p - 1" for n
    using pg assms(2) small_id_bits [OF assms(1), of "24 + n"]
    by (auto simp: bit_simps bit_event_data unat_gt_0)
  have "?d = 0 \<longleftrightarrow> p = 0"
  proof -
    have "?d = 0 \<longleftrightarrow> (\<forall>n. \<not> bit ?d n)" by (metis bit_0_eq bit_word_eqI bot_apply bot_bool_def)
    then show ?thesis unfolding bits by auto
  qed
  moreover have "?d AND ucast ph = 0 \<longleftrightarrow> p = 0 \<or> \<not> bit ph (unat p - 1)"
  proof -
    have "?d AND ucast ph = 0 \<longleftrightarrow> (\<forall>n. \<not> (bit ?d n \<and> bit (ucast ph :: uint32) n))"
      using has_flag_bit [of ?d "ucast ph"] by (auto simp: has_flag_def)
    then show ?thesis unfolding bits using pg by (auto simp: bit_simps)
  qed
  ultimately show ?thesis
    by (auto simp: out_of_phase_def phase_field)
qed

section \<open>Delaying a group\<close>

lemma mset_mm_insert: "mset (mm_insert t e l) = add_mset (t, e) (mset l)"
  by (induction t e l rule: mm_insert.induct) auto

lemma mset_fold_mm_insert: "mset (fold (\<lambda>(t, e). mm_insert t e) xs l) = mset xs + mset l"
  by (induction xs arbitrary: l) (auto simp: mset_mm_insert)

lemma delay_loop_mset:
  "mset (fst (delay_loop delay b l d)) + mset (snd (delay_loop delay b l d)) =
     mset d + image_mset (\<lambda>(t, e). (if has_flag e b then t + delay else t, e)) (mset l)"
  by (induction delay b l d rule: delay_loop.induct) (auto simp: mset_mm_insert split: prod.splits)

section \<open>Properties of the event map\<close>

text \<open>(C8) Draining the map with \<open>ExecuteEvent\<close> terminates and returns exactly the ids of the events
  whose time has come and whose phase is active, in the order of their times (insertion order among
  equals); due events of inactive phases are dropped and the events still to come are kept.  The ids
  must not be 0, which ends the loop.\<close>

theorem event_map_drain_exact:
  assumes "em_inv m" and "\<forall>(t, e) \<in> set (due_active m). event_id e \<noteq> 0"
  shows "fst (em_drain m) = map (event_id \<circ> snd) (due_active m) \<and>
    em_events (snd (em_drain m)) = not_due (em_time m) (em_events m)"
  using em_drain_due [OF assms] by simp

theorem event_map_drain_exact_witness:
  "let m = em_Update 10 (ScheduleEvent 2 30 0 0 (ScheduleEvent 1 5 0 0 EventMap_new)) in
   fst (em_drain m) = [1]"
proof -
  let ?m = "em_Update 10 (ScheduleEvent 2 30 0 0 (ScheduleEvent 1 5 0 0 EventMap_new))"
  have d: "due_active ?m = [(5, 1)]"
    by (simp add: due_active_def due_def em_Update_def ScheduleEvent_def EventMap_new_def event_data_def
        out_of_phase_def)
  have "em_inv ?m"
    by (simp add: em_inv_def em_Update_def ScheduleEvent_def EventMap_new_def)
  moreover have "event_id 1 = 1" by (simp add: event_id_def)
  ultimately show ?thesis
    using event_map_drain_exact [of ?m] d by (simp add: Let_def)
qed

text \<open>The packed event data: an event scheduled with an id of 16 bits, a group and a phase of at most
  8 is found under its id and in its group only, and is skipped exactly when the map is in some phase
  and the event's phase is not active.\<close>

theorem event_map_data_layout:
  assumes "i < 0x10000" and "g \<le> 8" and "p \<le> 8" and "0 < h" and "h \<le> 8"
  shows "event_id (event_data i g p) = i \<and>
    (has_flag (event_data i g p) (group_bit h) \<longleftrightarrow> g = h) \<and>
    (out_of_phase (em_phase m) (event_data i g p) \<longleftrightarrow> em_phase m \<noteq> 0 \<and> \<not> IsInPhase p m)"
proof -
  have "p \<noteq> 0 \<Longrightarrow> has_flag (em_phase m) (push_bit (unat p - 1) 1) \<longleftrightarrow> bit (em_phase m) (unat p - 1)"
    by (auto simp: has_flag_bit bit_simps dest: bit_imp_le_length)
  then show ?thesis
    using assms by (auto simp: event_id_data group_of_data phase_of_data IsInPhase_def)
qed

theorem event_map_data_layout_witness:
  "event_id (event_data 7 2 3) = 7 \<and> out_of_phase (em_phase (SetPhase 1 EventMap_new)) (event_data 7 2 3)"
  using event_map_data_layout [of 7 2 3 2 "SetPhase 1 EventMap_new"]
  by (auto simp: SetPhase_def EventMap_new_def IsInPhase_def has_flag_def)

text \<open>(C38) Whatever sequence of operations a script performs, the queue stays sorted by time; and delaying
  a group moves exactly the events of that group, each by the delay, and loses none.\<close>

theorem event_map_order_and_delay:
  "em_inv (fold em_step ops EventMap_new) \<and>
   (em_events m \<noteq> [] \<and> 0 < g \<and> g \<le> 8 \<longrightarrow>
    mset (em_events (DelayEvents delay g m)) =
      image_mset (\<lambda>(t, e). (if has_flag e (group_bit g) then t + delay else t, e)) (mset (em_events m)))"
proof
  show "em_inv (fold em_step ops EventMap_new)"
    by (rule script.fold_inv) (simp_all add: em_inv_def EventMap_new_def)
  show "em_events m \<noteq> [] \<and> 0 < g \<and> g \<le> 8 \<longrightarrow> mset (em_events (DelayEvents delay g m)) =
      image_mset (\<lambda>(t, e). (if has_flag e (group_bit g) then t + delay else t, e)) (mset (em_events m))"
    using delay_loop_mset [of delay "group_bit g" "em_events m" "[]"]
    by (auto simp: DelayEvents_def mset_fold_mm_insert add.commute split: prod.splits)
qed

theorem event_map_order_and_delay_witness:
  "mset (em_events (DelayEvents 100 2 (ScheduleEvent 7 5 2 0 EventMap_new))) = {#(105, event_data 7 2 0)#}"
  using event_map_order_and_delay [of "[]" "ScheduleEvent 7 5 2 0 EventMap_new" 2 100]
    group_of_data [of 7 2 2 0]
  by (simp add: ScheduleEvent_def EventMap_new_def)

end
