(* ===== verification/Util.thy ===== *)
theory Util
  imports Prelude "HOL-Library.Sublist"
begin

text \<open>
  The string helpers of \<open>Util.cpp\<close>: \<open>Tokenizer\<close>, the cleaning of chat lines, the two directions of the
  duration format, money amounts and hexadecimal dumps, together with what they use of the C library
  (decimal output of an unsigned integer, \<open>isdigit\<close>, \<open>atol\<close>, \<open>atoi\<close>).  A \<open>std::string\<close> is a list of
  characters; loops over a buffer by index keep the index.
\<close>

section \<open>Decimal numbers\<close>

definition digit_char :: "nat \<Rightarrow> char" where
  "digit_char d = char_of (48 + d)"

fun show_nat :: "nat \<Rightarrow> string" where
  "show_nat n = (if n < 10 then [digit_char n] else show_nat (n div 10) @ [digit_char (n mod 10)])"

declare show_nat.simps [simp del]

definition isdigit :: "char \<Rightarrow> bool" where
  "isdigit c \<longleftrightarrow> 48 \<le> (of_char c :: nat) \<and> (of_char c :: nat) \<le> 57"

definition digit_val :: "char \<Rightarrow> nat" where
  "digit_val c = of_char c - 48"

definition isspace :: "char \<Rightarrow> bool" where
  "isspace c \<longleftrightarrow> c = CHR '' '' \<or> (9 \<le> (of_char c :: nat) \<and> (of_char c :: nat) \<le> 13)"

fun read_digits :: "nat \<Rightarrow> string \<Rightarrow> nat" where
  "read_digits acc [] = acc"
| "read_digits acc (c # cs) = (if isdigit c then read_digits (10 * acc + digit_val c) cs else acc)"

text \<open>\<open>strtol(s, NULL, 10)\<close>: white space, an optional sign, digits; the result saturates at the bounds
  of \<open>long\<close>.\<close>

definition atol :: "string \<Rightarrow> int" where
  "atol s = (case dropWhile isspace s of
     [] \<Rightarrow> 0
   | c # cs \<Rightarrow>
       (if c = CHR ''-'' then max (- (2 ^ 63)) (- int (read_digits 0 cs))
        else if c = CHR ''+'' then min (2 ^ 63 - 1) (int (read_digits 0 cs))
        else min (2 ^ 63 - 1) (int (read_digits 0 (c # cs)))))"

definition atoi :: "string \<Rightarrow> int" where
  "atoi s = wrap32 (atol s)"

section \<open>Tokenizer\<close>

text \<open>The loop runs over the copy of the string with its terminating NUL, \<open>cur\<close> is the text from
  \<open>posold\<close> to \<open>posnew\<close>.  Reading behind the copy (only possible when the separator is NUL itself) is
  \<open>None\<close>.\<close>

fun tok_loop :: "char \<Rightarrow> string \<Rightarrow> string list \<Rightarrow> string \<Rightarrow> string list option" where
  "tok_loop sep cur storage [] = None"
| "tok_loop sep cur storage (c # cs) =
     (if c = sep then tok_loop sep [] (storage @ [cur]) cs
      else if c = CHR 0x00 then Some (if cur \<noteq> [] then storage @ [cur] else storage)
      else tok_loop sep (cur @ [c]) storage cs)"

definition Tokenizer :: "string \<Rightarrow> char \<Rightarrow> string list option" where
  "Tokenizer src sep = tok_loop sep [] [] (src @ [CHR 0x00])"

section \<open>Chat lines\<close>

definition invChars :: string where
  "invChars = [CHR '' '', CHR 0x09, CHR 0x07, CHR 0x0A]"

function strip_loop :: "nat \<Rightarrow> nat \<Rightarrow> bool \<Rightarrow> string \<Rightarrow> nat \<times> string" where
  "strip_loop pos wpos space str =
     (if pos < length str
      then if str ! pos \<in> set invChars
           then if \<not> space then strip_loop (Suc pos) (Suc wpos) True (str[wpos := CHR '' ''])
                else strip_loop (Suc pos) wpos True str
           else if wpos \<noteq> pos then strip_loop (Suc pos) (Suc wpos) False (str[wpos := str ! pos])
                else strip_loop (Suc pos) (Suc wpos) False str
      else (wpos, str))"
  by pat_completeness auto
termination by (relation "measure (\<lambda>(pos, wpos, space, str). length str - pos)") auto

declare strip_loop.simps [simp del]

definition stripLineInvisibleChars :: "string \<Rightarrow> string" where
  "stripLineInvisibleChars str =
     (let (wpos, str) = strip_loop 0 0 False str;
          str = (if wpos < length str then take wpos str else str) in
      if sublist ''|TInterface'' str then [] else str)"

section \<open>Durations and money\<close>

abbreviation MINUTE :: nat where "MINUTE \<equiv> 60"
abbreviation HOUR :: nat where "HOUR \<equiv> 60 * 60"
abbreviation DAY :: nat where "DAY \<equiv> 60 * 60 * 24"

definition secsToTimeString :: "uint64 \<Rightarrow> bool \<Rightarrow> bool \<Rightarrow> string" where
  "secsToTimeString timeInSecs shortText hoursOnly =
     (let t = unat timeInSecs;
          secs = t mod MINUTE;
          minutes = t mod HOUR div MINUTE;
          hours = t mod DAY div HOUR;
          days = t div DAY in
      (if days \<noteq> 0 then show_nat days @ (if shortText then ''d'' else '' Day(s) '') else []) @
      (if hours \<noteq> 0 \<or> hoursOnly then show_nat hours @ (if shortText then ''h'' else '' Hour(s) '') else []) @
      (if \<not> hoursOnly
       then (if minutes \<noteq> 0 then show_nat minutes @ (if shortText then ''m'' else '' Minute(s) '') else []) @
            (if secs \<noteq> 0 \<or> (days = 0 \<and> hours = 0 \<and> minutes = 0)
             then show_nat secs @ (if shortText then ''s'' else '' Second(s).'') else [])
       else []))"

fun time_loop :: "uint32 \<Rightarrow> uint32 \<Rightarrow> string \<Rightarrow> uint32" where
  "time_loop secs buffer [] = secs"
| "time_loop secs buffer (c # cs) =
     (if isdigit c then time_loop secs (buffer * 10 + of_nat (digit_val c)) cs
      else if c = CHR ''d'' then time_loop (secs + buffer * of_nat DAY) 0 cs
      else if c = CHR ''h'' then time_loop (secs + buffer * of_nat HOUR) 0 cs
      else if c = CHR ''m'' then time_loop (secs + buffer * of_nat MINUTE) 0 cs
      else if c = CHR ''s'' then time_loop (secs + buffer * 1) 0 cs
      else 0)"

definition TimeStringToSecs :: "string \<Rightarrow> uint32" where
  "TimeStringToSecs timestring = time_loop 0 0 timestring"

fun money_loop :: "int \<Rightarrow> string list \<Rightarrow> int" where
  "money_loop money [] = money"
| "money_loop money (t # ts) =
     (let g = count_list t (CHR ''g''); s = count_list t (CHR ''s''); c = count_list t (CHR ''c'') in
      if g + s + c \<noteq> 1 then 0
      else let amount = word_of_int (atoi t) :: uint32 in
           money_loop
             (if g = 1 then wrap32 (money + uint (amount * 100 * 100))
              else if s = 1 then wrap32 (money + uint (amount * 100))
              else if c = 1 then wrap32 (money + uint amount)
              else money) ts)"

definition MoneyStringToMoney :: "string \<Rightarrow> int option" where
  "MoneyStringToMoney m =
     (if \<not> (count_list m (CHR ''g'') = 1 \<or> count_list m (CHR ''s'') = 1 \<or> count_list m (CHR ''c'') = 1)
      then Some 0
      else map_option (money_loop 0) (Tokenizer m (CHR '' '')))"

section \<open>Hexadecimal dumps\<close>

definition hex_digit :: "nat \<Rightarrow> char" where
  "hex_digit d = (if d < 10 then digit_char d else char_of (55 + d))"

definition hex_byte :: "uint8 \<Rightarrow> string" where
  "hex_byte b = [hex_digit (unat b div 16), hex_digit (unat b mod 16)]"

definition ByteArrayToHexStr :: "uint8 list \<Rightarrow> bool \<Rightarrow> string" where
  "ByteArrayToHexStr bytes reverse = concat (map hex_byte (if reverse then rev bytes else bytes))"

section \<open>Digits\<close>

lemma digit_char_of [simp]: "d < 10 \<Longrightarrow> of_char (digit_char d) = 48 + d"
  by (simp add: digit_char_def)

lemma isdigit_digit_char [simp]: "d < 10 \<Longrightarrow> isdigit (digit_char d)"
  by (simp add: isdigit_def)

lemma digit_val_digit_char [simp]: "d < 10 \<Longrightarrow> digit_val (digit_char d) = d"
  by (simp add: digit_val_def)

lemma show_nat_digits: "c \<in> set (show_nat n) \<Longrightarrow> isdigit c"
  by (induction n rule: show_nat.induct) (subst (asm) (2) show_nat.simps, auto split: if_splits)

lemma show_nat_nonempty [simp]: "show_nat n \<noteq> []"
  by (subst show_nat.simps) simp

lemma read_digits_append:
  "\<forall>c \<in> set s. isdigit c \<Longrightarrow> read_digits acc (s @ t) = read_digits (read_digits acc s) t"
  by (induction s arbitrary: acc) auto

lemma read_digits_show_nat: "read_digits 0 (show_nat n) = n"
proof (induction n rule: show_nat.induct)
  case (1 n)
  show ?case
  proof (cases "n < 10")
    case False
    have "read_digits 0 (show_nat (n div 10) @ [digit_char (n mod 10)]) = n"
      using 1 False show_nat_digits by (subst read_digits_append) auto
    with False show ?thesis by (subst show_nat.simps) simp
  qed (subst show_nat.simps, simp)
qed

lemma isdigit_not_special: "isdigit c \<Longrightarrow> \<not> isspace c \<and> c \<noteq> CHR ''-'' \<and> c \<noteq> CHR ''+'' \<and> c \<noteq> CHR '' '' \<and> c \<noteq> CHR 0x00"
  by (auto simp: isdigit_def isspace_def)

lemma atol_show_nat: "n < 2 ^ 63 \<Longrightarrow> atol (show_nat n) = int n"
proof -
  assume n: "n < 2 ^ 63"
  obtain c cs where s: "show_nat n = c # cs"
    by (metis list.exhaust show_nat_nonempty)
  then have "isdigit c" using show_nat_digits [of c n] by simp
  then show ?thesis
    using isdigit_not_special [of c] n read_digits_show_nat [of n] by (simp add: atol_def s)
qed

section \<open>Tokens\<close>

definition plain_token :: "char \<Rightarrow> string \<Rightarrow> bool" where
  "plain_token sep t \<longleftrightarrow> sep \<notin> set t \<and> CHR 0x00 \<notin> set t"

lemma tok_loop_token:
  "plain_token sep t \<Longrightarrow> tok_loop sep cur storage (t @ rest) = tok_loop sep (cur @ t) storage rest"
  by (induction t arbitrary: cur) (auto simp: plain_token_def)

lemma tok_loop_tokens:
  assumes "sep \<noteq> CHR 0x00"
  shows "\<forall>t \<in> set ts. plain_token sep t \<Longrightarrow>
    tok_loop sep [] storage (concat (map (\<lambda>t. t @ [sep]) ts) @ [CHR 0x00]) = Some (storage @ ts)"
  by (induction ts arbitrary: storage) (use assms in \<open>auto simp: tok_loop_token\<close>)

lemma Tokenizer_terminated:
  "sep \<noteq> CHR 0x00 \<Longrightarrow> \<forall>t \<in> set ts. plain_token sep t \<Longrightarrow>
   Tokenizer (concat (map (\<lambda>t. t @ [sep]) ts)) sep = Some ts"
  using tok_loop_tokens [of sep ts "[]"] by (simp add: Tokenizer_def)

lemma Tokenizer_last:
  assumes "sep \<noteq> CHR 0x00" and "\<forall>t \<in> set ts. plain_token sep t" and "plain_token sep u"
  shows "Tokenizer (concat (map (\<lambda>t. t @ [sep]) ts) @ u) sep = Some (if u = [] then ts else ts @ [u])"
proof -
  have "tok_loop sep [] storage (concat (map (\<lambda>t. t @ [sep]) ts) @ u @ [CHR 0x00]) =
      Some (if u = [] then storage @ ts else storage @ ts @ [u])" for storage
    using assms(2)
    by (induction ts arbitrary: storage) (use assms in \<open>auto simp: tok_loop_token\<close>)
  then show ?thesis by (simp add: Tokenizer_def)
qed

lemma plain_show_nat: "\<not> isdigit sep \<Longrightarrow> plain_token sep (show_nat n)"
  using show_nat_digits [of _ n] isdigit_not_special by (fastforce simp: plain_token_def)

section \<open>Cleaning a chat line\<close>

text \<open>The reference: every run of invisible characters becomes one blank.\<close>

fun collapse :: "bool \<Rightarrow> string \<Rightarrow> string" where
  "collapse space [] = []"
| "collapse space (c # cs) =
     (if c \<in> set invChars then (if space then collapse True cs else CHR '' '' # collapse True cs)
      else c # collapse False cs)"

lemma strip_loop_collapse:
  "wpos \<le> pos \<Longrightarrow> pos \<le> length str \<Longrightarrow>
   fst (strip_loop pos wpos space str) \<le> length str \<and>
   length (snd (strip_loop pos wpos space str)) = length str \<and>
   take (fst (strip_loop pos wpos space str)) (snd (strip_loop pos wpos space str)) =
     take wpos str @ collapse space (drop pos str)"
proof (induction pos wpos space str rule: strip_loop.induct)
  case (1 pos wpos space str)
  show ?case
  proof (cases "pos < length str")
    case True
    then have d: "drop pos str = str ! pos # drop (Suc pos) str" and l: "wpos < length str"
      using "1.prems" by (simp_all add: Cons_nth_drop_Suc)
    have u: "take (Suc wpos) (str[wpos := c]) = take wpos str @ [c]" for c
      using l by (simp add: take_Suc_conv_app_nth)
    have e: "drop (Suc pos) (str[wpos := c]) = drop (Suc pos) str" for c
      using "1.prems" by simp
    have same: "take (Suc wpos) str = take wpos str @ [str ! pos]" if "wpos = pos"
      using l that by (simp add: take_Suc_conv_app_nth)
    note step = strip_loop.simps [of pos wpos]
    show ?thesis
    proof (cases "str ! pos \<in> set invChars")
      case inv: True
      show ?thesis
      proof (cases space)
        case True
        with "1.IH"(2) \<open>pos < length str\<close> inv "1.prems" show ?thesis by (simp add: step d)
      next
        case False
        with "1.IH"(1) True inv "1.prems" show ?thesis by (simp add: step d u e)
      qed
    next
      case vis: False
      show ?thesis
      proof (cases "wpos = pos")
        case eq: True
        with "1.IH"(4) True vis "1.prems" show ?thesis
          using strip_loop.simps [of pos pos space str] same by (simp add: d)
      next
        case False
        with "1.IH"(3) True vis "1.prems" show ?thesis by (simp add: step d u e)
      qed
    qed
  qed (use "1.prems" in \<open>simp add: strip_loop.simps [of _ wpos]\<close>)
qed

lemma strip_collapse:
  "stripLineInvisibleChars str =
     (if sublist ''|TInterface'' (collapse False str) then [] else collapse False str)"
proof -
  obtain w s where ws: "strip_loop 0 0 False str = (w, s)" by force
  then have "take w s = collapse False str" "w \<le> length s"
    using strip_loop_collapse [of 0 0 str False] by simp_all
  with ws show ?thesis
    by (auto simp: stripLineInvisibleChars_def Let_def)
qed

lemma blank_invisible: "CHR '' '' \<in> set invChars"
  by (simp add: invChars_def)

lemma collapse_idem: "collapse True (collapse True s) = collapse True s \<and> collapse b (collapse False s) = 
    (if b then collapse True s else collapse False s)"
  by (induction s arbitrary: b) (auto simp: blank_invisible)

section \<open>The duration format\<close>

lemma time_loop_digits:
  "\<forall>c \<in> set s. isdigit c \<Longrightarrow> time_loop secs (of_nat k) (s @ t) = time_loop secs (of_nat (read_digits k s)) t"
proof (induction s arbitrary: k)
  case (Cons c s)
  then show ?case using Cons.IH [of "10 * k + digit_val c"] by (simp add: mult.commute)
qed simp

lemma time_loop_number:
  "time_loop secs 0 (show_nat n @ t) = time_loop secs (of_nat n) t"
  using time_loop_digits [of "show_nat n" secs 0 t] show_nat_digits read_digits_show_nat by auto

lemma time_units: "\<not> isdigit (CHR ''d'')" "\<not> isdigit (CHR ''h'')" "\<not> isdigit (CHR ''m'')" "\<not> isdigit (CHR ''s'')"
  by (simp_all add: isdigit_def)

lemma time_split:
  "t div DAY * DAY + t mod DAY div HOUR * HOUR + t mod HOUR div MINUTE * MINUTE + t mod MINUTE = (t :: nat)"
proof -
  have "t mod DAY mod HOUR = t mod HOUR" "t mod HOUR mod MINUTE = t mod MINUTE"
    by (simp_all add: mod_mod_cancel)
  then show ?thesis
    by (metis (no_types) ab_semigroup_add_class.add_ac(1) div_mult_mod_eq)
qed

lemma time_string_words:
  "TimeStringToSecs (secsToTimeString t True False) =
     of_nat (unat t div DAY * DAY + unat t mod DAY div HOUR * HOUR + unat t mod HOUR div MINUTE * MINUTE + unat t mod MINUTE)"
  by (simp add: TimeStringToSecs_def secsToTimeString_def Let_def time_loop_number time_units algebra_simps)

section \<open>Properties of the string helpers\<close>

text \<open>The in-place loop of \<open>stripLineInvisibleChars\<close> computes the reference: every run of blanks, tabs,
  bells and line feeds becomes one blank, and a line that then contains the start of a texture link
  is emptied.  Cleaning a line a second time changes nothing.\<close>

theorem strip_line_correct:
  "stripLineInvisibleChars str =
     (if sublist ''|TInterface'' (collapse False str) then [] else collapse False str) \<and>
   stripLineInvisibleChars (stripLineInvisibleChars str) = stripLineInvisibleChars str"
  using collapse_idem [of str False] by (simp add: strip_collapse sublist_def)

text \<open>(C40) \<open>TimeStringToSecs\<close> yields, for what \<open>secsToTimeString\<close> prints in the short format, the low 32 bits of
  the 64-bit number of seconds: a duration below \<open>2 ^ 32\<close> seconds is read back exactly, a longer one modulo
  \<open>2 ^ 32\<close>, the width of the result.\<close>

theorem duration_roundtrip:
  "unat (TimeStringToSecs (secsToTimeString t True False)) = unat t mod 2 ^ 32"
  unfolding time_string_words time_split by (simp add: unsigned_ucast_eq take_bit_eq_mod)

text \<open>\<open>Tokenizer\<close> returns exactly the fields of a line of separator-terminated fields, empty fields
  included; only an unterminated empty field at the end is dropped.\<close>

theorem tokenizer_fields:
  assumes "sep \<noteq> CHR 0x00" and "\<forall>t \<in> set (u # ts). plain_token sep t"
  shows "Tokenizer (concat (map (\<lambda>t. t @ [sep]) ts) @ u) sep = Some (if u = [] then ts else ts @ [u])"
  using assms by (intro Tokenizer_last) auto

theorem tokenizer_fields_witness:
  "Tokenizer ''7  42'' (CHR '' '') = Some [''7'', '''', ''42'']"
  using tokenizer_fields [of "CHR '' ''" "''42''" "[''7'', '''']"] by (simp add: plain_token_def)

end
