(* ===== verification/ObjectDefines.thy ===== *)
theory ObjectDefines
  imports Prelude
begin

text \<open>
  Object GUIDs (\<open>ObjectDefines.h\<close>): a 64-bit word whose top 16 bits are the kind of the object; kinds with
  an entry keep it in the bits 24 to 47 above a 24-bit counter, the others have a 32-bit counter.  Also
  the pairs of smaller integers packed into one word.
\<close>

section \<open>Pairs\<close>

definition MAKE_PAIR64 :: "uint32 \<Rightarrow> uint32 \<Rightarrow> uint64" where
  "MAKE_PAIR64 l h = ucast l OR push_bit 32 (ucast h)"

definition PAIR64_HIPART :: "uint64 \<Rightarrow> uint32" where
  "PAIR64_HIPART x = ucast (drop_bit 32 x AND 0x00000000FFFFFFFF)"

definition PAIR64_LOPART :: "uint64 \<Rightarrow> uint32" where
  "PAIR64_LOPART x = ucast (x AND 0x00000000FFFFFFFF)"

definition MAKE_PAIR16 :: "uint8 \<Rightarrow> uint8 \<Rightarrow> uint16" where
  "MAKE_PAIR16 l h = ucast l OR push_bit 8 (ucast h)"

definition MAKE_PAIR32 :: "uint16 \<Rightarrow> uint16 \<Rightarrow> uint32" where
  "MAKE_PAIR32 l h = ucast l OR push_bit 16 (ucast h)"

definition PAIR32_HIPART :: "uint32 \<Rightarrow> uint16" where
  "PAIR32_HIPART x = ucast (drop_bit 16 x AND 0x0000FFFF)"

definition PAIR32_LOPART :: "uint32 \<Rightarrow> uint16" where
  "PAIR32_LOPART x = ucast (x AND 0x0000FFFF)"

section \<open>GUIDs\<close>

abbreviation HIGHGUID_ITEM :: uint32 where "HIGHGUID_ITEM \<equiv> 0x4000"
abbreviation HIGHGUID_PLAYER :: uint32 where "HIGHGUID_PLAYER \<equiv> 0x0000"
abbreviation HIGHGUID_GAMEOBJECT :: uint32 where "HIGHGUID_GAMEOBJECT \<equiv> 0xF110"
abbreviation HIGHGUID_TRANSPORT :: uint32 where "HIGHGUID_TRANSPORT \<equiv> 0xF120"
abbreviation HIGHGUID_UNIT :: uint32 where "HIGHGUID_UNIT \<equiv> 0xF130"
abbreviation HIGHGUID_PET :: uint32 where "HIGHGUID_PET \<equiv> 0xF140"
abbreviation HIGHGUID_VEHICLE :: uint32 where "HIGHGUID_VEHICLE \<equiv> 0xF150"
abbreviation HIGHGUID_DYNAMICOBJECT :: uint32 where "HIGHGUID_DYNAMICOBJECT \<equiv> 0xF100"
abbreviation HIGHGUID_CORPSE :: uint32 where "HIGHGUID_CORPSE \<equiv> 0xF101"
abbreviation HIGHGUID_MO_TRANSPORT :: uint32 where "HIGHGUID_MO_TRANSPORT \<equiv> 0x1FC0"
abbreviation HIGHGUID_GROUP :: uint32 where "HIGHGUID_GROUP \<equiv> 0x1F50"

definition MAKE_NEW_GUID :: "uint32 \<Rightarrow> uint32 \<Rightarrow> uint32 \<Rightarrow> uint64" where
  "MAKE_NEW_GUID l e h = ucast l OR push_bit 24 (ucast e) OR push_bit 48 (ucast h)"

definition GUID_HIPART :: "uint64 \<Rightarrow> uint32" where
  "GUID_HIPART guid = ucast (drop_bit 48 guid AND 0x0000FFFF)"

definition high_has_entry :: "uint32 \<Rightarrow> bool" where
  "high_has_entry h \<longleftrightarrow> h \<notin>
     {HIGHGUID_ITEM, HIGHGUID_PLAYER, HIGHGUID_DYNAMICOBJECT, HIGHGUID_CORPSE, HIGHGUID_GROUP}"

definition IsGuidHaveEnPart :: "uint64 \<Rightarrow> bool" where
  "IsGuidHaveEnPart guid = high_has_entry (GUID_HIPART guid)"

definition GUID_ENPART :: "uint64 \<Rightarrow> uint32" where
  "GUID_ENPART x = (if IsGuidHaveEnPart x then ucast (drop_bit 24 x AND 0x0000000000FFFFFF) else 0)"

definition GUID_LOPART :: "uint64 \<Rightarrow> uint32" where
  "GUID_LOPART x =
     (if IsGuidHaveEnPart x then ucast (x AND 0x0000000000FFFFFF) else ucast (x AND 0x00000000FFFFFFFF))"

definition IS_EMPTY_GUID :: "uint64 \<Rightarrow> bool" where
  "IS_EMPTY_GUID guid \<longleftrightarrow> guid = 0"

definition IS_CREATURE_GUID :: "uint64 \<Rightarrow> bool" where
  "IS_CREATURE_GUID guid \<longleftrightarrow> GUID_HIPART guid = HIGHGUID_UNIT"

definition IS_PET_GUID :: "uint64 \<Rightarrow> bool" where
  "IS_PET_GUID guid \<longleftrightarrow> GUID_HIPART guid = HIGHGUID_PET"

definition IS_VEHICLE_GUID :: "uint64 \<Rightarrow> bool" where
  "IS_VEHICLE_GUID guid \<longleftrightarrow> GUID_HIPART guid = HIGHGUID_VEHICLE"

definition IS_CRE_OR_VEH_GUID :: "uint64 \<Rightarrow> bool" where
  "IS_CRE_OR_VEH_GUID guid \<longleftrightarrow> IS_CREATURE_GUID guid \<or> IS_VEHICLE_GUID guid"

definition IS_CRE_OR_VEH_OR_PET_GUID :: "uint64 \<Rightarrow> bool" where
  "IS_CRE_OR_VEH_OR_PET_GUID guid \<longleftrightarrow> IS_CRE_OR_VEH_GUID guid \<or> IS_PET_GUID guid"

definition IS_PLAYER_GUID :: "uint64 \<Rightarrow> bool" where
  "IS_PLAYER_GUID guid \<longleftrightarrow> guid \<noteq> 0 \<and> GUID_HIPART guid = HIGHGUID_PLAYER"

definition IS_UNIT_GUID :: "uint64 \<Rightarrow> bool" where
  "IS_UNIT_GUID guid \<longleftrightarrow> IS_CRE_OR_VEH_OR_PET_GUID guid \<or> IS_PLAYER_GUID guid"

definition IS_ITEM_GUID :: "uint64 \<Rightarrow> bool" where
  "IS_ITEM_GUID guid \<longleftrightarrow> GUID_HIPART guid = HIGHGUID_ITEM"

definition IS_GAMEOBJECT_GUID :: "uint64 \<Rightarrow> bool" where
  "IS_GAMEOBJECT_GUID guid \<longleftrightarrow> GUID_HIPART guid = HIGHGUID_GAMEOBJECT"

definition IS_DYNAMICOBJECT_GUID :: "uint64 \<Rightarrow> bool" where
  "IS_DYNAMICOBJECT_GUID guid \<longleftrightarrow> GUID_HIPART guid = HIGHGUID_DYNAMICOBJECT"

definition IS_CORPSE_GUID :: "uint64 \<Rightarrow> bool" where
  "IS_CORPSE_GUID guid \<longleftrightarrow> GUID_HIPART guid = HIGHGUID_CORPSE"

definition IS_TRANSPORT_GUID :: "uint64 \<Rightarrow> bool" where
  "IS_TRANSPORT_GUID guid \<longleftrightarrow> GUID_HIPART guid = HIGHGUID_TRANSPORT"

definition IS_MO_TRANSPORT_GUID :: "uint64 \<Rightarrow> bool" where
  "IS_MO_TRANSPORT_GUID guid \<longleftrightarrow> GUID_HIPART guid = HIGHGUID_MO_TRANSPORT"

definition IS_GROUP_GUID :: "uint64 \<Rightarrow> bool" where
  "IS_GROUP_GUID guid \<longleftrightarrow> GUID_HIPART guid = HIGHGUID_GROUP"

definition GetLogNameForGuid :: "uint64 \<Rightarrow> string" where
  "GetLogNameForGuid guid =
     (let h = GUID_HIPART guid in
      if h = HIGHGUID_ITEM then ''item''
      else if h = HIGHGUID_PLAYER then (if guid \<noteq> 0 then ''player'' else ''none'')
      else if h = HIGHGUID_GAMEOBJECT then ''gameobject''
      else if h = HIGHGUID_TRANSPORT then ''transport''
      else if h = HIGHGUID_UNIT then ''creature''
      else if h = HIGHGUID_PET then ''pet''
      else if h = HIGHGUID_VEHICLE then ''vehicle''
      else if h = HIGHGUID_DYNAMICOBJECT then ''dynobject''
      else if h = HIGHGUID_CORPSE then ''corpse''
      else if h = HIGHGUID_MO_TRANSPORT then ''mo_transport''
      else if h = HIGHGUID_GROUP then ''group''
      else ''<unknown>'')"

section \<open>The fields of a GUID\<close>

lemma guid_masks:
  "(0x00000000FFFFFFFF :: uint64) = mask 32" "(0x0000000000FFFFFF :: uint64) = mask 24" "(0x0000FFFF :: uint64) = mask 16"
  by (simp_all add: mask_eq_exp_minus_1)

lemma small_bits: "(w :: 'a::len word) < 2 ^ k \<Longrightarrow> k < LENGTH('a) \<Longrightarrow> bit w n \<Longrightarrow> n < k"
proof -
  assume "w < 2 ^ k" "k < LENGTH('a)"
  moreover have "unat (2 ^ k :: 'a word) = 2 ^ k" if "k < LENGTH('a)"
    using that unat_of_nat [of "2 ^ k", where 'a = 'a] by (simp add: take_bit_eq_mod)
  ultimately have "take_bit k w = w"
    by (simp add: unsigned_take_bit_eq word_unat_eq_iff take_bit_nat_eq_self_iff word_less_nat_alt)
  then show "bit w n \<Longrightarrow> n < k" by (metis bit_take_bit_iff)
qed

lemma MAKE_NEW_GUID_high:
  assumes "h < 2 ^ 16" and "e < 2 ^ 24"
  shows "GUID_HIPART (MAKE_NEW_GUID l e h) = h"
  unfolding GUID_HIPART_def MAKE_NEW_GUID_def guid_masks
  by (rule bit_word_eqI)
    (use small_bits [OF assms(1)] small_bits [OF assms(2)] in
      \<open>fastforce simp: bit_simps dest: bit_imp_le_length\<close>)

lemma MAKE_NEW_GUID_entry:
  assumes "l < 2 ^ 24" and "e < 2 ^ 24"
  shows "ucast (drop_bit 24 (MAKE_NEW_GUID l e h) AND 0x0000000000FFFFFF) = e"
    and "ucast (MAKE_NEW_GUID l e h AND 0x0000000000FFFFFF) = l"
  unfolding MAKE_NEW_GUID_def guid_masks
  by (rule bit_word_eqI;
      use small_bits [OF assms(1)] small_bits [OF assms(2)] in \<open>fastforce simp: bit_simps\<close>)+

lemma MAKE_NEW_GUID_counter: "ucast (MAKE_NEW_GUID l 0 h AND 0x00000000FFFFFFFF) = l"
  unfolding MAKE_NEW_GUID_def guid_masks
  by (rule bit_word_eqI) (auto simp: bit_simps)

section \<open>Properties of GUIDs\<close>

text \<open>The parts of a new GUID can be read back: the kind always, counter and entry of 24 bits for the
  kinds that have an entry, the whole 32-bit counter for the others.\<close>

theorem guid_parts_roundtrip:
  assumes "h < 2 ^ 16"
  shows "(high_has_entry h \<and> l < 2 ^ 24 \<and> e < 2 ^ 24 \<longrightarrow>
      GUID_HIPART (MAKE_NEW_GUID l e h) = h \<and> GUID_ENPART (MAKE_NEW_GUID l e h) = e \<and>
      GUID_LOPART (MAKE_NEW_GUID l e h) = l) \<and>
    (\<not> high_has_entry h \<longrightarrow>
      GUID_HIPART (MAKE_NEW_GUID l 0 h) = h \<and> GUID_ENPART (MAKE_NEW_GUID l 0 h) = 0 \<and>
      GUID_LOPART (MAKE_NEW_GUID l 0 h) = l)"
  using assms
  by (simp add: GUID_ENPART_def GUID_LOPART_def IsGuidHaveEnPart_def MAKE_NEW_GUID_high
      MAKE_NEW_GUID_entry MAKE_NEW_GUID_counter)

theorem guid_parts_roundtrip_witness:
  "GUID_ENPART (MAKE_NEW_GUID 5 31146 HIGHGUID_UNIT) = 31146 \<and> GUID_LOPART (MAKE_NEW_GUID 77 0 HIGHGUID_PLAYER) = 77"
  using guid_parts_roundtrip [of HIGHGUID_UNIT 5 31146] guid_parts_roundtrip [of HIGHGUID_PLAYER 77 0]
  by (simp add: high_has_entry_def)

end
