(* ===== verification/Utf8.thy ===== *)
theory Utf8
  imports Prelude
begin

text \<open>
  Conversions between UTF-8 strings and wide strings (\<open>Util.cpp\<close>, \<open>Util.h\<close>) and the normalisation of player
  names (\<open>ObjectMgr.cpp\<close>).  The decoder and the UTF-8 encoder of the bundled utf8cpp library are
  parameters (\<open>utf8_lib\<close>); its \<open>utf8to16\<close> is a loop over the decoded code points that writes one unit, or a
  surrogate pair for code points above \<open>0xFFFF\<close>.  The callers size their buffers by the number of code
  points, so that writing more units than the buffer holds is the error \<open>BufferOverflow\<close>.
\<close>

section \<open>Wide characters\<close>

type_synonym wchar = uint32

definition wcharToUpper :: "wchar \<Rightarrow> wchar" where
  "wcharToUpper w =
     (if 0x61 \<le> w \<and> w \<le> 0x7A then w - 0x20
      else if w = 0x00DF then 0x1E9E
      else if 0x00E0 \<le> w \<and> w \<le> 0x00F6 then w - 0x20
      else if 0x00F8 \<le> w \<and> w \<le> 0x00FE then w - 0x20
      else if 0x0101 \<le> w \<and> w \<le> 0x012F \<and> w mod 2 = 1 then w - 1
      else if 0x0430 \<le> w \<and> w \<le> 0x044F then w - 0x20
      else if w = 0x0451 then 0x0401
      else w)"

definition wcharToLower :: "wchar \<Rightarrow> wchar" where
  "wcharToLower w =
     (if 0x41 \<le> w \<and> w \<le> 0x5A then w + 0x20
      else if 0x00C0 \<le> w \<and> w \<le> 0x00D6 then w + 0x20
      else if 0x00D8 \<le> w \<and> w \<le> 0x00DE then w + 0x20
      else if 0x0100 \<le> w \<and> w \<le> 0x012E \<and> w mod 2 = 0 then w + 1
      else if w = 0x1E9E then 0x00DF
      else if w = 0x0401 then 0x0451
      else if 0x0410 \<le> w \<and> w \<le> 0x042F then w + 0x20
      else w)"

definition wstrToLower :: "wchar list \<Rightarrow> wchar list" where
  "wstrToLower = map wcharToLower"

definition wstrToUpper :: "wchar list \<Rightarrow> wchar list" where
  "wstrToUpper = map wcharToUpper"

section \<open>Conversions\<close>

record utf8_lib =
  utf8_decode :: "string \<Rightarrow> uint32 list option"
  utf16to8 :: "wchar list \<Rightarrow> string option"

datatype utf8_error = BufferOverflow

text \<open>One step of \<open>utf8::utf8to16\<close>.\<close>

definition utf16_units :: "uint32 \<Rightarrow> wchar list" where
  "utf16_units cp =
     (if cp > 0xFFFF
      then [(drop_bit 10 cp + 0xD7C0) AND 0xFFFF, ((cp AND 0x3FF) + 0xDC00) AND 0xFFFF]
      else [cp])"

definition utf8to16 :: "uint32 list \<Rightarrow> wchar list" where
  "utf8to16 cps = concat (map utf16_units cps)"

text \<open>\<open>Utf8toWStr(utf8str, csize, wstr, wsize)\<close> on a buffer of \<open>cap\<close> characters: \<open>None\<close> is the result \<open>false\<close>;
  the text is what stands before the terminating NUL the function writes behind \<open>len\<close> characters.\<close>

definition Utf8toWStr_buf :: "utf8_lib \<Rightarrow> nat \<Rightarrow> nat \<Rightarrow> string \<Rightarrow> utf8_error + wchar list option" where
  "Utf8toWStr_buf lib cap wsize s =
     (case utf8_decode lib s of
        None \<Rightarrow> Inr None
      | Some cps \<Rightarrow>
          (let len = length cps in
           if len > wsize then Inr None
           else if length (utf8to16 cps) > cap \<or> len \<ge> cap then Inl BufferOverflow
           else Inr (Some (take len (utf8to16 cps)))))"

text \<open>\<open>Utf8toWStr(string, wstring&)\<close>: the wide string is resized to the number of code points.\<close>

definition Utf8toWStr :: "utf8_lib \<Rightarrow> string \<Rightarrow> utf8_error + wchar list option" where
  "Utf8toWStr lib s =
     (case utf8_decode lib s of
        None \<Rightarrow> Inr None
      | Some cps \<Rightarrow>
          (if length cps \<noteq> 0
           then if length (utf8to16 cps) > length cps then Inl BufferOverflow else Inr (Some (utf8to16 cps))
           else Inr (Some [])))"

definition WStrToUtf8 :: "utf8_lib \<Rightarrow> wchar list \<Rightarrow> string option" where
  "WStrToUtf8 lib w = (if w \<noteq> [] then utf16to8 lib w else Some [])"

definition Utf8FitTo :: "utf8_lib \<Rightarrow> string \<Rightarrow> wchar list \<Rightarrow> utf8_error + bool" where
  "Utf8FitTo lib str search =
     (case Utf8toWStr lib str of
        Inl e \<Rightarrow> Inl e
      | Inr None \<Rightarrow> Inr False
      | Inr (Some temp) \<Rightarrow> Inr (\<exists>i \<le> length temp. take (length search) (drop i (wstrToLower temp)) = search))"

definition MAX_INTERNAL_PLAYER_NAME :: nat where
  "MAX_INTERNAL_PLAYER_NAME = 15"

definition normalizePlayerName :: "utf8_lib \<Rightarrow> string \<Rightarrow> utf8_error + string option" where
  "normalizePlayerName lib name =
     (if name = [] then Inr None
      else case Utf8toWStr_buf lib (MAX_INTERNAL_PLAYER_NAME + 1) MAX_INTERNAL_PLAYER_NAME name of
             Inl e \<Rightarrow> Inl e
           | Inr None \<Rightarrow> Inr None
           | Inr (Some w) \<Rightarrow>
               Inr (WStrToUtf8 lib
                 (case w of [] \<Rightarrow> [] | c # cs \<Rightarrow> wcharToUpper c # map wcharToLower cs)))"

section \<open>Sizes\<close>

definition astral :: "uint32 list \<Rightarrow> nat" where
  "astral cps = length (filter (\<lambda>cp. cp > 0xFFFF) cps)"

lemma length_utf8to16: "length (utf8to16 cps) = length cps + astral cps"
  by (induction cps) (simp_all add: utf8to16_def utf16_units_def astral_def)

lemma utf8to16_plain: "astral cps = 0 \<Longrightarrow> utf8to16 cps = cps"
  by (induction cps) (auto simp: utf8to16_def utf16_units_def astral_def split: if_splits)

section \<open>Case folding on code point numbers\<close>

definition lower_nat :: "nat \<Rightarrow> nat" where
  "lower_nat n =
     (if 0x41 \<le> n \<and> n \<le> 0x5A then n + 0x20
      else if 0x00C0 \<le> n \<and> n \<le> 0x00D6 then n + 0x20
      else if 0x00D8 \<le> n \<and> n \<le> 0x00DE then n + 0x20
      else if 0x0100 \<le> n \<and> n \<le> 0x012E \<and> n mod 2 = 0 then n + 1
      else if n = 0x1E9E then 0x00DF
      else if n = 0x0401 then 0x0451
      else if 0x0410 \<le> n \<and> n \<le> 0x042F then n + 0x20
      else n)"

definition upper_nat :: "nat \<Rightarrow> nat" where
  "upper_nat n =
     (if 0x61 \<le> n \<and> n \<le> 0x7A then n - 0x20
      else if n = 0x00DF then 0x1E9E
      else if 0x00E0 \<le> n \<and> n \<le> 0x00F6 then n - 0x20
      else if 0x00F8 \<le> n \<and> n \<le> 0x00FE then n - 0x20
      else if 0x0101 \<le> n \<and> n \<le> 0x012F \<and> n mod 2 = 1 then n - 1
      else if 0x0430 \<le> n \<and> n \<le> 0x044F then n - 0x20
      else if n = 0x0451 then 0x0401
      else n)"

lemma unat_parity: "w mod 2 = (of_nat k :: wchar) \<longleftrightarrow> unat w mod 2 = k" if "k < 2"
  using that by (simp add: word_unat_eq_iff unat_mod unat_of_nat take_bit_nat_eq_self)

lemma unat_minus_const: "k \<le> unat w \<Longrightarrow> k < 2 ^ 32 \<Longrightarrow> unat (w - of_nat k :: wchar) = unat w - k"
  by (subst unat_sub) (simp_all add: word_le_nat_alt unat_of_nat take_bit_nat_eq_self)

lemma unat_plus_const: "unat w + k < 2 ^ 32 \<Longrightarrow> unat (w + of_nat k :: wchar) = unat w + k"
  by (simp add: unat_word_ariths unat_of_nat take_bit_nat_eq_self)

lemma unat_lower: "unat (wcharToLower w) = lower_nat (unat w)"
  using unat_plus_const [where w = w and k = 32] unat_plus_const [where w = w and k = 1] unat_parity [where w = w and k = 0]
  by (auto simp: wcharToLower_def lower_nat_def word_le_nat_alt word_unat_eq_iff)

lemma unat_upper: "unat (wcharToUpper w) = upper_nat (unat w)"
  using unat_minus_const [where w = w and k = 32] unat_minus_const [where w = w and k = 1] unat_parity [where w = w and k = 1]
  by (auto simp: wcharToUpper_def upper_nat_def word_le_nat_alt word_unat_eq_iff)

lemma lower_nat_idem: "lower_nat (lower_nat n) = lower_nat n"
  unfolding lower_nat_def by (simp split: if_split) presburger

lemma lower_upper_nat:
  assumes "upper_nat n \<noteq> n"
  shows "lower_nat (upper_nat n) = n"
proof -
  consider "0x61 \<le> n" "n \<le> 0x7A" | "n = 0x00DF" | "0x00E0 \<le> n" "n \<le> 0x00F6" | "0x00F8 \<le> n" "n \<le> 0x00FE"
    | "0x0101 \<le> n" "n \<le> 0x012F" "n mod 2 = 1" | "0x0430 \<le> n" "n \<le> 0x044F" | "n = 0x0451"
    using assms unfolding upper_nat_def by argo
  then show ?thesis
  proof cases
    case 5
    define m where "m = n - 1"
    have "n = m + 1" using 5 by (simp add: m_def)
    moreover from this have "m mod 2 = 0" using 5 by presburger
    ultimately show ?thesis using 5 by (simp add: lower_nat_def upper_nat_def)
  qed (simp_all add: lower_nat_def upper_nat_def, presburger+)
qed

section \<open>Properties of the conversions\<close>

text \<open>(C37) Converting a valid UTF-8 string to a wide string writes past the end of the string exactly when it
  has a code point above \<open>0xFFFF\<close>; the normalisation of a player name of at most 15 code points overruns its
  buffer of 16 characters exactly when the code points and those above \<open>0xFFFF\<close> together are more than 16.
  Without such code points both conversions are safe and keep every character.\<close>

theorem utf8_conversion_overflow:
  assumes "utf8_decode lib s = Some cps"
  shows "(Utf8toWStr lib s = Inl BufferOverflow \<longleftrightarrow> 0 < astral cps) \<and>
    (s \<noteq> [] \<and> length cps \<le> 15 \<longrightarrow>
       (normalizePlayerName lib s = Inl BufferOverflow \<longleftrightarrow> 16 < length cps + astral cps)) \<and>
    (astral cps = 0 \<longrightarrow> Utf8toWStr lib s = Inr (Some cps))"
proof -
  have "astral cps \<le> length cps" by (simp add: astral_def)
  with assms show ?thesis
    by (auto simp: Utf8toWStr_def normalizePlayerName_def Utf8toWStr_buf_def Let_def length_utf8to16
        utf8to16_plain MAX_INTERNAL_PLAYER_NAME_def split: list.splits)
qed

theorem utf8_conversion_overflow_witness:
  "let lib = \<lparr>utf8_decode = (\<lambda>_. Some (replicate 9 0x1F600)), utf16to8 = (\<lambda>_. None)\<rparr> in
   normalizePlayerName lib ''x'' = Inl BufferOverflow"
  using utf8_conversion_overflow [of "\<lparr>utf8_decode = (\<lambda>_. Some (replicate 9 0x1F600)), utf16to8 = (\<lambda>_. None)\<rparr>"
      "''x''" "replicate 9 0x1F600"]
  by (simp add: astral_def filter_replicate)

text \<open>Lowering is idempotent and undoes raising on every letter it maps, so that names that differ only
  in the case of these letters have one key.\<close>

theorem wide_case_folding:
  "wstrToLower (wstrToLower w) = wstrToLower w \<and>
   (wcharToUpper c \<noteq> c \<longrightarrow> wcharToLower (wcharToUpper c) = c)"
proof -
  have "wcharToLower (wcharToLower x) = wcharToLower x" for x
    by (simp add: word_unat_eq_iff unat_lower lower_nat_idem)
  moreover have "wcharToUpper c \<noteq> c \<Longrightarrow> wcharToLower (wcharToUpper c) = c"
    by (simp add: word_unat_eq_iff unat_lower unat_upper lower_upper_nat)
  ultimately show ?thesis by (simp add: wstrToLower_def)
qed

theorem wide_case_folding_witness: "wcharToLower (wcharToUpper 0x0451) = 0x0451"
  using wide_case_folding [where c = "0x0451"] by (simp add: wcharToUpper_def)

end
