(* ===== verification/Channel.thy ===== *)
theory Channel
  imports WorldPacket Util ObjectDefines
begin

text \<open>
  Chat channels (\<open>Channel.h\<close>, \<open>Channel.cpp\<close>).  A channel is a record with the members in a map ordered by
  GUID and the banned players in a set.  Every operation returns the new channel and the list of its
  effects in order: packets handed to sessions, calls of \<open>JoinedChannel\<close> and \<open>LeftChannel\<close>, database
  statements.  What the operations ask of the rest of the server (finding players, their permissions,
  team, ignore lists, the configuration, the built-in channel table) is the record \<open>ChatEnv\<close>.
\<close>

section \<open>The server around a channel\<close>

record ChatPlayer =
  cp_guid :: uint64
  cp_name :: string
  cp_team :: uint32
  cp_security :: uint8
  cp_perm :: "uint32 \<Rightarrow> bool"
  cp_grouped :: bool
  cp_gmVisible :: bool
  cp_ignores :: "uint32 \<Rightarrow> bool"
  cp_visibleFor :: "uint64 \<Rightarrow> bool"
  cp_chatTag :: uint8

record ChatEnv =
  FindPlayerByName :: "string \<Rightarrow> ChatPlayer option"
  FindConnectedPlayer :: "uint64 \<Rightarrow> ChatPlayer option"
  GetPlayerNameByGUID :: "uint64 \<Rightarrow> string option"
  ChatChannelsStore :: "uint32 \<Rightarrow> uint32 option"
  RESTRICTED_LFG_CHANNEL :: bool
  ALLOW_TWO_SIDE_INTERACTION_CHANNEL :: bool
  PRESERVE_CUSTOM_CHANNELS :: bool
  PRESERVE_CUSTOM_CHANNEL_DURATION :: uint32
  GM_LEVEL_IN_WHO_LIST :: uint32

abbreviation RBAC_PERM_TWO_SIDE_INTERACTION_CHANNEL :: uint32 where "RBAC_PERM_TWO_SIDE_INTERACTION_CHANNEL \<equiv> 26"
abbreviation RBAC_PERM_WHO_SEE_ALL_SEC_LEVELS :: uint32 where "RBAC_PERM_WHO_SEE_ALL_SEC_LEVELS \<equiv> 35"
abbreviation RBAC_PERM_SILENTLY_JOIN_CHANNEL :: uint32 where "RBAC_PERM_SILENTLY_JOIN_CHANNEL \<equiv> 45"
abbreviation RBAC_PERM_CHANGE_CHANNEL_NOT_MODERATOR :: uint32 where "RBAC_PERM_CHANGE_CHANNEL_NOT_MODERATOR \<equiv> 46"
abbreviation RBAC_PERM_COMMAND_GM_CHAT :: uint32 where "RBAC_PERM_COMMAND_GM_CHAT \<equiv> 372"

section \<open>Channels\<close>

record PlayerInfo =
  pi_player :: uint64
  pi_flags :: uint8

abbreviation MEMBER_FLAG_OWNER :: uint8 where "MEMBER_FLAG_OWNER \<equiv> 0x01"
abbreviation MEMBER_FLAG_MODERATOR :: uint8 where "MEMBER_FLAG_MODERATOR \<equiv> 0x02"
abbreviation MEMBER_FLAG_MUTED :: uint8 where "MEMBER_FLAG_MUTED \<equiv> 0x08"

definition IsOwner :: "PlayerInfo \<Rightarrow> bool" where
  "IsOwner i = has_flag (pi_flags i) MEMBER_FLAG_OWNER"

definition PI_SetOwner :: "bool \<Rightarrow> PlayerInfo \<Rightarrow> PlayerInfo" where
  "PI_SetOwner state i = i\<lparr>pi_flags := set_flag (pi_flags i) MEMBER_FLAG_OWNER state\<rparr>"

definition IsModerator :: "PlayerInfo \<Rightarrow> bool" where
  "IsModerator i = has_flag (pi_flags i) MEMBER_FLAG_MODERATOR"

definition PI_SetModerator :: "bool \<Rightarrow> PlayerInfo \<Rightarrow> PlayerInfo" where
  "PI_SetModerator state i = i\<lparr>pi_flags := set_flag (pi_flags i) MEMBER_FLAG_MODERATOR state\<rparr>"

definition IsMuted :: "PlayerInfo \<Rightarrow> bool" where
  "IsMuted i = has_flag (pi_flags i) MEMBER_FLAG_MUTED"

definition PI_SetMuted :: "bool \<Rightarrow> PlayerInfo \<Rightarrow> PlayerInfo" where
  "PI_SetMuted state i = i\<lparr>pi_flags := set_flag (pi_flags i) MEMBER_FLAG_MUTED state\<rparr>"

type_synonym PlayerContainer = "(uint64, PlayerInfo) omap"

record Channel =
  ch_announce :: bool
  ch_ownership :: bool
  ch_IsSaved :: bool
  ch_flags :: uint8
  ch_channelId :: uint32
  ch_Team :: uint32
  ch_ownerGUID :: uint64
  ch_name :: string
  ch_password :: string
  playersStore :: PlayerContainer
  bannedStore :: "uint64 oset"

datatype chan_effect =
    Send uint64 WorldPacket
  | JoinedChannel uint64
  | LeftChannel uint64
  | CHAR_UPD_CHANNEL bool bool string string string uint32
  | CHAR_UPD_CHANNEL_USAGE string uint32
  | CHAR_INS_CHANNEL string uint32
  | CHAR_DEL_OLD_CHANNELS uint32
  | CHAR_UPD_CHANNEL_OWNERSHIP bool string
  | SendSysMessage uint64 uint32 string
  | AssertFailure

text \<open>\<open>playersStore[guid]\<close>: reading a missing entry yields a zeroed one, and the non-const access creates
  it.\<close>

definition player_at :: "PlayerContainer \<Rightarrow> uint64 \<Rightarrow> PlayerInfo" where
  "player_at s guid = (case om_get s guid of Some i \<Rightarrow> i | None \<Rightarrow> \<lparr>pi_player = 0, pi_flags = 0\<rparr>)"

definition player_mod :: "(PlayerInfo \<Rightarrow> PlayerInfo) \<Rightarrow> uint64 \<Rightarrow> Channel \<Rightarrow> Channel" where
  "player_mod f guid c = c\<lparr>playersStore := om_put guid (f (player_at (playersStore c) guid)) (playersStore c)\<rparr>"

definition IsConstant :: "Channel \<Rightarrow> bool" where
  "IsConstant c \<longleftrightarrow> ch_channelId c \<noteq> 0"

definition IsOn :: "Channel \<Rightarrow> uint64 \<Rightarrow> bool" where
  "IsOn c who \<longleftrightarrow> om_get (playersStore c) who \<noteq> None"

definition IsBanned :: "Channel \<Rightarrow> uint64 \<Rightarrow> bool" where
  "IsBanned c guid = os_mem (bannedStore c) guid"

definition GetNumPlayers :: "Channel \<Rightarrow> uint32" where
  "GetNumPlayers c = of_nat (length (playersStore c))"

definition GetPlayerFlags :: "Channel \<Rightarrow> uint64 \<Rightarrow> uint8" where
  "GetPlayerFlags c guid = (case om_get (playersStore c) guid of Some i \<Rightarrow> pi_flags i | None \<Rightarrow> 0)"

definition SetPassword :: "string \<Rightarrow> Channel \<Rightarrow> Channel" where
  "SetPassword npassword c = c\<lparr>ch_password := npassword\<rparr>"

definition SetAnnounce :: "bool \<Rightarrow> Channel \<Rightarrow> Channel" where
  "SetAnnounce nannounce c = c\<lparr>ch_announce := nannounce\<rparr>"

definition SetOwnership :: "bool \<Rightarrow> Channel \<Rightarrow> Channel" where
  "SetOwnership ownership c = c\<lparr>ch_ownership := ownership\<rparr>"

section \<open>Construction and the database\<close>

abbreviation CHANNEL_FLAG_CUSTOM :: uint8 where "CHANNEL_FLAG_CUSTOM \<equiv> 0x01"
abbreviation CHANNEL_FLAG_TRADE :: uint8 where "CHANNEL_FLAG_TRADE \<equiv> 0x04"
abbreviation CHANNEL_FLAG_NOT_LFG :: uint8 where "CHANNEL_FLAG_NOT_LFG \<equiv> 0x08"
abbreviation CHANNEL_FLAG_GENERAL :: uint8 where "CHANNEL_FLAG_GENERAL \<equiv> 0x10"
abbreviation CHANNEL_FLAG_CITY :: uint8 where "CHANNEL_FLAG_CITY \<equiv> 0x20"
abbreviation CHANNEL_FLAG_LFG :: uint8 where "CHANNEL_FLAG_LFG \<equiv> 0x40"

text \<open>A row of the \<open>channels\<close> table: announce, ownership, password, banned list (which may be NULL).\<close>

type_synonym channel_row = "bool \<times> bool \<times> string \<times> string option"

definition parse_bans :: "string list \<Rightarrow> uint64 oset" where
  "parse_bans tokens =
     fold (\<lambda>t s. let guid = word_of_int (atol t) :: uint64 in if guid \<noteq> 0 then os_insert guid s else s) tokens []"

definition load_bans :: "string option \<Rightarrow> uint64 oset" where
  "load_bans db_BannedList =
     (case db_BannedList of
        None \<Rightarrow> []
      | Some s \<Rightarrow> (case Tokenizer s (CHR '' '') of Some tokens \<Rightarrow> parse_bans tokens | None \<Rightarrow> []))"

definition Channel_new :: "ChatEnv \<Rightarrow> channel_row option \<Rightarrow> string \<Rightarrow> uint32 \<Rightarrow> uint32 \<Rightarrow> Channel \<times> chan_effect list" where
  "Channel_new env row name channelId team =
     (let c = \<lparr>ch_announce = True, ch_ownership = True, ch_IsSaved = False, ch_flags = 0, ch_channelId = channelId,
               ch_Team = team, ch_ownerGUID = 0, ch_name = name, ch_password = [], playersStore = [], bannedStore = []\<rparr> in
      case ChatChannelsStore env channelId of
        Some dbc \<Rightarrow>
          (c\<lparr>ch_announce := False, ch_ownership := False,
             ch_flags := CHANNEL_FLAG_GENERAL OR
               (if has_flag dbc 0x00008 then CHANNEL_FLAG_TRADE else 0) OR
               (if has_flag dbc 0x00020 then CHANNEL_FLAG_CITY else 0) OR
               (if has_flag dbc 0x40000 then CHANNEL_FLAG_LFG else CHANNEL_FLAG_NOT_LFG)\<rparr>, [])
      | None \<Rightarrow>
          (let c = c\<lparr>ch_flags := CHANNEL_FLAG_CUSTOM\<rparr> in
           if PRESERVE_CUSTOM_CHANNELS env
           then case row of
                  Some (announce, ownership, password, bans) \<Rightarrow>
                    (c\<lparr>ch_announce := announce, ch_ownership := ownership, ch_password := password,
                       bannedStore := load_bans bans, ch_IsSaved := True\<rparr>, [])
                | None \<Rightarrow> (c\<lparr>ch_IsSaved := True\<rparr>, [CHAR_INS_CHANNEL name team])
           else (c, [])))"

definition ban_list_string :: "uint64 oset \<Rightarrow> string" where
  "ban_list_string bans = concat (map (\<lambda>g. show_nat (unat g) @ '' '') bans)"

definition UpdateChannelInDB :: "Channel \<Rightarrow> chan_effect list" where
  "UpdateChannelInDB c =
     (if ch_IsSaved c
      then [CHAR_UPD_CHANNEL (ch_announce c) (ch_ownership c) (ch_password c) (ban_list_string (bannedStore c))
              (ch_name c) (ch_Team c)]
      else [])"

definition UpdateChannelUseageInDB :: "Channel \<Rightarrow> chan_effect list" where
  "UpdateChannelUseageInDB c = [CHAR_UPD_CHANNEL_USAGE (ch_name c) (ch_Team c)]"

definition CleanOldChannelsInDB :: "ChatEnv \<Rightarrow> chan_effect list" where
  "CleanOldChannelsInDB env =
     (if PRESERVE_CUSTOM_CHANNEL_DURATION env > 0
      then [CHAR_DEL_OLD_CHANNELS (PRESERVE_CUSTOM_CHANNEL_DURATION env * 86400)] else [])"

section \<open>Sending\<close>

definition SendToAll :: "ChatEnv \<Rightarrow> Channel \<Rightarrow> WorldPacket \<Rightarrow> uint64 \<Rightarrow> chan_effect list" where
  "SendToAll env c data guid =
     concat (map (\<lambda>(k, i). case FindConnectedPlayer env k of
         None \<Rightarrow> []
       | Some p \<Rightarrow> (if guid = 0 \<or> \<not> cp_ignores p (GUID_LOPART guid) then [Send k data] else []))
       (playersStore c))"

definition SendToAllButOne :: "ChatEnv \<Rightarrow> Channel \<Rightarrow> WorldPacket \<Rightarrow> uint64 \<Rightarrow> chan_effect list" where
  "SendToAllButOne env c data who =
     concat (map (\<lambda>(k, i). if k \<noteq> who \<and> FindConnectedPlayer env k \<noteq> None then [Send k data] else [])
       (playersStore c))"

definition SendToOne :: "ChatEnv \<Rightarrow> WorldPacket \<Rightarrow> uint64 \<Rightarrow> chan_effect list" where
  "SendToOne env data who = (if FindConnectedPlayer env who \<noteq> None then [Send who data] else [])"

abbreviation SMSG_MESSAGECHAT :: uint16 where "SMSG_MESSAGECHAT \<equiv> 0x096"
abbreviation SMSG_CHANNEL_NOTIFY :: uint16 where "SMSG_CHANNEL_NOTIFY \<equiv> 0x099"
abbreviation SMSG_CHANNEL_LIST :: uint16 where "SMSG_CHANNEL_LIST \<equiv> 0x09B"
abbreviation SMSG_GM_MESSAGECHAT :: uint16 where "SMSG_GM_MESSAGECHAT \<equiv> 0x3B3"
abbreviation SMSG_USERLIST_ADD :: uint16 where "SMSG_USERLIST_ADD \<equiv> 0x3F0"
abbreviation SMSG_USERLIST_REMOVE :: uint16 where "SMSG_USERLIST_REMOVE \<equiv> 0x3F1"
abbreviation SMSG_USERLIST_UPDATE :: uint16 where "SMSG_USERLIST_UPDATE \<equiv> 0x3F2"

definition MakeNotifyPacket :: "Channel \<Rightarrow> uint8 \<Rightarrow> WorldPacket" where
  "MakeNotifyPacket c notify_type = stream [U8 notify_type, Str (ch_name c)] (WorldPacket_init SMSG_CHANNEL_NOTIFY)"

definition MakeJoined :: "Channel \<Rightarrow> uint64 \<Rightarrow> WorldPacket" where
  "MakeJoined c guid = stream [U64 guid] (MakeNotifyPacket c 0x00)"

definition MakeLeft :: "Channel \<Rightarrow> uint64 \<Rightarrow> WorldPacket" where
  "MakeLeft c guid = stream [U64 guid] (MakeNotifyPacket c 0x01)"

definition MakeYouJoined :: "Channel \<Rightarrow> WorldPacket" where
  "MakeYouJoined c = stream [U8 (ch_flags c), U32 (ch_channelId c), U32 0] (MakeNotifyPacket c 0x02)"

definition MakeYouLeft :: "Channel \<Rightarrow> WorldPacket" where
  "MakeYouLeft c = stream [U32 (ch_channelId c), U8 (if IsConstant c then 1 else 0)] (MakeNotifyPacket c 0x03)"

definition MakeWrongPassword :: "Channel \<Rightarrow> WorldPacket" where
  "MakeWrongPassword c = MakeNotifyPacket c 0x04"

definition MakeNotMember :: "Channel \<Rightarrow> WorldPacket" where
  "MakeNotMember c = MakeNotifyPacket c 0x05"

definition MakeNotModerator :: "Channel \<Rightarrow> WorldPacket" where
  "MakeNotModerator c = MakeNotifyPacket c 0x06"

definition MakePasswordChanged :: "Channel \<Rightarrow> uint64 \<Rightarrow> WorldPacket" where
  "MakePasswordChanged c guid = stream [U64 guid] (MakeNotifyPacket c 0x07)"

definition MakeOwnerChanged :: "Channel \<Rightarrow> uint64 \<Rightarrow> WorldPacket" where
  "MakeOwnerChanged c guid = stream [U64 guid] (MakeNotifyPacket c 0x08)"

definition MakePlayerNotFound :: "Channel \<Rightarrow> string \<Rightarrow> WorldPacket" where
  "MakePlayerNotFound c name = stream [Str name] (MakeNotifyPacket c 0x09)"

definition MakeNotOwner :: "Channel \<Rightarrow> WorldPacket" where
  "MakeNotOwner c = MakeNotifyPacket c 0x0A"

definition MakeChannelOwner :: "ChatEnv \<Rightarrow> Channel \<Rightarrow> WorldPacket" where
  "MakeChannelOwner env c =
     (let name = (case GetPlayerNameByGUID env (ch_ownerGUID c) of
                    Some n \<Rightarrow> (if n = [] then ''PLAYER_NOT_FOUND'' else n)
                  | None \<Rightarrow> ''PLAYER_NOT_FOUND'') in
      stream [Str (if IsConstant c \<or> ch_ownerGUID c = 0 then ''Nobody'' else name)] (MakeNotifyPacket c 0x0B))"

definition MakeModeChange :: "Channel \<Rightarrow> uint64 \<Rightarrow> uint8 \<Rightarrow> WorldPacket" where
  "MakeModeChange c guid oldflags =
     stream [U64 guid, U8 oldflags, U8 (GetPlayerFlags c guid)] (MakeNotifyPacket c 0x0C)"

definition MakeAnnouncementsOn :: "Channel \<Rightarrow> uint64 \<Rightarrow> WorldPacket" where
  "MakeAnnouncementsOn c guid = stream [U64 guid] (MakeNotifyPacket c 0x0D)"

definition MakeAnnouncementsOff :: "Channel \<Rightarrow> uint64 \<Rightarrow> WorldPacket" where
  "MakeAnnouncementsOff c guid = stream [U64 guid] (MakeNotifyPacket c 0x0E)"

definition MakeMuted :: "Channel \<Rightarrow> WorldPacket" where
  "MakeMuted c = MakeNotifyPacket c 0x11"

definition MakePlayerKicked :: "Channel \<Rightarrow> uint64 \<Rightarrow> uint64 \<Rightarrow> WorldPacket" where
  "MakePlayerKicked c bad good = stream [U64 bad, U64 good] (MakeNotifyPacket c 0x12)"

definition MakeBanned :: "Channel \<Rightarrow> WorldPacket" where
  "MakeBanned c = MakeNotifyPacket c 0x13"

definition MakePlayerBanned :: "Channel \<Rightarrow> uint64 \<Rightarrow> uint64 \<Rightarrow> WorldPacket" where
  "MakePlayerBanned c bad good = stream [U64 bad, U64 good] (MakeNotifyPacket c 0x14)"

definition MakePlayerUnbanned :: "Channel \<Rightarrow> uint64 \<Rightarrow> uint64 \<Rightarrow> WorldPacket" where
  "MakePlayerUnbanned c bad good = stream [U64 bad, U64 good] (MakeNotifyPacket c 0x15)"

definition MakePlayerNotBanned :: "Channel \<Rightarrow> string \<Rightarrow> WorldPacket" where
  "MakePlayerNotBanned c name = stream [Str name] (MakeNotifyPacket c 0x16)"

definition MakePlayerAlreadyMember :: "Channel \<Rightarrow> uint64 \<Rightarrow> WorldPacket" where
  "MakePlayerAlreadyMember c guid = stream [U64 guid] (MakeNotifyPacket c 0x17)"

definition MakeInvite :: "Channel \<Rightarrow> uint64 \<Rightarrow> WorldPacket" where
  "MakeInvite c guid = stream [U64 guid] (MakeNotifyPacket c 0x18)"

definition MakeInviteWrongFaction :: "Channel \<Rightarrow> WorldPacket" where
  "MakeInviteWrongFaction c = MakeNotifyPacket c 0x19"

definition MakeWrongFaction :: "Channel \<Rightarrow> WorldPacket" where
  "MakeWrongFaction c = MakeNotifyPacket c 0x1A"

definition MakeInvalidName :: "Channel \<Rightarrow> WorldPacket" where
  "MakeInvalidName c = MakeNotifyPacket c 0x1B"

definition MakeNotModerated :: "Channel \<Rightarrow> WorldPacket" where
  "MakeNotModerated c = MakeNotifyPacket c 0x1C"

definition MakePlayerInvited :: "Channel \<Rightarrow> string \<Rightarrow> WorldPacket" where
  "MakePlayerInvited c name = stream [Str name] (MakeNotifyPacket c 0x1D)"

definition MakePlayerInviteBanned :: "Channel \<Rightarrow> string \<Rightarrow> WorldPacket" where
  "MakePlayerInviteBanned c name = stream [Str name] (MakeNotifyPacket c 0x1E)"

definition MakeThrottled :: "Channel \<Rightarrow> WorldPacket" where
  "MakeThrottled c = MakeNotifyPacket c 0x1F"

definition MakeNotInArea :: "Channel \<Rightarrow> WorldPacket" where
  "MakeNotInArea c = MakeNotifyPacket c 0x20"

definition MakeNotInLfg :: "Channel \<Rightarrow> WorldPacket" where
  "MakeNotInLfg c = MakeNotifyPacket c 0x21"

definition MakeVoiceOn :: "Channel \<Rightarrow> uint64 \<Rightarrow> WorldPacket" where
  "MakeVoiceOn c guid = stream [U64 guid] (MakeNotifyPacket c 0x22)"

definition MakeVoiceOff :: "Channel \<Rightarrow> uint64 \<Rightarrow> WorldPacket" where
  "MakeVoiceOff c guid = stream [U64 guid] (MakeNotifyPacket c 0x23)"

definition JoinNotify :: "ChatEnv \<Rightarrow> Channel \<Rightarrow> uint64 \<Rightarrow> chan_effect list" where
  "JoinNotify env c guid =
     (let data = stream [U64 guid, U8 (GetPlayerFlags c guid), U8 (ch_flags c), U32 (GetNumPlayers c), Str (ch_name c)]
                   (WorldPacket_init (if IsConstant c then SMSG_USERLIST_ADD else SMSG_USERLIST_UPDATE)) in
      if IsConstant c then SendToAllButOne env c data guid else SendToAll env c data 0)"

definition LeaveNotify :: "ChatEnv \<Rightarrow> Channel \<Rightarrow> uint64 \<Rightarrow> chan_effect list" where
  "LeaveNotify env c guid =
     (let data = stream [U64 guid, U8 (ch_flags c), U32 (GetNumPlayers c), Str (ch_name c)]
                   (WorldPacket_init SMSG_USERLIST_REMOVE) in
      if IsConstant c then SendToAllButOne env c data guid else SendToAll env c data 0)"

section \<open>The operations\<close>

text \<open>The private \<open>SetOwner(guid, exclaim)\<close>.\<close>

definition SetOwner :: "ChatEnv \<Rightarrow> uint64 \<Rightarrow> bool \<Rightarrow> Channel \<Rightarrow> Channel \<times> chan_effect list" where
  "SetOwner env guid exclaim c =
     (let c = (if ch_ownerGUID c \<noteq> 0 \<and> IsOn c (ch_ownerGUID c)
               then player_mod (PI_SetOwner False) (ch_ownerGUID c) c else c);
          c = c\<lparr>ch_ownerGUID := guid\<rparr> in
      if guid \<noteq> 0
      then let oldFlag = GetPlayerFlags c guid;
               c = player_mod (PI_SetOwner True) guid (player_mod (PI_SetModerator True) guid c) in
           (c, SendToAll env c (MakeModeChange c guid oldFlag) 0 @
               (if exclaim then SendToAll env c (MakeOwnerChanged c guid) 0 else []) @
               UpdateChannelInDB c)
      else (c, []))"

definition JoinChannel :: "ChatEnv \<Rightarrow> ChatPlayer \<Rightarrow> string \<Rightarrow> Channel \<Rightarrow> Channel \<times> chan_effect list" where
  "JoinChannel env player pass c =
     (let guid = cp_guid player in
      if IsOn c guid
      then (c, if \<not> IsConstant c then SendToOne env (MakePlayerAlreadyMember c guid) guid else [])
      else if IsBanned c guid then (c, SendToOne env (MakeBanned c) guid)
      else if ch_password c \<noteq> [] \<and> pass \<noteq> ch_password c then (c, SendToOne env (MakeWrongPassword c) guid)
      else if has_flag (ch_flags c) CHANNEL_FLAG_LFG \<and> RESTRICTED_LFG_CHANNEL env \<and> cp_security player = 0 \<and>
              cp_grouped player
      then (c, SendToOne env (MakeNotInLfg c) guid)
      else
        let ann = (if ch_announce c \<and> \<not> cp_perm player RBAC_PERM_SILENTLY_JOIN_CHANNEL
                   then SendToAll env c (MakeJoined c guid) 0 else []);
            c = c\<lparr>playersStore := om_put guid \<lparr>pi_player = guid, pi_flags = 0\<rparr> (playersStore c)\<rparr>;
            joined = [JoinedChannel guid] @ ann @ SendToOne env (MakeYouJoined c) guid @ JoinNotify env c guid in
        if \<not> IsConstant c
        then let usage = (if playersStore c \<noteq> [] then UpdateChannelUseageInDB c else []) in
             if ch_ownerGUID c = 0 \<and> ch_ownership c
             then let (c, own) = SetOwner env guid (length (playersStore c) > 1) c in
                  (player_mod (PI_SetModerator True) guid c, joined @ usage @ own)
             else (c, joined @ usage)
        else (c, joined))"

definition LeaveChannel :: "ChatEnv \<Rightarrow> ChatPlayer \<Rightarrow> bool \<Rightarrow> Channel \<Rightarrow> Channel \<times> chan_effect list" where
  "LeaveChannel env player send c =
     (let guid = cp_guid player in
      if \<not> IsOn c guid
      then (c, if send then SendToOne env (MakeNotMember c) guid else [])
      else
        let you = (if send then SendToOne env (MakeYouLeft c) guid @ [LeftChannel guid] else []);
            changeowner = IsOwner (player_at (playersStore c) guid);
            c = c\<lparr>playersStore := om_erase guid (playersStore c)\<rparr>;
            ann = (if ch_announce c \<and> \<not> cp_perm player RBAC_PERM_SILENTLY_JOIN_CHANNEL
                   then SendToAll env c (MakeLeft c guid) 0 else []);
            left = you @ ann @ LeaveNotify env c guid in
        if \<not> IsConstant c
        then let usage = UpdateChannelUseageInDB c in
             if changeowner \<and> ch_ownership c \<and> playersStore c \<noteq> []
             then let newowner = pi_player (snd (hd (playersStore c)));
                      c = player_mod (PI_SetModerator True) newowner c;
                      (c, own) = SetOwner env newowner True c in
                  (c, left @ usage @ own)
             else (c, left @ usage)
        else (c, left))"

definition moderator_or_gm :: "ChatPlayer \<Rightarrow> Channel \<Rightarrow> bool" where
  "moderator_or_gm player c \<longleftrightarrow>
     IsModerator (player_at (playersStore c) (cp_guid player)) \<or> cp_perm player RBAC_PERM_CHANGE_CHANNEL_NOT_MODERATOR"

definition KickOrBan :: "ChatEnv \<Rightarrow> ChatPlayer \<Rightarrow> string \<Rightarrow> bool \<Rightarrow> Channel \<Rightarrow> Channel \<times> chan_effect list" where
  "KickOrBan env player badname ban c =
     (let good = cp_guid player in
      if \<not> IsOn c good then (c, SendToOne env (MakeNotMember c) good)
      else if \<not> moderator_or_gm player c then (c, SendToOne env (MakeNotModerator c) good)
      else
        let victim = (case FindPlayerByName env badname of Some bad \<Rightarrow> cp_guid bad | None \<Rightarrow> 0) in
        if victim = 0 \<or> \<not> IsOn c victim then (c, SendToOne env (MakePlayerNotFound c badname) good)
        else
          let changeowner = ch_ownerGUID c = victim in
          if \<not> cp_perm player RBAC_PERM_CHANGE_CHANNEL_NOT_MODERATOR \<and> changeowner \<and> good \<noteq> ch_ownerGUID c
          then (c, SendToOne env (MakeNotOwner c) good)
          else
            let silent = cp_perm player RBAC_PERM_SILENTLY_JOIN_CHANNEL;
                (c, msg) =
                  (if ban \<and> \<not> IsBanned c victim
                   then let c = c\<lparr>bannedStore := os_insert victim (bannedStore c)\<rparr> in
                        (c, UpdateChannelInDB c @
                            (if \<not> silent then SendToAll env c (MakePlayerBanned c victim good) 0 else []))
                   else (c, if \<not> silent then SendToAll env c (MakePlayerKicked c victim good) 0 else []));
                c = c\<lparr>playersStore := om_erase victim (playersStore c)\<rparr>;
                eff = msg @ [LeftChannel victim] in
            if changeowner \<and> ch_ownership c \<and> playersStore c \<noteq> []
            then let (c, own) = SetOwner env good True (player_mod (PI_SetModerator True) good c) in
                 (c, eff @ own)
            else (c, eff))"

definition UnBan :: "ChatEnv \<Rightarrow> ChatPlayer \<Rightarrow> string \<Rightarrow> Channel \<Rightarrow> Channel \<times> chan_effect list" where
  "UnBan env player badname c =
     (let good = cp_guid player in
      if \<not> IsOn c good then (c, SendToOne env (MakeNotMember c) good)
      else if \<not> moderator_or_gm player c then (c, SendToOne env (MakeNotModerator c) good)
      else
        let victim = (case FindPlayerByName env badname of Some bad \<Rightarrow> cp_guid bad | None \<Rightarrow> 0) in
        if victim = 0 \<or> \<not> IsBanned c victim then (c, SendToOne env (MakePlayerNotFound c badname) good)
        else
          let c = c\<lparr>bannedStore := os_erase victim (bannedStore c)\<rparr> in
          (c, SendToAll env c (MakePlayerUnbanned c victim good) 0 @ UpdateChannelInDB c))"

definition Password :: "ChatEnv \<Rightarrow> ChatPlayer \<Rightarrow> string \<Rightarrow> Channel \<Rightarrow> Channel \<times> chan_effect list" where
  "Password env player pass c =
     (let guid = cp_guid player in
      if \<not> IsOn c guid then (c, SendToOne env (MakeNotMember c) guid)
      else if \<not> moderator_or_gm player c then (c, SendToOne env (MakeNotModerator c) guid)
      else let c = c\<lparr>ch_password := pass\<rparr> in
           (c, SendToAll env c (MakePasswordChanged c guid) 0 @ UpdateChannelInDB c))"

text \<open>The private \<open>SetModerator(guid, set)\<close> and \<open>SetMute(guid, set)\<close>.\<close>

definition SetModerator :: "ChatEnv \<Rightarrow> uint64 \<Rightarrow> bool \<Rightarrow> Channel \<Rightarrow> Channel \<times> chan_effect list" where
  "SetModerator env guid on c =
     (if IsModerator (player_at (playersStore c) guid) \<noteq> on
      then let oldFlag = GetPlayerFlags c guid;
               c = player_mod (PI_SetModerator on) guid c in
           (c, SendToAll env c (MakeModeChange c guid oldFlag) 0)
      else (c, []))"

definition SetMute :: "ChatEnv \<Rightarrow> uint64 \<Rightarrow> bool \<Rightarrow> Channel \<Rightarrow> Channel \<times> chan_effect list" where
  "SetMute env guid on c =
     (if IsMuted (player_at (playersStore c) guid) \<noteq> on
      then let oldFlag = GetPlayerFlags c guid;
               c = player_mod (PI_SetMuted on) guid c in
           (c, SendToAll env c (MakeModeChange c guid oldFlag) 0)
      else (c, []))"

definition other_side :: "ChatPlayer \<Rightarrow> ChatPlayer \<Rightarrow> bool" where
  "other_side player newp \<longleftrightarrow>
     cp_team player \<noteq> cp_team newp \<and>
     (\<not> cp_perm player RBAC_PERM_TWO_SIDE_INTERACTION_CHANNEL \<or> \<not> cp_perm newp RBAC_PERM_TWO_SIDE_INTERACTION_CHANNEL)"

text \<open>\<open>newp\<close> of \<open>SetMode\<close> and \<open>SetOwner\<close>: the named player, when on the channel and of a side the caller may
  interact with.\<close>

definition member_by_name :: "ChatEnv \<Rightarrow> ChatPlayer \<Rightarrow> string \<Rightarrow> Channel \<Rightarrow> uint64 option" where
  "member_by_name env player name c =
     (case FindPlayerByName env name of
        None \<Rightarrow> None
      | Some newp \<Rightarrow>
          (if cp_guid newp = 0 \<or> \<not> IsOn c (cp_guid newp) \<or> other_side player newp then None else Some (cp_guid newp)))"

definition SetMode :: "ChatEnv \<Rightarrow> ChatPlayer \<Rightarrow> string \<Rightarrow> bool \<Rightarrow> bool \<Rightarrow> Channel \<Rightarrow> Channel \<times> chan_effect list" where
  "SetMode env player p2n moderate on c =
     (let guid = cp_guid player in
      if \<not> IsOn c guid then (c, SendToOne env (MakeNotMember c) guid)
      else if \<not> moderator_or_gm player c then (c, SendToOne env (MakeNotModerator c) guid)
      else if guid = ch_ownerGUID c \<and> p2n = cp_name player \<and> moderate then (c, [])
      else case member_by_name env player p2n c of
             None \<Rightarrow> (c, SendToOne env (MakePlayerNotFound c p2n) guid)
           | Some victim \<Rightarrow>
               (if ch_ownerGUID c = victim \<and> ch_ownerGUID c \<noteq> guid then (c, SendToOne env (MakeNotOwner c) guid)
                else if moderate then SetModerator env victim on c else SetMute env victim on c))"

definition SetOwnerByName :: "ChatEnv \<Rightarrow> ChatPlayer \<Rightarrow> string \<Rightarrow> Channel \<Rightarrow> Channel \<times> chan_effect list" where
  "SetOwnerByName env player newname c =
     (let guid = cp_guid player in
      if \<not> IsOn c guid then (c, SendToOne env (MakeNotMember c) guid)
      else if \<not> cp_perm player RBAC_PERM_CHANGE_CHANNEL_NOT_MODERATOR \<and> guid \<noteq> ch_ownerGUID c
      then (c, SendToOne env (MakeNotOwner c) guid)
      else case member_by_name env player newname c of
             None \<Rightarrow> (c, SendToOne env (MakePlayerNotFound c newname) guid)
           | Some victim \<Rightarrow> SetOwner env victim True (player_mod (PI_SetModerator True) victim c))"

definition SendWhoOwner :: "ChatEnv \<Rightarrow> uint64 \<Rightarrow> Channel \<Rightarrow> chan_effect list" where
  "SendWhoOwner env guid c =
     SendToOne env (if IsOn c guid then MakeChannelOwner env c else MakeNotMember c) guid"

definition listed :: "ChatEnv \<Rightarrow> ChatPlayer \<Rightarrow> uint64 \<Rightarrow> bool" where
  "listed env player k \<longleftrightarrow>
     (case FindConnectedPlayer env k of
        None \<Rightarrow> False
      | Some m \<Rightarrow> (cp_perm player RBAC_PERM_WHO_SEE_ALL_SEC_LEVELS \<or> unat (cp_security m) \<le> unat (GM_LEVEL_IN_WHO_LIST env)) \<and>
          cp_visibleFor m (cp_guid player))"

definition ListMembers :: "ChatEnv \<Rightarrow> ChatPlayer \<Rightarrow> Channel \<Rightarrow> chan_effect list" where
  "ListMembers env player c =
     (let guid = cp_guid player in
      if \<not> IsOn c guid then SendToOne env (MakeNotMember c) guid
      else
        let ms = filter (\<lambda>(k, i). listed env player k) (playersStore c) in
        SendToOne env
          (stream ([U8 1, Str (ch_name c), U8 (ch_flags c), U32 (of_nat (length ms))] @
                   concat (map (\<lambda>(k, i). [U64 k, U8 (pi_flags i)]) ms))
             (WorldPacket_init SMSG_CHANNEL_LIST)) guid)"

definition Announce :: "ChatEnv \<Rightarrow> ChatPlayer \<Rightarrow> Channel \<Rightarrow> Channel \<times> chan_effect list" where
  "Announce env player c =
     (let guid = cp_guid player in
      if \<not> IsOn c guid then (c, SendToOne env (MakeNotMember c) guid)
      else if \<not> moderator_or_gm player c then (c, SendToOne env (MakeNotModerator c) guid)
      else let c = c\<lparr>ch_announce := \<not> ch_announce c\<rparr> in
           (c, SendToAll env c (if ch_announce c then MakeAnnouncementsOn c guid else MakeAnnouncementsOff c guid) 0 @
               UpdateChannelInDB c))"

text \<open>\<open>ChatHandler::BuildChatPacket\<close> for GUIDs.  The failed \<open>ASSERT\<close> on an empty channel name is \<open>None\<close>; the
  second component is the offset of the receiver's GUID.\<close>

definition fields_size :: "field list \<Rightarrow> nat" where
  "fields_size fs = length (concat (map enc_field fs))"

definition len_string :: "string \<Rightarrow> field list" where
  "len_string s = [U32 (of_nat (length s + 1)), Str s]"

definition BuildChatPacket ::
  "uint32 \<Rightarrow> uint32 \<Rightarrow> uint64 \<Rightarrow> uint64 \<Rightarrow> string \<Rightarrow> uint8 \<Rightarrow> string \<Rightarrow> string \<Rightarrow> uint32 \<Rightarrow> bool \<Rightarrow> string
   \<Rightarrow> (WorldPacket \<times> nat) option" where
  "BuildChatPacket chatType language senderGUID receiverGUID message chatTag senderName receiverName
      achievementId gmMessage channelName =
     (let start = [U8 (ucast chatType), U32 language, U64 senderGUID, U32 0];
          finish = len_string message @ [U8 chatTag] @
            (if chatType \<in> {0x30, 0x31} then [U32 achievementId] else []);
          packet = (\<lambda>before after.
            Some (stream (start @ before @ [U64 receiverGUID] @ after @ finish)
                    (WorldPacket_init (if \<not> gmMessage then SMSG_MESSAGECHAT else SMSG_GM_MESSAGECHAT)),
                  fields_size (start @ before))) in
      if chatType \<in> {0x0C, 0x0D, 0x0E, 0x0F, 0x10, 0x29, 0x2A, 0x2F}
      then packet (len_string senderName)
             (if receiverGUID \<noteq> 0 \<and> \<not> IS_PLAYER_GUID receiverGUID \<and> \<not> IS_PET_GUID receiverGUID
              then len_string receiverName else [])
      else if chatType = 0x08 then packet (len_string senderName) []
      else if chatType \<in> {0x24, 0x25, 0x26}
      then packet [] (if receiverGUID \<noteq> 0 \<and> \<not> IS_PLAYER_GUID receiverGUID then len_string receiverName else [])
      else if chatType \<in> {0x30, 0x31} then packet [] []
      else if chatType = 0x11 \<and> channelName = [] then None
      else packet ((if gmMessage then len_string senderName else []) @
                   (if chatType = 0x11 then [Str channelName] else [])) [])"

text \<open>The overload for a player who speaks to a channel.\<close>

definition BuildPlayerChatPacket :: "uint32 \<Rightarrow> uint32 \<Rightarrow> ChatPlayer \<Rightarrow> string \<Rightarrow> string \<Rightarrow> (WorldPacket \<times> nat) option" where
  "BuildPlayerChatPacket chatType language p message channelName =
     BuildChatPacket chatType language (cp_guid p) (cp_guid p) message (cp_chatTag p) (cp_name p) (cp_name p) 0
       (cp_perm p RBAC_PERM_COMMAND_GM_CHAT) channelName"

definition Say :: "ChatEnv \<Rightarrow> uint64 \<Rightarrow> string \<Rightarrow> uint32 \<Rightarrow> Channel \<Rightarrow> chan_effect list" where
  "Say env guid what lang c =
     (if what = [] then []
      else
        let lang = (if ALLOW_TWO_SIDE_INTERACTION_CHANNEL env then 0 else lang) in
        if \<not> IsOn c guid then SendToOne env (MakeNotMember c) guid
        else if IsMuted (player_at (playersStore c) guid) then SendToOne env (MakeMuted c) guid
        else
          case (case FindConnectedPlayer env guid of
                  Some player \<Rightarrow> BuildPlayerChatPacket 0x11 lang player what (ch_name c)
                | None \<Rightarrow> BuildChatPacket 0x11 lang guid guid what 0 [] [] 0 False (ch_name c)) of
            None \<Rightarrow> [AssertFailure]
          | Some (data, _) \<Rightarrow>
              SendToAll env c data (if \<not> IsModerator (player_at (playersStore c) guid) then guid else 0))"

definition Invite :: "ChatEnv \<Rightarrow> ChatPlayer \<Rightarrow> string \<Rightarrow> Channel \<Rightarrow> chan_effect list" where
  "Invite env player newname c =
     (let guid = cp_guid player in
      if \<not> IsOn c guid then SendToOne env (MakeNotMember c) guid
      else
        case FindPlayerByName env newname of
          None \<Rightarrow> SendToOne env (MakePlayerNotFound c newname) guid
        | Some newp \<Rightarrow>
            (if \<not> cp_gmVisible newp then SendToOne env (MakePlayerNotFound c newname) guid
             else if IsBanned c (cp_guid newp) then SendToOne env (MakePlayerInviteBanned c newname) guid
             else if other_side player newp then SendToOne env (MakeInviteWrongFaction c) guid
             else if IsOn c (cp_guid newp) then SendToOne env (MakePlayerAlreadyMember c (cp_guid newp)) guid
             else (if \<not> cp_ignores newp (GUID_LOPART guid) then SendToOne env (MakeInvite c guid) (cp_guid newp) else []) @
                  SendToOne env (MakePlayerInvited c (cp_name newp)) guid))"

section \<open>The invariant of a channel\<close>

datatype chan_op =
    OpJoin ChatPlayer string
  | OpLeave ChatPlayer bool
  | OpKickOrBan ChatPlayer string bool
  | OpUnBan ChatPlayer string
  | OpPassword ChatPlayer string
  | OpSetMode ChatPlayer string bool bool
  | OpSetOwner ChatPlayer string
  | OpAnnounce ChatPlayer
  | OpPlainPassword string
  | OpPlainAnnounce bool
  | OpOwnership bool

fun chan_run :: "ChatEnv \<Rightarrow> chan_op \<Rightarrow> Channel \<Rightarrow> Channel \<times> chan_effect list" where
  "chan_run env (OpJoin p pass) c = JoinChannel env p pass c"
| "chan_run env (OpLeave p send) c = LeaveChannel env p send c"
| "chan_run env (OpKickOrBan p name ban) c = KickOrBan env p name ban c"
| "chan_run env (OpUnBan p name) c = UnBan env p name c"
| "chan_run env (OpPassword p pass) c = Password env p pass c"
| "chan_run env (OpSetMode p name moderate on) c = SetMode env p name moderate on c"
| "chan_run env (OpSetOwner p name) c = SetOwnerByName env p name c"
| "chan_run env (OpAnnounce p) c = Announce env p c"
| "chan_run env (OpPlainPassword pass) c = (SetPassword pass c, [])"
| "chan_run env (OpPlainAnnounce on) c = (SetAnnounce on c, [])"
| "chan_run env (OpOwnership on) c = (SetOwnership on c, [])"

definition chan_step :: "ChatEnv \<Rightarrow> chan_op \<Rightarrow> Channel \<Rightarrow> Channel" where
  "chan_step env a c = fst (chan_run env a c)"

abbreviation members :: "Channel \<Rightarrow> uint64 set" where
  "members c \<equiv> set (om_keys (playersStore c))"

text \<open>The members are filed under their own GUID, only the entry of \<open>_ownerGUID\<close> carries the owner flag,
  and no banned player is a member.\<close>

definition chan_basic :: "Channel \<Rightarrow> bool" where
  "chan_basic c \<longleftrightarrow> om_ok (playersStore c) \<and> os_ok (bannedStore c) \<and> 0 \<notin> members c \<and>
     members c \<inter> set (bannedStore c) = {} \<and>
     (\<forall>k i. om_get (playersStore c) k = Some i \<longrightarrow> pi_player i = k \<and> (IsOwner i \<longrightarrow> k = ch_ownerGUID c))"

text \<open>A custom channel with ownership and members has its owner among them, with the owner flag.\<close>

definition owner_present :: "Channel \<Rightarrow> bool" where
  "owner_present c \<longleftrightarrow> ch_ownerGUID c \<in> members c \<and> IsOwner (player_at (playersStore c) (ch_ownerGUID c))"

definition chan_owned :: "Channel \<Rightarrow> bool" where
  "chan_owned c \<longleftrightarrow> (ch_ownership c \<and> \<not> IsConstant c \<and> playersStore c \<noteq> [] \<longrightarrow>
     ch_ownerGUID c \<in> members c \<and> IsOwner (player_at (playersStore c) (ch_ownerGUID c)))"

definition chan_inv :: "Channel \<Rightarrow> bool" where
  "chan_inv c \<longleftrightarrow> chan_basic c \<and> chan_owned c"

text \<open>What the server guarantees: a player has a GUID, a player who joins an empty channel finds a new one
  (\<open>ChannelMgr\<close> deletes a channel when its last member leaves), nobody kicks himself, and the ownership is
  switched on only in a channel that is built in, empty or still has its owner.  The last condition is not
  checked by the code, see \<open>ownership_on_breaks\<close>.\<close>

fun chan_pre :: "ChatEnv \<Rightarrow> chan_op \<Rightarrow> Channel \<Rightarrow> bool" where
  "chan_pre env (OpJoin p pass) c \<longleftrightarrow> cp_guid p \<noteq> 0 \<and> (playersStore c = [] \<and> ch_ownership c \<and> \<not> IsConstant c \<longrightarrow> ch_ownerGUID c = 0)"
| "chan_pre env (OpKickOrBan p name ban) c \<longleftrightarrow>
     (case FindPlayerByName env name of None \<Rightarrow> True | Some bad \<Rightarrow> cp_guid bad \<noteq> cp_guid p)"
| "chan_pre env (OpOwnership on) c \<longleftrightarrow> (on \<longrightarrow> IsConstant c \<or> playersStore c = [] \<or> owner_present c)"
| "chan_pre env _ c \<longleftrightarrow> True"

subsection \<open>Changing one entry\<close>

lemma IsOn_members: "IsOn c g \<longleftrightarrow> g \<in> members c"
  using om_get_dom [of "playersStore c" g] by (auto simp: IsOn_def)

lemma player_mod_get [simp]:
  "om_get (playersStore (player_mod f g c)) k =
     (if k = g then Some (f (player_at (playersStore c) g)) else om_get (playersStore c) k)"
  by (simp add: player_mod_def om_get_put)

lemma player_mod_simps [simp]:
  "members (player_mod f g c) = insert g (members c)"
  "bannedStore (player_mod f g c) = bannedStore c" "ch_ownerGUID (player_mod f g c) = ch_ownerGUID c"
  "ch_ownership (player_mod f g c) = ch_ownership c" "ch_channelId (player_mod f g c) = ch_channelId c"
  "ch_name (player_mod f g c) = ch_name c" "ch_password (player_mod f g c) = ch_password c"
  "ch_announce (player_mod f g c) = ch_announce c" "ch_IsSaved (player_mod f g c) = ch_IsSaved c"
  "ch_Team (player_mod f g c) = ch_Team c" "ch_flags (player_mod f g c) = ch_flags c"
  "om_ok (playersStore c) \<Longrightarrow> om_ok (playersStore (player_mod f g c))"
  by (simp_all add: player_mod_def om_ok_put)

lemma store_Nil: "playersStore c = [] \<longleftrightarrow> members c = {}"
  by (cases "playersStore c") auto

lemma player_mod_nonempty [simp]: "playersStore (player_mod f g c) \<noteq> []"
  unfolding store_Nil by simp

lemma player_at_mod [simp]:
  "player_at (playersStore (player_mod f g c)) k =
     (if k = g then f (player_at (playersStore c) g) else player_at (playersStore c) k)"
  by (simp add: player_at_def)

lemma member_flags [simp]:
  "pi_player (PI_SetOwner b i) = pi_player i" "pi_player (PI_SetModerator b i) = pi_player i"
  "pi_player (PI_SetMuted b i) = pi_player i"
  "IsOwner (PI_SetOwner b i) = b" "IsModerator (PI_SetModerator b i) = b" "IsMuted (PI_SetMuted b i) = b"
  "IsOwner (PI_SetModerator b i) = IsOwner i" "IsOwner (PI_SetMuted b i) = IsOwner i"
  "IsModerator (PI_SetOwner b i) = IsModerator i" "IsModerator (PI_SetMuted b i) = IsModerator i"
  "IsMuted (PI_SetOwner b i) = IsMuted i" "IsMuted (PI_SetModerator b i) = IsMuted i"
  by (simp_all add: PI_SetOwner_def PI_SetModerator_def PI_SetMuted_def IsOwner_def IsModerator_def IsMuted_def
      has_flag_set_other)

lemma player_at_get: "om_get s g = Some i \<Longrightarrow> player_at s g = i"
  by (simp add: player_at_def)

lemma chan_basic_at: "chan_basic c \<Longrightarrow> IsOn c g \<Longrightarrow> pi_player (player_at (playersStore c) g) = g"
  by (auto simp: chan_basic_def IsOn_def player_at_def)

lemma chan_basic_owner: "chan_basic c \<Longrightarrow> IsOn c g \<Longrightarrow> IsOwner (player_at (playersStore c) g) \<Longrightarrow> g = ch_ownerGUID c"
  by (auto simp: chan_basic_def IsOn_def player_at_def)

text \<open>A change of the flags of a member that leaves the owner flag alone.\<close>

lemma chan_inv_player_mod:
  assumes "chan_inv c" and "IsOn c g"
    and "\<And>i. pi_player (f i) = pi_player i" and "\<And>i. IsOwner (f i) = IsOwner i"
  shows "chan_inv (player_mod f g c)"
proof -
  have b: "chan_basic c" and g: "g \<in> members c" using assms by (simp_all add: chan_inv_def IsOn_members)
  have "chan_basic (player_mod f g c)"
    unfolding chan_basic_def
  proof (intro conjI allI impI)
    fix k i assume i: "om_get (playersStore (player_mod f g c)) k = Some i"
    show "pi_player i = k"
      using i b assms(3) chan_basic_at [OF b assms(2)] by (auto simp: chan_basic_def split: if_splits)
    assume "IsOwner i"
    then show "k = ch_ownerGUID (player_mod f g c)"
      using i b assms(4) chan_basic_owner [OF b assms(2)] by (auto simp: chan_basic_def split: if_splits)
  qed (use b g in \<open>auto simp: chan_basic_def\<close>)
  moreover have "chan_owned (player_mod f g c)"
  proof -
    have "chan_owned c" and "playersStore c \<noteq> []" using assms(1) g by (auto simp: chan_inv_def)
    then show ?thesis by (auto simp: chan_owned_def IsConstant_def assms(4))
  qed
  ultimately show ?thesis by (simp add: chan_inv_def)
qed

text \<open>\<open>SetOwner\<close> to a member establishes the whole invariant.\<close>

lemma SetOwner_inv:
  assumes "chan_basic c" and "IsOn c g"
  shows "chan_inv (fst (SetOwner env g exclaim c))"
proof -
  let ?o = "ch_ownerGUID c"
  define c1 where "c1 = (if ?o \<noteq> 0 \<and> IsOn c ?o then player_mod (PI_SetOwner False) ?o c else c)"
  have g: "g \<noteq> 0" "g \<in> members c" using assms by (auto simp: chan_basic_def IsOn_members)
  have c1: "members c1 = members c" "bannedStore c1 = bannedStore c" "om_ok (playersStore c1)"
    using assms(1) by (auto simp: c1_def IsOn_members chan_basic_def)
  have c1_get: "pi_player i = k \<and> \<not> IsOwner i" if "om_get (playersStore c1) k = Some i" for k i
  proof (cases "k = ?o \<and> IsOn c ?o")
    case True
    then have "?o \<noteq> 0" using assms(1) by (auto simp: chan_basic_def IsOn_members)
    with True that chan_basic_at [OF assms(1)] show ?thesis by (auto simp: c1_def)
  next
    case False
    with that have "om_get (playersStore c) k = Some i" by (auto simp: c1_def IsOn_def split: if_splits)
    with False assms(1) show ?thesis by (auto simp: chan_basic_def IsOn_def)
  qed
  let ?c = "player_mod (PI_SetOwner True) g (player_mod (PI_SetModerator True) g (c1\<lparr>ch_ownerGUID := g\<rparr>))"
  have fst: "fst (SetOwner env g exclaim c) = ?c"
    using g(1) by (simp add: SetOwner_def c1_def Let_def)
  have "pi_player (player_at (playersStore c1) g) = g"
    using g(2) c1(1) c1_get om_get_dom [of "playersStore c1" g] by (auto simp: player_at_def split: option.splits)
  then have "chan_basic ?c"
    unfolding chan_basic_def
  proof (intro conjI allI impI)
    fix k i assume i: "om_get (playersStore ?c) k = Some i"
    show "pi_player i = k"
      using i c1_get \<open>pi_player (player_at (playersStore c1) g) = g\<close> by (auto split: if_splits)
    assume "IsOwner i"
    then show "k = ch_ownerGUID ?c"
      using i c1_get by (auto split: if_splits)
  qed (use assms(1) c1 g in \<open>auto simp: chan_basic_def\<close>)
  then show ?thesis
    unfolding fst by (simp add: chan_inv_def chan_owned_def)
qed

subsection \<open>Every operation keeps the invariant\<close>

lemma chan_basic_put:
  assumes "chan_basic c" and "g \<noteq> 0" and "\<not> IsBanned c g"
  shows "chan_basic (c\<lparr>playersStore := om_put g \<lparr>pi_player = g, pi_flags = 0\<rparr> (playersStore c)\<rparr>)"
  using assms by (auto simp: chan_basic_def om_ok_put om_get_put IsBanned_def os_mem_def IsOwner_def)

lemma JoinChannel_inv:
  assumes "chan_inv c" and "chan_pre env (OpJoin p pass) c"
  shows "chan_inv (fst (JoinChannel env p pass c))"
proof -
  let ?g = "cp_guid p"
  let ?c = "c\<lparr>playersStore := om_put ?g \<lparr>pi_player = ?g, pi_flags = 0\<rparr> (playersStore c)\<rparr>"
  have pre: "?g \<noteq> 0" "playersStore c = [] \<and> ch_ownership c \<and> \<not> IsConstant c \<Longrightarrow> ch_ownerGUID c = 0"
    using assms(2) by simp_all
  show ?thesis
  proof (cases "IsOn c ?g \<or> IsBanned c ?g \<or> (ch_password c \<noteq> [] \<and> pass \<noteq> ch_password c) \<or>
      (has_flag (ch_flags c) CHANNEL_FLAG_LFG \<and> RESTRICTED_LFG_CHANNEL env \<and> cp_security p = 0 \<and> cp_grouped p)")
    case True
    then show ?thesis using assms(1) by (auto simp: JoinChannel_def Let_def)
  next
    case False
    have b: "chan_basic ?c"
      using False assms(1) pre(1) by (intro chan_basic_put) (auto simp: chan_inv_def)
    have on: "IsOn ?c ?g" by (simp add: IsOn_def om_get_put)
    show ?thesis
    proof (cases "\<not> IsConstant c \<and> ch_ownerGUID c = 0 \<and> ch_ownership c")
      case True
      obtain c' own where c': "SetOwner env ?g (length (playersStore ?c) > 1) ?c = (c', own)" by force
      then have "chan_inv c'" using SetOwner_inv [OF b on] by (metis fst_conv)
      moreover have "IsOn c' ?g"
        using c' pre(1) by (auto simp: SetOwner_def Let_def IsOn_def split: if_splits)
      ultimately have "chan_inv (player_mod (PI_SetModerator True) ?g c')"
        by (intro chan_inv_player_mod) simp_all
      then show ?thesis
        using False True c' by (auto simp: JoinChannel_def Let_def IsConstant_def)
    next
      case noown: False
      then have fst: "fst (JoinChannel env p pass c) = ?c"
        using False by (auto simp: JoinChannel_def Let_def IsConstant_def)
      have "chan_owned ?c"
        using noown pre(2) assms(1) False
        by (auto simp: chan_inv_def chan_owned_def IsConstant_def IsOn_members player_at_def om_get_put)
      with b show ?thesis unfolding fst chan_inv_def by simp
    qed
  qed
qed

lemma chan_basic_erase:
  "chan_basic c \<Longrightarrow> chan_basic (c\<lparr>playersStore := om_erase g (playersStore c)\<rparr>)"
  by (auto simp: chan_basic_def om_ok_erase om_get_erase om_keys_erase split: if_splits)

text \<open>After the owner has gone, a member who stays on keeps everything but the owner clause.\<close>

lemma chan_basic_erase_mod:
  assumes "chan_basic c" and "IsOn (c\<lparr>playersStore := om_erase v (playersStore c)\<rparr>) g"
  shows "chan_basic (player_mod (PI_SetModerator b) g (c\<lparr>playersStore := om_erase v (playersStore c)\<rparr>)) \<and>
    IsOn (player_mod (PI_SetModerator b) g (c\<lparr>playersStore := om_erase v (playersStore c)\<rparr>)) g"
proof -
  let ?c = "c\<lparr>playersStore := om_erase v (playersStore c)\<rparr>"
  have bas: "chan_basic ?c" by (rule chan_basic_erase [OF assms(1)])
  have g: "g \<in> members ?c" using assms(2) IsOn_members by blast
  have "chan_basic (player_mod (PI_SetModerator b) g ?c)"
    unfolding chan_basic_def
  proof (intro conjI allI impI)
    fix k i assume i: "om_get (playersStore (player_mod (PI_SetModerator b) g ?c)) k = Some i"
    show "pi_player i = k"
      using i bas chan_basic_at [OF bas assms(2)] by (auto simp: chan_basic_def split: if_splits)
    assume "IsOwner i"
    then show "k = ch_ownerGUID (player_mod (PI_SetModerator b) g ?c)"
      using i bas chan_basic_owner [OF bas assms(2)] by (auto simp: chan_basic_def split: if_splits)
  qed (use bas g in \<open>auto simp: chan_basic_def\<close>)
  then show ?thesis by (simp add: IsOn_def)
qed

lemma SetOwner_after_erase:
  assumes "chan_basic c" and "IsOn (c\<lparr>playersStore := om_erase v (playersStore c)\<rparr>) g"
  shows "chan_inv (fst (SetOwner env g ex
    (player_mod (PI_SetModerator b) g (c\<lparr>playersStore := om_erase v (playersStore c)\<rparr>))))"
  using SetOwner_inv chan_basic_erase_mod [OF assms] by blast

text \<open>When somebody other than the owner goes, the owner clause stays.\<close>

lemma chan_owned_erase:
  assumes "chan_inv c" and "v \<noteq> ch_ownerGUID c"
  shows "chan_owned (c\<lparr>playersStore := om_erase v (playersStore c)\<rparr>)"
proof -
  have ok: "om_ok (playersStore c)" using assms(1) by (simp add: chan_inv_def chan_basic_def)
  have "om_erase v (playersStore c) \<noteq> [] \<Longrightarrow> playersStore c \<noteq> []" by auto
  then show ?thesis
    using assms ok
    by (auto simp: chan_inv_def chan_owned_def IsConstant_def om_keys_erase player_at_def om_get_erase)
qed

lemma LeaveChannel_inv:
  assumes "chan_inv c"
  shows "chan_inv (fst (LeaveChannel env p send c))"
proof -
  let ?g = "cp_guid p"
  let ?c = "c\<lparr>playersStore := om_erase ?g (playersStore c)\<rparr>"
  have b: "chan_basic c" using assms by (simp add: chan_inv_def)
  show ?thesis
  proof (cases "IsOn c ?g")
    case on: True
    show ?thesis
    proof (cases "\<not> IsConstant c \<and> IsOwner (player_at (playersStore c) ?g) \<and> ch_ownership c \<and> playersStore ?c \<noteq> []")
      case True
      obtain k i rest where st: "playersStore ?c = (k, i) # rest" using True by (cases "playersStore ?c") auto
      have bc: "chan_basic ?c" by (rule chan_basic_erase [OF b])
      have k: "om_get (playersStore ?c) k = Some i" by (simp add: st)
      then have "pi_player i = k" and "IsOn ?c k" using bc by (auto simp: chan_basic_def IsOn_def)
      then show ?thesis
        using True on st SetOwner_after_erase [OF b, of ?g k env True True]
        by (simp add: LeaveChannel_def Let_def IsConstant_def case_prod_beta)
    next
      case False
      have fst: "fst (LeaveChannel env p send c) = ?c"
        using False on by (auto simp: LeaveChannel_def Let_def IsConstant_def)
      have "chan_owned ?c"
      proof (cases "ch_ownership c \<and> \<not> IsConstant c \<and> playersStore ?c \<noteq> []")
        case True
        then have "playersStore c \<noteq> []" by auto
        then have "?g \<noteq> ch_ownerGUID c"
          using True False assms by (auto simp: chan_inv_def chan_owned_def)
        then show ?thesis by (rule chan_owned_erase [OF assms])
      qed (auto simp: chan_owned_def IsConstant_def)
      with chan_basic_erase [OF b] show ?thesis unfolding fst chan_inv_def by simp
    qed
  qed (use assms in \<open>simp add: LeaveChannel_def Let_def\<close>)
qed

text \<open>The victim of a kick that goes through.\<close>

definition kick_target :: "ChatEnv \<Rightarrow> ChatPlayer \<Rightarrow> string \<Rightarrow> Channel \<Rightarrow> uint64 option" where
  "kick_target env player badname c =
     (case FindPlayerByName env badname of
        None \<Rightarrow> None
      | Some bad \<Rightarrow>
          (if IsOn c (cp_guid player) \<and> moderator_or_gm player c \<and> cp_guid bad \<noteq> 0 \<and> IsOn c (cp_guid bad) \<and>
              (cp_perm player RBAC_PERM_CHANGE_CHANNEL_NOT_MODERATOR \<or> ch_ownerGUID c \<noteq> cp_guid bad \<or>
               cp_guid player = ch_ownerGUID c)
           then Some (cp_guid bad) else None))"

definition ban_victim :: "uint64 \<Rightarrow> bool \<Rightarrow> Channel \<Rightarrow> Channel" where
  "ban_victim v ban c = (if ban \<and> \<not> IsBanned c v then c\<lparr>bannedStore := os_insert v (bannedStore c)\<rparr> else c)"

definition remove_victim :: "uint64 \<Rightarrow> bool \<Rightarrow> Channel \<Rightarrow> Channel" where
  "remove_victim v ban c = (ban_victim v ban c)\<lparr>playersStore := om_erase v (playersStore c)\<rparr>"

lemma KickOrBan_state:
  "fst (KickOrBan env p name ban c) =
     (case kick_target env p name c of
        None \<Rightarrow> c
      | Some v \<Rightarrow>
          (let c' = remove_victim v ban c in
           if ch_ownerGUID c = v \<and> ch_ownership c \<and> playersStore c' \<noteq> []
           then fst (SetOwner env (cp_guid p) True (player_mod (PI_SetModerator True) (cp_guid p) c'))
           else c'))"
proof (cases "FindPlayerByName env name")
  case None
  then show ?thesis by (simp add: KickOrBan_def kick_target_def Let_def)
next
  case (Some bad)
  show ?thesis
  proof (cases "kick_target env p name c")
    case None
    then consider "\<not> IsOn c (cp_guid p)" | "IsOn c (cp_guid p)" "\<not> moderator_or_gm p c"
      | "IsOn c (cp_guid p)" "moderator_or_gm p c" "cp_guid bad = 0 \<or> \<not> IsOn c (cp_guid bad)"
      | "IsOn c (cp_guid p)" "moderator_or_gm p c" "\<not> (cp_guid bad = 0 \<or> \<not> IsOn c (cp_guid bad))"
        "\<not> cp_perm p RBAC_PERM_CHANGE_CHANNEL_NOT_MODERATOR \<and> ch_ownerGUID c = cp_guid bad \<and>
         cp_guid p \<noteq> cp_guid bad"
      using Some unfolding kick_target_def by (simp split: if_splits) blast
    then show ?thesis
      using None Some by cases (simp_all add: KickOrBan_def Let_def)
  next
    case (Some v)
    have v: "FindPlayerByName env name = Some bad" "cp_guid bad = v" "v \<noteq> 0" "IsOn c v" "IsOn c (cp_guid p)"
      "moderator_or_gm p c" and own: "\<not> (\<not> cp_perm p RBAC_PERM_CHANGE_CHANNEL_NOT_MODERATOR \<and>
        ch_ownerGUID c = v \<and> cp_guid p \<noteq> ch_ownerGUID c)"
      using Some \<open>FindPlayerByName env name = Some bad\<close> by (auto simp: kick_target_def split: if_splits)
    note unf = KickOrBan_def Some Let_def v option.case remove_victim_def ban_victim_def if_not_P [OF own]
    show ?thesis
    proof (cases "ban \<and> \<not> IsBanned c v")
      case True
      show ?thesis unfolding unf if_P [OF True] by (simp add: v Some case_prod_beta)
    next
      case False
      show ?thesis unfolding unf if_not_P [OF False] by (simp add: v Some case_prod_beta)
    qed
  qed
qed

lemma chan_basic_remove_victim:
  "chan_basic c \<Longrightarrow> chan_basic (remove_victim v ban c)"
  by (auto simp: chan_basic_def remove_victim_def ban_victim_def om_ok_erase om_get_erase om_keys_erase os_ok_insert
      split: if_splits)

lemma remove_victim_simps [simp]:
  "playersStore (remove_victim v ban c) = om_erase v (playersStore c)"
  "ch_ownerGUID (remove_victim v ban c) = ch_ownerGUID c" "ch_ownership (remove_victim v ban c) = ch_ownership c"
  "ch_channelId (remove_victim v ban c) = ch_channelId c"
  by (simp_all add: remove_victim_def ban_victim_def)

lemma chan_basic_mod:
  assumes "chan_basic c" and "IsOn c g"
  shows "chan_basic (player_mod (PI_SetModerator b) g c)"
  unfolding chan_basic_def
proof (intro conjI allI impI)
  fix k i assume i: "om_get (playersStore (player_mod (PI_SetModerator b) g c)) k = Some i"
  show "pi_player i = k"
    using i assms(1) chan_basic_at [OF assms] by (auto simp: chan_basic_def split: if_splits)
  assume "IsOwner i"
  then show "k = ch_ownerGUID (player_mod (PI_SetModerator b) g c)"
    using i assms(1) chan_basic_owner [OF assms] by (auto simp: chan_basic_def split: if_splits)
qed (use assms in \<open>auto simp: chan_basic_def IsOn_members\<close>)

lemma SetOwner_mod_inv:
  "chan_basic c \<Longrightarrow> IsOn c g \<Longrightarrow> chan_inv (fst (SetOwner env g ex (player_mod (PI_SetModerator b) g c)))"
  using SetOwner_inv [OF chan_basic_mod] by (simp add: IsOn_def)

lemma KickOrBan_inv:
  assumes "chan_inv c" and "chan_pre env (OpKickOrBan p name ban) c"
  shows "chan_inv (fst (KickOrBan env p name ban c))"
proof (cases "kick_target env p name c")
  case (Some v)
  let ?c = "remove_victim v ban c"
  have b: "chan_basic ?c" using assms(1) by (simp add: chan_inv_def chan_basic_remove_victim)
  have v: "v \<noteq> cp_guid p" and on: "IsOn c (cp_guid p)"
    using Some assms(2) by (auto simp: kick_target_def split: option.splits if_splits)
  have "om_ok (playersStore c)" using assms(1) by (simp add: chan_inv_def chan_basic_def)
  with v on have on': "IsOn ?c (cp_guid p)" by (auto simp: IsOn_def om_get_erase)
  show ?thesis
  proof (cases "ch_ownerGUID c = v \<and> ch_ownership c")
    case True
    have "playersStore ?c \<noteq> []" using on' by (auto simp: IsOn_def)
    then show ?thesis
      using Some True SetOwner_mod_inv [OF b on'] by (simp add: KickOrBan_state Let_def)
  next
    case False
    have "chan_owned ?c"
      using False chan_owned_erase [OF assms(1), of v]
      by (cases "ch_ownership c") (auto simp: chan_owned_def IsConstant_def)
    with Some False b show ?thesis by (auto simp: KickOrBan_state Let_def chan_inv_def)
  qed
qed (use assms in \<open>simp add: KickOrBan_state\<close>)

lemma chan_inv_update:
  assumes "chan_inv c"
  shows "chan_inv (c\<lparr>ch_password := pass\<rparr>)" "chan_inv (c\<lparr>ch_announce := a\<rparr>)"
    "chan_inv (c\<lparr>bannedStore := os_erase v (bannedStore c)\<rparr>)"
  using assms by (auto simp: chan_inv_def chan_basic_def chan_owned_def IsConstant_def os_ok_erase set_os_erase)

lemma small_ops_inv:
  assumes "chan_inv c"
  shows "chan_inv (fst (UnBan env p name c))" "chan_inv (fst (Password env p pass c))"
    "chan_inv (fst (Announce env p c))"
  using assms by (simp_all add: UnBan_def Password_def Announce_def Let_def chan_inv_update)

lemma setters_inv:
  assumes "chan_inv c"
  shows "chan_inv (SetPassword pass c)" "chan_inv (SetAnnounce on c)"
  using assms by (simp_all add: SetPassword_def SetAnnounce_def chan_inv_update)

lemma SetOwnership_inv:
  assumes "chan_inv c" and "chan_pre env (OpOwnership on) c"
  shows "chan_inv (SetOwnership on c)"
  using assms
  by (auto simp: chan_inv_def chan_basic_def chan_owned_def owner_present_def SetOwnership_def IsConstant_def)

lemma member_by_name_on: "member_by_name env p name c = Some v \<Longrightarrow> IsOn c v \<and> v \<noteq> 0"
  by (auto simp: member_by_name_def split: option.splits if_splits)

lemma SetMode_inv:
  assumes "chan_inv c"
  shows "chan_inv (fst (SetMode env p name moderate on c))"
proof -
  have "chan_inv (fst (SetModerator env v on c))" "chan_inv (fst (SetMute env v on c))" if "IsOn c v" for v
    using assms that by (simp_all add: SetModerator_def SetMute_def Let_def chan_inv_player_mod)
  with assms show ?thesis
    by (auto simp: SetMode_def Let_def dest: member_by_name_on split: option.splits)
qed

lemma SetOwnerByName_inv:
  assumes "chan_inv c"
  shows "chan_inv (fst (SetOwnerByName env p name c))"
proof -
  have "chan_inv (fst (SetOwner env v True (player_mod (PI_SetModerator True) v c)))" if "IsOn c v" for v
    using assms that by (intro SetOwner_mod_inv) (simp_all add: chan_inv_def)
  with assms show ?thesis
    by (auto simp: SetOwnerByName_def Let_def dest: member_by_name_on split: option.splits)
qed

lemmas chan_inv_ops = JoinChannel_inv LeaveChannel_inv KickOrBan_inv small_ops_inv SetMode_inv SetOwnerByName_inv
  setters_inv SetOwnership_inv

interpretation chan: guarded_machine "chan_step env" "chan_pre env" chan_inv
proof
  fix c a assume "chan_inv c" "chan_pre env a c"
  then show "chan_inv (chan_step env a c)"
    by (cases a) (simp_all add: chan_step_def chan_inv_ops del: chan_pre.simps)
qed

section \<open>Who may do what\<close>

fun moderation_by :: "chan_op \<Rightarrow> ChatPlayer option" where
  "moderation_by (OpJoin p pass) = None"
| "moderation_by (OpLeave p send) = None"
| "moderation_by (OpKickOrBan p name ban) = Some p"
| "moderation_by (OpUnBan p name) = Some p"
| "moderation_by (OpPassword p pass) = Some p"
| "moderation_by (OpSetMode p name moderate on) = Some p"
| "moderation_by (OpSetOwner p name) = Some p"
| "moderation_by (OpAnnounce p) = Some p"
| "moderation_by (OpPlainPassword pass) = None"
| "moderation_by (OpPlainAnnounce on) = None"
| "moderation_by (OpOwnership on) = None"

definition entitled :: "ChatPlayer \<Rightarrow> Channel \<Rightarrow> bool" where
  "entitled p c \<longleftrightarrow> IsOn c (cp_guid p) \<and> (moderator_or_gm p c \<or> cp_guid p = ch_ownerGUID c)"

lemma unentitled_refused:
  assumes "moderation_by a = Some p" and "\<not> entitled p c"
  shows "fst (chan_run env a c) = c \<and> (\<exists>d. snd (chan_run env a c) = SendToOne env d (cp_guid p))"
  using assms
  by (cases a)
    (auto simp: entitled_def KickOrBan_def UnBan_def Password_def SetMode_def SetOwnerByName_def Announce_def
      moderator_or_gm_def Let_def)

text \<open>Only the owner and holders of the special permission can make the ownership change hands.\<close>

lemma SetMode_owner: "ch_ownerGUID (fst (SetMode env p name moderate on c)) = ch_ownerGUID c"
  by (auto simp: SetMode_def SetModerator_def SetMute_def Let_def split: option.splits)

lemma other_ops_owner:
  "ch_ownerGUID (fst (UnBan env p name c)) = ch_ownerGUID c" "ch_ownerGUID (fst (Password env p pass c)) = ch_ownerGUID c"
  "ch_ownerGUID (fst (Announce env p c)) = ch_ownerGUID c"
  by (simp_all add: UnBan_def Password_def Announce_def Let_def)

lemma owner_change_entitled:
  assumes "moderation_by a = Some p" and "ch_ownerGUID (fst (chan_run env a c)) \<noteq> ch_ownerGUID c"
  shows "cp_guid p = ch_ownerGUID c \<or> cp_perm p RBAC_PERM_CHANGE_CHANNEL_NOT_MODERATOR"
proof (cases a)
  case (OpKickOrBan q name ban)
  then have "\<exists>v. kick_target env p name c = Some v \<and> ch_ownerGUID c = v"
    using assms by (auto simp: KickOrBan_state Let_def split: option.splits if_splits)
  then show ?thesis by (auto simp: kick_target_def split: option.splits if_splits)
next
  case (OpSetOwner q name)
  with assms show ?thesis
    by (auto simp: SetOwnerByName_def Let_def split: if_splits)
qed (use assms SetMode_owner other_ops_owner in auto)

section \<open>Who receives what\<close>

definition receives :: "ChatEnv \<Rightarrow> uint64 \<Rightarrow> uint64 \<Rightarrow> bool" where
  "receives env speaker k \<longleftrightarrow>
     (case FindConnectedPlayer env k of
        None \<Rightarrow> False
      | Some p \<Rightarrow> speaker = 0 \<or> \<not> cp_ignores p (GUID_LOPART speaker))"

lemma SendToAll_recipients: "SendToAll env c data g = map (\<lambda>k. Send k data) (filter (receives env g) (om_keys (playersStore c)))"
proof -
  have "concat (map (\<lambda>(k, i). case FindConnectedPlayer env k of
         None \<Rightarrow> []
       | Some p \<Rightarrow> (if g = 0 \<or> \<not> cp_ignores p (GUID_LOPART g) then [Send k data] else [])) s) =
     map (\<lambda>k. Send k data) (filter (receives env g) (om_keys s))" for s :: PlayerContainer
    by (induction s) (auto simp: receives_def split: option.splits)
  then show ?thesis by (simp add: SendToAll_def)
qed

section \<open>The ban list in the database\<close>

lemma parse_bans_numbers:
  "\<forall>g \<in> set bans. g \<noteq> 0 \<and> unat g < 2 ^ 63 \<Longrightarrow>
   fold (\<lambda>t s. let guid = word_of_int (atol t) :: uint64 in if guid \<noteq> 0 then os_insert guid s else s)
     (map (\<lambda>g. show_nat (unat g)) bans) s = fold os_insert bans s"
  by (induction bans arbitrary: s) (simp_all add: atol_show_nat Let_def)

lemma fold_os_insert_self: "os_ok bans \<Longrightarrow> fold os_insert bans [] = bans"
  by (intro os_ok_unique os.ok_fold_ins) (auto simp: os.mem_fold_ins [unfolded os_mem_def])

lemma load_saved_bans:
  assumes "os_ok bans" and "\<forall>g \<in> set bans. g \<noteq> 0 \<and> unat g < 2 ^ 63"
  shows "load_bans (Some (ban_list_string bans)) = bans"
proof -
  let ?ts = "map (\<lambda>g. show_nat (unat g)) bans"
  have "ban_list_string bans = concat (map (\<lambda>t. t @ [CHR '' '']) ?ts)"
    by (simp add: ban_list_string_def comp_def)
  then have "Tokenizer (ban_list_string bans) (CHR '' '') = Some ?ts"
    using Tokenizer_terminated [of "CHR '' ''" ?ts] plain_show_nat [of "CHR '' ''"] by (auto simp: isdigit_def)
  then show ?thesis
    using assms parse_bans_numbers [of bans "[]"] by (simp add: load_bans_def parse_bans_def fold_os_insert_self)
qed

lemma SetOwner_members:
  "members (fst (SetOwner env g ex c)) = (if g = 0 then members c else insert g (members c))"
  by (auto simp: SetOwner_def Let_def IsOn_members)

lemma SetOwner_keeps [simp]:
  "bannedStore (fst (SetOwner env g ex c)) = bannedStore c"
  by (auto simp: SetOwner_def Let_def)

definition admitted :: "ChatEnv \<Rightarrow> ChatPlayer \<Rightarrow> string \<Rightarrow> Channel \<Rightarrow> bool" where
  "admitted env p pass c \<longleftrightarrow> \<not> IsOn c (cp_guid p) \<and> \<not> IsBanned c (cp_guid p) \<and>
     (ch_password c = [] \<or> pass = ch_password c) \<and>
     \<not> (has_flag (ch_flags c) CHANNEL_FLAG_LFG \<and> RESTRICTED_LFG_CHANNEL env \<and> cp_security p = 0 \<and> cp_grouped p)"

lemma Join_refused:
  "\<not> admitted env p pass c \<Longrightarrow> fst (JoinChannel env p pass c) = c \<and> JoinedChannel g \<notin> set (snd (JoinChannel env p pass c))"
  by (auto simp: admitted_def JoinChannel_def Let_def SendToOne_def)

lemma Join_admitted:
  assumes "admitted env p pass c"
  shows "members (fst (JoinChannel env p pass c)) = insert (cp_guid p) (members c)"
    and "JoinedChannel (cp_guid p) \<in> set (snd (JoinChannel env p pass c))"
    and "bannedStore (fst (JoinChannel env p pass c)) = bannedStore c"
  using assms unfolding admitted_def
  by (auto simp: JoinChannel_def Let_def case_prod_beta SetOwner_members)

section \<open>A small server\<close>

definition demo_player :: "uint64 \<Rightarrow> string \<Rightarrow> ChatPlayer" where
  "demo_player g n = \<lparr>cp_guid = g, cp_name = n, cp_team = 469, cp_security = 0, cp_perm = \<lambda>_. False, cp_grouped = False,
     cp_gmVisible = True, cp_ignores = \<lambda>_. False, cp_visibleFor = \<lambda>_. True, cp_chatTag = 0\<rparr>"

definition demo_env :: ChatEnv where
  "demo_env = \<lparr>FindPlayerByName = \<lambda>n. if n = ''Ann'' then Some (demo_player 1 ''Ann'') else
       if n = ''Bob'' then Some (demo_player 2 ''Bob'') else None,
     FindConnectedPlayer = \<lambda>g. if g = 1 then Some (demo_player 1 ''Ann'') else
       if g = 2 then Some (demo_player 2 ''Bob'') else None,
     GetPlayerNameByGUID = \<lambda>_. None, ChatChannelsStore = \<lambda>_. None, RESTRICTED_LFG_CHANNEL = False,
     ALLOW_TWO_SIDE_INTERACTION_CHANNEL = False, PRESERVE_CUSTOM_CHANNELS = False,
     PRESERVE_CUSTOM_CHANNEL_DURATION = 0, GM_LEVEL_IN_WHO_LIST = 0\<rparr>"

definition demo_channel :: "PlayerContainer \<Rightarrow> uint64 \<Rightarrow> Channel" where
  "demo_channel s owner = (fst (Channel_new demo_env None ''talk'' 0 0))\<lparr>playersStore := s, ch_ownerGUID := owner\<rparr>"

lemmas demo_defs = demo_player_def demo_env_def demo_channel_def Channel_new_def

text \<open>Why switching the ownership on is guarded: Ann owns a channel with Bob on it, the ownership is switched
  off, Ann leaves without a successor being chosen, and when the ownership is switched on again the channel
  has a member, ownership and no owner on board.\<close>

lemma ownership_on_breaks:
  "let c = demo_channel [(1, \<lparr>pi_player = 1, pi_flags = 3\<rparr>), (2, \<lparr>pi_player = 2, pi_flags = 0\<rparr>)] 1;
       c' = fold (chan_step demo_env) [OpOwnership False, OpLeave (demo_player 1 ''Ann'') True, OpOwnership True] c in
   chan_inv c \<and> \<not> chan_inv c' \<and> members c' = {2} \<and> ch_ownerGUID c' = 1"
proof -
  let ?c = "demo_channel [(1, \<lparr>pi_player = 1, pi_flags = 3\<rparr>), (2, \<lparr>pi_player = 2, pi_flags = 0\<rparr>)] 1"
  let ?c' = "fold (chan_step demo_env) [OpOwnership False, OpLeave (demo_player 1 ''Ann'') True, OpOwnership True] ?c"
  have "chan_inv ?c"
    by (auto simp: chan_inv_def chan_basic_def chan_owned_def demo_defs Let_def player_at_def IsOwner_def has_flag_def split: if_splits)
  moreover have "ch_ownership ?c' \<and> \<not> IsConstant ?c' \<and> om_keys (playersStore ?c') = [2] \<and> ch_ownerGUID ?c' = 1"
    by code_simp
  ultimately show ?thesis
    by (auto simp: Let_def chan_inv_def chan_owned_def)
qed

section \<open>Properties of channels\<close>

text \<open>(C2) Every sequence of operations on a channel, the plain setters included, keeps the channel well
  formed: members are filed under their own GUID, no banned player is a member, only the entry of
  \<open>_ownerGUID\<close> has the owner flag, and a non-empty custom channel with ownership has its owner on board.  The
  sequences are those in which joiners find a fresh channel instead of an emptied one, nobody kicks himself,
  and the ownership is not switched on in a custom channel whose members have lost their owner.\<close>

theorem channel_invariant:
  assumes "chan_inv c" and "guarded_machine.run (chan_step env) (chan_pre env) c ops c'"
  shows "chan_inv c'"
  using chan.run_inv assms by blast

text \<open>Ann creates the channel, Bob joins, the ownership is switched off and on, Ann leaves and Bob inherits.\<close>

theorem channel_invariant_witness:
  "let c = demo_channel [] 0; ann = demo_player 1 ''Ann''; bob = demo_player 2 ''Bob'' in
   \<exists>c'. guarded_machine.run (chan_step demo_env) (chan_pre demo_env) c
       [OpJoin ann '''', OpJoin bob '''', OpOwnership False, OpOwnership True, OpLeave ann True] c' \<and>
     chan_inv c' \<and> om_keys (playersStore c') = [2] \<and> ch_ownerGUID c' = 2"
proof -
  let ?c = "demo_channel [] 0" and ?ann = "demo_player 1 ''Ann''" and ?bob = "demo_player 2 ''Bob''"
  let ?s = "chan_step demo_env"
  let ?d = "?s (OpLeave ?ann True) (?s (OpOwnership True) (?s (OpOwnership False) (?s (OpJoin ?bob '''') (?s (OpJoin ?ann '''') ?c))))"
  have inv: "chan_inv ?c"
    by (simp add: chan_inv_def chan_basic_def chan_owned_def demo_defs Let_def)
  have pre: "chan_pre demo_env (OpJoin ?ann '''') ?c" "chan_pre demo_env (OpJoin ?bob '''') (?s (OpJoin ?ann '''') ?c)"
    "chan_pre demo_env (OpOwnership True) (?s (OpOwnership False) (?s (OpJoin ?bob '''') (?s (OpJoin ?ann '''') ?c)))"
    by code_simp+
  have run: "guarded_machine.run ?s (chan_pre demo_env) ?c
      [OpJoin ?ann '''', OpJoin ?bob '''', OpOwnership False, OpOwnership True, OpLeave ?ann True] ?d"
    by (intro chan.run_cons chan.run_nil pre) simp_all
  have "om_keys (playersStore ?d) = [2] \<and> ch_ownerGUID ?d = 2" by code_simp
  then show ?thesis
    unfolding Let_def using channel_invariant [OF inv run] run by blast
qed

text \<open>(C3) Moderation is authorised: unless the caller is on the channel and moderator, owner or holder of
  the permission to act without being moderator, kicking, banning, unbanning, setting the password,
  changing modes, handing over the ownership and toggling announcements leave the channel as it is and
  at most answer the caller; and the owner changes only at the hands of the owner or of a holder of
  that permission.\<close>

theorem channel_moderation_authorised:
  assumes "moderation_by a = Some p"
  shows "(\<not> entitled p c \<longrightarrow> fst (chan_run env a c) = c \<and>
      (\<exists>d. snd (chan_run env a c) = SendToOne env d (cp_guid p))) \<and>
    (ch_ownerGUID (fst (chan_run env a c)) \<noteq> ch_ownerGUID c \<longrightarrow>
      cp_guid p = ch_ownerGUID c \<or> cp_perm p RBAC_PERM_CHANGE_CHANNEL_NOT_MODERATOR)"
  using unentitled_refused [OF assms] owner_change_entitled [OF assms] by blast

theorem channel_moderation_authorised_witness:
  "let c = demo_channel [(1, \<lparr>pi_player = 1, pi_flags = 3\<rparr>), (2, \<lparr>pi_player = 2, pi_flags = 0\<rparr>)] 1;
       bob = demo_player 2 ''Bob'' in
   fst (chan_run demo_env (OpKickOrBan bob ''Ann'' True) c) = c"
proof -
  let ?c = "demo_channel [(1, \<lparr>pi_player = 1, pi_flags = 3\<rparr>), (2, \<lparr>pi_player = 2, pi_flags = 0\<rparr>)] 1"
  have "\<not> entitled (demo_player 2 ''Bob'') ?c"
    by (simp add: entitled_def moderator_or_gm_def player_at_def IsModerator_def demo_defs Let_def)
  then show ?thesis
    using channel_moderation_authorised [of "OpKickOrBan (demo_player 2 ''Bob'') ''Ann'' True" "demo_player 2 ''Bob''" ?c demo_env]
    by (simp add: Let_def)
qed

text \<open>(C31) Joining: a player is taken in exactly when he is not already on the channel, not banned, gives
  the password if there is one, and is not kept out of a restricted LFG channel; then he becomes a member
  next to the present ones, and otherwise the channel does not change at all.\<close>

theorem channel_join_exact:
  "(if admitted env p pass c
    then members (fst (JoinChannel env p pass c)) = insert (cp_guid p) (members c) \<and>
      bannedStore (fst (JoinChannel env p pass c)) = bannedStore c \<and>
      JoinedChannel (cp_guid p) \<in> set (snd (JoinChannel env p pass c))
    else fst (JoinChannel env p pass c) = c \<and> JoinedChannel g \<notin> set (snd (JoinChannel env p pass c)))"
  using Join_admitted Join_refused by simp

text \<open>(C34) The ban list written by \<open>UpdateChannelInDB\<close> and loaded again by the constructor is the same set,
  for every set of non-zero GUIDs below \<open>2 ^ 63\<close> (those of players are below \<open>2 ^ 32\<close>).\<close>

theorem channel_ban_list_roundtrip:
  assumes "os_ok bans" and "\<forall>g \<in> set bans. g \<noteq> 0 \<and> unat g < 2 ^ 63"
  shows "load_bans (Some (ban_list_string bans)) = bans"
  by (rule load_saved_bans [OF assms])

theorem channel_ban_list_roundtrip_witness:
  "load_bans (Some (ban_list_string [5, 17, 4294967295])) = [5, 17, 4294967295]"
  by (rule channel_ban_list_roundtrip) simp_all

lemma kick_members:
  assumes "om_ok (playersStore c)" and "kick_target env p name c = Some v"
  shows "members (fst (KickOrBan env p name ban c)) =
    (if v = cp_guid p \<and> ch_ownerGUID c = v \<and> ch_ownership c \<and> members c \<noteq> {v} then members c else members c - {v})"
proof -
  have k: "members (remove_victim v ban c) = members c - {v}" using assms(1) by (simp add: om_keys_erase)
  have v: "v \<in> members c" "cp_guid p \<in> members c" "v \<noteq> 0"
    using assms(2) by (auto simp: kick_target_def IsOn_members split: option.splits if_splits)
  have e: "om_erase v (playersStore c) = [] \<longleftrightarrow> members c = {v}"
  proof -
    have "om_erase v (playersStore c) = [] \<longleftrightarrow> members c - {v} = {}"
      using store_Nil [of "remove_victim v ban c"] unfolding k by simp
    then show ?thesis using v(1) by blast
  qed
  show ?thesis
  proof (cases "ch_ownerGUID c = v \<and> ch_ownership c \<and> members c \<noteq> {v}")
    case True
    then have cond: "ch_ownerGUID c = v \<and> ch_ownership c \<and> playersStore (remove_victim v ban c) \<noteq> []"
      using e by simp
    have "fst (KickOrBan env p name ban c) =
        fst (SetOwner env (cp_guid p) True (player_mod (PI_SetModerator True) (cp_guid p) (remove_victim v ban c)))"
      unfolding KickOrBan_state assms(2) option.case Let_def if_P [OF cond] ..
    then have "members (fst (KickOrBan env p name ban c)) = insert (cp_guid p) (members (remove_victim v ban c))"
      by (simp only: SetOwner_members player_mod_simps(1) if_cancel insert_absorb2 split: if_split)
    then have "members (fst (KickOrBan env p name ban c)) = insert (cp_guid p) (members c - {v})"
      unfolding k .
    moreover have "insert (cp_guid p) (members c - {v}) = (if v = cp_guid p then members c else members c - {v})"
      using v(1,2) by (simp add: insert_absorb)
    ultimately show ?thesis using True by (simp only: simp_thms if_True if_False)
  next
    case False
    then have cond: "\<not> (ch_ownerGUID c = v \<and> ch_ownership c \<and> playersStore (remove_victim v ban c) \<noteq> [])"
      using e by simp
    have "fst (KickOrBan env p name ban c) = remove_victim v ban c"
      unfolding KickOrBan_state assms(2) option.case Let_def if_not_P [OF cond] ..
    moreover have "\<not> (v = cp_guid p \<and> ch_ownerGUID c = v \<and> ch_ownership c \<and> members c \<noteq> {v})"
      using False by blast
    ultimately show ?thesis using k by (simp only: if_False)
  qed
qed

lemma kick_bans:
  assumes "kick_target env p name c = Some v"
  shows "set (bannedStore (fst (KickOrBan env p name ban c))) = (if ban then insert v (set (bannedStore c)) else set (bannedStore c))"
proof -
  have b: "set (bannedStore (remove_victim v ban c)) = (if ban then insert v (set (bannedStore c)) else set (bannedStore c))"
    by (auto simp: remove_victim_def ban_victim_def IsBanned_def os_mem_def)
  show ?thesis
    unfolding b [symmetric] using assms by (simp add: KickOrBan_state Let_def)
qed

text \<open>(C32) Kicking and banning: without a rightful target nothing changes; otherwise the victim leaves the
  members and, for a ban, enters the ban list.  The exception is an owner who kicks or bans himself while
  others are present: the hand-over of the ownership to the kicker puts him back, so that he stays a
  member of the channel he was removed from.\<close>

theorem channel_kick_result:
  assumes "om_ok (playersStore c)"
  shows "case kick_target env p name c of
      None \<Rightarrow> fst (KickOrBan env p name ban c) = c
    | Some v \<Rightarrow>
        members (fst (KickOrBan env p name ban c)) =
          (if v = cp_guid p \<and> ch_ownerGUID c = v \<and> ch_ownership c \<and> members c \<noteq> {v} then members c else members c - {v}) \<and>
        set (bannedStore (fst (KickOrBan env p name ban c))) =
          (if ban then insert v (set (bannedStore c)) else set (bannedStore c))"
  using kick_members [OF assms, of env p name] kick_bans [of env p name c]
  by (cases "kick_target env p name c") (simp_all add: KickOrBan_state)

theorem channel_kick_result_witness:
  "let c = demo_channel [(1, \<lparr>pi_player = 1, pi_flags = 3\<rparr>), (2, \<lparr>pi_player = 2, pi_flags = 0\<rparr>)] 1;
       ann = demo_player 1 ''Ann'' in
   1 \<in> members (fst (KickOrBan demo_env ann ''Ann'' True c)) \<and> 1 \<in> set (bannedStore (fst (KickOrBan demo_env ann ''Ann'' True c)))"
proof -
  let ?c = "demo_channel [(1, \<lparr>pi_player = 1, pi_flags = 3\<rparr>), (2, \<lparr>pi_player = 2, pi_flags = 0\<rparr>)] 1"
  have t: "kick_target demo_env (demo_player 1 ''Ann'') ''Ann'' ?c = Some 1"
    by (simp add: kick_target_def demo_defs Let_def IsOn_def moderator_or_gm_def player_at_def IsModerator_def has_flag_def)
  have "om_ok (playersStore ?c)" by (simp add: demo_defs Let_def)
  from channel_kick_result [OF this, of demo_env "demo_player 1 ''Ann''" "''Ann''" True] show ?thesis
    unfolding Let_def t by (simp add: demo_defs Let_def)
qed

text \<open>(C33) A message said on a channel by a member who is not muted goes, as one chat packet, to exactly the
  connected members who do not ignore the speaker (to all connected members when he is moderator), once
  each and in the order of their GUIDs; a muted member only gets the notice, and nobody who is not on the
  channel is heard.\<close>

theorem channel_say_recipients:
  assumes "what \<noteq> []" and "ch_name c \<noteq> []"
  shows "if \<not> IsOn c guid then Say env guid what lang c = SendToOne env (MakeNotMember c) guid
    else if IsMuted (player_at (playersStore c) guid) then Say env guid what lang c = SendToOne env (MakeMuted c) guid
    else \<exists>data. Say env guid what lang c =
        map (\<lambda>k. Send k data)
          (filter (receives env (if IsModerator (player_at (playersStore c) guid) then 0 else guid)) (om_keys (playersStore c))) \<and>
      m_opcode data \<in> {SMSG_MESSAGECHAT, SMSG_GM_MESSAGECHAT} \<and> Str what \<in> set (pkt_fields data)"
proof -
  have build: "\<exists>data n. BuildChatPacket 0x11 l s r what tag sn rn a gm (ch_name c) = Some (data, n) \<and>
      m_opcode data \<in> {SMSG_MESSAGECHAT, SMSG_GM_MESSAGECHAT} \<and> Str what \<in> set (pkt_fields data)" for l s r tag sn rn a gm
    using assms(2) by (auto simp: BuildChatPacket_def Let_def stream_def WorldPacket_init_def len_string_def)
  obtain data n where d: "(case FindConnectedPlayer env guid of
        Some player \<Rightarrow> BuildPlayerChatPacket 0x11 (if ALLOW_TWO_SIDE_INTERACTION_CHANNEL env then 0 else lang) player what (ch_name c)
      | None \<Rightarrow> BuildChatPacket 0x11 (if ALLOW_TWO_SIDE_INTERACTION_CHANNEL env then 0 else lang) guid guid what 0 [] [] 0 False
          (ch_name c)) = Some (data, n)"
    and "m_opcode data \<in> {SMSG_MESSAGECHAT, SMSG_GM_MESSAGECHAT}" "Str what \<in> set (pkt_fields data)"
    using build unfolding BuildPlayerChatPacket_def by (cases "FindConnectedPlayer env guid") fastforce+
  then show ?thesis
    using assms(1) by (auto simp: Say_def Let_def SendToAll_recipients)
qed

theorem channel_say_recipients_witness:
  "let c = demo_channel [(1, \<lparr>pi_player = 1, pi_flags = 3\<rparr>), (2, \<lparr>pi_player = 2, pi_flags = 0\<rparr>)] 1 in
   \<exists>data. Say demo_env 2 ''hi'' 7 c = [Send 1 data, Send 2 data]"
proof -
  let ?c = "demo_channel [(1, \<lparr>pi_player = 1, pi_flags = 3\<rparr>), (2, \<lparr>pi_player = 2, pi_flags = 0\<rparr>)] 1"
  have "filter (receives demo_env 2) (om_keys (playersStore ?c)) = [1, 2]"
    by (simp add: demo_defs Let_def receives_def)
  moreover have "\<not> IsMuted (player_at (playersStore ?c) 2)" "\<not> IsModerator (player_at (playersStore ?c) 2)" "IsOn ?c 2"
    by (simp_all add: demo_defs Let_def player_at_def IsMuted_def IsModerator_def IsOn_def)
  moreover have "ch_name ?c \<noteq> []" by (simp add: demo_defs Let_def)
  ultimately show ?thesis
    using channel_say_recipients [of "''hi''" ?c 2 demo_env 7] unfolding Let_def by auto
qed

end
