(* ===== verification/ChannelMgr.thy ===== *)
theory ChannelMgr
  imports Channel Utf8 "HOL-Library.List_Lexorder"
begin

text \<open>
  The channel managers of the two factions (\<open>ChannelMgr.cpp\<close>) and the packet handlers of
  \<open>ChannelHandler.cpp\<close> that read a client's request from a \<open>ByteBuffer\<close> and carry it out on a channel.  A
  manager files its channels under the lower-cased wide form of their names.  A handler fails with the
  exception of a short packet or with the buffer overflow of a name conversion; otherwise it returns the
  new state of both managers and the effects.
\<close>

section \<open>The managers\<close>

record ChannelMgr =
  cm_channels :: "(wchar list, Channel) omap"
  cm_team :: uint32

datatype faction = AllianceMgr | HordeMgr

record ChatServer =
  alliance_mgr :: ChannelMgr
  horde_mgr :: ChannelMgr

definition mgr_of :: "faction \<Rightarrow> ChatServer \<Rightarrow> ChannelMgr" where
  "mgr_of f S = (case f of AllianceMgr \<Rightarrow> alliance_mgr S | HordeMgr \<Rightarrow> horde_mgr S)"

definition set_mgr :: "faction \<Rightarrow> ChannelMgr \<Rightarrow> ChatServer \<Rightarrow> ChatServer" where
  "set_mgr f m S = (case f of AllianceMgr \<Rightarrow> S\<lparr>alliance_mgr := m\<rparr> | HordeMgr \<Rightarrow> S\<lparr>horde_mgr := m\<rparr>)"

definition ChatServer_new :: ChatServer where
  "ChatServer_new = \<lparr>alliance_mgr = \<lparr>cm_channels = [], cm_team = 0\<rparr>, horde_mgr = \<lparr>cm_channels = [], cm_team = 0\<rparr>\<rparr>"

abbreviation ALLIANCE :: uint32 where "ALLIANCE \<equiv> 469"
abbreviation HORDE :: uint32 where "HORDE \<equiv> 67"

definition forTeam :: "ChatEnv \<Rightarrow> uint32 \<Rightarrow> faction option" where
  "forTeam env team =
     (if ALLOW_TWO_SIDE_INTERACTION_CHANNEL env then Some AllianceMgr
      else if team = ALLIANCE then Some AllianceMgr
      else if team = HORDE then Some HordeMgr
      else None)"

text \<open>What the managers and handlers use besides the chat environment: the UTF-8 library, the stored
  channels, and whether a player may join a built-in channel in his zone.\<close>

record ChatLib =
  cl_env :: ChatEnv
  cl_utf8 :: utf8_lib
  cl_rows :: "string \<Rightarrow> uint32 \<Rightarrow> channel_row option"
  cl_zoneOk :: "uint64 \<Rightarrow> uint32 \<Rightarrow> bool"

definition channel_key :: "ChatLib \<Rightarrow> string \<Rightarrow> utf8_error + wchar list option" where
  "channel_key lib name =
     (case Utf8toWStr (cl_utf8 lib) name of
        Inl e \<Rightarrow> Inl e
      | Inr None \<Rightarrow> Inr None
      | Inr (Some w) \<Rightarrow> Inr (Some (wstrToLower w)))"

text \<open>\<open>GetJoinChannel\<close> and \<open>GetChannel\<close> return the key of the channel in the map (\<open>None\<close> for NULL).\<close>

definition GetJoinChannel ::
  "ChatLib \<Rightarrow> string \<Rightarrow> uint32 \<Rightarrow> ChannelMgr \<Rightarrow> utf8_error + (wchar list option \<times> ChannelMgr \<times> chan_effect list)" where
  "GetJoinChannel lib name channelId m =
     (case channel_key lib name of
        Inl e \<Rightarrow> Inl e
      | Inr None \<Rightarrow> Inr (None, m, [])
      | Inr (Some wname) \<Rightarrow>
          (case om_get (cm_channels m) wname of
             None \<Rightarrow>
               (let (nchan, eff) = Channel_new (cl_env lib) (cl_rows lib name (cm_team m)) name channelId (cm_team m) in
                Inr (Some wname, m\<lparr>cm_channels := om_put wname nchan (cm_channels m)\<rparr>, eff))
           | Some _ \<Rightarrow> Inr (Some wname, m, [])))"

definition MakeNotOnPacket :: "string \<Rightarrow> WorldPacket" where
  "MakeNotOnPacket name = stream [U8 5, Str name] (WorldPacket_init SMSG_CHANNEL_NOTIFY)"

definition GetChannel ::
  "ChatLib \<Rightarrow> string \<Rightarrow> ChatPlayer \<Rightarrow> bool \<Rightarrow> ChannelMgr \<Rightarrow> utf8_error + (wchar list option \<times> chan_effect list)" where
  "GetChannel lib name player pkt m =
     (case channel_key lib name of
        Inl e \<Rightarrow> Inl e
      | Inr None \<Rightarrow> Inr (None, [])
      | Inr (Some wname) \<Rightarrow>
          (case om_get (cm_channels m) wname of
             None \<Rightarrow> Inr (None, if pkt then [Send (cp_guid player) (MakeNotOnPacket name)] else [])
           | Some _ \<Rightarrow> Inr (Some wname, [])))"

definition MgrLeftChannel :: "ChatLib \<Rightarrow> string \<Rightarrow> ChannelMgr \<Rightarrow> utf8_error + ChannelMgr" where
  "MgrLeftChannel lib name m =
     (case channel_key lib name of
        Inl e \<Rightarrow> Inl e
      | Inr None \<Rightarrow> Inr m
      | Inr (Some wname) \<Rightarrow>
          (case om_get (cm_channels m) wname of
             None \<Rightarrow> Inr m
           | Some c \<Rightarrow>
               (if GetNumPlayers c = 0 \<and> \<not> IsConstant c
                then Inr (m\<lparr>cm_channels := om_erase wname (cm_channels m)\<rparr>) else Inr m)))"

section \<open>The packet handlers\<close>

datatype handler_error = PacketError bb_error | NameError utf8_error

type_synonym handled = "handler_error + (ChatServer \<times> chan_effect list)"

definition read_two_strings :: "ByteBuffer \<Rightarrow> handler_error + (string \<times> string)" where
  "read_two_strings b =
     (case read_string b of
        Inl e \<Rightarrow> Inl (PacketError e)
      | Inr (x, b) \<Rightarrow>
          (case read_string b of Inl e \<Rightarrow> Inl (PacketError e) | Inr (y, b) \<Rightarrow> Inr (x, y)))"

text \<open>The common tail of the handlers: the manager of the player's team, the channel of that name, the
  operation on it.\<close>

definition on_channel ::
  "ChatLib \<Rightarrow> ChatPlayer \<Rightarrow> string \<Rightarrow> (Channel \<Rightarrow> Channel \<times> chan_effect list) \<Rightarrow> ChatServer \<Rightarrow> handled" where
  "on_channel lib player name f S =
     (case forTeam (cl_env lib) (cp_team player) of
        None \<Rightarrow> Inr (S, [])
      | Some fac \<Rightarrow>
          (case GetChannel lib name player True (mgr_of fac S) of
             Inl e \<Rightarrow> Inl (NameError e)
           | Inr (None, eff) \<Rightarrow> Inr (S, eff)
           | Inr (Some k, eff) \<Rightarrow>
               (case om_get (cm_channels (mgr_of fac S)) k of
                  None \<Rightarrow> Inr (S, eff)
                | Some c \<Rightarrow>
                    (let (c', eff') = f c; m = mgr_of fac S in
                     Inr (set_mgr fac (m\<lparr>cm_channels := om_put k c' (cm_channels m)\<rparr>) S, eff @ eff')))))"

definition HandleJoinChannel :: "ChatLib \<Rightarrow> ChatPlayer \<Rightarrow> ByteBuffer \<Rightarrow> ChatServer \<Rightarrow> handled" where
  "HandleJoinChannel lib player rp S =
     (case read_val rp of
        Inl e \<Rightarrow> Inl (PacketError e)
      | Inr (channelId :: uint32, rp) \<Rightarrow>
     (case read_val rp of
        Inl e \<Rightarrow> Inl (PacketError e)
      | Inr (unknown1 :: uint8, rp) \<Rightarrow>
     (case read_val rp of
        Inl e \<Rightarrow> Inl (PacketError e)
      | Inr (unknown2 :: uint8, rp) \<Rightarrow>
     (case read_two_strings rp of
        Inl e \<Rightarrow> Inl e
      | Inr (channelName, password) \<Rightarrow>
          if channelId \<noteq> 0 \<and> (ChatChannelsStore (cl_env lib) channelId = None \<or> \<not> cl_zoneOk lib (cp_guid player) channelId)
          then Inr (S, [])
          else if channelName = [] then Inr (S, [])
          else
            case forTeam (cl_env lib) (cp_team player) of
              None \<Rightarrow> Inr (S, [])
            | Some fac \<Rightarrow>
                (let m = (mgr_of fac S)\<lparr>cm_team := cp_team player\<rparr> in
                 case GetJoinChannel lib channelName channelId m of
                   Inl e \<Rightarrow> Inl (NameError e)
                 | Inr (None, m, eff) \<Rightarrow> Inr (set_mgr fac m S, eff)
                 | Inr (Some k, m, eff) \<Rightarrow>
                     (case om_get (cm_channels m) k of
                        None \<Rightarrow> Inr (set_mgr fac m S, eff)
                      | Some c \<Rightarrow>
                          (let (c', eff') = JoinChannel (cl_env lib) player password c in
                           Inr (set_mgr fac (m\<lparr>cm_channels := om_put k c' (cm_channels m)\<rparr>) S, eff @ eff'))))))))"

definition HandleLeaveChannel :: "ChatLib \<Rightarrow> ChatPlayer \<Rightarrow> ByteBuffer \<Rightarrow> ChatServer \<Rightarrow> handled" where
  "HandleLeaveChannel lib player rp S =
     (case read_val rp of
        Inl e \<Rightarrow> Inl (PacketError e)
      | Inr (unk :: uint32, rp) \<Rightarrow>
     (case read_string rp of
        Inl e \<Rightarrow> Inl (PacketError e)
      | Inr (channelName, rp) \<Rightarrow>
          if channelName = [] then Inr (S, [])
          else
            case forTeam (cl_env lib) (cp_team player) of
              None \<Rightarrow> Inr (S, [])
            | Some fac \<Rightarrow>
                (case on_channel lib player channelName (LeaveChannel (cl_env lib) player True) S of
                   Inl e \<Rightarrow> Inl e
                 | Inr (S, eff) \<Rightarrow>
                     (case MgrLeftChannel lib channelName (mgr_of fac S) of
                        Inl e \<Rightarrow> Inl (NameError e)
                      | Inr m \<Rightarrow> Inr (set_mgr fac m S, eff)))))"

text \<open>Requests with a channel name only, with a name and a text, with a name and a player's name.\<close>

definition with_channel ::
  "ChatLib \<Rightarrow> ChatPlayer \<Rightarrow> (Channel \<Rightarrow> Channel \<times> chan_effect list) \<Rightarrow> ByteBuffer \<Rightarrow> ChatServer \<Rightarrow> handled" where
  "with_channel lib player f rp S =
     (case read_string rp of
        Inl e \<Rightarrow> Inl (PacketError e)
      | Inr (channelName, rp) \<Rightarrow> on_channel lib player channelName f S)"

definition with_target ::
  "ChatLib \<Rightarrow> ChatPlayer \<Rightarrow> (string \<Rightarrow> Channel \<Rightarrow> Channel \<times> chan_effect list) \<Rightarrow> ByteBuffer \<Rightarrow> ChatServer \<Rightarrow> handled" where
  "with_target lib player f rp S =
     (case read_two_strings rp of
        Inl e \<Rightarrow> Inl e
      | Inr (channelName, targetName) \<Rightarrow>
          (case normalizePlayerName (cl_utf8 lib) targetName of
             Inl e \<Rightarrow> Inl (NameError e)
           | Inr None \<Rightarrow> Inr (S, [])
           | Inr (Some target) \<Rightarrow> on_channel lib player channelName (f target) S))"

definition HandleChannelList :: "ChatLib \<Rightarrow> ChatPlayer \<Rightarrow> ByteBuffer \<Rightarrow> ChatServer \<Rightarrow> handled" where
  "HandleChannelList lib player = with_channel lib player (\<lambda>c. (c, ListMembers (cl_env lib) player c))"

definition HandleChannelPassword :: "ChatLib \<Rightarrow> ChatPlayer \<Rightarrow> ByteBuffer \<Rightarrow> ChatServer \<Rightarrow> handled" where
  "HandleChannelPassword lib player rp S =
     (case read_two_strings rp of
        Inl e \<Rightarrow> Inl e
      | Inr (channelName, password) \<Rightarrow> on_channel lib player channelName (Password (cl_env lib) player password) S)"

definition HandleChannelSetOwner :: "ChatLib \<Rightarrow> ChatPlayer \<Rightarrow> ByteBuffer \<Rightarrow> ChatServer \<Rightarrow> handled" where
  "HandleChannelSetOwner lib player = with_target lib player (SetOwnerByName (cl_env lib) player)"

definition HandleChannelOwner :: "ChatLib \<Rightarrow> ChatPlayer \<Rightarrow> ByteBuffer \<Rightarrow> ChatServer \<Rightarrow> handled" where
  "HandleChannelOwner lib player = with_channel lib player (\<lambda>c. (c, SendWhoOwner (cl_env lib) (cp_guid player) c))"

definition HandleChannelModerator :: "ChatLib \<Rightarrow> ChatPlayer \<Rightarrow> ByteBuffer \<Rightarrow> ChatServer \<Rightarrow> handled" where
  "HandleChannelModerator lib player = with_target lib player (\<lambda>n. SetMode (cl_env lib) player n True True)"

definition HandleChannelUnmoderator :: "ChatLib \<Rightarrow> ChatPlayer \<Rightarrow> ByteBuffer \<Rightarrow> ChatServer \<Rightarrow> handled" where
  "HandleChannelUnmoderator lib player = with_target lib player (\<lambda>n. SetMode (cl_env lib) player n True False)"

definition HandleChannelMute :: "ChatLib \<Rightarrow> ChatPlayer \<Rightarrow> ByteBuffer \<Rightarrow> ChatServer \<Rightarrow> handled" where
  "HandleChannelMute lib player = with_target lib player (\<lambda>n. SetMode (cl_env lib) player n False True)"

definition HandleChannelUnmute :: "ChatLib \<Rightarrow> ChatPlayer \<Rightarrow> ByteBuffer \<Rightarrow> ChatServer \<Rightarrow> handled" where
  "HandleChannelUnmute lib player = with_target lib player (\<lambda>n. SetMode (cl_env lib) player n False False)"

definition HandleChannelInvite :: "ChatLib \<Rightarrow> ChatPlayer \<Rightarrow> ByteBuffer \<Rightarrow> ChatServer \<Rightarrow> handled" where
  "HandleChannelInvite lib player = with_target lib player (\<lambda>n c. (c, Invite (cl_env lib) player n c))"

definition HandleChannelKick :: "ChatLib \<Rightarrow> ChatPlayer \<Rightarrow> ByteBuffer \<Rightarrow> ChatServer \<Rightarrow> handled" where
  "HandleChannelKick lib player = with_target lib player (\<lambda>n. KickOrBan (cl_env lib) player n False)"

definition HandleChannelBan :: "ChatLib \<Rightarrow> ChatPlayer \<Rightarrow> ByteBuffer \<Rightarrow> ChatServer \<Rightarrow> handled" where
  "HandleChannelBan lib player = with_target lib player (\<lambda>n. KickOrBan (cl_env lib) player n True)"

definition HandleChannelUnban :: "ChatLib \<Rightarrow> ChatPlayer \<Rightarrow> ByteBuffer \<Rightarrow> ChatServer \<Rightarrow> handled" where
  "HandleChannelUnban lib player = with_target lib player (UnBan (cl_env lib) player)"

definition HandleChannelAnnouncements :: "ChatLib \<Rightarrow> ChatPlayer \<Rightarrow> ByteBuffer \<Rightarrow> ChatServer \<Rightarrow> handled" where
  "HandleChannelAnnouncements lib player = with_channel lib player (Announce (cl_env lib) player)"

definition HandleGetChannelMemberCount :: "ChatLib \<Rightarrow> ChatPlayer \<Rightarrow> ByteBuffer \<Rightarrow> ChatServer \<Rightarrow> handled" where
  "HandleGetChannelMemberCount lib player =
     with_channel lib player (\<lambda>c. (c, [Send (cp_guid player)
       (stream [Str (ch_name c), U8 (ch_flags c), U32 (GetNumPlayers c)] (WorldPacket_init 0x3D5))]))"

definition HandleSetChannelWatch :: "ByteBuffer \<Rightarrow> ChatServer \<Rightarrow> handled" where
  "HandleSetChannelWatch rp S =
     (case read_string rp of Inl e \<Rightarrow> Inl (PacketError e) | Inr (channelName, rp) \<Rightarrow> Inr (S, []))"

text \<open>The chat command \<open>channel set ownership\<close> of \<open>cs_message.cpp\<close>, after its two arguments are split off: it
  changes the loaded channel, if there is one, and the database row in any case.\<close>

abbreviation LANG_CHANNEL_ENABLE_OWNERSHIP :: uint32 where "LANG_CHANNEL_ENABLE_OWNERSHIP \<equiv> 5022"
abbreviation LANG_CHANNEL_DISABLE_OWNERSHIP :: uint32 where "LANG_CHANNEL_DISABLE_OWNERSHIP \<equiv> 5023"

definition HandleChannelSetOwnership :: "ChatLib \<Rightarrow> ChatPlayer \<Rightarrow> string \<Rightarrow> string \<Rightarrow> ChatServer \<Rightarrow> handled" where
  "HandleChannelSetOwnership lib player channelStr argStr S =
     (case on_channel lib player channelStr (\<lambda>c.
          (if argStr = ''on'' then SetOwnership True c else if argStr = ''off'' then SetOwnership False c else c, [])) S of
        Inl e \<Rightarrow> Inl e
      | Inr (S, eff) \<Rightarrow>
          Inr (S, eff @
            (if argStr = ''on'' then [CHAR_UPD_CHANNEL_OWNERSHIP True channelStr,
               SendSysMessage (cp_guid player) LANG_CHANNEL_ENABLE_OWNERSHIP channelStr]
             else if argStr = ''off'' then [CHAR_UPD_CHANNEL_OWNERSHIP False channelStr,
               SendSysMessage (cp_guid player) LANG_CHANNEL_DISABLE_OWNERSHIP channelStr]
             else [])))"

section \<open>The invariant of the chat server\<close>

datatype chat_opcode =
    CMSG_JOIN_CHANNEL | CMSG_LEAVE_CHANNEL | CMSG_CHANNEL_LIST | CMSG_CHANNEL_PASSWORD | CMSG_CHANNEL_SET_OWNER
  | CMSG_CHANNEL_OWNER | CMSG_CHANNEL_MODERATOR | CMSG_CHANNEL_UNMODERATOR | CMSG_CHANNEL_MUTE | CMSG_CHANNEL_UNMUTE
  | CMSG_CHANNEL_INVITE | CMSG_CHANNEL_KICK | CMSG_CHANNEL_BAN | CMSG_CHANNEL_UNBAN | CMSG_CHANNEL_ANNOUNCEMENTS
  | CMSG_GET_CHANNEL_MEMBER_COUNT | CMSG_SET_CHANNEL_WATCH

fun handle_chat :: "ChatLib \<Rightarrow> ChatPlayer \<Rightarrow> chat_opcode \<Rightarrow> ByteBuffer \<Rightarrow> ChatServer \<Rightarrow> handled" where
  "handle_chat lib p CMSG_JOIN_CHANNEL = HandleJoinChannel lib p"
| "handle_chat lib p CMSG_LEAVE_CHANNEL = HandleLeaveChannel lib p"
| "handle_chat lib p CMSG_CHANNEL_LIST = HandleChannelList lib p"
| "handle_chat lib p CMSG_CHANNEL_PASSWORD = HandleChannelPassword lib p"
| "handle_chat lib p CMSG_CHANNEL_SET_OWNER = HandleChannelSetOwner lib p"
| "handle_chat lib p CMSG_CHANNEL_OWNER = HandleChannelOwner lib p"
| "handle_chat lib p CMSG_CHANNEL_MODERATOR = HandleChannelModerator lib p"
| "handle_chat lib p CMSG_CHANNEL_UNMODERATOR = HandleChannelUnmoderator lib p"
| "handle_chat lib p CMSG_CHANNEL_MUTE = HandleChannelMute lib p"
| "handle_chat lib p CMSG_CHANNEL_UNMUTE = HandleChannelUnmute lib p"
| "handle_chat lib p CMSG_CHANNEL_INVITE = HandleChannelInvite lib p"
| "handle_chat lib p CMSG_CHANNEL_KICK = HandleChannelKick lib p"
| "handle_chat lib p CMSG_CHANNEL_BAN = HandleChannelBan lib p"
| "handle_chat lib p CMSG_CHANNEL_UNBAN = HandleChannelUnban lib p"
| "handle_chat lib p CMSG_CHANNEL_ANNOUNCEMENTS = HandleChannelAnnouncements lib p"
| "handle_chat lib p CMSG_GET_CHANNEL_MEMBER_COUNT = HandleGetChannelMemberCount lib p"
| "handle_chat lib p CMSG_SET_CHANNEL_WATCH = HandleSetChannelWatch"

text \<open>A request is a packet or the ownership command.  The exception of a short packet ends the handler, which
  reads the whole packet before it changes a channel, and the session goes on (\<open>WorldSession::Update\<close> catches
  it).  A name conversion that writes past its buffer is undefined behaviour: nothing is known of the server
  from then on, which is the state \<open>None\<close>.\<close>

datatype chat_request =
    ChatPacket ChatPlayer chat_opcode ByteBuffer
  | ChatOwnership ChatPlayer string string

fun chat_request_result :: "ChatLib \<Rightarrow> chat_request \<Rightarrow> ChatServer \<Rightarrow> handled" where
  "chat_request_result lib (ChatPacket p opc rp) S = handle_chat lib p opc rp S"
| "chat_request_result lib (ChatOwnership p name arg) S = HandleChannelSetOwnership lib p name arg S"

definition chat_step :: "ChatLib \<Rightarrow> chat_request \<Rightarrow> ChatServer option \<Rightarrow> ChatServer option" where
  "chat_step lib a T =
     (case T of
        None \<Rightarrow> None
      | Some S \<Rightarrow>
          (case chat_request_result lib a S of
             Inl (PacketError e) \<Rightarrow> Some S
           | Inl (NameError e) \<Rightarrow> None
           | Inr (S', eff) \<Rightarrow> Some S'))"

text \<open>The guard: players have a GUID and do not kick or ban themselves, and the ownership is not switched on in
  a channel that has lost its owner while it was off.\<close>

definition names_self :: "ChatLib \<Rightarrow> ChatPlayer \<Rightarrow> string \<Rightarrow> bool" where
  "names_self lib p name \<longleftrightarrow>
     (case FindPlayerByName (cl_env lib) name of None \<Rightarrow> False | Some bad \<Rightarrow> cp_guid bad = cp_guid p)"

definition kicks_self :: "ChatLib \<Rightarrow> ChatPlayer \<Rightarrow> ByteBuffer \<Rightarrow> bool" where
  "kicks_self lib p rp \<longleftrightarrow>
     (case read_two_strings rp of
        Inl e \<Rightarrow> False
      | Inr (channelName, targetName) \<Rightarrow>
          (case normalizePlayerName (cl_utf8 lib) targetName of
             Inr (Some target) \<Rightarrow> names_self lib p target
           | _ \<Rightarrow> False))"

definition may_own :: "Channel \<Rightarrow> bool" where
  "may_own c \<longleftrightarrow> IsConstant c \<or> (if playersStore c = [] then ch_ownerGUID c = 0 else owner_present c)"

definition ownership_ok :: "ChatLib \<Rightarrow> ChatPlayer \<Rightarrow> string \<Rightarrow> ChatServer \<Rightarrow> bool" where
  "ownership_ok lib p name S \<longleftrightarrow>
     (case forTeam (cl_env lib) (cp_team p) of
        None \<Rightarrow> True
      | Some fac \<Rightarrow>
          (case channel_key lib name of
             Inr (Some k) \<Rightarrow> (case om_get (cm_channels (mgr_of fac S)) k of None \<Rightarrow> True | Some c \<Rightarrow> may_own c)
           | _ \<Rightarrow> True))"

definition request_ok :: "ChatLib \<Rightarrow> chat_request \<Rightarrow> ChatServer \<Rightarrow> bool" where
  "request_ok lib a S \<longleftrightarrow>
     (case a of
        ChatPacket p opc rp \<Rightarrow>
          cp_guid p \<noteq> 0 \<and> (opc \<in> {CMSG_CHANNEL_KICK, CMSG_CHANNEL_BAN} \<longrightarrow> \<not> kicks_self lib p rp)
      | ChatOwnership p name arg \<Rightarrow> arg = ''on'' \<longrightarrow> ownership_ok lib p name S)"

definition chat_pre :: "ChatLib \<Rightarrow> chat_request \<Rightarrow> ChatServer option \<Rightarrow> bool" where
  "chat_pre lib a T \<longleftrightarrow> (case T of None \<Rightarrow> True | Some S \<Rightarrow> request_ok lib a S)"

text \<open>Every channel of a manager is well formed, and an empty custom channel has no owner left behind.\<close>

definition chan_good :: "Channel \<Rightarrow> bool" where
  "chan_good c \<longleftrightarrow> chan_inv c \<and> (ch_ownership c \<and> \<not> IsConstant c \<and> playersStore c = [] \<longrightarrow> ch_ownerGUID c = 0)"

definition mgr_inv :: "ChannelMgr \<Rightarrow> bool" where
  "mgr_inv m \<longleftrightarrow> om_ok (cm_channels m) \<and> (\<forall>k c. om_get (cm_channels m) k = Some c \<longrightarrow> chan_good c)"

definition chat_inv :: "ChatServer \<Rightarrow> bool" where
  "chat_inv S \<longleftrightarrow> mgr_inv (alliance_mgr S) \<and> mgr_inv (horde_mgr S)"

definition chat_known :: "ChatServer option \<Rightarrow> bool" where
  "chat_known T \<longleftrightarrow> (case T of None \<Rightarrow> True | Some S \<Rightarrow> chat_inv S)"

lemma chat_inv_mgr: "chat_inv S \<Longrightarrow> mgr_inv (mgr_of f S)"
  by (cases f) (simp_all add: chat_inv_def mgr_of_def)

lemma chat_inv_set: "chat_inv S \<Longrightarrow> mgr_inv m \<Longrightarrow> chat_inv (set_mgr f m S)"
  by (cases f) (simp_all add: chat_inv_def set_mgr_def)

lemma mgr_of_set [simp]: "mgr_of f (set_mgr f m S) = m"
  by (cases f) (simp_all add: mgr_of_def set_mgr_def)

lemma mgr_inv_put: "mgr_inv m \<Longrightarrow> chan_good c \<Longrightarrow> mgr_inv (m\<lparr>cm_channels := om_put k c (cm_channels m)\<rparr>)"
  by (auto simp: mgr_inv_def om_ok_put om_get_put split: if_splits)

lemma mgr_inv_team [simp]: "mgr_inv (m\<lparr>cm_team := t\<rparr>) = mgr_inv m"
  by (simp add: mgr_inv_def)

definition handled_ok :: "handled \<Rightarrow> bool" where
  "handled_ok r \<longleftrightarrow> (case r of Inl e \<Rightarrow> True | Inr (S, eff) \<Rightarrow> chat_inv S)"

lemma handled_ok_simps [simp]: "handled_ok (Inl e)" "handled_ok (Inr (S, eff)) = chat_inv S"
  by (simp_all add: handled_ok_def)

lemma on_channel_ok:
  assumes "chat_inv S" and "\<And>c. chan_good c \<Longrightarrow> chan_good (fst (f c))"
  shows "handled_ok (on_channel lib p name f S)"
proof -
  have "chan_good (fst (f c))" if "om_get (cm_channels (mgr_of fac S)) k = Some c" for fac k c
    using that assms chat_inv_mgr [OF assms(1), of fac] by (auto simp: mgr_inv_def)
  then show ?thesis
    using assms(1) chat_inv_mgr [OF assms(1)]
    by (auto simp: on_channel_def Let_def case_prod_beta intro!: chat_inv_set mgr_inv_put
        split: option.split sum.split prod.split)
qed

lemma with_channel_ok:
  assumes "chat_inv S" and "\<And>c. chan_good c \<Longrightarrow> chan_good (fst (f c))"
  shows "handled_ok (with_channel lib p f rp S)"
  using on_channel_ok [OF assms] by (simp add: with_channel_def split: sum.split prod.split)

lemma with_target_ok:
  assumes "chat_inv S"
    and "\<And>ch tn n c. read_two_strings rp = Inr (ch, tn) \<Longrightarrow> normalizePlayerName (cl_utf8 lib) tn = Inr (Some n) \<Longrightarrow>
      chan_good c \<Longrightarrow> chan_good (fst (f n c))"
  shows "handled_ok (with_target lib p f rp S)"
  using assms by (auto simp: with_target_def intro!: on_channel_ok split: sum.split prod.split option.split)

subsection \<open>The channel operations keep a channel good\<close>

lemma player_mod_good: "chan_inv (player_mod f g c) \<Longrightarrow> chan_good (player_mod f g c)"
  by (simp add: chan_good_def)

lemma SetOwner_nonempty: "IsOn c g \<Longrightarrow> chan_basic c \<Longrightarrow> playersStore (fst (SetOwner env g ex c)) \<noteq> []"
  by (auto simp: SetOwner_def Let_def chan_basic_def IsOn_members)

lemma join_good:
  assumes "chan_good c" and "cp_guid p \<noteq> 0"
  shows "chan_good (fst (JoinChannel env p pass c))"
proof (cases "admitted env p pass c")
  case True
  have "chan_inv (fst (JoinChannel env p pass c))"
    using assms by (intro JoinChannel_inv) (auto simp: chan_good_def)
  moreover have "playersStore (fst (JoinChannel env p pass c)) \<noteq> []"
    using Join_admitted(1) [OF True] by auto
  ultimately show ?thesis by (simp add: chan_good_def)
next
  case False
  then show ?thesis using assms(1) Join_refused by metis
qed

lemma kick_good:
  assumes "chan_good c" and "\<not> (case FindPlayerByName env name of None \<Rightarrow> False | Some bad \<Rightarrow> cp_guid bad = cp_guid p)"
  shows "chan_good (fst (KickOrBan env p name ban c))"
proof (cases "kick_target env p name c")
  case None
  then show ?thesis using assms(1) by (simp add: KickOrBan_state)
next
  case (Some v)
  have inv: "chan_inv (fst (KickOrBan env p name ban c))"
    using assms by (intro KickOrBan_inv) (auto simp: chan_good_def split: option.splits)
  have ok: "om_ok (playersStore c)" using assms(1) by (simp add: chan_good_def chan_inv_def chan_basic_def)
  have "v \<noteq> cp_guid p" "cp_guid p \<in> members c"
    using Some assms(2) by (auto simp: kick_target_def IsOn_members split: option.splits if_splits)
  then have "cp_guid p \<in> members (fst (KickOrBan env p name ban c))"
    unfolding kick_members [OF ok Some] by auto
  then have "playersStore (fst (KickOrBan env p name ban c)) \<noteq> []"
    by auto
  with inv show ?thesis by (simp add: chan_good_def)
qed

lemma small_ops_good:
  assumes "chan_good c"
  shows "chan_good (fst (UnBan env p name c))" "chan_good (fst (Password env p pass c))" "chan_good (fst (Announce env p c))"
  using assms small_ops_inv [of c env p]
  by (auto simp: chan_good_def UnBan_def Password_def Announce_def Let_def IsConstant_def)

lemma mode_good:
  assumes "chan_good c"
  shows "chan_good (fst (SetMode env p name moderate on c))"
proof -
  have "fst (SetMode env p name moderate on c) = c \<or> (\<exists>f v. fst (SetMode env p name moderate on c) = player_mod f v c)"
    by (auto simp: SetMode_def SetModerator_def SetMute_def Let_def split: option.splits)
  then show ?thesis
    using assms SetMode_inv [of c env p name moderate on] player_mod_good by (metis chan_good_def)
qed

lemma owner_good:
  assumes "chan_good c"
  shows "chan_good (fst (SetOwnerByName env p name c))"
proof -
  have b: "chan_basic c" using assms by (simp add: chan_good_def chan_inv_def)
  have "playersStore (fst (SetOwner env v True (player_mod (PI_SetModerator True) v c))) \<noteq> []" if "IsOn c v" for v
    using that chan_basic_mod [OF b that] by (intro SetOwner_nonempty) (simp_all add: IsOn_def)
  then have "fst (SetOwnerByName env p name c) = c \<or> playersStore (fst (SetOwnerByName env p name c)) \<noteq> []"
    by (auto simp: SetOwnerByName_def Let_def dest: member_by_name_on split: option.splits)
  then show ?thesis
    using assms SetOwnerByName_inv [of c env p name] by (metis chan_good_def)
qed

lemma parse_bans_ok: "os_ok (parse_bans ts)"
proof -
  have "os_ok s \<Longrightarrow> os_ok (fold (\<lambda>t s. let guid = word_of_int (atol t) :: uint64 in
      if guid \<noteq> 0 then os_insert guid s else s) ts s)" for s
    by (induction ts arbitrary: s) (auto simp: Let_def os_ok_insert)
  then show ?thesis by (simp add: parse_bans_def)
qed

lemma new_channel_good: "chan_good (fst (Channel_new env row name cid team))"
  by (auto simp: chan_good_def chan_inv_def chan_basic_def chan_owned_def Channel_new_def Let_def load_bans_def
      parse_bans_ok split: option.split prod.split)

lemma join_handler_ok:
  assumes "chat_inv S" and "cp_guid p \<noteq> 0"
  shows "handled_ok (HandleJoinChannel lib p rp S)"
proof -
  have m: "mgr_inv ((mgr_of fac S)\<lparr>cm_team := t\<rparr>)" for fac t
    using chat_inv_mgr [OF assms(1)] by simp
  have get: "mgr_inv m' \<and> (\<forall>k' c. om_get (cm_channels m') k' = Some c \<longrightarrow> chan_good (fst (JoinChannel env p pass c)))"
    if "mgr_inv m" "GetJoinChannel lib name cid m = Inr (k, m', eff)" for m name cid k m' eff env pass
  proof -
    have "mgr_inv m'"
      using that new_channel_good
      by (auto simp: GetJoinChannel_def Let_def case_prod_beta intro!: mgr_inv_put
          split: sum.splits option.splits)
    then show ?thesis using assms(2) by (auto simp: mgr_inv_def intro: join_good)
  qed
  show ?thesis
    unfolding HandleJoinChannel_def Let_def
    using assms(1) get [OF m]
    by (auto simp: case_prod_beta intro!: chat_inv_set mgr_inv_put split: sum.split option.split prod.split)
qed

lemma leave_handler_ok:
  assumes "chat_inv S"
  shows "handled_ok (HandleLeaveChannel lib p rp S)"
proof -
  let ?f = "LeaveChannel (cl_env lib) p True"
  have erase: "mgr_inv m \<Longrightarrow> mgr_inv (m\<lparr>cm_channels := om_erase k (cm_channels m)\<rparr>)" for m k
    by (auto simp: mgr_inv_def om_ok_erase om_get_erase split: if_splits)
  have stay: "MgrLeftChannel lib name m = Inr m' \<Longrightarrow> mgr_inv m \<Longrightarrow> mgr_inv m'" for name m m'
    using erase by (auto simp: MgrLeftChannel_def split: sum.splits option.splits if_splits)
  have left: "mgr_inv m'"
    if key: "channel_key lib name = Inr (Some k)" and m: "mgr_inv m" "om_get (cm_channels m) k = Some c"
      and r: "MgrLeftChannel lib name (m\<lparr>cm_channels := om_put k (fst (?f c)) (cm_channels m)\<rparr>) = Inr m'" for name k m c m'
  proof (cases "GetNumPlayers (fst (?f c)) = 0 \<and> \<not> IsConstant (fst (?f c))")
    case True
    then have "m' = m\<lparr>cm_channels := om_erase k (om_put k (fst (?f c)) (cm_channels m))\<rparr>"
      using r key by (simp add: MgrLeftChannel_def om_get_put)
    then show ?thesis
      using m(1) by (auto simp: mgr_inv_def om_ok_put om_ok_erase om_get_put om_get_erase split: if_splits)
  next
    case False
    then have "m' = m\<lparr>cm_channels := om_put k (fst (?f c)) (cm_channels m)\<rparr>"
      using r key by (auto simp: MgrLeftChannel_def om_get_put)
    moreover have "chan_good (fst (?f c))"
      using False m LeaveChannel_inv [of c "cl_env lib" p True]
      by (auto simp: chan_good_def mgr_inv_def GetNumPlayers_def)
    ultimately show ?thesis using mgr_inv_put [OF m(1)] by simp
  qed
  have "handled_ok (case on_channel lib p name ?f S of
      Inl e \<Rightarrow> Inl e
    | Inr (S, eff) \<Rightarrow> (case MgrLeftChannel lib name (mgr_of fac S) of
                       Inl e \<Rightarrow> Inl (NameError e) | Inr m \<Rightarrow> Inr (set_mgr fac m S, eff)))"
    if fac: "forTeam (cl_env lib) (cp_team p) = Some fac" for name fac
  proof (cases "channel_key lib name")
    case (Inr ko)
    let ?m = "mgr_of fac S"
    show ?thesis
    proof (cases "\<exists>k c. ko = Some k \<and> om_get (cm_channels ?m) k = Some c")
      case True
      then obtain k c where k: "ko = Some k" "om_get (cm_channels ?m) k = Some c" by auto
      have "chat_inv (set_mgr fac m' (set_mgr fac (?m\<lparr>cm_channels := om_put k (fst (?f c)) (cm_channels ?m)\<rparr>) S))"
        if "MgrLeftChannel lib name (?m\<lparr>cm_channels := om_put k (fst (?f c)) (cm_channels ?m)\<rparr>) = Inr m'" for m'
      proof -
        have "mgr_inv m'" using left [OF _ chat_inv_mgr [OF assms] k(2) that] Inr k(1) by simp
        then have "chat_inv (set_mgr fac m' S)" by (rule chat_inv_set [OF assms])
        then show ?thesis by (cases fac) (simp_all add: set_mgr_def)
      qed
      then show ?thesis
        using fac Inr k by (simp add: on_channel_def GetChannel_def Let_def case_prod_beta split: sum.split)
    next
      case False
      then have "\<exists>eff. on_channel lib p name ?f S = Inr (S, eff)"
        using fac Inr by (cases ko) (auto simp: on_channel_def GetChannel_def split: option.splits)
      then show ?thesis
        using assms stay chat_inv_mgr [OF assms] by (auto intro!: chat_inv_set split: sum.split)
    qed
  qed (use fac in \<open>simp add: on_channel_def GetChannel_def\<close>)
  then show ?thesis
    using assms unfolding HandleLeaveChannel_def by (auto split: sum.split prod.split option.split)
qed

lemma ownership_good:
  assumes "chan_good c" and "on \<Longrightarrow> may_own c"
  shows "chan_good (SetOwnership on c)"
  using assms
  by (auto simp: chan_good_def chan_inv_def chan_basic_def chan_owned_def SetOwnership_def IsConstant_def may_own_def
      owner_present_def split: if_splits)

lemma on_channel_found:
  assumes "\<And>fac k c. forTeam (cl_env lib) (cp_team p) = Some fac \<Longrightarrow> channel_key lib name = Inr (Some k) \<Longrightarrow>
      om_get (cm_channels (mgr_of fac S)) k = Some c \<Longrightarrow> f c = g c"
  shows "on_channel lib p name f S = on_channel lib p name g S"
  using assms by (auto simp: on_channel_def GetChannel_def split: option.split sum.split)

lemma ownership_command_ok:
  assumes "chat_inv S" and "arg = ''on'' \<Longrightarrow> ownership_ok lib p name S"
  shows "handled_ok (HandleChannelSetOwnership lib p name arg S)"
proof -
  let ?f = "\<lambda>c. (if arg = ''on'' then SetOwnership True c else if arg = ''off'' then SetOwnership False c else c, []::chan_effect list)"
  let ?g = "\<lambda>c. if arg = ''on'' \<and> \<not> may_own c then (c, []) else ?f c"
  have "on_channel lib p name ?f S = on_channel lib p name ?g S"
    using assms(2) by (intro on_channel_found) (auto simp: ownership_ok_def)
  moreover have "handled_ok (on_channel lib p name ?g S)"
    using assms(1) by (intro on_channel_ok) (auto intro: ownership_good)
  ultimately have "handled_ok (on_channel lib p name ?f S)" by simp
  then show ?thesis
    unfolding HandleChannelSetOwnership_def by (auto split: sum.split prod.split simp: handled_ok_def)
qed

lemma handle_chat_ok:
  assumes "chat_inv S" and "request_ok lib (ChatPacket p opc rp) S"
  shows "handled_ok (handle_chat lib p opc rp S)"
proof -
  have kick: "chan_good (fst (KickOrBan (cl_env lib) p n ban c))"
    if "opc \<in> {CMSG_CHANNEL_KICK, CMSG_CHANNEL_BAN}" "read_two_strings rp = Inr (ch, tn)"
      "normalizePlayerName (cl_utf8 lib) tn = Inr (Some n)" "chan_good c" for ch tn n c ban
    using that assms(2) by (intro kick_good) (auto simp: request_ok_def kicks_self_def names_self_def)
  have pass: "handled_ok (HandleChannelPassword lib p rp S)"
    unfolding HandleChannelPassword_def
    by (auto intro!: on_channel_ok small_ops_good assms(1) split: sum.split prod.split)
  have watch: "handled_ok (HandleSetChannelWatch rp S)"
    using assms(1) by (simp add: HandleSetChannelWatch_def split: sum.split prod.split)
  show ?thesis
    using assms join_handler_ok leave_handler_ok pass watch
    by (cases opc)
      (auto simp: HandleChannelList_def HandleChannelSetOwner_def HandleChannelOwner_def HandleChannelModerator_def
        HandleChannelUnmoderator_def HandleChannelMute_def HandleChannelUnmute_def HandleChannelInvite_def
        HandleChannelKick_def HandleChannelBan_def HandleChannelUnban_def HandleChannelAnnouncements_def
        HandleGetChannelMemberCount_def request_ok_def
        intro!: with_channel_ok with_target_ok owner_good mode_good small_ops_good kick)
qed

lemma request_result_ok:
  assumes "chat_inv S" and "request_ok lib a S"
  shows "handled_ok (chat_request_result lib a S)"
  using assms handle_chat_ok ownership_command_ok by (cases a) (auto simp: request_ok_def)

interpretation chat: guarded_machine "chat_step lib" "chat_pre lib" chat_known
proof
  fix T a assume "chat_known T" "chat_pre lib a T"
  then show "chat_known (chat_step lib a T)"
    using request_result_ok [of "the T" lib a]
    by (auto simp: chat_known_def chat_pre_def chat_step_def handled_ok_def
        split: option.splits sum.splits prod.splits handler_error.splits)
qed

section \<open>A small chat server\<close>

text \<open>A decoder for ASCII text, and the packets of clients who create, join and leave the channel ``talk''.\<close>

definition ascii_lib :: utf8_lib where
  "ascii_lib = \<lparr>
     utf8_decode = (\<lambda>s. if list_all (\<lambda>ch. of_char ch < (128 :: nat)) s then Some (map of_char s) else None),
     utf16to8 = (\<lambda>w. Some (map (\<lambda>u. char_of (unat u)) w))\<rparr>"

definition demo_lib :: ChatLib where
  "demo_lib = \<lparr>cl_env = demo_env, cl_utf8 = ascii_lib, cl_rows = (\<lambda>_ _. None), cl_zoneOk = (\<lambda>_ _. False)\<rparr>"

definition client_packet :: "field list \<Rightarrow> ByteBuffer" where
  "client_packet fs = ByteBuffer_new\<lparr>storage := concat (map enc_field fs)\<rparr>"

definition join_packet :: "string \<Rightarrow> ByteBuffer" where
  "join_packet name = client_packet [U32 0, U8 0, U8 0, Str name, Str '''']"

definition leave_packet :: "string \<Rightarrow> ByteBuffer" where
  "leave_packet name = client_packet [U32 0, Str name]"

definition kick_packet :: "string \<Rightarrow> string \<Rightarrow> ByteBuffer" where
  "kick_packet name target = client_packet [Str name, Str target]"

text \<open>What the handlers do with these packets, once they are read.\<close>

lemma packet_readable: 
  assumes "length (concat (map enc_field fs)) < 2 ^ 64"
  shows "readable (client_packet fs) (concat (map enc_field fs))"
  using assms by (simp add: readable_def client_packet_def ByteBuffer_new_def bb_size_def)

lemma read_two_enc:
  assumes "no_nul x" and "no_nul y" and "readable b (enc_string x @ enc_string y)"
  shows "read_two_strings b = Inr (x, y)"
  using readable_append [OF assms(3)] assms(1,2)
  by (simp add: read_two_strings_def str.get_enc [of x b] str.get_enc [of y])

lemma read_join_packet:
  assumes "no_nul name" and "name \<noteq> []" and "length name < 1000" and "forTeam (cl_env lib) (cp_team p) = Some fac"
  shows "HandleJoinChannel lib p (join_packet name) S =
    (let m = (mgr_of fac S)\<lparr>cm_team := cp_team p\<rparr> in
     case GetJoinChannel lib name 0 m of
       Inl e \<Rightarrow> Inl (NameError e)
     | Inr (None, m, eff) \<Rightarrow> Inr (set_mgr fac m S, eff)
     | Inr (Some k, m, eff) \<Rightarrow>
         (case om_get (cm_channels m) k of
            None \<Rightarrow> Inr (set_mgr fac m S, eff)
          | Some c \<Rightarrow>
              (let (c', eff') = JoinChannel (cl_env lib) p '''' c in
               Inr (set_mgr fac (m\<lparr>cm_channels := om_put k c' (cm_channels m)\<rparr>) S, eff @ eff'))))"
proof -
  let ?b = "join_packet name" and ?t = "enc_string name @ enc_string ''''"
  have "readable ?b (word_bytes (0 :: uint32) @ word_bytes (0 :: uint8) @ word_bytes (0 :: uint8) @ ?t)"
    using packet_readable [of "[U32 0, U8 0, U8 0, Str name, Str '''']"] assms(3)
    by (simp add: join_packet_def enc_string_def size_of_def)
  note r1 = readable_append [OF this]
  define b1 where "b1 = bb_advance ?b (length (word_bytes (0 :: uint32)))"
  note r2 = readable_append [OF r1(2) [folded b1_def]]
  define b2 where "b2 = bb_advance b1 (length (word_bytes (0 :: uint8)))"
  note r3 = readable_append [OF r2(2) [folded b2_def]]
  define b3 where "b3 = bb_advance b2 (length (word_bytes (0 :: uint8)))"
  have "read_val ?b = Inr (0 :: uint32, b1)" "read_val b1 = Inr (0 :: uint8, b2)" "read_val b2 = Inr (0 :: uint8, b3)"
    using u32.get_enc [OF _ r1(1)] u8.get_enc [OF _ r2(1)] u8.get_enc [OF _ r3(1)]
    by (simp_all add: b1_def b2_def b3_def)
  moreover have "read_two_strings b3 = Inr (name, '''')"
    using read_two_enc [OF assms(1) _ r3(2) [folded b3_def]] by (simp add: no_nul_def)
  ultimately show ?thesis
    using assms(2,4) by (simp add: HandleJoinChannel_def)
qed

lemma read_leave_packet:
  assumes "no_nul name" and "name \<noteq> []" and "length name < 1000" and "forTeam (cl_env lib) (cp_team p) = Some fac"
  shows "HandleLeaveChannel lib p (leave_packet name) S =
    (case on_channel lib p name (LeaveChannel (cl_env lib) p True) S of
       Inl e \<Rightarrow> Inl e
     | Inr (S, eff) \<Rightarrow>
         (case MgrLeftChannel lib name (mgr_of fac S) of
            Inl e \<Rightarrow> Inl (NameError e)
          | Inr m \<Rightarrow> Inr (set_mgr fac m S, eff)))"
proof -
  let ?b = "leave_packet name"
  have "readable ?b (word_bytes (0 :: uint32) @ enc_string name)"
    using packet_readable [of "[U32 0, Str name]"] assms(3)
    by (simp add: leave_packet_def enc_string_def size_of_def)
  note r1 = readable_append [OF this]
  define b1 where "b1 = bb_advance ?b (length (word_bytes (0 :: uint32)))"
  have "read_val ?b = Inr (0 :: uint32, b1)" "read_string b1 = Inr (name, bb_advance b1 (length (enc_string name)))"
    using u32.get_enc [OF _ r1(1)] str.get_enc [OF assms(1) r1(2)] by (simp_all add: b1_def)
  then show ?thesis
    using assms(2,4) by (simp add: HandleLeaveChannel_def)
qed

lemma read_kick_packet:
  assumes "no_nul name" and "no_nul target" and "length name < 1000" and "length target < 1000"
  shows "read_two_strings (kick_packet name target) = Inr (name, target)"
  using read_two_enc [OF assms(1,2), of "kick_packet name target"] packet_readable [of "[Str name, Str target]"] assms(3,4)
  by (simp add: kick_packet_def enc_string_def size_of_def)

lemma empty_join: "HandleJoinChannel lib p ByteBuffer_new S = Inl (PacketError (ByteBufferPositionException False 0 4 0))"
  by (simp add: HandleJoinChannel_def read_val_def read_at_def Let_def ByteBuffer_new_def bb_size_def size_of_def sz_add_small)

text \<open>The server with the channel ``Talk'' only, and the steps of a short conversation.\<close>

definition talk_server :: "PlayerContainer \<Rightarrow> uint64 \<Rightarrow> ChatServer" where
  "talk_server s owner = ChatServer_new\<lparr>alliance_mgr := \<lparr>
     cm_channels = [(map of_char ''talk'',
       (fst (Channel_new demo_env None ''Talk'' 0 ALLIANCE))\<lparr>playersStore := s, ch_ownerGUID := owner\<rparr>)],
     cm_team = ALLIANCE\<rparr>\<rparr>"

abbreviation ann :: ChatPlayer where "ann \<equiv> demo_player 1 ''Ann''"
abbreviation bob :: ChatPlayer where "bob \<equiv> demo_player 2 ''Bob''"
abbreviation ann_alone :: PlayerContainer where "ann_alone \<equiv> [(1, \<lparr>pi_player = 1, pi_flags = 3\<rparr>)]"
abbreviation ann_and_bob :: PlayerContainer where
  "ann_and_bob \<equiv> [(1, \<lparr>pi_player = 1, pi_flags = 3\<rparr>), (2, \<lparr>pi_player = 2, pi_flags = 0\<rparr>)]"
abbreviation bob_alone :: PlayerContainer where "bob_alone \<equiv> [(2, \<lparr>pi_player = 2, pi_flags = 3\<rparr>)]"

lemma demo_team: "forTeam (cl_env demo_lib) (cp_team (demo_player g n)) = Some AllianceMgr"
  by code_simp

lemma ann_joins:
  "chat_step demo_lib (ChatPacket ann CMSG_JOIN_CHANNEL (join_packet ''Talk'')) (Some ChatServer_new) =
   Some (talk_server ann_alone 1)"
  by (simp add: chat_step_def read_join_packet [OF _ _ _ demo_team] no_nul_def) code_simp

lemma bob_joins:
  "chat_step demo_lib (ChatPacket bob CMSG_JOIN_CHANNEL (join_packet ''talk'')) (Some (talk_server ann_alone 1)) =
   Some (talk_server ann_and_bob 1)"
  by (simp add: chat_step_def read_join_packet [OF _ _ _ demo_team] no_nul_def) code_simp

lemma bob_kicks:
  "chat_step demo_lib (ChatPacket bob CMSG_CHANNEL_KICK (kick_packet ''talk'' ''ann'')) (Some (talk_server ann_and_bob 1)) =
   Some (talk_server ann_and_bob 1)"
  by (simp add: chat_step_def HandleChannelKick_def with_target_def read_kick_packet no_nul_def) code_simp

lemma short_packet:
  "chat_step demo_lib (ChatPacket bob CMSG_JOIN_CHANNEL ByteBuffer_new) (Some S) = Some S"
  by (simp add: chat_step_def empty_join)

lemma ann_leaves:
  "chat_step demo_lib (ChatPacket ann CMSG_LEAVE_CHANNEL (leave_packet ''talk'')) (Some (talk_server ann_and_bob 1)) =
   Some (talk_server bob_alone 2)"
  by (simp add: chat_step_def read_leave_packet [OF _ _ _ demo_team] no_nul_def) code_simp

lemma bob_may_kick: "\<not> kicks_self demo_lib bob (kick_packet ''talk'' ''ann'')"
  by (simp add: kicks_self_def read_kick_packet no_nul_def) code_simp

section \<open>Properties of the chat server\<close>

text \<open>(C1) Starting from empty managers, after any sequence of client packets of the channel handlers, well formed
  or not, and of ownership commands, every channel of both managers is well formed: in particular a non-empty
  custom channel with ownership has its owner among its members, a banned player is on no channel that banned
  him, and an emptied custom channel keeps no owner.  The guard of the channel operations, that a joiner never
  finds the owner of an emptied channel left behind, is thus met by the managers.  The sequences are those in
  which nobody kicks himself, the ownership is not switched on in a channel that has lost its owner, and no
  name conversion has written past its buffer: after such an overflow, whose exact condition is a property of
  the conversions, the state is \<open>None\<close> and nothing is claimed.\<close>

theorem chat_server_invariant:
  assumes "guarded_machine.run (chat_step lib) (chat_pre lib) (Some ChatServer_new) reqs (Some S)"
  shows "chat_inv S"
proof -
  have "chat_known (Some ChatServer_new)" by (simp add: chat_known_def chat_inv_def mgr_inv_def ChatServer_new_def)
  then have "chat_known (Some S)" using chat.run_inv assms by blast
  then show ?thesis by (simp add: chat_known_def)
qed

text \<open>Ann creates the channel, Bob joins it, Bob's attempt to kick Ann is refused, a truncated packet is
  dropped, and Ann leaves: Bob is alone on the channel and owns it.\<close>

theorem chat_server_invariant_witness:
  "guarded_machine.run (chat_step demo_lib) (chat_pre demo_lib) (Some ChatServer_new)
     [ChatPacket ann CMSG_JOIN_CHANNEL (join_packet ''Talk''), ChatPacket bob CMSG_JOIN_CHANNEL (join_packet ''talk''),
      ChatPacket bob CMSG_CHANNEL_KICK (kick_packet ''talk'' ''ann''), ChatPacket bob CMSG_JOIN_CHANNEL ByteBuffer_new,
      ChatPacket ann CMSG_LEAVE_CHANNEL (leave_packet ''talk'')] (Some (talk_server bob_alone 2)) \<and>
   chat_inv (talk_server bob_alone 2)"
  (is "?run \<and> _")
proof -
  have guid: "cp_guid ann \<noteq> 0" "cp_guid bob \<noteq> 0" by (simp_all add: demo_player_def)
  have ?run
    by (intro chat.run_nil chat.run_step [OF ann_joins] chat.run_step [OF bob_joins] chat.run_step [OF bob_kicks]
        chat.run_step [OF short_packet] chat.run_step [OF ann_leaves])
      (simp_all add: chat_pre_def request_ok_def guid bob_may_kick)
  then show ?thesis using chat_server_invariant by blast
qed

end
