(* ===== verification/Float32.thy ===== *)
theory Float32
  imports Complex_Main Prelude "HOL-Library.Log_Nat"
begin

text \<open>
  Single-precision numbers as rationals with the rounding of every operation written out.  Infinities, signed zeros
  and subnormal numbers do not occur in the computations of the server that are modelled with them.
\<close>

text \<open>Round to the nearest integer, ties to even; round to 24 significant bits.\<close>

definition rne :: "rat \<Rightarrow> int" where
  "rne y = (let f = \<lfloor>y\<rfloor>; r = y - of_int f in
     if r < 1 / 2 then f else if r > 1 / 2 then f + 1 else if even f then f else f + 1)"

definition fl_exp :: "rat \<Rightarrow> int" where
  "fl_exp x = (let (n, d) = quotient_of \<bar>x\<bar>; e = int (floorlog 2 (nat n)) - int (floorlog 2 (nat d)) in
     if 2 powi e \<le> \<bar>x\<bar> then e else e - 1)"

definition fl32 :: "rat \<Rightarrow> rat" where
  "fl32 x = (if x = 0 then 0 else let ulp = 2 powi (fl_exp x - 23) in of_int (rne (x / ulp)) * ulp)"

definition fl_mul :: "rat \<Rightarrow> rat \<Rightarrow> rat" where
  "fl_mul a b = fl32 (a * b)"

text \<open>\<open>int32(f)\<close> truncates; a value out of range becomes the least integer.\<close>

definition fl_to_int32 :: "rat \<Rightarrow> int" where
  "fl_to_int32 f = (let t = (if f < 0 then \<lceil>f\<rceil> else \<lfloor>f\<rfloor>) in
     if - 2147483648 \<le> t \<and> t < 2147483648 then t else - 2147483648)"

text \<open>\<open>uint32(f)\<close> of a number that is not negative truncates.\<close>

definition fl_to_uint32 :: "rat \<Rightarrow> uint32" where
  "fl_to_uint32 f = of_int \<lfloor>f\<rfloor>"

definition fl_of_uint32 :: "uint32 \<Rightarrow> rat" where
  "fl_of_uint32 x = fl32 (of_nat (unat x))"

end
