(* ===== verification/Reputation.thy ===== *)
theory Reputation
  imports Float32 WorldPacket
begin

text \<open>
  The reputation of a player with the factions (\<open>ReputationMgr.h\<close>, \<open>ReputationMgr.cpp\<close>): standings with their
  ranks, flags and rank counters, spill-over to related factions, loading and saving.  \<open>int32\<close> standings are
  integers with wrap-around, the \<open>uint8\<close> counters are words.  Rates are single-precision numbers: rationals
  with the rounding of every operation written out (\<open>fl32\<close>).  The client data files, the spill-over tables,
  the rate setting and the script hook are the record \<open>RepEnv\<close>.
\<close>

section \<open>Ranks\<close>

datatype ReputationRank =
    REP_HATED | REP_HOSTILE | REP_UNFRIENDLY | REP_NEUTRAL | REP_FRIENDLY | REP_HONORED | REP_REVERED | REP_EXALTED

fun rank_index :: "ReputationRank \<Rightarrow> nat" where
  "rank_index REP_HATED = 0"
| "rank_index REP_HOSTILE = 1"
| "rank_index REP_UNFRIENDLY = 2"
| "rank_index REP_NEUTRAL = 3"
| "rank_index REP_FRIENDLY = 4"
| "rank_index REP_HONORED = 5"
| "rank_index REP_REVERED = 6"
| "rank_index REP_EXALTED = 7"

lemma rank_index_inj: "rank_index r = rank_index s \<Longrightarrow> r = s"
  by (cases r; cases s) simp_all

instantiation ReputationRank :: linorder
begin

definition less_eq_ReputationRank :: "ReputationRank \<Rightarrow> ReputationRank \<Rightarrow> bool" where
  "r \<le> s \<longleftrightarrow> rank_index r \<le> rank_index s"

definition less_ReputationRank :: "ReputationRank \<Rightarrow> ReputationRank \<Rightarrow> bool" where
  "r < s \<longleftrightarrow> rank_index r < rank_index s"

instance
  by standard (auto simp: less_eq_ReputationRank_def less_ReputationRank_def intro: rank_index_inj)

end

lemmas rank_order = less_eq_ReputationRank_def less_ReputationRank_def

abbreviation Reputation_Cap :: int where "Reputation_Cap \<equiv> 42999"
abbreviation Reputation_Bottom :: int where "Reputation_Bottom \<equiv> - 42000"

text \<open>\<open>PointsInRank\<close>, from the highest rank down as the loop reads it.\<close>

definition PointsInRank :: "(ReputationRank \<times> int) list" where
  "PointsInRank = [(REP_EXALTED, 1000), (REP_REVERED, 21000), (REP_HONORED, 12000), (REP_FRIENDLY, 6000),
     (REP_NEUTRAL, 3000), (REP_UNFRIENDLY, 3000), (REP_HOSTILE, 3000), (REP_HATED, 36000)]"

fun rank_loop :: "int \<Rightarrow> (ReputationRank \<times> int) list \<Rightarrow> int \<Rightarrow> ReputationRank" where
  "rank_loop limit [] standing = REP_HATED"
| "rank_loop limit ((r, p) # ps) standing =
     (if standing \<ge> limit - p then r else rank_loop (limit - p) ps standing)"

definition ReputationToRank :: "int \<Rightarrow> ReputationRank" where
  "ReputationToRank standing = rank_loop (Reputation_Cap + 1) PointsInRank standing"

section \<open>Factions and the manager\<close>

record FactionEntry =
  fe_ID :: uint32
  reputationListID :: int
  BaseRepRaceMask :: "uint32 list"
  BaseRepClassMask :: "uint32 list"
  BaseRepValue :: "int list"
  ReputationFlags :: "uint32 list"
  fe_team :: uint32
  spilloverRateIn :: rat
  spilloverRateOut :: rat
  spilloverMaxRankIn :: uint32

record RepSpilloverTemplate =
  st_faction :: "uint32 list"
  st_rate :: "rat list"
  st_rank :: "uint32 list"

record RepEnv =
  FactionStore :: "uint32 \<Rightarrow> FactionEntry option"
  FactionRows :: nat
  GetRepSpilloverTemplate :: "uint32 \<Rightarrow> RepSpilloverTemplate option"
  GetFactionTeamList :: "uint32 \<Rightarrow> uint32 list option"
  RATE_REPUTATION_GAIN :: rat
  OnPlayerReputationChange :: "uint32 \<Rightarrow> int \<Rightarrow> bool \<Rightarrow> int"
  re_raceMask :: uint32
  re_classMask :: uint32
  re_loading :: bool
  re_guidLow :: uint32

record FactionState =
  fs_ID :: uint32
  fs_ReputationListID :: uint32
  fs_Standing :: int
  fs_Flags :: uint8
  fs_needSend :: bool
  fs_needSave :: bool

abbreviation FACTION_FLAG_VISIBLE :: uint8 where "FACTION_FLAG_VISIBLE \<equiv> 0x01"
abbreviation FACTION_FLAG_AT_WAR :: uint8 where "FACTION_FLAG_AT_WAR \<equiv> 0x02"
abbreviation FACTION_FLAG_HIDDEN :: uint8 where "FACTION_FLAG_HIDDEN \<equiv> 0x04"
abbreviation FACTION_FLAG_INVISIBLE_FORCED :: uint8 where "FACTION_FLAG_INVISIBLE_FORCED \<equiv> 0x08"
abbreviation FACTION_FLAG_PEACE_FORCED :: uint8 where "FACTION_FLAG_PEACE_FORCED \<equiv> 0x10"
abbreviation FACTION_FLAG_INACTIVE :: uint8 where "FACTION_FLAG_INACTIVE \<equiv> 0x20"
abbreviation FACTION_FLAG_SPECIAL :: uint8 where "FACTION_FLAG_SPECIAL \<equiv> 0x80"

record ReputationMgr =
  rm_factions :: "(uint32, FactionState) omap"
  rm_forcedReactions :: "(uint32, ReputationRank) omap"
  rm_visible :: uint8
  rm_honored :: uint8
  rm_revered :: uint8
  rm_exalted :: uint8
  rm_sendFactionIncreased :: bool

datatype rep_effect =
    SendDirectMessage WorldPacket
  | ReputationChanged uint32
  | UpdateReputationCriteria uint32
  | CHAR_DEL_CHAR_REPUTATION_BY_FACTION uint32 uint16
  | CHAR_INS_CHAR_REPUTATION_BY_FACTION uint32 uint16 int uint16
  | NullFaction

section \<open>Reading\<close>

text \<open>The first of the four base reputation slots that fits the player's race and class.\<close>

definition base_slot :: "RepEnv \<Rightarrow> FactionEntry \<Rightarrow> nat \<Rightarrow> bool" where
  "base_slot env fe i \<longleftrightarrow>
     (has_flag (BaseRepRaceMask fe ! i) (re_raceMask env) \<or> (BaseRepRaceMask fe ! i = 0 \<and> BaseRepClassMask fe ! i \<noteq> 0)) \<and>
     (has_flag (BaseRepClassMask fe ! i) (re_classMask env) \<or> BaseRepClassMask fe ! i = 0)"

definition GetBaseReputation :: "RepEnv \<Rightarrow> FactionEntry \<Rightarrow> int" where
  "GetBaseReputation env fe =
     (case find (base_slot env fe) [0, 1, 2, 3] of Some i \<Rightarrow> BaseRepValue fe ! i | None \<Rightarrow> 0)"

definition GetDefaultStateFlags :: "RepEnv \<Rightarrow> FactionEntry \<Rightarrow> uint32" where
  "GetDefaultStateFlags env fe =
     (case find (base_slot env fe) [0, 1, 2, 3] of Some i \<Rightarrow> ReputationFlags fe ! i | None \<Rightarrow> 0)"

definition list_id :: "FactionEntry \<Rightarrow> uint32" where
  "list_id fe = word_of_int (reputationListID fe)"

definition GetState :: "ReputationMgr \<Rightarrow> FactionEntry \<Rightarrow> FactionState option" where
  "GetState m fe = (if reputationListID fe \<ge> 0 then om_get (rm_factions m) (list_id fe) else None)"

definition GetReputation :: "RepEnv \<Rightarrow> ReputationMgr \<Rightarrow> FactionEntry option \<Rightarrow> int" where
  "GetReputation env m fe =
     (case fe of
        None \<Rightarrow> 0
      | Some fe \<Rightarrow> (case GetState m fe of Some s \<Rightarrow> wrap32 (GetBaseReputation env fe + fs_Standing s) | None \<Rightarrow> 0))"

definition GetReputationById :: "RepEnv \<Rightarrow> ReputationMgr \<Rightarrow> uint32 \<Rightarrow> int" where
  "GetReputationById env m faction_id = GetReputation env m (FactionStore env faction_id)"

definition GetRank :: "RepEnv \<Rightarrow> ReputationMgr \<Rightarrow> FactionEntry option \<Rightarrow> ReputationRank" where
  "GetRank env m fe = ReputationToRank (GetReputation env m fe)"

definition GetBaseRank :: "RepEnv \<Rightarrow> FactionEntry \<Rightarrow> ReputationRank" where
  "GetBaseRank env fe = ReputationToRank (GetBaseReputation env fe)"

definition IsAtWar :: "RepEnv \<Rightarrow> ReputationMgr \<Rightarrow> uint32 \<Rightarrow> bool" where
  "IsAtWar env m faction_id =
     (case FactionStore env faction_id of
        None \<Rightarrow> False
      | Some fe \<Rightarrow> (case GetState m fe of Some s \<Rightarrow> has_flag (fs_Flags s) FACTION_FLAG_AT_WAR | None \<Rightarrow> False))"

definition GetForcedRankIfAny :: "ReputationMgr \<Rightarrow> uint32 \<Rightarrow> ReputationRank option" where
  "GetForcedRankIfAny m faction = om_get (rm_forcedReactions m) faction"

section \<open>Sending\<close>

definition SendForceReactions :: "ReputationMgr \<Rightarrow> rep_effect list" where
  "SendForceReactions m =
     [SendDirectMessage (stream (U32 (of_nat (length (rm_forcedReactions m))) #
        concat (map (\<lambda>(f, r). [U32 f, U32 (of_nat (rank_index r))]) (rm_forcedReactions m)))
        (WorldPacket_init 0x2A5))]"

text \<open>\<open>SendState\<close>: the faction first, then all others marked for sending; the marks are cleared.  The leading
  field is the float 0.\<close>

definition SendState :: "FactionState \<Rightarrow> ReputationMgr \<Rightarrow> ReputationMgr \<times> rep_effect list" where
  "SendState s m =
     (let others = filter (\<lambda>(k, t). fs_needSend t \<and> fs_ReputationListID t \<noteq> fs_ReputationListID s) (rm_factions m);
          entry = (\<lambda>t. [U32 (fs_ReputationListID t), U32 (word_of_int (fs_Standing t))]);
          data = stream ([U32 0, U8 (if rm_sendFactionIncreased m then 1 else 0), U32 (of_nat (length others + 1))] @
                   entry s @ concat (map (\<lambda>(k, t). entry t) others)) (WorldPacket_init 0x124) in
      (m\<lparr>rm_sendFactionIncreased := False,
         rm_factions := map (\<lambda>(k, t). (k, t\<lparr>fs_needSend := False\<rparr>)) (rm_factions m)\<rparr>,
       [SendDirectMessage data]))"

text \<open>\<open>SendInitialReputations\<close> fills a table of 128 entries.  A faction at position 128 or above makes the last
  loop run until the packet exceeds its limit (\<open>None\<close>).\<close>

definition empty_entry :: "field list" where
  "empty_entry = [U8 0, U32 0]"

fun initial_entries :: "nat \<Rightarrow> (uint32, FactionState) omap \<Rightarrow> field list option" where
  "initial_entries a [] = (if a \<le> 128 then Some (concat (replicate (128 - a) empty_entry)) else None)"
| "initial_entries a ((k, s) # l) =
     map_option (\<lambda>rest. concat (replicate (unat k - a) empty_entry) @
       [U8 (fs_Flags s), U32 (word_of_int (fs_Standing s))] @ rest) (initial_entries (unat k + 1) l)"

definition SendInitialReputations :: "ReputationMgr \<Rightarrow> (ReputationMgr \<times> rep_effect list) option" where
  "SendInitialReputations m =
     map_option (\<lambda>es.
       (m\<lparr>rm_factions := map (\<lambda>(k, t). (k, t\<lparr>fs_needSend := False\<rparr>)) (rm_factions m)\<rparr>,
        [SendDirectMessage (stream (U32 128 # es) (WorldPacket_init 0x122))]))
       (initial_entries 0 (rm_factions m))"

definition SendVisible :: "RepEnv \<Rightarrow> FactionState \<Rightarrow> rep_effect list" where
  "SendVisible env s =
     (if re_loading env then [] else [SendDirectMessage (stream [U32 (fs_ReputationListID s)] (WorldPacket_init 0x123))])"

fun send_states_loop :: "uint32 list \<Rightarrow> ReputationMgr \<Rightarrow> ReputationMgr \<times> rep_effect list" where
  "send_states_loop [] m = (m, [])"
| "send_states_loop (k # ks) m =
     (case om_get (rm_factions m) k of
        None \<Rightarrow> send_states_loop ks m
      | Some s \<Rightarrow>
          (let (m, e1) = SendState s m; (m, e2) = send_states_loop ks m in (m, e1 @ e2)))"

definition SendStates :: "ReputationMgr \<Rightarrow> ReputationMgr \<times> rep_effect list" where
  "SendStates m = send_states_loop (om_keys (rm_factions m)) m"

section \<open>Changing\<close>

definition rank_count :: "ReputationRank \<Rightarrow> ReputationRank \<Rightarrow> ReputationRank \<Rightarrow> uint8 \<Rightarrow> uint8" where
  "rank_count limit old_rank new_rank n =
     (let n = (if old_rank \<ge> limit then n - 1 else n) in if new_rank \<ge> limit then n + 1 else n)"

definition UpdateRankCounters :: "ReputationRank \<Rightarrow> ReputationRank \<Rightarrow> ReputationMgr \<Rightarrow> ReputationMgr" where
  "UpdateRankCounters old_rank new_rank m =
     m\<lparr>rm_exalted := rank_count REP_EXALTED old_rank new_rank (rm_exalted m),
       rm_revered := rank_count REP_REVERED old_rank new_rank (rm_revered m),
       rm_honored := rank_count REP_HONORED old_rank new_rank (rm_honored m)\<rparr>"

text \<open>The private functions on a \<open>FactionState*\<close>: the entry of the map under its key.\<close>

definition put_state :: "uint32 \<Rightarrow> FactionState \<Rightarrow> ReputationMgr \<Rightarrow> ReputationMgr" where
  "put_state k s m = m\<lparr>rm_factions := om_put k s (rm_factions m)\<rparr>"

definition can_show :: "FactionState \<Rightarrow> bool" where
  "can_show s \<longleftrightarrow>
     \<not> (has_flag (fs_Flags s) (FACTION_FLAG_INVISIBLE_FORCED OR FACTION_FLAG_HIDDEN) \<and> \<not> has_flag (fs_Flags s) FACTION_FLAG_SPECIAL)"

definition SetVisibleState :: "RepEnv \<Rightarrow> uint32 \<Rightarrow> FactionState \<Rightarrow> ReputationMgr \<Rightarrow> ReputationMgr \<times> rep_effect list" where
  "SetVisibleState env k s m =
     (if \<not> can_show s then (m, [])
      else if has_flag (fs_Flags s) FACTION_FLAG_VISIBLE then (m, [])
      else let s = s\<lparr>fs_Flags := set_flag (fs_Flags s) FACTION_FLAG_VISIBLE True, fs_needSend := True, fs_needSave := True\<rparr> in
           ((put_state k s m)\<lparr>rm_visible := rm_visible m + 1\<rparr>, SendVisible env s))"

definition war_state :: "bool \<Rightarrow> FactionState \<Rightarrow> FactionState" where
  "war_state atWar s =
     (if atWar \<and> has_flag (fs_Flags s) FACTION_FLAG_PEACE_FORCED then s
      else if has_flag (fs_Flags s) FACTION_FLAG_AT_WAR = atWar then s
      else s\<lparr>fs_Flags := set_flag (fs_Flags s) FACTION_FLAG_AT_WAR atWar, fs_needSend := True, fs_needSave := True\<rparr>)"

definition inactive_state :: "bool \<Rightarrow> FactionState \<Rightarrow> FactionState" where
  "inactive_state inactive s =
     (if inactive \<and> (has_flag (fs_Flags s) (FACTION_FLAG_INVISIBLE_FORCED OR FACTION_FLAG_HIDDEN) \<or>
                     \<not> has_flag (fs_Flags s) FACTION_FLAG_VISIBLE) then s
      else if has_flag (fs_Flags s) FACTION_FLAG_INACTIVE = inactive then s
      else s\<lparr>fs_Flags := set_flag (fs_Flags s) FACTION_FLAG_INACTIVE inactive, fs_needSend := True, fs_needSave := True\<rparr>)"

definition mod_state :: "(FactionState \<Rightarrow> FactionState) \<Rightarrow> uint32 \<Rightarrow> ReputationMgr \<Rightarrow> ReputationMgr" where
  "mod_state f k m = (case om_get (rm_factions m) k of None \<Rightarrow> m | Some s \<Rightarrow> put_state k (f s) m)"

definition SetVisibleFaction :: "RepEnv \<Rightarrow> FactionEntry \<Rightarrow> ReputationMgr \<Rightarrow> ReputationMgr \<times> rep_effect list" where
  "SetVisibleFaction env fe m =
     (if reputationListID fe < 0 then (m, [])
      else case om_get (rm_factions m) (list_id fe) of
             None \<Rightarrow> (m, [])
           | Some s \<Rightarrow> SetVisibleState env (list_id fe) s m)"

definition SetVisibleTemplate :: "RepEnv \<Rightarrow> uint32 \<Rightarrow> ReputationMgr \<Rightarrow> ReputationMgr \<times> rep_effect list" where
  "SetVisibleTemplate env faction m =
     (if faction = 0 then (m, [])
      else case FactionStore env faction of
             None \<Rightarrow> (m, [])
           | Some fe \<Rightarrow>
               (if has_flag (BaseRepRaceMask fe ! 1) (re_raceMask env) \<and> BaseRepValue fe ! 1 = Reputation_Bottom then (m, [])
                else SetVisibleFaction env fe m))"

definition SetAtWar :: "uint32 \<Rightarrow> bool \<Rightarrow> ReputationMgr \<Rightarrow> ReputationMgr" where
  "SetAtWar repListID on m =
     (case om_get (rm_factions m) repListID of
        None \<Rightarrow> m
      | Some s \<Rightarrow>
          (if has_flag (fs_Flags s) (FACTION_FLAG_INVISIBLE_FORCED OR FACTION_FLAG_HIDDEN) then m
           else put_state repListID (war_state on s) m))"

definition SetInactive :: "uint32 \<Rightarrow> bool \<Rightarrow> ReputationMgr \<Rightarrow> ReputationMgr" where
  "SetInactive repListID on m = mod_state (inactive_state on) repListID m"

definition ApplyForceReaction :: "uint32 \<Rightarrow> ReputationRank \<Rightarrow> bool \<Rightarrow> ReputationMgr \<Rightarrow> ReputationMgr" where
  "ApplyForceReaction faction_id rank apply_it m =
     m\<lparr>rm_forcedReactions :=
       (if apply_it then om_put faction_id rank (rm_forcedReactions m) else om_erase faction_id (rm_forcedReactions m))\<rparr>"

definition clamp_standing :: "int \<Rightarrow> int" where
  "clamp_standing s = (if s > Reputation_Cap then Reputation_Cap else if s < Reputation_Bottom then Reputation_Bottom else s)"

definition gained_standing :: "RepEnv \<Rightarrow> int \<Rightarrow> int \<Rightarrow> int \<Rightarrow> int" where
  "gained_standing env standing current base =
     wrap32 (fl_to_int32 (of_int \<lfloor>fl32 (fl_mul (fl32 (of_int standing)) (RATE_REPUTATION_GAIN env) + 1 / 2)\<rfloor>) +
       wrap32 (current + base))"

definition SetOneFactionReputation ::
  "RepEnv \<Rightarrow> FactionEntry \<Rightarrow> int \<Rightarrow> bool \<Rightarrow> ReputationMgr \<Rightarrow> bool \<times> ReputationMgr \<times> rep_effect list" where
  "SetOneFactionReputation env fe standing incremental m =
     (case om_get (rm_factions m) (list_id fe) of
        None \<Rightarrow> (False, m, [])
      | Some s \<Rightarrow>
          (let k = list_id fe;
               base = GetBaseReputation env fe;
               standing = clamp_standing (if incremental then gained_standing env standing (fs_Standing s) base else standing);
               old_rank = ReputationToRank (wrap32 (fs_Standing s + base));
               new_rank = ReputationToRank standing;
               s = s\<lparr>fs_Standing := wrap32 (standing - base), fs_needSend := True, fs_needSave := True\<rparr>;
               (m, e1) = SetVisibleState env k s (put_state k s m);
               m = (if new_rank \<le> REP_HOSTILE then mod_state (war_state True) k m else m);
               m = (if new_rank > old_rank then m\<lparr>rm_sendFactionIncreased := True\<rparr> else m);
               m = UpdateRankCounters old_rank new_rank m in
           (True, m, e1 @ [ReputationChanged (fe_ID fe), UpdateReputationCriteria (fe_ID fe)])))"

text \<open>The two spill-over loops of \<open>SetReputation\<close>.\<close>

fun template_loop ::
  "RepEnv \<Rightarrow> (uint32 \<times> rat \<times> uint32) list \<Rightarrow> int \<Rightarrow> bool \<Rightarrow> ReputationMgr \<Rightarrow> ReputationMgr \<times> rep_effect list" where
  "template_loop env [] standing incremental m = (m, [])"
| "template_loop env ((f, rate, rank) # l) standing incremental m =
     (let (m, e) =
        (if f \<noteq> 0 \<and> rank_index (GetRank env m (FactionStore env f)) \<le> unat rank
         then case FactionStore env f of
                None \<Rightarrow> (m, [NullFaction])
              | Some fe \<Rightarrow>
                  snd (SetOneFactionReputation env fe (fl_to_int32 (fl_mul (fl32 (of_int standing)) rate)) incremental m)
         else (m, []));
      (m, e') = template_loop env l standing incremental m in
      (m, e @ e'))"

fun team_loop ::
  "RepEnv \<Rightarrow> uint32 list \<Rightarrow> FactionEntry \<Rightarrow> rat \<Rightarrow> bool \<Rightarrow> bool \<Rightarrow> ReputationMgr \<Rightarrow> bool \<times> ReputationMgr \<times> rep_effect list" where
  "team_loop env [] self out incremental res m = (res, m, [])"
| "team_loop env (f # fs) self out incremental res m =
     (case FactionStore env f of
        None \<Rightarrow> team_loop env fs self out incremental res m
      | Some fe \<Rightarrow>
          (let spill = fl_to_int32 (fl_mul out (spilloverRateIn fe)) in
           if fe_ID fe = fe_ID self \<or> rank_index (GetRank env m (Some fe)) > unat (spilloverMaxRankIn fe) \<or>
              \<not> (spill \<noteq> 0 \<or> \<not> incremental)
           then team_loop env fs self out incremental res m
           else let (res, m, e) = SetOneFactionReputation env fe spill incremental m;
                    (res, m, e') = team_loop env fs self out incremental res m in
                (res, m, e @ e')))"

definition SetReputation ::
  "RepEnv \<Rightarrow> FactionEntry \<Rightarrow> int \<Rightarrow> bool \<Rightarrow> ReputationMgr \<Rightarrow> bool \<times> ReputationMgr \<times> rep_effect list" where
  "SetReputation env fe standing incremental m =
     (let standing = OnPlayerReputationChange env (fe_ID fe) standing incremental;
          (res, m, e) =
            (case GetRepSpilloverTemplate env (fe_ID fe) of
               Some t \<Rightarrow> (False, template_loop env (zip (st_faction t) (zip (st_rate t) (st_rank t))) standing incremental m)
             | None \<Rightarrow>
                 (let out = fl32 (of_int standing);
                      flist = GetFactionTeamList env (fe_ID fe) in
                  if flist = None \<and> fe_team fe \<noteq> 0 \<and> spilloverRateOut fe \<noteq> 0
                  then let out = fl_mul out (spilloverRateOut fe) in
                       (case FactionStore env (fe_team fe) of
                          None \<Rightarrow> (False, m, [])
                        | Some parent \<Rightarrow>
                            (case om_get (rm_factions m) (list_id parent) of
                               Some ps \<Rightarrow>
                                 (if has_flag (fs_Flags ps) FACTION_FLAG_SPECIAL
                                  then (False, snd (SetOneFactionReputation env parent (fl_to_int32 out) incremental m))
                                  else case GetFactionTeamList env (fe_team fe) of
                                         None \<Rightarrow> (False, m, [])
                                       | Some l \<Rightarrow> team_loop env l fe out incremental False m)
                             | None \<Rightarrow>
                                 (case GetFactionTeamList env (fe_team fe) of
                                    None \<Rightarrow> (False, m, [])
                                  | Some l \<Rightarrow> team_loop env l fe out incremental False m)))
                  else case flist of
                         None \<Rightarrow> (False, m, [])
                       | Some l \<Rightarrow> team_loop env l fe out incremental False m)) in
      case om_get (rm_factions m) (list_id fe) of
        None \<Rightarrow> (res, m, e)
      | Some _ \<Rightarrow>
          (let (res, m, e') = SetOneFactionReputation env fe standing incremental m;
               (m, e'') = (case om_get (rm_factions m) (list_id fe) of Some s \<Rightarrow> SendState s m | None \<Rightarrow> (m, [])) in
           (res, m, e @ e' @ e'')))"

section \<open>Loading and saving\<close>

definition ReputationMgr_new :: ReputationMgr where
  "ReputationMgr_new = \<lparr>rm_factions = [], rm_forcedReactions = [], rm_visible = 0, rm_honored = 0, rm_revered = 0,
     rm_exalted = 0, rm_sendFactionIncreased = False\<rparr>"

definition init_faction :: "RepEnv \<Rightarrow> FactionEntry \<Rightarrow> ReputationMgr \<Rightarrow> ReputationMgr" where
  "init_faction env fe m =
     (if reputationListID fe \<ge> 0
      then let s = \<lparr>fs_ID = fe_ID fe, fs_ReputationListID = list_id fe, fs_Standing = 0,
                    fs_Flags = ucast (GetDefaultStateFlags env fe), fs_needSend = True, fs_needSave = True\<rparr>;
               m = (if has_flag (fs_Flags s) FACTION_FLAG_VISIBLE then m\<lparr>rm_visible := rm_visible m + 1\<rparr> else m);
               m = UpdateRankCounters REP_HOSTILE (GetBaseRank env fe) m in
           put_state (list_id fe) s m
      else m)"

definition Initialize :: "RepEnv \<Rightarrow> ReputationMgr \<Rightarrow> ReputationMgr" where
  "Initialize env m =
     fold (\<lambda>i m. case FactionStore env (of_nat i) of None \<Rightarrow> m | Some fe \<Rightarrow> init_faction env fe m)
       [1..<FactionRows env]
       (m\<lparr>rm_factions := [], rm_visible := 0, rm_honored := 0, rm_revered := 0, rm_exalted := 0,
          rm_sendFactionIncreased := False\<rparr>)"

definition state_at :: "uint32 \<Rightarrow> ReputationMgr \<Rightarrow> FactionState" where
  "state_at k m = (case om_get (rm_factions m) k of
     Some s \<Rightarrow> s
   | None \<Rightarrow> \<lparr>fs_ID = 0, fs_ReputationListID = 0, fs_Standing = 0, fs_Flags = 0, fs_needSend = False, fs_needSave = False\<rparr>)"

text \<open>One row (faction, standing, flags) of \<open>character_reputation\<close>.\<close>

definition load_row :: "RepEnv \<Rightarrow> uint16 \<times> int \<times> uint16 \<Rightarrow> ReputationMgr \<Rightarrow> ReputationMgr" where
  "load_row env row m =
     (case row of (faction, standing, dbFlags) \<Rightarrow>
       case FactionStore env (ucast faction) of
         None \<Rightarrow> m
       | Some fe \<Rightarrow>
           (if reputationListID fe \<ge> 0
            then let k = list_id fe;
                     base = GetBaseReputation env fe;
                     s = (state_at k m)\<lparr>fs_Standing := standing\<rparr>;
                     m = UpdateRankCounters (ReputationToRank base) (ReputationToRank (wrap32 (base + standing)))
                           (put_state k s m);
                     m = (if has_flag dbFlags 0x01 then fst (SetVisibleState env k s m) else m);
                     m = (if has_flag dbFlags 0x20 then mod_state (inactive_state True) k m else m);
                     m = (if has_flag dbFlags 0x02 then mod_state (war_state True) k m
                          else if has_flag (fs_Flags (state_at k m)) FACTION_FLAG_VISIBLE then mod_state (war_state False) k m
                          else m);
                     m = (if GetRank env m (Some fe) \<le> REP_HOSTILE then mod_state (war_state True) k m else m) in
                 if ucast (fs_Flags (state_at k m)) = dbFlags
                 then mod_state (\<lambda>s. s\<lparr>fs_needSend := False, fs_needSave := False\<rparr>) k m else m
            else m))"

definition LoadFromDB :: "RepEnv \<Rightarrow> (uint16 \<times> int \<times> uint16) list \<Rightarrow> ReputationMgr \<Rightarrow> ReputationMgr" where
  "LoadFromDB env rows m = fold (load_row env) rows (Initialize env m)"

definition SaveToDB :: "RepEnv \<Rightarrow> ReputationMgr \<Rightarrow> ReputationMgr \<times> rep_effect list" where
  "SaveToDB env m =
     (m\<lparr>rm_factions := map (\<lambda>(k, s). (k, s\<lparr>fs_needSave := False\<rparr>)) (rm_factions m)\<rparr>,
      concat (map (\<lambda>(k, s). if fs_needSave s
        then [CHAR_DEL_CHAR_REPUTATION_BY_FACTION (re_guidLow env) (ucast (fs_ID s)),
              CHAR_INS_CHAR_REPUTATION_BY_FACTION (re_guidLow env) (ucast (fs_ID s)) (fs_Standing s) (ucast (fs_Flags s))]
        else []) (rm_factions m)))"

section \<open>Ranks of standings\<close>

lemma ReputationToRank_eq:
  "ReputationToRank st =
     (if st \<ge> 42000 then REP_EXALTED else if st \<ge> 21000 then REP_REVERED else if st \<ge> 9000 then REP_HONORED
      else if st \<ge> 3000 then REP_FRIENDLY else if st \<ge> 0 then REP_NEUTRAL else if st \<ge> - 3000 then REP_UNFRIENDLY
      else if st \<ge> - 6000 then REP_HOSTILE else REP_HATED)"
  by (simp add: ReputationToRank_def PointsInRank_def)

lemma ReputationToRank_mono: "s \<le> t \<Longrightarrow> ReputationToRank s \<le> ReputationToRank t"
  by (auto simp: ReputationToRank_eq rank_order)

lemma clamp_standing_bounds: "Reputation_Bottom \<le> clamp_standing s" "clamp_standing s \<le> Reputation_Cap"
  by (simp_all add: clamp_standing_def)

lemma wrap32_add_wrap: "wrap32 (a + wrap32 b) = wrap32 (a + b)"
proof -
  have "(a + ((b + 2147483648) mod 4294967296 - 2147483648) + 2147483648) mod 4294967296 = (a + (b + 2147483648)) mod 4294967296"
    by (simp add: mod_simps)
  then show ?thesis by (simp add: wrap32_def algebra_simps)
qed

lemma wrap32_standing: "wrap32 (base + wrap32 (clamp_standing st - base)) = clamp_standing st"
  using clamp_standing_bounds [of st] by (simp add: wrap32_add_wrap wrap32_small)

lemma rank_count_same [simp]: "rank_count limit r r n = n"
  by (simp add: rank_count_def Let_def)

section \<open>The faction table and what the manager keeps of it\<close>

text \<open>\<open>Faction.dbc\<close> as the code relies on it: entries are stored under their positive identifier, which fits
  the \<open>uint16\<close> column of the character database, their numbers are \<open>int32\<close>, and no two of them share a
  position in the reputation list.\<close>

definition factions_ok :: "RepEnv \<Rightarrow> bool" where
  "factions_ok env \<longleftrightarrow> FactionRows env \<le> 65536 \<and>
     (\<forall>i fe. FactionStore env i = Some fe \<longrightarrow>
        fe_ID fe = i \<and> 0 < i \<and> unat i < FactionRows env \<and>
        - 2147483648 \<le> reputationListID fe \<and> reputationListID fe < 2147483648 \<and>
        length (BaseRepValue fe) = 4 \<and> (\<forall>v \<in> set (BaseRepValue fe). - 2147483648 \<le> v \<and> v < 2147483648)) \<and>
     (\<forall>i j fe fe'. FactionStore env i = Some fe \<and> FactionStore env j = Some fe' \<and>
        reputationListID fe \<ge> 0 \<and> reputationListID fe' = reputationListID fe \<longrightarrow> fe' = fe)"

definition is_visible :: "FactionState \<Rightarrow> bool" where
  "is_visible s \<longleftrightarrow> has_flag (fs_Flags s) FACTION_FLAG_VISIBLE"

definition state_rank :: "RepEnv \<Rightarrow> FactionState \<Rightarrow> ReputationRank" where
  "state_rank env s = ReputationToRank (wrap32 (fs_Standing s +
     (case FactionStore env (fs_ID s) of Some fe \<Rightarrow> GetBaseReputation env fe | None \<Rightarrow> 0)))"

definition listed :: "RepEnv \<Rightarrow> uint32 \<Rightarrow> FactionState \<Rightarrow> bool" where
  "listed env k s \<longleftrightarrow> fs_ReputationListID s = k \<and>
     (\<exists>fe. FactionStore env (fs_ID s) = Some fe \<and> reputationListID fe \<ge> 0 \<and> list_id fe = k)"

definition counts_ok :: "RepEnv \<Rightarrow> ReputationMgr \<Rightarrow> bool" where
  "counts_ok env m \<longleftrightarrow>
     rm_visible m = of_nat (om_count is_visible (rm_factions m)) \<and>
     rm_honored m = of_nat (om_count (\<lambda>s. REP_HONORED \<le> state_rank env s) (rm_factions m)) \<and>
     rm_revered m = of_nat (om_count (\<lambda>s. REP_REVERED \<le> state_rank env s) (rm_factions m)) \<and>
     rm_exalted m = of_nat (om_count (\<lambda>s. REP_EXALTED \<le> state_rank env s) (rm_factions m))"

definition rep_inv :: "RepEnv \<Rightarrow> ReputationMgr \<Rightarrow> bool" where
  "rep_inv env m \<longleftrightarrow> om_ok (rm_factions m) \<and> counts_ok env m \<and>
     (\<forall>k s. om_get (rm_factions m) k = Some s \<longrightarrow> listed env k s)"

lemma list_id_eq:
  assumes "factions_ok env" "FactionStore env i = Some fe" "FactionStore env j = Some fe'"
    and "reputationListID fe \<ge> 0" "list_id fe' = list_id fe"
  shows "fe' = fe"
proof -
  have r: "- 2147483648 \<le> reputationListID fe" "reputationListID fe < 2147483648"
    "- 2147483648 \<le> reputationListID fe'" "reputationListID fe' < 2147483648"
    using assms unfolding factions_ok_def by blast+
  have "reputationListID fe' mod 4294967296 = reputationListID fe mod 4294967296"
    using assms(5) by (simp add: list_id_def word_of_int_eq_iff take_bit_eq_mod)
  moreover have "reputationListID fe mod 4294967296 = reputationListID fe"
    using r assms(4) by simp
  moreover have "reputationListID fe' mod 4294967296 = reputationListID fe' \<or>
      reputationListID fe' mod 4294967296 = reputationListID fe' + 4294967296"
    using r mod_add_self2 [of "reputationListID fe'" "4294967296 :: int"]
    by (cases "reputationListID fe' < 0") (simp_all add: mod_pos_pos_trivial del: mod_add_self2)
  ultimately have "reputationListID fe' = reputationListID fe"
    using r assms(4) by auto
  then show ?thesis
    using assms(1-4) unfolding factions_ok_def by blast
qed

text \<open>A state found under the list position of an entry belongs to that entry.\<close>

lemma listed_entry:
  assumes "factions_ok env" "listed env (list_id fe) s" "FactionStore env i = Some fe"
  shows "FactionStore env (fs_ID s) = Some fe" and "fs_ID s = fe_ID fe" and "reputationListID fe \<ge> 0"
proof -
  obtain fe' where fe': "FactionStore env (fs_ID s) = Some fe'" "reputationListID fe' \<ge> 0" "list_id fe' = list_id fe"
    using assms(2) unfolding listed_def by blast
  have "fe = fe'"
    using list_id_eq [OF assms(1) fe'(1) assms(3) fe'(2)] fe'(3) by simp
  then show "FactionStore env (fs_ID s) = Some fe" "reputationListID fe \<ge> 0"
    using fe' by simp_all
  then show "fs_ID s = fe_ID fe"
    using assms(1) unfolding factions_ok_def by metis
qed

section \<open>Updates of one faction\<close>

lemma of_nat_count_put:
  assumes "om_ok m" "om_get m k = Some w"
  shows "(of_nat (om_count P (om_put k v m)) :: uint8) =
    of_nat (om_count P m) - (if P w then 1 else 0) + (if P v then 1 else 0)"
proof -
  have "of_nat (om_count P (om_put k v m) + (if P w then 1 else 0)) =
      (of_nat (om_count P m + (if P v then 1 else 0)) :: uint8)"
    by (simp only: om_count_put_old [OF assms])
  then show ?thesis
    by (cases "P w"; cases "P v") (simp_all add: algebra_simps)
qed

lemma rank_count_put:
  assumes "om_ok m" "om_get m k = Some w" "n = of_nat (om_count (\<lambda>s. limit \<le> rk s) m)"
  shows "rank_count limit (rk w) (rk v) n = of_nat (om_count (\<lambda>s. limit \<le> rk s) (om_put k v m))"
  using assms by (simp add: rank_count_def Let_def of_nat_count_put)

text \<open>The manager after a change of one state: the counters follow the flags and the ranks.\<close>

definition updated :: "RepEnv \<Rightarrow> uint32 \<Rightarrow> FactionState \<Rightarrow> FactionState \<Rightarrow> ReputationMgr \<Rightarrow> ReputationMgr \<Rightarrow> bool" where
  "updated env k old s m m' \<longleftrightarrow>
     fs_ID s = fs_ID old \<and> fs_ReputationListID s = fs_ReputationListID old \<and>
     rm_factions m' = om_put k s (rm_factions m) \<and>
     rm_visible m' = rm_visible m - (if is_visible old then 1 else 0) + (if is_visible s then 1 else 0) \<and>
     rm_honored m' = rank_count REP_HONORED (state_rank env old) (state_rank env s) (rm_honored m) \<and>
     rm_revered m' = rank_count REP_REVERED (state_rank env old) (state_rank env s) (rm_revered m) \<and>
     rm_exalted m' = rank_count REP_EXALTED (state_rank env old) (state_rank env s) (rm_exalted m)"

lemma rep_inv_updated:
  assumes inv: "rep_inv env m" and old: "om_get (rm_factions m) k = Some old" and upd: "updated env k old s m m'"
  shows "rep_inv env m'"
proof -
  have ok: "om_ok (rm_factions m)" and c: "counts_ok env m" and l: "\<And>k s. om_get (rm_factions m) k = Some s \<Longrightarrow> listed env k s"
    using inv unfolding rep_inv_def by blast+
  have F: "rm_factions m' = om_put k s (rm_factions m)"
    using upd unfolding updated_def by blast
  have s: "listed env k s"
    using l [OF old] upd unfolding updated_def listed_def by simp
  have "counts_ok env m'"
    using upd c unfolding updated_def counts_ok_def
    by (simp add: of_nat_count_put [OF ok old] rank_count_put [OF ok old, where rk = "state_rank env"])
  moreover have "listed env j t" if "om_get (rm_factions m') j = Some t" for j t
    using that s l by (auto simp: F om_get_put split: if_splits)
  ultimately show ?thesis
    unfolding rep_inv_def using ok by (simp add: F om_ok_put)
qed

text \<open>The flag changes as functions of the state.\<close>

definition show_state :: "FactionState \<Rightarrow> FactionState" where
  "show_state s = (if can_show s \<and> \<not> is_visible s
     then s\<lparr>fs_Flags := set_flag (fs_Flags s) FACTION_FLAG_VISIBLE True, fs_needSend := True, fs_needSave := True\<rparr> else s)"

lemma SetVisibleState_form:
  assumes "om_ok (rm_factions m)" "om_get (rm_factions m) k = Some s"
  shows "fst (SetVisibleState env k s m) = (put_state k (show_state s) m)
    \<lparr>rm_visible := rm_visible m - (if is_visible s then 1 else 0) + (if is_visible (show_state s) then 1 else 0)\<rparr>"
  using assms by (auto simp: SetVisibleState_def show_state_def is_visible_def put_state_def om_put_same Let_def)

lemma mod_state_form: "om_get (rm_factions m) k = Some s \<Longrightarrow> mod_state f k m = put_state k (f s) m"
  by (simp add: mod_state_def)

lemma flag_disjoint:
  "has_flag (set_flag w FACTION_FLAG_AT_WAR b) FACTION_FLAG_VISIBLE = has_flag w FACTION_FLAG_VISIBLE"
  "has_flag (set_flag w FACTION_FLAG_INACTIVE b) FACTION_FLAG_VISIBLE = has_flag w FACTION_FLAG_VISIBLE"
  "has_flag (set_flag w FACTION_FLAG_VISIBLE b) FACTION_FLAG_PEACE_FORCED = has_flag w FACTION_FLAG_PEACE_FORCED"
  by (simp_all add: has_flag_set_other)

text \<open>What each of them keeps.\<close>

definition keeps :: "(FactionState \<Rightarrow> FactionState) \<Rightarrow> bool" where
  "keeps f \<longleftrightarrow> (\<forall>s. fs_ID (f s) = fs_ID s \<and> fs_ReputationListID (f s) = fs_ReputationListID s \<and>
     fs_Standing (f s) = fs_Standing s \<and> (f s = s \<or> fs_needSave (f s)))"

lemma keeps_states: "keeps show_state" "keeps (war_state b)" "keeps (inactive_state b)"
  by (simp_all add: keeps_def show_state_def war_state_def inactive_state_def)

lemma visible_states: "is_visible (war_state b s) = is_visible s" "is_visible (inactive_state b s) = is_visible s"
  by (simp_all add: is_visible_def war_state_def inactive_state_def flag_disjoint)

lemma keepsD:
  assumes "keeps f"
  shows "fs_ID (f s) = fs_ID s" "fs_ReputationListID (f s) = fs_ReputationListID s" "fs_Standing (f s) = fs_Standing s"
    "\<not> fs_needSave (f s) \<Longrightarrow> f s = s" "state_rank env (f s) = state_rank env s"
  using assms unfolding keeps_def state_rank_def by simp_all metis

lemmas kept_simps [simp] = keeps_states [THEN keepsD(1)] keeps_states [THEN keepsD(2)] keeps_states [THEN keepsD(3)]
  keeps_states [THEN keepsD(5)] visible_states

section \<open>Every operation is a sequence of such updates\<close>

inductive touch :: "RepEnv \<Rightarrow> ReputationMgr \<Rightarrow> ReputationMgr \<Rightarrow> bool" for env where
  touch_aux: "rm_factions m' = rm_factions m \<Longrightarrow> rm_visible m' = rm_visible m \<Longrightarrow> rm_honored m' = rm_honored m \<Longrightarrow>
    rm_revered m' = rm_revered m \<Longrightarrow> rm_exalted m' = rm_exalted m \<Longrightarrow> touch env m m'"
| touch_state: "om_get (rm_factions m) k = Some old \<Longrightarrow> updated env k old s m m' \<Longrightarrow> s = old \<or> fs_needSave s \<Longrightarrow> touch env m m'"
| touch_unsend: "rm_visible m' = rm_visible m \<Longrightarrow> rm_honored m' = rm_honored m \<Longrightarrow> rm_revered m' = rm_revered m \<Longrightarrow>
    rm_exalted m' = rm_exalted m \<Longrightarrow> rm_factions m' = map (\<lambda>(k, t). (k, t\<lparr>fs_needSend := False\<rparr>)) (rm_factions m) \<Longrightarrow>
    touch env m m'"

abbreviation touches :: "RepEnv \<Rightarrow> ReputationMgr \<Rightarrow> ReputationMgr \<Rightarrow> bool" where
  "touches env \<equiv> (touch env)\<^sup>*\<^sup>*"

text \<open>A state that is not marked for saving is in the character database as it is.\<close>

type_synonym rep_table = "uint16 \<rightharpoonup> int \<times> uint16"

definition in_table :: "rep_table \<Rightarrow> FactionState \<Rightarrow> bool" where
  "in_table db s \<longleftrightarrow> db (ucast (fs_ID s)) = Some (fs_Standing s, ucast (fs_Flags s))"

definition saved_ok :: "rep_table \<Rightarrow> ReputationMgr \<Rightarrow> bool" where
  "saved_ok db m \<longleftrightarrow> (\<forall>k s. om_get (rm_factions m) k = Some s \<and> \<not> fs_needSave s \<longrightarrow> in_table db s)"

lemma saved_okD: "saved_ok db m \<Longrightarrow> om_get (rm_factions m) k = Some s \<Longrightarrow> \<not> fs_needSave s \<Longrightarrow> in_table db s"
  unfolding saved_ok_def by blast

lemma counts_unsend:
  "om_count is_visible (map (\<lambda>(k, t). (k, t\<lparr>fs_needSend := False\<rparr>)) F) = om_count is_visible F"
  "om_count (\<lambda>s. r \<le> state_rank env s) (map (\<lambda>(k, t). (k, t\<lparr>fs_needSend := False\<rparr>)) F) = om_count (\<lambda>s. r \<le> state_rank env s) F"
  by (rule om_count_map; simp add: is_visible_def state_rank_def)+

lemma touch_inv: "touch env m m' \<Longrightarrow> rep_inv env m \<Longrightarrow> rep_inv env m'"
proof (induction rule: touch.induct)
  case (touch_aux m' m)
  then show ?case by (simp add: rep_inv_def counts_ok_def)
next
  case (touch_state m k old s m')
  then show ?case by (blast intro: rep_inv_updated)
next
  case (touch_unsend m' m)
  then have "listed env k s" if "om_get (rm_factions m') k = Some s" for k s
    using that unfolding rep_inv_def by (auto simp: om_get_map listed_def)
  with touch_unsend show ?case
    unfolding rep_inv_def counts_ok_def by (simp add: counts_unsend)
qed

lemma touch_saved: "touch env m m' \<Longrightarrow> saved_ok db m \<Longrightarrow> saved_ok db m'"
proof (induction rule: touch.induct)
  case (touch_aux m' m)
  then show ?case by (simp add: saved_ok_def)
next
  case (touch_state m k old s m')
  then show ?case
    unfolding saved_ok_def updated_def by (auto simp: om_get_put split: if_splits)
next
  case (touch_unsend m' m)
  then show ?case
    unfolding saved_ok_def by (auto simp: om_get_map in_table_def)
qed

lemma touches_inv: "touches env m m' \<Longrightarrow> rep_inv env m \<Longrightarrow> rep_inv env m'"
  by (induction rule: rtranclp_induct) (auto intro: touch_inv)

lemma touches_saved: "touches env m m' \<Longrightarrow> saved_ok db m \<Longrightarrow> saved_ok db m'"
  by (induction rule: rtranclp_induct) (auto intro: touch_saved)

lemma touch_put:
  assumes "om_get (rm_factions m) k = Some s" "keeps f" "is_visible (f s) = is_visible s"
  shows "touch env m (put_state k (f s) m)"
  using assms
  by (intro touch_state [OF assms(1), of _ "f s"]) (auto simp: updated_def put_state_def keepsD dest: keepsD(4))

lemma touches_SetVisibleState:
  assumes "om_ok (rm_factions m)" "om_get (rm_factions m) k = Some s"
  shows "touches env m (fst (SetVisibleState env k s m))"
  by (rule r_into_rtranclp, rule touch_state [OF assms(2), of _ "show_state s"])
    (auto simp: SetVisibleState_form [OF assms] updated_def put_state_def intro: keepsD(4) [OF keeps_states(1)])

lemma touches_SendState: "touches env m (fst (SendState s m))"
  by (rule r_into_rtranclp, rule touch_unsend) (simp_all add: SendState_def Let_def)

text \<open>The state \<open>SetOneFactionReputation\<close> leaves.\<close>

definition new_standing :: "RepEnv \<Rightarrow> FactionEntry \<Rightarrow> int \<Rightarrow> bool \<Rightarrow> FactionState \<Rightarrow> int" where
  "new_standing env fe standing incremental s = clamp_standing
     (if incremental then gained_standing env standing (fs_Standing s) (GetBaseReputation env fe) else standing)"

definition set_state :: "RepEnv \<Rightarrow> FactionEntry \<Rightarrow> int \<Rightarrow> bool \<Rightarrow> FactionState \<Rightarrow> FactionState" where
  "set_state env fe standing incremental s =
     (let st = new_standing env fe standing incremental s;
          s = show_state (s\<lparr>fs_Standing := wrap32 (st - GetBaseReputation env fe), fs_needSend := True, fs_needSave := True\<rparr>) in
      if ReputationToRank st \<le> REP_HOSTILE then war_state True s else s)"

lemma set_state_fields:
  "fs_ID (set_state env fe st inc s) = fs_ID s"
  "fs_ReputationListID (set_state env fe st inc s) = fs_ReputationListID s"
  "fs_Standing (set_state env fe st inc s) = wrap32 (new_standing env fe st inc s - GetBaseReputation env fe)"
  "fs_needSave (set_state env fe st inc s)"
  "is_visible (set_state env fe st inc s) \<longleftrightarrow> is_visible s \<or> can_show s"
  by (simp_all add: set_state_def Let_def)
    (auto simp: show_state_def war_state_def is_visible_def can_show_def flag_disjoint)

lemma has_flag_or: "has_flag w (push_bit k 1) \<Longrightarrow> w OR push_bit k 1 = w"
  by (rule bit_eqI) (auto simp: has_flag_bit bit_simps dest: bit_imp_le_length)

lemma show_state_flags:
  "fs_Flags (show_state s) = fs_Flags s OR (if can_show s then FACTION_FLAG_VISIBLE else 0)"
  using has_flag_or [of "fs_Flags s" 0] by (auto simp: show_state_def is_visible_def set_flag_def)

lemma war_state_flags:
  "fs_Flags (war_state True s) = fs_Flags s OR (if has_flag (fs_Flags s) FACTION_FLAG_PEACE_FORCED then 0 else FACTION_FLAG_AT_WAR)"
  using has_flag_or [of "fs_Flags s" 1] by (auto simp: war_state_def set_flag_def)

text \<open>The flag word after setting a reputation: the faction becomes visible unless it is hidden, and at war when it
  is hostile and peace is not forced; all other flags stay.\<close>

lemma set_state_flags:
  "fs_Flags (set_state env fe st inc s) = (fs_Flags s OR (if can_show s then FACTION_FLAG_VISIBLE else 0)) OR
     (if ReputationToRank (new_standing env fe st inc s) \<le> REP_HOSTILE \<and> \<not> has_flag (fs_Flags s) FACTION_FLAG_PEACE_FORCED
      then FACTION_FLAG_AT_WAR else 0)"
proof -
  have same: "has_flag (fs_Flags (show_state s)) FACTION_FLAG_PEACE_FORCED = has_flag (fs_Flags s) FACTION_FLAG_PEACE_FORCED" for s
    by (simp add: show_state_def flag_disjoint)
  show ?thesis
    by (simp add: set_state_def Let_def war_state_flags same) (simp add: show_state_flags can_show_def)
qed

lemma SetOne_form:
  assumes "om_ok (rm_factions m)" "om_get (rm_factions m) (list_id fe) = Some s"
  shows "\<exists>m' e. SetOneFactionReputation env fe standing incremental m = (True, m', e) \<and>
    (let s' = set_state env fe standing incremental s;
         old_rank = ReputationToRank (wrap32 (fs_Standing s + GetBaseReputation env fe));
         new_rank = ReputationToRank (new_standing env fe standing incremental s) in
     rm_factions m' = om_put (list_id fe) s' (rm_factions m) \<and>
     rm_visible m' = rm_visible m - (if is_visible s then 1 else 0) + (if is_visible s' then 1 else 0) \<and>
     rm_honored m' = rank_count REP_HONORED old_rank new_rank (rm_honored m) \<and>
     rm_revered m' = rank_count REP_REVERED old_rank new_rank (rm_revered m) \<and>
     rm_exalted m' = rank_count REP_EXALTED old_rank new_rank (rm_exalted m) \<and>
     rm_forcedReactions m' = rm_forcedReactions m \<and>
     rm_sendFactionIncreased m' = (rm_sendFactionIncreased m \<or> new_rank > old_rank))"
proof -
  let ?k = "list_id fe" and ?st = "new_standing env fe standing incremental s"
  let ?s = "s\<lparr>fs_Standing := wrap32 (?st - GetBaseReputation env fe), fs_needSend := True, fs_needSave := True\<rparr>"
  let ?m = "put_state ?k ?s m"
  have ok: "om_ok (rm_factions ?m)" and g: "om_get (rm_factions ?m) ?k = Some ?s"
    using assms by (simp_all add: put_state_def om_ok_put om_get_put)
  have vis: "is_visible ?s = is_visible s" "is_visible (set_state env fe standing incremental s) = is_visible (show_state ?s)"
    by (simp_all add: is_visible_def) (simp add: set_state_def Let_def is_visible_def [symmetric])
  obtain m1 e1 where v: "SetVisibleState env ?k ?s ?m = (m1, e1)"
    by (cases "SetVisibleState env ?k ?s ?m")
  have m1: "m1 = (put_state ?k (show_state ?s) ?m)\<lparr>rm_visible := rm_visible ?m - (if is_visible ?s then 1 else 0) +
      (if is_visible (show_state ?s) then 1 else 0)\<rparr>"
    using SetVisibleState_form [OF ok g, of env] v by simp
  show ?thesis
    unfolding SetOneFactionReputation_def assms(2) option.case Let_def new_standing_def [symmetric] v prod.case
    by (auto simp: m1 put_state_def mod_state_def om_get_put UpdateRankCounters_def vis set_state_def Let_def)
qed

lemma SetOne_none: "om_get (rm_factions m) (list_id fe) = None \<Longrightarrow> SetOneFactionReputation env fe standing incremental m = (False, m, [])"
  by (simp add: SetOneFactionReputation_def)

lemma touches_SetOne:
  assumes env: "factions_ok env" and inv: "rep_inv env m" and fe: "FactionStore env i = Some fe"
  shows "touches env m (fst (snd (SetOneFactionReputation env fe standing incremental m)))"
proof (cases "om_get (rm_factions m) (list_id fe)")
  case None
  then show ?thesis by (simp add: SetOne_none)
next
  case (Some s)
  have ok: "om_ok (rm_factions m)" and l: "listed env (list_id fe) s"
    using inv Some unfolding rep_inv_def by blast+
  note id = listed_entry [OF env l fe]
  let ?s = "set_state env fe standing incremental s"
  obtain m' e where m': "SetOneFactionReputation env fe standing incremental m = (True, m', e)"
    and form: "rm_factions m' = om_put (list_id fe) ?s (rm_factions m)"
      "rm_visible m' = rm_visible m - (if is_visible s then 1 else 0) + (if is_visible ?s then 1 else 0)"
      "rm_honored m' = rank_count REP_HONORED (ReputationToRank (wrap32 (fs_Standing s + GetBaseReputation env fe)))
         (ReputationToRank (new_standing env fe standing incremental s)) (rm_honored m)"
      "rm_revered m' = rank_count REP_REVERED (ReputationToRank (wrap32 (fs_Standing s + GetBaseReputation env fe)))
         (ReputationToRank (new_standing env fe standing incremental s)) (rm_revered m)"
      "rm_exalted m' = rank_count REP_EXALTED (ReputationToRank (wrap32 (fs_Standing s + GetBaseReputation env fe)))
         (ReputationToRank (new_standing env fe standing incremental s)) (rm_exalted m)"
    using SetOne_form [OF ok Some, of env standing incremental] unfolding Let_def by blast
  have old: "state_rank env s = ReputationToRank (wrap32 (fs_Standing s + GetBaseReputation env fe))"
    by (simp add: state_rank_def id(1))
  have new: "state_rank env ?s = ReputationToRank (new_standing env fe standing incremental s)"
    by (simp add: state_rank_def set_state_fields id(1) add.commute [of "wrap32 _"] new_standing_def wrap32_standing)
  have "updated env (list_id fe) s ?s m m'"
    unfolding updated_def by (simp add: form old new set_state_fields)
  then have "touch env m m'"
    using Some set_state_fields(4) by (blast intro: touch_state)
  then show ?thesis by (simp add: m')
qed

lemma touches_template_loop:
  assumes env: "factions_ok env"
  shows "rep_inv env m \<Longrightarrow> touches env m (fst (template_loop env l standing incremental m))"
proof (induction l arbitrary: m)
  case (Cons p l)
  obtain f rate rank where p: "p = (f, rate, rank)" by (cases p)
  let ?m = "if f \<noteq> 0 \<and> rank_index (GetRank env m (FactionStore env f)) \<le> unat rank
     then case FactionStore env f of None \<Rightarrow> m
       | Some fe \<Rightarrow> fst (snd (SetOneFactionReputation env fe (fl_to_int32 (fl_mul (fl32 (of_int standing)) rate)) incremental m))
     else m"
  have "touches env m ?m"
    using touches_SetOne [OF env Cons.prems] by (simp split: option.split)
  moreover have "fst (template_loop env (p # l) standing incremental m) = fst (template_loop env l standing incremental ?m)"
    by (simp add: p case_prod_beta Let_def split: option.split)
  ultimately show ?case
    using Cons.IH [OF touches_inv [OF _ Cons.prems]] by (metis (no_types, lifting) rtranclp_trans)
qed simp

lemma touches_team_loop:
  assumes env: "factions_ok env"
  shows "rep_inv env m \<Longrightarrow> touches env m (fst (snd (team_loop env l self out incremental res m)))"
proof (induction l arbitrary: m res)
  case (Cons f l)
  show ?case
  proof (cases "FactionStore env f")
    case None
    then show ?thesis using Cons by simp
  next
    case (Some fe)
    let ?m = "fst (snd (SetOneFactionReputation env fe (fl_to_int32 (fl_mul out (spilloverRateIn fe))) incremental m))"
    have t: "touches env m ?m"
      using touches_SetOne [OF env Cons.prems Some] .
    then have "touches env m (fst (snd (team_loop env l self out incremental r ?m)))" for r
      using Cons.IH [OF touches_inv [OF t Cons.prems]] by (blast intro: rtranclp_trans)
    then show ?thesis
      using Cons by (simp add: Some case_prod_beta Let_def)
  qed
qed simp

lemma touches_SetReputation:
  assumes env: "factions_ok env" and inv: "rep_inv env m" and fe: "FactionStore env i = Some fe"
  shows "touches env m (fst (snd (SetReputation env fe standing incremental m)))"
proof -
  have last_part: "touches env n (fst (snd (case om_get (rm_factions n) (list_id fe) of
        None \<Rightarrow> (res, n, e)
      | Some _ \<Rightarrow>
          (let (res, m, e') = SetOneFactionReputation env fe st incremental n;
               (m, e'') = (case om_get (rm_factions m) (list_id fe) of Some s \<Rightarrow> SendState s m | None \<Rightarrow> (m, [])) in
           (res, m, e @ e' @ e''))))) " if "rep_inv env n" for res n e st
    using touches_SetOne [OF env that fe, of st incremental]
    by (auto simp: Let_def case_prod_beta split: option.splits intro: rtranclp_trans [OF _ touches_SendState])
  have then_last: "touches env m (fst (snd (case om_get (rm_factions n) (list_id fe) of
        None \<Rightarrow> (res, n, e)
      | Some _ \<Rightarrow>
          (let (res, m, e') = SetOneFactionReputation env fe st incremental n;
               (m, e'') = (case om_get (rm_factions m) (list_id fe) of Some s \<Rightarrow> SendState s m | None \<Rightarrow> (m, [])) in
           (res, m, e @ e' @ e'')))))" if "touches env m n" for res n e st
    using that last_part [OF touches_inv [OF that inv]] by (rule rtranclp_trans)
  note spills = touches_template_loop [OF env inv] touches_team_loop [OF env inv] touches_SetOne [OF env inv]
  show ?thesis
    unfolding SetReputation_def Let_def case_prod_beta
    by (rule then_last [unfolded Let_def case_prod_beta]) (simp add: spills case_prod_beta split: option.split)
qed

lemma rep_invD: "rep_inv env m \<Longrightarrow> om_ok (rm_factions m)"
  "rep_inv env m \<Longrightarrow> om_get (rm_factions m) k = Some s \<Longrightarrow> listed env k s"
  unfolding rep_inv_def by blast+

lemma touches_flags:
  assumes "om_get (rm_factions m) k = Some s"
  shows "touches env m (put_state k (war_state b s) m)" "touches env m (put_state k (inactive_state b s) m)"
  by (rule r_into_rtranclp, rule touch_put [OF assms keeps_states(2)], simp,
      rule r_into_rtranclp, rule touch_put [OF assms keeps_states(3)], simp)

lemma touches_small_ops:
  assumes inv: "rep_inv env m"
  shows "touches env m (fst (SetVisibleFaction env fe m))"
    and "touches env m (fst (SetVisibleTemplate env faction m))"
    and "touches env m (SetAtWar k on m)"
    and "touches env m (SetInactive k on m)"
    and "touches env m (ApplyForceReaction faction rank apply_it m)"
proof -
  show show_it: "touches env m (fst (SetVisibleFaction env fe m))" for fe
    by (simp add: SetVisibleFaction_def touches_SetVisibleState [OF rep_invD(1) [OF inv]] split: option.split)
  show "touches env m (fst (SetVisibleTemplate env faction m))"
    by (simp add: SetVisibleTemplate_def show_it split: option.split)
  show "touches env m (SetAtWar k on m)"
    by (simp add: SetAtWar_def touches_flags split: option.split)
  show "touches env m (SetInactive k on m)"
    by (simp add: SetInactive_def mod_state_def touches_flags split: option.split)
  show "touches env m (ApplyForceReaction faction rank apply_it m)"
    by (rule r_into_rtranclp, rule touch_aux) (simp_all add: ApplyForceReaction_def)
qed

lemma touches_send_states: "touches env m (fst (send_states_loop ks m))"
proof (induction ks arbitrary: m)
  case (Cons k ks)
  show ?case
  proof (cases "om_get (rm_factions m) k")
    case None
    then show ?thesis using Cons by simp
  next
    case (Some s)
    have "touches env m (fst (send_states_loop ks (fst (SendState s m))))"
      using touches_SendState Cons by (rule rtranclp_trans)
    then show ?thesis by (simp add: Some case_prod_beta Let_def)
  qed
qed simp

lemma touches_SendInitial:
  assumes "SendInitialReputations m = Some (m', e)"
  shows "touches env m m'"
  by (rule r_into_rtranclp, rule touch_unsend) (use assms in \<open>auto simp: SendInitialReputations_def\<close>)

section \<open>Loading\<close>

text \<open>The manager before the rows of the entries from \<open>j\<close> on are read.\<close>

definition fresh :: "RepEnv \<Rightarrow> FactionEntry \<Rightarrow> ReputationMgr \<Rightarrow> bool" where
  "fresh env fe m \<longleftrightarrow> (\<exists>s. om_get (rm_factions m) (list_id fe) = Some s \<and> fs_Standing s = 0 \<and> fs_needSave s)"

definition init_inv :: "RepEnv \<Rightarrow> nat \<Rightarrow> ReputationMgr \<Rightarrow> bool" where
  "init_inv env j m \<longleftrightarrow> rep_inv env m \<and> (\<forall>k s. om_get (rm_factions m) k = Some s \<longrightarrow> fs_needSave s) \<and>
     (\<forall>i fe. FactionStore env i = Some fe \<and> reputationListID fe \<ge> 0 \<longrightarrow>
        (if unat i < j then fresh env fe m else om_get (rm_factions m) (list_id fe) = None))"

lemma rank_count_new:
  "REP_HOSTILE < limit \<Longrightarrow> rank_count limit REP_HOSTILE r n = n + (if limit \<le> r then 1 else 0)"
  by (simp add: rank_count_def Let_def)

lemma find_in: "find P xs = Some x \<Longrightarrow> x \<in> set xs"
  by (auto simp: find_Some_iff)

lemma base_range:
  assumes "factions_ok env" "FactionStore env i = Some fe"
  shows "wrap32 (GetBaseReputation env fe) = GetBaseReputation env fe"
proof -
  have "length (BaseRepValue fe) = 4" "\<And>v. v \<in> set (BaseRepValue fe) \<Longrightarrow> - 2147483648 \<le> v \<and> v < 2147483648"
    using assms unfolding factions_ok_def by blast+
  then have "- 2147483648 \<le> BaseRepValue fe ! j \<and> BaseRepValue fe ! j < 2147483648" if "j \<in> {0, 1, 2, 3}" for j
    using that by auto
  then have "wrap32 (BaseRepValue fe ! j) = BaseRepValue fe ! j" if "j \<in> {0, 1, 2, 3}" for j
    using that by (blast intro: wrap32_small)
  then show ?thesis
    by (auto simp: GetBaseReputation_def wrap32_small split: option.split dest: find_in)
qed

lemma rep_inv_new:
  assumes "rep_inv env m" "om_get (rm_factions m) k = None" "listed env k s"
    and "rm_factions m' = om_put k s (rm_factions m)"
    and "rm_visible m' = rm_visible m + (if is_visible s then 1 else 0)"
    and "rm_honored m' = rank_count REP_HONORED REP_HOSTILE (state_rank env s) (rm_honored m)"
    and "rm_revered m' = rank_count REP_REVERED REP_HOSTILE (state_rank env s) (rm_revered m)"
    and "rm_exalted m' = rank_count REP_EXALTED REP_HOSTILE (state_rank env s) (rm_exalted m)"
  shows "rep_inv env m'"
proof -
  have "REP_HOSTILE < REP_HONORED" "REP_HOSTILE < REP_REVERED" "REP_HOSTILE < REP_EXALTED"
    by (simp_all add: rank_order)
  then have "counts_ok env m'"
    using assms unfolding rep_inv_def counts_ok_def by (simp add: om_count_put_new rank_count_new)
  moreover have "listed env j t" if "om_get (rm_factions m') j = Some t" for j t
    using that assms(3,4) rep_invD(2) [OF assms(1)] by (auto simp: om_get_put split: if_splits)
  ultimately show ?thesis
    using rep_invD(1) [OF assms(1)] unfolding rep_inv_def by (simp add: assms(4) om_ok_put)
qed

definition new_state :: "RepEnv \<Rightarrow> FactionEntry \<Rightarrow> FactionState" where
  "new_state env fe = \<lparr>fs_ID = fe_ID fe, fs_ReputationListID = list_id fe, fs_Standing = 0,
     fs_Flags = ucast (GetDefaultStateFlags env fe), fs_needSend = True, fs_needSave = True\<rparr>"

lemma init_faction_form:
  assumes env: "factions_ok env" and inv: "rep_inv env m" and fe: "FactionStore env i = Some fe"
    and pos: "reputationListID fe \<ge> 0" and none: "om_get (rm_factions m) (list_id fe) = None"
  shows "rep_inv env (init_faction env fe m)"
    and "rm_factions (init_faction env fe m) = om_put (list_id fe) (new_state env fe) (rm_factions m)"
proof -
  have id: "fe_ID fe = i"
    using env fe unfolding factions_ok_def by blast
  have l: "listed env (list_id fe) (new_state env fe)"
    using fe pos by (simp add: listed_def new_state_def id)
  have rank: "state_rank env (new_state env fe) = GetBaseRank env fe"
    by (simp add: state_rank_def new_state_def id fe GetBaseRank_def base_range [OF env fe])
  show "rep_inv env (init_faction env fe m)"
    by (rule rep_inv_new [OF inv none l])
      (simp_all add: pos init_faction_def new_state_def put_state_def UpdateRankCounters_def Let_def is_visible_def
         rank [unfolded new_state_def])
  show "rm_factions (init_faction env fe m) = om_put (list_id fe) (new_state env fe) (rm_factions m)"
    using pos by (simp add: init_faction_def put_state_def UpdateRankCounters_def new_state_def Let_def)
qed

lemma unat_split: "unat (j :: uint32) < Suc (unat i) \<longleftrightarrow> unat j < unat i \<or> j = i"
  by (auto simp: less_Suc_eq word_unat_eq_iff)

lemma init_invD:
  assumes "init_inv env j m"
  shows "rep_inv env m"
    and "om_get (rm_factions m) k = Some s \<Longrightarrow> fs_needSave s"
    and "FactionStore env i = Some fe \<Longrightarrow> reputationListID fe \<ge> 0 \<Longrightarrow> unat i < j \<Longrightarrow> fresh env fe m"
    and "FactionStore env i = Some fe \<Longrightarrow> reputationListID fe \<ge> 0 \<Longrightarrow> \<not> unat i < j \<Longrightarrow> om_get (rm_factions m) (list_id fe) = None"
  using assms unfolding init_inv_def by (blast, blast, metis, metis)

lemma init_faction_skip:
  assumes inv: "init_inv env (unat i) m" and none: "\<And>fe. FactionStore env i = Some fe \<Longrightarrow> reputationListID fe < 0"
  shows "init_inv env (Suc (unat i)) m"
  unfolding init_inv_def
proof (intro conjI allI impI)
  show "rep_inv env m"
    using inv unfolding init_inv_def by blast
  fix k s assume "om_get (rm_factions m) k = Some s"
  then show "fs_needSave s"
    using inv unfolding init_inv_def by blast
next
  fix j fe assume j: "FactionStore env j = Some fe \<and> reputationListID fe \<ge> 0"
  then have "j \<noteq> i" using none by auto
  then show "if unat j < Suc (unat i) then fresh env fe m else om_get (rm_factions m) (list_id fe) = None"
    using init_invD(3,4) [OF inv, of j fe] j unfolding unat_split by simp
qed

lemma init_faction_inv:
  assumes env: "factions_ok env" and inv: "init_inv env (unat i) m" and fe: "FactionStore env i = Some fe"
  shows "init_inv env (Suc (unat i)) (init_faction env fe m)"
proof (cases "reputationListID fe \<ge> 0")
  case False
  then show ?thesis
    using init_faction_skip [OF inv] fe by (simp add: init_faction_def)
next
  case True
  have rep: "rep_inv env m" and none: "om_get (rm_factions m) (list_id fe) = None"
    using inv fe True unfolding init_inv_def by auto
  note form = init_faction_form [OF env rep fe True none]
  show ?thesis
    unfolding init_inv_def
  proof (intro conjI allI impI)
    show "rep_inv env (init_faction env fe m)" by (rule form(1))
    fix k s assume "om_get (rm_factions (init_faction env fe m)) k = Some s"
    then show "fs_needSave s"
      using inv unfolding init_inv_def by (auto simp: form(2) om_get_put new_state_def split: if_splits)
  next
    fix j g assume j: "FactionStore env j = Some g \<and> reputationListID g \<ge> 0"
    have same: "list_id g = list_id fe \<longleftrightarrow> j = i"
      using list_id_eq [OF env fe _ True] j fe env unfolding factions_ok_def by (metis option.inject)
    then show "if unat j < Suc (unat i) then fresh env g (init_faction env fe m)
        else om_get (rm_factions (init_faction env fe m)) (list_id g) = None"
      using init_invD(3,4) [OF inv, of j g] j unfolding unat_split fresh_def
      by (cases "j = i") (auto simp: form(2) om_get_put new_state_def)
  qed
qed

lemma init_step:
  assumes "factions_ok env" "init_inv env (unat i) m"
  shows "init_inv env (Suc (unat i)) (case FactionStore env i of None \<Rightarrow> m | Some fe \<Rightarrow> init_faction env fe m)"
  using init_faction_inv [OF assms] init_faction_skip [OF assms(2)] by (cases "FactionStore env i") simp_all

lemma Initialize_inv:
  assumes env: "factions_ok env"
  shows "init_inv env (FactionRows env) (Initialize env m)"
proof -
  let ?m = "m\<lparr>rm_factions := [], rm_visible := 0, rm_honored := 0, rm_revered := 0, rm_exalted := 0,
    rm_sendFactionIncreased := False\<rparr>"
  let ?step = "\<lambda>i m. case FactionStore env (of_nat i) of None \<Rightarrow> m | Some fe \<Rightarrow> init_faction env fe m"
  have rows: "FactionRows env \<le> 65536" and pos: "\<And>i fe. FactionStore env i = Some fe \<Longrightarrow> 0 < i \<and> unat i < FactionRows env"
    using env unfolding factions_ok_def by blast+
  have start: "init_inv env 1 ?m"
    unfolding init_inv_def rep_inv_def counts_ok_def
    by (auto simp: word_less_nat_alt dest!: pos)
  have "init_inv env n (fold ?step [1..<n] ?m)" if "1 \<le> n" "n \<le> FactionRows env" for n
    using that
  proof (induction n rule: dec_induct)
    case base
    then show ?case using start by simp
  next
    case (step n)
    have u: "unat (of_nat n :: uint32) = n"
      using step rows by (simp add: unat_of_nat)
    have "init_inv env n (fold ?step [1..<n] ?m)"
      using step by simp
    then have "init_inv env (Suc n) (?step n (fold ?step [1..<n] ?m))"
      using init_step [OF env, of "of_nat n" "fold ?step [1..<n] ?m"] unfolding u by blast
    then show ?case
      by (simp only: upt_Suc_append [OF step(1)] fold_append fold_simps o_apply id_apply)
  qed
  moreover have "init_inv env (FactionRows env) (Initialize env m)" if "FactionRows env = 0"
  proof -
    have "FactionStore env i = None" for i
      using pos that by (cases "FactionStore env i") auto
    then show ?thesis
      using start that unfolding init_inv_def Initialize_def by simp
  qed
  ultimately show ?thesis
    unfolding Initialize_def by (cases "FactionRows env = 0") simp_all
qed

lemma updated_get: "updated env k old s m m' \<Longrightarrow> om_get (rm_factions m') k = Some s"
  by (simp add: updated_def om_get_put)

lemma updated_mod:
  assumes "updated env k old s m m'" "fs_ID (f s) = fs_ID s" "fs_ReputationListID (f s) = fs_ReputationListID s"
    and "fs_Standing (f s) = fs_Standing s" "is_visible (f s) = is_visible s"
  shows "updated env k old (f s) m (mod_state f k m')"
  using assms unfolding mod_state_form [OF updated_get [OF assms(1)]]
  by (simp add: updated_def put_state_def state_rank_def)

lemma updated_show:
  assumes "updated env k old s m m'" "om_ok (rm_factions m)"
  shows "updated env k old (show_state s) m (fst (SetVisibleState env' k s m'))"
proof -
  have "om_ok (rm_factions m')"
    using assms by (simp add: updated_def om_ok_put)
  from SetVisibleState_form [OF this updated_get [OF assms(1)], of env'] show ?thesis
    using assms(1) by (simp add: updated_def put_state_def)
qed

lemma needSave_states:
  "fs_needSave s \<Longrightarrow> fs_needSave (show_state s)" "fs_needSave s \<Longrightarrow> fs_needSave (war_state b s)"
  "fs_needSave s \<Longrightarrow> fs_needSave (inactive_state b s)"
  by (simp_all add: show_state_def war_state_def inactive_state_def)

lemma updated_state_at: "updated env k old s m m' \<Longrightarrow> state_at k m' = s"
  by (simp add: state_at_def updated_get)

text \<open>A property that the steps of a row keep holds of the state it leaves.\<close>

definition loading :: "RepEnv \<Rightarrow> uint32 \<Rightarrow> FactionState \<Rightarrow> int \<Rightarrow> ReputationMgr \<Rightarrow> ReputationMgr \<Rightarrow> bool" where
  "loading env k old st m m' \<longleftrightarrow> (\<exists>s. updated env k old s m m' \<and> fs_Standing s = st \<and> fs_needSave s)"

lemma loading_flags:
  assumes "loading env k old st m m'"
  shows "loading env k old st m (mod_state (war_state b) k m')" "loading env k old st m (mod_state (inactive_state b) k m')"
  using assms unfolding loading_def
  by (metis kept_simps keeps_states keepsD(3) needSave_states updated_mod)+

lemma load_row_form:
  assumes env: "factions_ok env" and inv: "rep_inv env m" and fe: "FactionStore env (ucast f) = Some fe"
    and s: "om_get (rm_factions m) (list_id fe) = Some s" "fs_Standing s = 0" "fs_needSave s"
  shows "\<exists>s'. updated env (list_id fe) s s' m (load_row env (f, st, fl) m) \<and> fs_Standing s' = st \<and>
    (fs_needSave s' \<or> ucast (fs_Flags s') = fl)"
proof -
  let ?k = "list_id fe" and ?s = "s\<lparr>fs_Standing := st\<rparr>" and ?base = "GetBaseReputation env fe"
  have id: "FactionStore env (fs_ID s) = Some fe" "reputationListID fe \<ge> 0"
    using listed_entry [OF env rep_invD(2) [OF inv s(1)] fe] by auto
  define m1 where "m1 = UpdateRankCounters (ReputationToRank ?base) (ReputationToRank (wrap32 (?base + st))) (put_state ?k ?s m)"
  have u1: "updated env ?k s ?s m m1"
    by (simp add: m1_def updated_def UpdateRankCounters_def put_state_def is_visible_def state_rank_def id(1) s(2)
        base_range [OF env fe] add.commute [of st])
  define m2 where "m2 = (if has_flag fl 0x01 then fst (SetVisibleState env ?k ?s m1) else m1)"
  have l2: "loading env ?k s st m m2"
  proof -
    have "updated env ?k s (show_state ?s) m (fst (SetVisibleState env ?k ?s m1))"
      by (rule updated_show [OF u1 rep_invD(1) [OF inv]])
    then show ?thesis
      unfolding loading_def m2_def using u1 s(3) needSave_states(1) [of ?s] by (cases "has_flag fl 0x01") fastforce+
  qed
  define m3 where "m3 = (if has_flag fl 0x20 then mod_state (inactive_state True) ?k m2 else m2)"
  have l3: "loading env ?k s st m m3"
    unfolding m3_def using l2 by (simp add: loading_flags)
  define m4 where "m4 = (if has_flag fl 0x02 then mod_state (war_state True) ?k m3
    else if has_flag (fs_Flags (state_at ?k m3)) FACTION_FLAG_VISIBLE then mod_state (war_state False) ?k m3 else m3)"
  have l4: "loading env ?k s st m m4"
    unfolding m4_def using l3 by (simp add: loading_flags)
  define m5 where "m5 = (if GetRank env m4 (Some fe) \<le> REP_HOSTILE then mod_state (war_state True) ?k m4 else m4)"
  have l5: "loading env ?k s st m m5"
    unfolding m5_def using l4 by (simp add: loading_flags)
  then obtain s5 where s5: "updated env ?k s s5 m m5" "fs_Standing s5 = st" "fs_needSave s5"
    unfolding loading_def by blast
  have at: "state_at ?k m = s" by (simp add: state_at_def s(1))
  have "load_row env (f, st, fl) m = (if ucast (fs_Flags (state_at ?k m5)) = fl
      then mod_state (\<lambda>s. s\<lparr>fs_needSend := False, fs_needSave := False\<rparr>) ?k m5 else m5)"
    unfolding load_row_def prod.case fe option.case Let_def at m5_def m4_def m3_def m2_def m1_def using id(2) by simp
  moreover have "updated env ?k s (s5\<lparr>fs_needSend := False, fs_needSave := False\<rparr>) m
      (mod_state (\<lambda>s. s\<lparr>fs_needSend := False, fs_needSave := False\<rparr>) ?k m5)"
    using updated_mod [OF s5(1), of "\<lambda>s. s\<lparr>fs_needSend := False, fs_needSave := False\<rparr>"] by (simp add: is_visible_def)
  ultimately show ?thesis
    using s5 updated_state_at [OF s5(1)] by (cases "ucast (fs_Flags s5) = fl") fastforce+
qed

text \<open>Rows of factions that are still as \<open>Initialize\<close> left them.\<close>

definition unread :: "RepEnv \<Rightarrow> uint16 \<Rightarrow> ReputationMgr \<Rightarrow> bool" where
  "unread env f m \<longleftrightarrow> (\<forall>fe. FactionStore env (ucast f) = Some fe \<and> reputationListID fe \<ge> 0 \<longrightarrow> fresh env fe m)"

definition has_standing :: "RepEnv \<Rightarrow> uint16 \<Rightarrow> int \<Rightarrow> ReputationMgr \<Rightarrow> bool" where
  "has_standing env f st m \<longleftrightarrow> (\<forall>fe. FactionStore env (ucast f) = Some fe \<and> reputationListID fe \<ge> 0 \<longrightarrow>
     map_option fs_Standing (om_get (rm_factions m) (list_id fe)) = Some st)"

definition all_listed :: "RepEnv \<Rightarrow> ReputationMgr \<Rightarrow> bool" where
  "all_listed env m \<longleftrightarrow> (\<forall>i fe. FactionStore env i = Some fe \<and> reputationListID fe \<ge> 0 \<longrightarrow> list_id fe \<in> set (om_keys (rm_factions m)))"

lemma ucast_id: "ucast (ucast (f :: uint16) :: uint32) = f"
  by (rule bit_word_eqI) (simp add: bit_simps)

lemma ucast_small: "unat (i :: uint32) < 65536 \<Longrightarrow> ucast (ucast i :: uint16) = i"
  by (simp add: word_unat_eq_iff unsigned_ucast_eq unsigned_take_bit_eq take_bit_eq_mod unat_mod_distrib)

lemma list_id_other:
  assumes "factions_ok env" "FactionStore env (ucast (f :: uint16)) = Some fe" "FactionStore env (ucast g) = Some fe'"
    and "reputationListID fe \<ge> 0" "f \<noteq> g"
  shows "list_id fe' \<noteq> list_id fe"
proof
  assume "list_id fe' = list_id fe"
  then have "fe' = fe" using list_id_eq [OF assms(1-4)] by blast
  then have "(ucast f :: uint32) = ucast g"
    using assms(1-3) unfolding factions_ok_def by metis
  then show False
    using assms(5) ucast_id by metis
qed

text \<open>What one row changes.\<close>

definition row_read :: "RepEnv \<Rightarrow> rep_table \<Rightarrow> uint16 \<Rightarrow> int \<Rightarrow> ReputationMgr \<Rightarrow> ReputationMgr \<Rightarrow> bool" where
  "row_read env db f st m m' \<longleftrightarrow>
     rep_inv env m' \<and> saved_ok db m' \<and> has_standing env f st m' \<and>
     (\<forall>g. g \<noteq> f \<and> unread env g m \<longrightarrow> unread env g m') \<and>
     (\<forall>g st'. g \<noteq> f \<and> has_standing env g st' m \<longrightarrow> has_standing env g st' m') \<and>
     (all_listed env m \<longrightarrow> all_listed env m')"

lemma load_row_effect:
  assumes env: "factions_ok env" and inv: "rep_inv env m" and un: "unread env f m" and db: "saved_ok db m" "db f = Some (st, fl)"
  shows "row_read env db f st m (load_row env (f, st, fl) m)"
proof (cases "\<exists>fe. FactionStore env (ucast f) = Some fe \<and> reputationListID fe \<ge> 0")
  case False
  then have "load_row env (f, st, fl) m = m"
    by (auto simp: load_row_def split: option.split)
  moreover have "has_standing env f st m"
    using False unfolding has_standing_def by blast
  ultimately show ?thesis
    using inv db unfolding row_read_def by simp
next
  case True
  then obtain fe where fe: "FactionStore env (ucast f) = Some fe" "reputationListID fe \<ge> 0" by blast
  then obtain s where s: "om_get (rm_factions m) (list_id fe) = Some s" "fs_Standing s = 0" "fs_needSave s"
    using un unfolding unread_def fresh_def by blast
  let ?m = "load_row env (f, st, fl) m"
  obtain s' where s': "updated env (list_id fe) s s' m ?m" "fs_Standing s' = st" "fs_needSave s' \<or> ucast (fs_Flags s') = fl"
    using load_row_form [OF env inv fe(1) s] by blast
  have F: "rm_factions ?m = om_put (list_id fe) s' (rm_factions m)" and id': "fs_ID s' = fs_ID s"
    using s'(1) unfolding updated_def by blast+
  have "fs_ID s = fe_ID fe" "fe_ID fe = ucast f"
    using listed_entry(2) [OF env rep_invD(2) [OF inv s(1)] fe(1)] env fe(1) unfolding factions_ok_def by blast+
  then have id: "ucast (fs_ID s') = f"
    by (simp add: id' ucast_id)
  have "rep_inv env ?m"
    using rep_inv_updated [OF inv s(1) s'(1)] .
  moreover have "saved_ok db ?m"
    using db s'(2,3) id unfolding saved_ok_def in_table_def F by (auto simp: om_get_put)
  moreover have "has_standing env f st ?m"
    using fe s'(2) unfolding has_standing_def F by (simp add: om_get_put)
  moreover have "unread env g ?m" if "g \<noteq> f" "unread env g m" for g
    using that list_id_other [OF env fe(1) _ fe(2)] unfolding unread_def fresh_def F by (auto simp: om_get_put)
  moreover have "has_standing env g st' ?m" if "g \<noteq> f" "has_standing env g st' m" for g st'
    using that list_id_other [OF env fe(1) _ fe(2)] unfolding has_standing_def F by (auto simp: om_get_put)
  moreover have "all_listed env ?m" if "all_listed env m"
    using that unfolding all_listed_def F by auto
  ultimately show ?thesis
    unfolding row_read_def by blast
qed

lemma load_rows:
  assumes env: "factions_ok env"
  shows "rep_inv env m \<Longrightarrow> saved_ok db m \<Longrightarrow> all_listed env m \<Longrightarrow> distinct (map fst rows) \<Longrightarrow>
    (\<And>f st fl. (f, st, fl) \<in> set rows \<Longrightarrow> db f = Some (st, fl) \<and> unread env f m) \<Longrightarrow>
    (let m' = fold (load_row env) rows m in
     rep_inv env m' \<and> saved_ok db m' \<and> all_listed env m' \<and>
     (\<forall>f st fl. (f, st, fl) \<in> set rows \<longrightarrow> has_standing env f st m') \<and>
     (\<forall>g st. g \<notin> fst ` set rows \<and> has_standing env g st m \<longrightarrow> has_standing env g st m'))"
proof (induction rows arbitrary: m)
  case Nil
  then show ?case by simp
next
  case (Cons r rows)
  obtain f st fl where r: "r = (f, st, fl)" by (cases r)
  let ?m = "load_row env (f, st, fl) m"
  have e: "row_read env db f st m ?m"
    using load_row_effect [OF env Cons.prems(1) _ Cons.prems(2)] Cons.prems(5) [of f st fl] by (simp add: r)
  have other: "g \<noteq> f" if "(g, st', fl') \<in> set rows" for g st' fl'
    using Cons.prems(4) that by (force simp: r)
  have "let m' = fold (load_row env) rows ?m in
     rep_inv env m' \<and> saved_ok db m' \<and> all_listed env m' \<and>
     (\<forall>f st fl. (f, st, fl) \<in> set rows \<longrightarrow> has_standing env f st m') \<and>
     (\<forall>g st. g \<notin> fst ` set rows \<and> has_standing env g st ?m \<longrightarrow> has_standing env g st m')"
  proof (rule Cons.IH)
    show "rep_inv env ?m" "saved_ok db ?m" "all_listed env ?m"
      using e Cons.prems(3) unfolding row_read_def by blast+
    show "distinct (map fst rows)"
      using Cons.prems(4) by simp
    show "db g = Some (st', fl') \<and> unread env g ?m" if "(g, st', fl') \<in> set rows" for g st' fl'
      using e Cons.prems(5) [of g st' fl'] other [OF that] that unfolding row_read_def by simp
  qed
  moreover have "has_standing env f st ?m" "f \<notin> fst ` set rows"
    using e Cons.prems(4) unfolding row_read_def by (simp_all add: r)
  moreover have "\<And>g st'. g \<noteq> f \<Longrightarrow> has_standing env g st' m \<Longrightarrow> has_standing env g st' ?m"
    using e unfolding row_read_def by blast
  ultimately show ?case
    unfolding Let_def by (auto simp: r)
qed

lemma LoadFromDB_inv:
  assumes env: "factions_ok env" and rows: "distinct (map fst rows)"
  shows "rep_inv env (LoadFromDB env rows m)" "saved_ok (map_of rows) (LoadFromDB env rows m)" "all_listed env (LoadFromDB env rows m)"
    and "map_of rows f = Some (st, fl) \<Longrightarrow> has_standing env f st (LoadFromDB env rows m)"
proof -
  let ?m = "Initialize env m"
  have init: "init_inv env (FactionRows env) ?m"
    by (rule Initialize_inv [OF env])
  have fresh: "fresh env fe ?m" if "FactionStore env i = Some fe" "reputationListID fe \<ge> 0" for i fe
    using init_invD(3) [OF init that] env that unfolding factions_ok_def by blast
  have un: "unread env f ?m" for f
    using fresh unfolding unread_def by blast
  have saved: "saved_ok (map_of rows) ?m"
    using init_invD(2) [OF init] unfolding saved_ok_def by blast
  have listed: "all_listed env ?m"
    using fresh unfolding all_listed_def fresh_def by (metis om_get_dom option.distinct(1))
  have db: "map_of rows f = Some (st, fl) \<and> unread env f ?m" if "(f, st, fl) \<in> set rows" for f st fl
    using that rows un by (simp add: map_of_is_SomeI)
  note all = load_rows [OF env init_invD(1) [OF init] saved listed rows db, unfolded Let_def]
  show "rep_inv env (LoadFromDB env rows m)" "saved_ok (map_of rows) (LoadFromDB env rows m)" "all_listed env (LoadFromDB env rows m)"
    using all unfolding LoadFromDB_def by blast+
  show "has_standing env f st (LoadFromDB env rows m)" if "map_of rows f = Some (st, fl)"
    using all map_of_SomeD [OF that] unfolding LoadFromDB_def by blast
qed

section \<open>Saving\<close>

text \<open>The statements on the player's rows of \<open>character_reputation\<close>.\<close>

fun run_statement :: "rep_effect \<Rightarrow> rep_table \<Rightarrow> rep_table" where
  "run_statement (CHAR_DEL_CHAR_REPUTATION_BY_FACTION g f) db = db(f := None)"
| "run_statement (CHAR_INS_CHAR_REPUTATION_BY_FACTION g f st fl) db = db(f \<mapsto> (st, fl))"
| "run_statement e db = db"

definition save_statements :: "RepEnv \<Rightarrow> FactionState \<Rightarrow> rep_effect list" where
  "save_statements env s = (if fs_needSave s
     then [CHAR_DEL_CHAR_REPUTATION_BY_FACTION (re_guidLow env) (ucast (fs_ID s)),
           CHAR_INS_CHAR_REPUTATION_BY_FACTION (re_guidLow env) (ucast (fs_ID s)) (fs_Standing s) (ucast (fs_Flags s))]
     else [])"

lemma run_save:
  "fold run_statement (save_statements env s) db =
     (if fs_needSave s then db(ucast (fs_ID s) \<mapsto> (fs_Standing s, ucast (fs_Flags s))) else db)"
  by (simp add: save_statements_def)

lemma run_saves:
  "distinct (map (\<lambda>s. ucast (fs_ID s) :: uint16) ss) \<Longrightarrow> (\<And>s. s \<in> set ss \<Longrightarrow> \<not> fs_needSave s \<Longrightarrow> in_table db s) \<Longrightarrow>
   (\<forall>s \<in> set ss. in_table (fold run_statement (concat (map (save_statements env) ss)) db) s) \<and>
   (\<forall>f. f \<notin> set (map (\<lambda>s. ucast (fs_ID s)) ss) \<longrightarrow> fold run_statement (concat (map (save_statements env) ss)) db f = db f)"
proof (induction ss arbitrary: db)
  case (Cons s ss)
  let ?db = "fold run_statement (save_statements env s) db"
  have "in_table ?db s"
    using Cons.prems(2) by (auto simp: run_save in_table_def)
  moreover have "in_table ?db t" if "t \<in> set ss" "\<not> fs_needSave t" for t
  proof -
    have "ucast (fs_ID t) \<noteq> (ucast (fs_ID s) :: uint16)"
      using Cons.prems(1) that(1) by (auto simp: image_iff)
    then show ?thesis
      using Cons.prems(2) [of t] that by (simp add: run_save in_table_def)
  qed
  moreover have "?db f = db f" if "f \<noteq> ucast (fs_ID s)" for f
    using that by (simp add: run_save)
  moreover have "distinct (map (\<lambda>s. ucast (fs_ID s) :: uint16) ss)" "ucast (fs_ID s) \<notin> set (map (\<lambda>s. ucast (fs_ID s) :: uint16) ss)"
    using Cons.prems(1) by simp_all
  ultimately show ?case
    using Cons.IH [of ?db] by (auto simp: in_table_def)
qed simp

lemma SaveToDB_statements: "snd (SaveToDB env m) = concat (map (save_statements env) (map snd (rm_factions m)))"
  by (auto simp: SaveToDB_def save_statements_def o_def case_prod_beta intro!: arg_cong [of _ _ concat])

lemma faction_ids_distinct:
  assumes env: "factions_ok env" and inv: "rep_inv env m"
  shows "distinct (map (\<lambda>s. ucast (fs_ID s) :: uint16) (map snd (rm_factions m)))"
proof -
  have ok: "om_ok (rm_factions m)" by (rule rep_invD(1) [OF inv])
  have keys: "distinct (map fst (rm_factions m))"
    using ok strict_sorted_iff [of "om_keys (rm_factions m)"] by (simp add: om_ok_def om_keys_def)
  have "p = q" if p: "p \<in> set (rm_factions m)" and q: "q \<in> set (rm_factions m)"
    and eq: "(ucast (fs_ID (snd p)) :: uint16) = ucast (fs_ID (snd q))" for p q
  proof -
    have "listed env (fst p) (snd p)" "listed env (fst q) (snd q)"
      using rep_invD(2) [OF inv] om_in_set_get [OF ok] p q by (metis prod.collapse)+
    then obtain fe fe' where fe: "FactionStore env (fs_ID (snd p)) = Some fe" "list_id fe = fst p"
      and fe': "FactionStore env (fs_ID (snd q)) = Some fe'" "list_id fe' = fst q"
      unfolding listed_def by blast
    have small: "unat (fs_ID (snd p)) < 65536" "unat (fs_ID (snd q)) < 65536"
      using env fe(1) fe'(1) unfolding factions_ok_def by (meson less_le_trans)+
    have "fs_ID (snd p) = fs_ID (snd q)"
      using eq ucast_small small by metis
    then have "fst p = fst q"
      using fe fe' by simp
    then show ?thesis
      using keys p q by (metis eq_key_imp_eq_value prod.collapse)
  qed
  then show ?thesis
    using keys unfolding distinct_map by (auto simp: inj_on_def)
qed

lemma counts_unsave:
  "om_count is_visible (map (\<lambda>(k, t). (k, t\<lparr>fs_needSave := False\<rparr>)) F) = om_count is_visible F"
  "om_count (\<lambda>s. r \<le> state_rank env s) (map (\<lambda>(k, t). (k, t\<lparr>fs_needSave := False\<rparr>)) F) = om_count (\<lambda>s. r \<le> state_rank env s) F"
  by (rule om_count_map; simp add: is_visible_def state_rank_def)+

lemma SaveToDB_inv:
  assumes env: "factions_ok env" and inv: "rep_inv env m" and db: "saved_ok db m"
  shows "rep_inv env (fst (SaveToDB env m))"
    and "saved_ok (fold run_statement (snd (SaveToDB env m)) db) (fst (SaveToDB env m))"
    and "om_get (rm_factions m) k = Some s \<Longrightarrow> in_table (fold run_statement (snd (SaveToDB env m)) db) s"
proof -
  have F: "rm_factions (fst (SaveToDB env m)) = map (\<lambda>(k, s). (k, s\<lparr>fs_needSave := False\<rparr>)) (rm_factions m)"
    by (simp add: SaveToDB_def)
  have "listed env k t" if "om_get (rm_factions (fst (SaveToDB env m))) k = Some t" for k t
    using that rep_invD(2) [OF inv] unfolding F by (auto simp: om_get_map listed_def)
  then show "rep_inv env (fst (SaveToDB env m))"
    using inv unfolding rep_inv_def counts_ok_def F by (simp add: counts_unsave) (simp add: SaveToDB_def)
  have unmarked: "in_table db s" if "s \<in> set (map snd (rm_factions m))" "\<not> fs_needSave s" for s
  proof -
    from that(1) obtain k where "(k, s) \<in> set (rm_factions m)" by auto
    then show ?thesis
      using saved_okD [OF db] om_in_set_get [OF rep_invD(1) [OF inv]] that(2) by blast
  qed
  have row: "in_table (fold run_statement (snd (SaveToDB env m)) db) s" if "om_get (rm_factions m) k = Some s" for k s
    using run_saves [OF faction_ids_distinct [OF env inv] unmarked, of env] om_get_in_set [OF that]
    unfolding SaveToDB_statements by force
  then show "in_table (fold run_statement (snd (SaveToDB env m)) db) s" if "om_get (rm_factions m) k = Some s"
    using that .
  show "saved_ok (fold run_statement (snd (SaveToDB env m)) db) (fst (SaveToDB env m))"
    using row unfolding saved_ok_def F by (auto simp: om_get_map in_table_def)
qed

section \<open>The manager as a state machine\<close>

datatype rep_op =
    OpSetReputation uint32 int bool
  | OpSetOneFactionReputation uint32 int bool
  | OpSetVisibleTemplate uint32
  | OpSetVisible uint32
  | OpSetAtWar uint32 bool
  | OpSetInactive uint32 bool
  | OpApplyForceReaction uint32 ReputationRank bool
  | OpSendInitialReputations
  | OpSendStates
  | OpSaveToDB
  | OpLoadFromDB "(uint16 \<times> int \<times> uint16) list"

text \<open>The functions that take a \<open>FactionEntry\<close> are called with entries of the store.\<close>

definition with_entry :: "RepEnv \<Rightarrow> uint32 \<Rightarrow> (FactionEntry \<Rightarrow> ReputationMgr \<Rightarrow> ReputationMgr) \<Rightarrow> ReputationMgr \<Rightarrow> ReputationMgr" where
  "with_entry env i f m = (case FactionStore env i of None \<Rightarrow> m | Some fe \<Rightarrow> f fe m)"

text \<open>A failed assertion in \<open>SendInitialReputations\<close>, and in the spill-over loop a faction that is not in the store,
  end the server in the code.  The steps go on with the state reached so far, so that the runs of the model
  include those of the code.\<close>

fun rep_step :: "RepEnv \<Rightarrow> rep_op \<Rightarrow> ReputationMgr \<times> rep_table \<Rightarrow> ReputationMgr \<times> rep_table" where
  "rep_step env (OpSetReputation i st inc) (m, db) = (with_entry env i (\<lambda>fe m. fst (snd (SetReputation env fe st inc m))) m, db)"
| "rep_step env (OpSetOneFactionReputation i st inc) (m, db) =
     (with_entry env i (\<lambda>fe m. fst (snd (SetOneFactionReputation env fe st inc m))) m, db)"
| "rep_step env (OpSetVisibleTemplate f) (m, db) = (fst (SetVisibleTemplate env f m), db)"
| "rep_step env (OpSetVisible i) (m, db) = (with_entry env i (\<lambda>fe m. fst (SetVisibleFaction env fe m)) m, db)"
| "rep_step env (OpSetAtWar k on) (m, db) = (SetAtWar k on m, db)"
| "rep_step env (OpSetInactive k on) (m, db) = (SetInactive k on m, db)"
| "rep_step env (OpApplyForceReaction f r on) (m, db) = (ApplyForceReaction f r on m, db)"
| "rep_step env OpSendInitialReputations (m, db) =
     (case SendInitialReputations m of None \<Rightarrow> (m, db) | Some (m', e) \<Rightarrow> (m', db))"
| "rep_step env OpSendStates (m, db) = (fst (SendStates m), db)"
| "rep_step env OpSaveToDB (m, db) = (fst (SaveToDB env m), fold run_statement (snd (SaveToDB env m)) db)"
| "rep_step env (OpLoadFromDB rows) (m, db) = (LoadFromDB env rows m, db)"

text \<open>Loading reads the player's rows, one for each faction.\<close>

fun rep_pre :: "rep_op \<Rightarrow> ReputationMgr \<times> rep_table \<Rightarrow> bool" where
  "rep_pre (OpLoadFromDB rows) (m, db) \<longleftrightarrow> distinct (map fst rows) \<and> map_of rows = db"
| "rep_pre _ _ \<longleftrightarrow> True"

fun rep_db_inv :: "RepEnv \<Rightarrow> ReputationMgr \<times> rep_table \<Rightarrow> bool" where
  "rep_db_inv env (m, db) \<longleftrightarrow> factions_ok env \<and> rep_inv env m \<and> saved_ok db m \<and> all_listed env m"

lemma touch_listed: "touch env m m' \<Longrightarrow> all_listed env m \<Longrightarrow> all_listed env m'"
  by (induction rule: touch.induct) (auto simp: all_listed_def updated_def)

lemma rep_db_inv_touches:
  assumes "touches env m m'" "rep_db_inv env (m, db)"
  shows "rep_db_inv env (m', db)"
proof -
  have "all_listed env m'"
    using assms by (induction rule: rtranclp_induct) (auto intro: touch_listed)
  then show ?thesis
    using assms touches_inv touches_saved by simp
qed

lemma rep_step_inv:
  assumes "rep_db_inv env s" "rep_pre a s"
  shows "rep_db_inv env (rep_step env a s)"
proof -
  obtain m db where s: "s = (m, db)" by (cases s)
  have inv: "rep_db_inv env (m, db)" and env: "factions_ok env" and rep: "rep_inv env m" and db: "saved_ok db m"
    and listed: "all_listed env m"
    using assms(1) by (simp_all add: s)
  have t: "rep_db_inv env (m', db)" if "touches env m m'" for m'
    by (rule rep_db_inv_touches [OF that inv])
  have w: "rep_db_inv env (with_entry env i f m, db)" if "\<And>fe. FactionStore env i = Some fe \<Longrightarrow> touches env m (f fe m)" for i f
    using that t inv unfolding with_entry_def by (cases "FactionStore env i") simp_all
  note small = touches_small_ops [OF rep]
  show ?thesis
    unfolding s
  proof (cases a)
    case (OpSendInitialReputations)
    then show "rep_db_inv env (rep_step env a (m, db))"
      using inv t touches_SendInitial by (auto split: option.split simp del: rep_db_inv.simps)
  next
    case OpSaveToDB
    have "all_listed env (fst (SaveToDB env m))"
      using listed by (simp add: all_listed_def SaveToDB_def)
    then show "rep_db_inv env (rep_step env a (m, db))"
      using SaveToDB_inv(1,2) [OF env rep db] env OpSaveToDB by simp
  next
    case (OpLoadFromDB rows)
    then show "rep_db_inv env (rep_step env a (m, db))"
      using assms(2) LoadFromDB_inv(1-3) [OF env, of rows m] env by (auto simp: s)
  next
    case OpSendStates
    then show "rep_db_inv env (rep_step env a (m, db))"
      using t [OF touches_send_states] by (simp add: SendStates_def del: rep_db_inv.simps)
  qed (simp_all add: t small w touches_SetReputation [OF env rep] touches_SetOne [OF env rep] del: rep_db_inv.simps)
qed

interpretation reputation: guarded_machine "rep_step env" rep_pre "rep_db_inv env"
  by unfold_locales (rule rep_step_inv)

section \<open>Properties of reputations\<close>

text \<open>A table of two factions for the witnesses.\<close>

definition demo_faction :: "uint32 \<Rightarrow> int \<Rightarrow> int \<Rightarrow> FactionEntry" where
  "demo_faction i k base = \<lparr>fe_ID = i, reputationListID = k, BaseRepRaceMask = [1, 0, 0, 0], BaseRepClassMask = [0, 0, 0, 0],
     BaseRepValue = [base, 0, 0, 0], ReputationFlags = [1, 0, 0, 0], fe_team = 0, spilloverRateIn = 0, spilloverRateOut = 0,
     spilloverMaxRankIn = 0\<rparr>"

definition demo_rep_env :: RepEnv where
  "demo_rep_env = \<lparr>FactionStore = (\<lambda>i. if i = 1 then Some (demo_faction 1 0 3000) else if i = 2 then Some (demo_faction 2 1 0) else None),
     FactionRows = 3, GetRepSpilloverTemplate = (\<lambda>_. None), GetFactionTeamList = (\<lambda>_. None), RATE_REPUTATION_GAIN = 1,
     OnPlayerReputationChange = (\<lambda>_ st _. st), re_raceMask = 1, re_classMask = 1, re_loading = False, re_guidLow = 7\<rparr>"

lemma demo_factions_ok: "factions_ok demo_rep_env"
  by (auto simp: factions_ok_def demo_rep_env_def demo_faction_def split: if_splits)

text \<open>(C17) The counters shown to the achievement system are exact: after loading a character and any sequence of
  reputation changes, spill-overs, visibility, war and inactivity changes, sends, saves and reloads, the numbers of
  visible, honored, revered and exalted factions are the numbers of factions with these flags and ranks, modulo the
  width of the counters.\<close>

theorem reputation_counters_exact:
  assumes "factions_ok env" "distinct (map fst rows)"
    and "guarded_machine.run (rep_step env) rep_pre (LoadFromDB env rows m, map_of rows) ops (m', db')"
  shows "rm_visible m' = of_nat (length (filter (\<lambda>(k, s). has_flag (fs_Flags s) FACTION_FLAG_VISIBLE) (rm_factions m'))) \<and>
    rm_honored m' = of_nat (length (filter (\<lambda>(k, s). REP_HONORED \<le> GetRank env m' (FactionStore env (fs_ID s))) (rm_factions m'))) \<and>
    rm_revered m' = of_nat (length (filter (\<lambda>(k, s). REP_REVERED \<le> GetRank env m' (FactionStore env (fs_ID s))) (rm_factions m'))) \<and>
    rm_exalted m' = of_nat (length (filter (\<lambda>(k, s). REP_EXALTED \<le> GetRank env m' (FactionStore env (fs_ID s))) (rm_factions m')))"
proof -
  have "rep_db_inv env (LoadFromDB env rows m, map_of rows)"
    using assms(1) LoadFromDB_inv [OF assms(1,2)] by simp
  then have inv: "rep_inv env m'"
    using reputation.run_inv [OF assms(3)] by simp
  have rank: "GetRank env m' (FactionStore env (fs_ID s)) = state_rank env s" if "(k, s) \<in> set (rm_factions m')" for k s
  proof -
    have get: "om_get (rm_factions m') k = Some s"
      by (rule om_in_set_get [OF rep_invD(1) [OF inv] that])
    then obtain fe where "FactionStore env (fs_ID s) = Some fe" "reputationListID fe \<ge> 0" "list_id fe = k"
      using rep_invD(2) [OF inv] unfolding listed_def by blast
    then show ?thesis
      using get by (simp add: GetRank_def GetReputation_def GetState_def state_rank_def add.commute)
  qed
  have filters: "filter (\<lambda>(k, s). r \<le> GetRank env m' (FactionStore env (fs_ID s))) (rm_factions m') =
      filter ((\<lambda>s. r \<le> state_rank env s) \<circ> snd) (rm_factions m')" for r
    by (rule filter_cong) (auto simp: rank)
  have vis: "filter (\<lambda>(k, s). has_flag (fs_Flags s) FACTION_FLAG_VISIBLE) (rm_factions m') = filter (is_visible \<circ> snd) (rm_factions m')"
    by (rule filter_cong) (auto simp: is_visible_def)
  show ?thesis
    using inv unfolding rep_inv_def counts_ok_def om_count_def filters vis by blast
qed

theorem reputation_counters_exact_witness:
  "\<exists>m' db'. guarded_machine.run (rep_step demo_rep_env) rep_pre
       (LoadFromDB demo_rep_env [(1, 100, 1)] ReputationMgr_new, map_of [(1, 100, 1)])
       [OpSetReputation 1 42500 False, OpSetAtWar 1 True, OpSaveToDB] (m', db') \<and>
     rm_exalted m' = of_nat (length (filter (\<lambda>(k, s). REP_EXALTED \<le> GetRank demo_rep_env m' (FactionStore demo_rep_env (fs_ID s))) (rm_factions m')))"
proof -
  let ?step = "rep_step demo_rep_env" and ?s = "(LoadFromDB demo_rep_env [(1, 100, 1)] ReputationMgr_new, map_of [(1, 100, 1)])"
  let ?t = "?step OpSaveToDB (?step (OpSetAtWar 1 True) (?step (OpSetReputation 1 42500 False) ?s))"
  have run: "guarded_machine.run ?step rep_pre ?s [OpSetReputation 1 42500 False, OpSetAtWar 1 True, OpSaveToDB] (fst ?t, snd ?t)"
    unfolding prod.collapse by (intro reputation.run_cons reputation.run_nil) simp_all
  show ?thesis
    using reputation_counters_exact [OF demo_factions_ok _ run] run by (intro exI conjI) (assumption, simp)
qed

text \<open>(C18) No reputation is lost: whatever was done since the character was loaded, after \<open>SaveToDB\<close> the database
  row of every faction has its standing and flags, and a login that reads these rows gives the character the same
  reputation with every faction.\<close>

theorem reputation_save_load:
  assumes env: "factions_ok env" and rows: "distinct (map fst rows)"
    and run: "guarded_machine.run (rep_step env) rep_pre (LoadFromDB env rows m0, map_of rows) ops (m, db)"
    and saved: "db' = fold run_statement (snd (SaveToDB env m)) db"
    and rows': "distinct (map fst rows')" "map_of rows' = db'"
  shows "(\<forall>k s. om_get (rm_factions m) k = Some s \<longrightarrow> db' (ucast (fs_ID s)) = Some (fs_Standing s, ucast (fs_Flags s))) \<and>
    (\<forall>i. GetReputationById env (LoadFromDB env rows' m1) i = GetReputationById env m i)"
proof (intro conjI allI impI)
  have "rep_db_inv env (LoadFromDB env rows m0, map_of rows)"
    using env LoadFromDB_inv [OF env rows] by simp
  then have inv: "rep_inv env m" "saved_ok db m" "all_listed env m"
    using reputation.run_inv [OF run] by simp_all
  have table: "db' (ucast (fs_ID s)) = Some (fs_Standing s, ucast (fs_Flags s))" if "om_get (rm_factions m) k = Some s" for k s
    using SaveToDB_inv(3) [OF env inv(1,2) that] unfolding in_table_def saved .
  then show "db' (ucast (fs_ID s)) = Some (fs_Standing s, ucast (fs_Flags s))" if "om_get (rm_factions m) k = Some s" for k s
    using that .
  fix i
  show "GetReputationById env (LoadFromDB env rows' m1) i = GetReputationById env m i"
  proof (cases "\<exists>fe. FactionStore env i = Some fe \<and> reputationListID fe \<ge> 0")
    case False
    then show ?thesis
      by (auto simp: GetReputationById_def GetReputation_def GetState_def split: option.split)
  next
    case True
    then obtain fe where fe: "FactionStore env i = Some fe" "reputationListID fe \<ge> 0" by blast
    then obtain s where s: "om_get (rm_factions m) (list_id fe) = Some s"
      using inv(3) unfolding all_listed_def by (metis om_get_dom option.exhaust)
    have id: "fs_ID s = i" "unat i < 65536"
      using listed_entry(2) [OF env rep_invD(2) [OF inv(1) s] fe(1)] env fe(1)
      unfolding factions_ok_def by (metis, meson less_le_trans)
    have "has_standing env (ucast i) (fs_Standing s) (LoadFromDB env rows' m1)"
      using LoadFromDB_inv(4) [OF env rows'(1)] table [OF s] rows'(2) id(1) by metis
    then show ?thesis
      using fe s ucast_small [OF id(2)]
      by (auto simp: has_standing_def GetReputationById_def GetReputation_def GetState_def)
  qed
qed

lemma demo_slot: "find (base_slot demo_rep_env (demo_faction i k b)) [0, 1, 2, 3] = Some 0"
  by (simp add: base_slot_def demo_rep_env_def demo_faction_def has_flag_def)

lemma demo_faction_simps [simp]:
  "GetBaseReputation demo_rep_env (demo_faction i k b) = b" "GetDefaultStateFlags demo_rep_env (demo_faction i k b) = 1"
  "fe_ID (demo_faction i k b) = i" "reputationListID (demo_faction i k b) = k" "list_id (demo_faction i k b) = word_of_int k"
  "fe_team (demo_faction i k b) = 0"
  unfolding GetBaseReputation_def GetDefaultStateFlags_def demo_slot by (simp_all add: demo_faction_def list_id_def)

lemma demo_env_simps [simp]:
  "FactionStore demo_rep_env i = (if i = 1 then Some (demo_faction 1 0 3000) else if i = 2 then Some (demo_faction 2 1 0) else None)"
  "FactionRows demo_rep_env = 3" "GetRepSpilloverTemplate demo_rep_env i = None" "GetFactionTeamList demo_rep_env i = None"
  "OnPlayerReputationChange demo_rep_env i st inc = st" "re_guidLow demo_rep_env = 7"
  by (simp_all add: demo_rep_env_def)

lemma demo_loaded:
  "LoadFromDB demo_rep_env [] ReputationMgr_new =
    \<lparr>rm_factions = [(0, new_state demo_rep_env (demo_faction 1 0 3000)), (1, new_state demo_rep_env (demo_faction 2 1 0))],
     rm_forcedReactions = [], rm_visible = 2, rm_honored = 0, rm_revered = 0, rm_exalted = 0, rm_sendFactionIncreased = False\<rparr>"
  by (simp add: LoadFromDB_def Initialize_def ReputationMgr_new_def upt_rec init_faction_def new_state_def Let_def
      put_state_def UpdateRankCounters_def rank_count_def GetBaseRank_def ReputationToRank_eq rank_order has_flag_def)

lemmas demo_eval = new_state_def Let_def put_state_def mod_state_def UpdateRankCounters_def rank_count_def ReputationToRank_eq
  rank_order has_flag_def SetReputation_def SetOneFactionReputation_def clamp_standing_def wrap32_def SetVisibleState_def
  can_show_def SendState_def

lemma demo_changed:
  "rm_factions (fst (rep_step demo_rep_env (OpSetReputation 1 500 False) (LoadFromDB demo_rep_env [] ReputationMgr_new, db))) =
     [(0, (new_state demo_rep_env (demo_faction 1 0 3000))\<lparr>fs_Standing := - 2500, fs_needSend := False\<rparr>),
      (1, (new_state demo_rep_env (demo_faction 2 1 0))\<lparr>fs_needSend := False\<rparr>)]"
  by (simp add: with_entry_def demo_loaded demo_eval)

theorem reputation_save_load_witness:
  "let m = fst (rep_step demo_rep_env (OpSetReputation 1 500 False) (LoadFromDB demo_rep_env [] ReputationMgr_new, Map.empty));
       rows' = [(1, - 2500, 1), (2, 0, 1)] in
   map_of rows' = fold run_statement (snd (SaveToDB demo_rep_env m)) Map.empty \<and> GetReputationById demo_rep_env m 1 = 500 \<and>
   GetReputationById demo_rep_env (LoadFromDB demo_rep_env rows' ReputationMgr_new) 1 = GetReputationById demo_rep_env m 1"
proof -
  let ?s = "(LoadFromDB demo_rep_env [] ReputationMgr_new, Map.empty)"
  let ?t = "rep_step demo_rep_env (OpSetReputation 1 500 False) ?s"
  let ?rows = "[(1, - 2500, 1), (2, 0, 1)]"
  have run: "guarded_machine.run (rep_step demo_rep_env) rep_pre (LoadFromDB demo_rep_env [] ReputationMgr_new, map_of [])
      [OpSetReputation 1 500 False] (fst ?t, Map.empty)"
    by (rule reputation.run_cons) (simp_all add: reputation.run_nil)
  have table: "map_of ?rows = fold run_statement (snd (SaveToDB demo_rep_env (fst ?t))) Map.empty"
    unfolding SaveToDB_def snd_conv demo_changed by (rule ext) (simp add: new_state_def)
  have "GetReputationById demo_rep_env (fst ?t) 1 = 500"
    using demo_changed [of Map.empty]
    by (simp add: GetReputationById_def GetReputation_def GetState_def wrap32_def del: rep_step.simps)
  then show ?thesis
    using reputation_save_load [OF demo_factions_ok _ run refl _ table, of ReputationMgr_new] table
    unfolding Let_def by (simp del: rep_step.simps)
qed

text \<open>(C20) Setting a reputation: for a faction of the list \<open>SetOneFactionReputation\<close> succeeds, the reputation becomes the
  given one, or the current one plus the gain at the server's rate, limited to -42000 to 42999.  Of the faction's
  entry only the standing, the flag word and the marks to send and to save it change; the flag word gains the
  visible flag unless the faction is hidden, and the war flag when the new rank is hostile or hated and peace is
  not forced.  The entries of the other factions and the forced reactions stay, and the announcement of an
  increase is noted exactly when the rank has risen.  (The counters of visible, honored, revered and exalted
  factions, which change too, are the subject of their own property.)  For a faction that is not on the list
  nothing happens.\<close>

theorem set_reputation_result:
  assumes "factions_ok env" "rep_inv env m" "FactionStore env i = Some fe"
    and "SetOneFactionReputation env fe standing incremental m = (ok, m', e)"
  shows "case om_get (rm_factions m) (list_id fe) of
      None \<Rightarrow> \<not> ok \<and> m' = m \<and> e = []
    | Some s \<Rightarrow>
        (let st = clamp_standing (if incremental
               then gained_standing env standing (fs_Standing s) (GetBaseReputation env fe) else standing);
             hostile = (ReputationToRank st \<le> REP_HOSTILE \<and> \<not> has_flag (fs_Flags s) FACTION_FLAG_PEACE_FORCED) in
        ok \<and>
        GetReputation env m' (Some fe) = st \<and> Reputation_Bottom \<le> st \<and> st \<le> Reputation_Cap \<and>
        rm_factions m' = om_put (list_id fe)
          (s\<lparr>fs_Standing := wrap32 (st - GetBaseReputation env fe), fs_needSend := True, fs_needSave := True,
             fs_Flags := (fs_Flags s OR (if can_show s then FACTION_FLAG_VISIBLE else 0)) OR
               (if hostile then FACTION_FLAG_AT_WAR else 0)\<rparr>) (rm_factions m) \<and>
        (hostile \<longrightarrow> IsAtWar env m' i) \<and>
        (\<forall>k. k \<noteq> list_id fe \<longrightarrow> om_get (rm_factions m') k = om_get (rm_factions m) k) \<and>
        rm_forcedReactions m' = rm_forcedReactions m \<and>
        rm_sendFactionIncreased m' = (rm_sendFactionIncreased m \<or> ReputationToRank st > GetRank env m (Some fe)))"
proof (cases "om_get (rm_factions m) (list_id fe)")
  case None
  then show ?thesis using assms(4) by (simp add: SetOne_none)
next
  case (Some s)
  let ?s = "set_state env fe standing incremental s" and ?st = "new_standing env fe standing incremental s"
  have id: "reputationListID fe \<ge> 0"
    by (rule listed_entry(3) [OF assms(1) rep_invD(2) [OF assms(2) Some] assms(3)])
  have ok: "ok" and F: "rm_factions m' = om_put (list_id fe) ?s (rm_factions m)"
    and rest: "rm_forcedReactions m' = rm_forcedReactions m"
      "rm_sendFactionIncreased m' = (rm_sendFactionIncreased m \<or>
         ReputationToRank ?st > ReputationToRank (wrap32 (fs_Standing s + GetBaseReputation env fe)))"
    using SetOne_form [OF rep_invD(1) [OF assms(2)] Some, of env standing incremental] assms(4) unfolding Let_def by auto
  have st: "GetState m' fe = Some ?s" "GetState m fe = Some s"
    using id Some by (simp_all add: GetState_def F om_get_put)
  have rep: "GetReputation env m' (Some fe) = ?st"
    by (simp add: GetReputation_def st set_state_fields new_standing_def wrap32_standing)
  have old: "GetRank env m (Some fe) = ReputationToRank (wrap32 (fs_Standing s + GetBaseReputation env fe))"
    by (simp add: GetRank_def GetReputation_def st add.commute)
  have war: "has_flag (fs_Flags ?s) FACTION_FLAG_AT_WAR"
    if "ReputationToRank ?st \<le> REP_HOSTILE" "\<not> has_flag (fs_Flags s) FACTION_FLAG_PEACE_FORCED"
    using that by (auto simp: set_state_def Let_def war_state_def show_state_def flag_disjoint)
  have s': "?s = s\<lparr>fs_Standing := wrap32 (?st - GetBaseReputation env fe), fs_needSend := True, fs_needSave := True, fs_Flags := fs_Flags ?s\<rparr>"
    by (simp add: set_state_def Let_def war_state_def show_state_def)
  show ?thesis
    using ok rep war clamp_standing_bounds assms(3) rest old s' [unfolded set_state_flags]
    by (simp add: Some Let_def IsAtWar_def st F om_get_put new_standing_def)
qed

theorem set_reputation_result_witness:
  "let m = LoadFromDB demo_rep_env [] ReputationMgr_new;
       m' = fst (snd (SetOneFactionReputation demo_rep_env (demo_faction 2 1 0) (- 50000) False m)) in
   GetReputation demo_rep_env m' (Some (demo_faction 2 1 0)) = - 42000 \<and> IsAtWar demo_rep_env m' 2"
proof -
  let ?m = "LoadFromDB demo_rep_env [] ReputationMgr_new" and ?fe = "demo_faction 2 1 0"
  obtain ok m' e where r: "SetOneFactionReputation demo_rep_env ?fe (- 50000) False ?m = (ok, m', e)"
    by (metis prod_cases3)
  have inv: "rep_inv demo_rep_env ?m"
    by (rule LoadFromDB_inv(1) [OF demo_factions_ok]) simp
  have rank: "ReputationToRank (- 42000) \<le> REP_HOSTILE"
    by (simp add: ReputationToRank_eq rank_order)
  have "GetReputation demo_rep_env m' (Some ?fe) = - 42000 \<and> IsAtWar demo_rep_env m' 2"
    using set_reputation_result [OF demo_factions_ok inv, of 2, OF _ r] rank
    by (simp add: demo_loaded new_state_def clamp_standing_def has_flag_def Let_def)
  then show ?thesis
    unfolding Let_def r by simp
qed

text \<open>The rank loop finds the rank whose interval has the standing: exalted from 42000, revered from 21000, honored
  from 9000, friendly from 3000, neutral from 0, unfriendly from -3000, hostile from -6000, hated below; and a higher
  standing never has a lower rank.\<close>

theorem reputation_ranks:
  "(ReputationToRank st = REP_EXALTED \<longleftrightarrow> 42000 \<le> st) \<and>
   (ReputationToRank st = REP_REVERED \<longleftrightarrow> 21000 \<le> st \<and> st < 42000) \<and>
   (ReputationToRank st = REP_HONORED \<longleftrightarrow> 9000 \<le> st \<and> st < 21000) \<and>
   (ReputationToRank st = REP_FRIENDLY \<longleftrightarrow> 3000 \<le> st \<and> st < 9000) \<and>
   (ReputationToRank st = REP_NEUTRAL \<longleftrightarrow> 0 \<le> st \<and> st < 3000) \<and>
   (ReputationToRank st = REP_UNFRIENDLY \<longleftrightarrow> - 3000 \<le> st \<and> st < 0) \<and>
   (ReputationToRank st = REP_HOSTILE \<longleftrightarrow> - 6000 \<le> st \<and> st < - 3000) \<and>
   (ReputationToRank st = REP_HATED \<longleftrightarrow> st < - 6000) \<and>
   ReputationToRank (min st st') \<le> ReputationToRank (max st st')"
  using ReputationToRank_mono [of "min st st'" "max st st'"] by (simp add: ReputationToRank_eq [of st])

end
