(* ===== verification/LinkedList.thy ===== *)
theory LinkedList
  imports Prelude "HOL-Library.Monad_Syntax"
begin

text \<open>
  The intrusive doubly linked lists behind groups, threat lists and map objects (\<open>Dynamic/LinkedList.h\<close>,
  \<open>LinkedReference/Reference.h\<close>, \<open>RefManager.h\<close>, \<open>GroupReference.cpp\<close>).  Elements live in a store from addresses to
  nodes; a null or dangling pointer has no node, so reading through it has no result (\<open>None\<close>).  The list head
  owns two sentinel elements.  The main result is a simulation: every sequence of operations that makes
  sense on an abstract list runs without bad access on the pointers and gives the same answers.
\<close>

section \<open>Elements\<close>

record LinkedListElement =
  iNext :: nat
  iPrev :: nat

type_synonym heap = "nat \<rightharpoonup> LinkedListElement"

abbreviation NULL :: nat where "NULL \<equiv> 0"

definition LinkedListElement_new :: LinkedListElement where
  "LinkedListElement_new = \<lparr>iNext = NULL, iPrev = NULL\<rparr>"

definition get_next :: "heap \<Rightarrow> nat \<Rightarrow> nat option" where
  "get_next h p = map_option iNext (h p)"

definition get_prev :: "heap \<Rightarrow> nat \<Rightarrow> nat option" where
  "get_prev h p = map_option iPrev (h p)"

definition set_next :: "nat \<Rightarrow> nat \<Rightarrow> heap \<Rightarrow> heap option" where
  "set_next p q h = map_option (\<lambda>n. h(p \<mapsto> n\<lparr>iNext := q\<rparr>)) (h p)"

definition set_prev :: "nat \<Rightarrow> nat \<Rightarrow> heap \<Rightarrow> heap option" where
  "set_prev p q h = map_option (\<lambda>n. h(p \<mapsto> n\<lparr>iPrev := q\<rparr>)) (h p)"

definition hasNext :: "heap \<Rightarrow> nat \<Rightarrow> bool option" where
  "hasNext h this =
     do { n \<leftarrow> get_next h this;
          if n = NULL then Some False else do { m \<leftarrow> get_next h n; Some (m \<noteq> NULL) } }"

definition hasPrev :: "heap \<Rightarrow> nat \<Rightarrow> bool option" where
  "hasPrev h this =
     do { p \<leftarrow> get_prev h this;
          if p = NULL then Some False else do { q \<leftarrow> get_prev h p; Some (q \<noteq> NULL) } }"

definition isInList :: "heap \<Rightarrow> nat \<Rightarrow> bool option" where
  "isInList h this = do { n \<leftarrow> get_next h this; p \<leftarrow> get_prev h this; Some (n \<noteq> NULL \<and> p \<noteq> NULL) }"

definition next_element :: "heap \<Rightarrow> nat \<Rightarrow> nat option" where
  "next_element h this = do { b \<leftarrow> hasNext h this; if b then get_next h this else Some NULL }"

definition prev_element :: "heap \<Rightarrow> nat \<Rightarrow> nat option" where
  "prev_element h this = do { b \<leftarrow> hasPrev h this; if b then get_prev h this else Some NULL }"

text \<open>The assignments in the order of the code; every pointer is read when it is used.\<close>

definition delink :: "nat \<Rightarrow> heap \<Rightarrow> heap option" where
  "delink this h =
     do { b \<leftarrow> isInList h this;
          if b
          then do { n \<leftarrow> get_next h this; p \<leftarrow> get_prev h this; h \<leftarrow> set_prev n p h;
                    p \<leftarrow> get_prev h this; n \<leftarrow> get_next h this; h \<leftarrow> set_next p n h;
                    h \<leftarrow> set_next this NULL h;
                    set_prev this NULL h }
          else Some h }"

definition insertBefore :: "nat \<Rightarrow> nat \<Rightarrow> heap \<Rightarrow> heap option" where
  "insertBefore this pElem h =
     do { h \<leftarrow> set_next pElem this h;
          p \<leftarrow> get_prev h this; h \<leftarrow> set_prev pElem p h;
          p \<leftarrow> get_prev h this; h \<leftarrow> set_next p pElem h;
          set_prev this pElem h }"

definition insertAfter :: "nat \<Rightarrow> nat \<Rightarrow> heap \<Rightarrow> heap option" where
  "insertAfter this pElem h =
     do { h \<leftarrow> set_prev pElem this h;
          n \<leftarrow> get_next h this; h \<leftarrow> set_next pElem n h;
          n \<leftarrow> get_next h this; h \<leftarrow> set_prev n pElem h;
          set_next this pElem h }"

section \<open>List heads\<close>

record LinkedListHead =
  iFirst :: nat
  iLast :: nat
  iSize :: uint32

text \<open>The constructor links the two sentinels, which are at the given addresses.\<close>

definition LinkedListHead_new :: "nat \<Rightarrow> nat \<Rightarrow> heap \<Rightarrow> LinkedListHead \<times> heap" where
  "LinkedListHead_new f l h =
     (\<lparr>iFirst = f, iLast = l, iSize = 0\<rparr>,
      h(f \<mapsto> LinkedListElement_new\<lparr>iNext := l\<rparr>, l \<mapsto> LinkedListElement_new\<lparr>iPrev := f\<rparr>))"

definition isEmpty :: "heap \<Rightarrow> LinkedListHead \<Rightarrow> bool option" where
  "isEmpty h L = do { n \<leftarrow> get_next h (iFirst L); b \<leftarrow> isInList h n; Some (\<not> b) }"

definition getFirst :: "heap \<Rightarrow> LinkedListHead \<Rightarrow> nat option" where
  "getFirst h L = do { b \<leftarrow> isEmpty h L; if b then Some NULL else get_next h (iFirst L) }"

definition getLast :: "heap \<Rightarrow> LinkedListHead \<Rightarrow> nat option" where
  "getLast h L = do { b \<leftarrow> isEmpty h L; if b then Some NULL else get_prev h (iLast L) }"

definition insertFirst :: "LinkedListHead \<Rightarrow> nat \<Rightarrow> heap \<Rightarrow> heap option" where
  "insertFirst L pElem h = insertAfter (iFirst L) pElem h"

definition insertLast :: "LinkedListHead \<Rightarrow> nat \<Rightarrow> heap \<Rightarrow> heap option" where
  "insertLast L pElem h = insertBefore (iLast L) pElem h"

text \<open>The counting loop of \<open>getSize\<close>.  A cyclic store keeps it running for ever; then it has no result.\<close>

partial_function (option) size_loop :: "heap \<Rightarrow> nat \<Rightarrow> uint32 \<Rightarrow> uint32 option" where
  "size_loop h e result =
     (if e = NULL then Some result else do { e' \<leftarrow> next_element h e; size_loop h e' (result + 1) })"

definition getSize :: "heap \<Rightarrow> LinkedListHead \<Rightarrow> uint32 option" where
  "getSize h L = (if iSize L = 0 then do { e \<leftarrow> getFirst h L; size_loop h e 0 } else Some (iSize L))"

definition incSize :: "LinkedListHead \<Rightarrow> LinkedListHead" where
  "incSize L = L\<lparr>iSize := iSize L + 1\<rparr>"

definition decSize :: "LinkedListHead \<Rightarrow> LinkedListHead" where
  "decSize L = L\<lparr>iSize := iSize L - 1\<rparr>"

text \<open>The operators of \<open>Iterator\<close>; the comparison with a pointer is the one with \<open>!=\<close> in its body.\<close>

definition it_increment :: "heap \<Rightarrow> nat \<Rightarrow> nat option" where
  "it_increment h it = next_element h it"

definition it_decrement :: "heap \<Rightarrow> nat \<Rightarrow> nat option" where
  "it_decrement h it = prev_element h it"

definition it_eq :: "nat \<Rightarrow> nat \<Rightarrow> bool" where
  "it_eq it right \<longleftrightarrow> it = right"

definition it_eq_pointer :: "nat \<Rightarrow> nat \<Rightarrow> bool" where
  "it_eq_pointer it right \<longleftrightarrow> it \<noteq> right"

section \<open>Chains\<close>

definition nxt :: "heap \<Rightarrow> nat \<Rightarrow> nat" where
  "nxt h p = (case h p of Some n \<Rightarrow> iNext n | None \<Rightarrow> NULL)"

definition prv :: "heap \<Rightarrow> nat \<Rightarrow> nat" where
  "prv h p = (case h p of Some n \<Rightarrow> iPrev n | None \<Rightarrow> NULL)"

fun chain :: "(nat \<Rightarrow> nat) \<Rightarrow> (nat \<Rightarrow> nat) \<Rightarrow> nat list \<Rightarrow> bool" where
  "chain N P (a # b # xs) \<longleftrightarrow> N a = b \<and> P b = a \<and> chain N P (b # xs)"
| "chain N P _ \<longleftrightarrow> True"

lemma chain_append: "chain N P (us @ a # vs) \<longleftrightarrow> chain N P (us @ [a]) \<and> chain N P (a # vs)"
proof (induction us)
  case (Cons u us)
  then show ?case by (cases us) auto
qed simp

lemma chain_split:
  "chain N P (us @ a # b # vs) \<longleftrightarrow> chain N P (us @ [a]) \<and> N a = b \<and> P b = a \<and> chain N P (b # vs)"
  by (subst chain_append) simp

lemma chain_next [simp]: "a \<notin> set (butlast xs) \<Longrightarrow> chain (N(a := c)) P xs = chain N P xs"
  by (induction N P xs rule: chain.induct) auto

lemma chain_prev [simp]: "b \<notin> set (tl xs) \<Longrightarrow> chain N (P(b := c)) xs = chain N P xs"
  by (induction N P xs rule: chain.induct) auto

lemma chain_fresh [simp]:
  "a \<notin> set xs \<Longrightarrow> chain (N(a := c)) P xs = chain N P xs" "b \<notin> set xs \<Longrightarrow> chain N (P(b := c)) xs = chain N P xs"
  using in_set_butlastD [of a xs] list.set_sel(2) [of xs b] by (auto intro!: chain_next chain_prev) (cases xs; simp)+

lemma get_next_eq: "get_next h p = (if p \<in> dom h then Some (nxt h p) else None)"
  by (auto simp: get_next_def nxt_def split: option.split)

lemma get_prev_eq: "get_prev h p = (if p \<in> dom h then Some (prv h p) else None)"
  by (auto simp: get_prev_def prv_def split: option.split)

text \<open>What an assignment through a valid pointer does.\<close>

definition with_next :: "nat \<Rightarrow> nat \<Rightarrow> heap \<Rightarrow> heap" where
  "with_next p q h = h(p := map_option (\<lambda>n. n\<lparr>iNext := q\<rparr>) (h p))"

definition with_prev :: "nat \<Rightarrow> nat \<Rightarrow> heap \<Rightarrow> heap" where
  "with_prev p q h = h(p := map_option (\<lambda>n. n\<lparr>iPrev := q\<rparr>) (h p))"

lemma set_next_eq: "set_next p q h = (if p \<in> dom h then Some (with_next p q h) else None)"
  by (auto simp: set_next_def with_next_def)

lemma set_prev_eq: "set_prev p q h = (if p \<in> dom h then Some (with_prev p q h) else None)"
  by (auto simp: set_prev_def with_prev_def)

lemma with_simps [simp]:
  "dom (with_next p q h) = dom h" "dom (with_prev p q h) = dom h"
  "prv (with_next p q h) = prv h" "nxt (with_prev p q h) = nxt h"
  by (auto simp: with_next_def with_prev_def nxt_def prv_def fun_eq_iff split: option.split if_splits)

lemma with_next_nxt [simp]: "p \<in> dom h \<Longrightarrow> nxt (with_next p q h) = (nxt h)(p := q)"
  by (auto simp: with_next_def nxt_def fun_eq_iff)

lemma with_prev_prv [simp]: "p \<in> dom h \<Longrightarrow> prv (with_prev p q h) = (prv h)(p := q)"
  by (auto simp: with_prev_def prv_def fun_eq_iff)

lemmas heap_simps = get_next_eq get_prev_eq set_next_eq set_prev_eq

section \<open>The abstract list\<close>

text \<open>The sentinels enclose the elements; all other elements of the store are in no list.\<close>

definition ring :: "LinkedListHead \<Rightarrow> nat list \<Rightarrow> nat list" where
  "ring L xs = iFirst L # xs @ [iLast L]"

definition dlist :: "heap \<Rightarrow> LinkedListHead \<Rightarrow> nat list \<Rightarrow> bool" where
  "dlist h L xs \<longleftrightarrow>
     NULL \<notin> dom h \<and> set (ring L xs) \<subseteq> dom h \<and> distinct (ring L xs) \<and> chain (nxt h) (prv h) (ring L xs) \<and>
     prv h (iFirst L) = NULL \<and> nxt h (iLast L) = NULL \<and>
     (\<forall>e \<in> dom h - set (ring L xs). nxt h e = NULL \<and> prv h e = NULL)"

lemma dlist_new:
  assumes "h NULL = None" "f \<noteq> NULL" "l \<noteq> NULL" "f \<noteq> l" "ran h \<subseteq> {LinkedListElement_new}"
  shows "dlist (snd (LinkedListHead_new f l h)) (fst (LinkedListHead_new f l h)) []"
proof -
  have "nxt h e = NULL" "prv h e = NULL" for e
    using assms(5) ranI [of h e] by (auto simp: nxt_def prv_def LinkedListElement_new_def split: option.split)
  then show ?thesis
    using assms(1-4) by (auto simp: dlist_def ring_def LinkedListHead_new_def nxt_def prv_def LinkedListElement_new_def)
qed

text \<open>Neighbours of an element.\<close>

lemma dlist_split:
  assumes "dlist h L xs" "ring L xs = us @ a # b # vs"
  shows "nxt h a = b" "prv h b = a" "a \<in> dom h" "b \<in> dom h" "a \<noteq> NULL" "b \<noteq> NULL" "a \<noteq> b"
proof -
  have "chain (nxt h) (prv h) (us @ a # b # vs)" "{a, b} \<subseteq> dom h" "NULL \<notin> dom h" "a \<noteq> b"
    using assms by (auto simp: dlist_def)
  then show "nxt h a = b" "prv h b = a" "a \<in> dom h" "b \<in> dom h" "a \<noteq> NULL" "b \<noteq> NULL" "a \<noteq> b"
    by (auto simp: chain_split)
qed

text \<open>Putting a free element between two neighbours, and taking an element out.\<close>

lemma dlist_insert:
  assumes d: "dlist h L xs" and r: "ring L xs = us @ a # b # vs" and x: "x \<in> dom h" "x \<notin> set (ring L xs)"
    and r': "ring L xs' = us @ a # x # b # vs"
    and h': "dom h' = dom h" "nxt h' = (nxt h)(x := b, a := x)" "prv h' = (prv h)(x := a, b := x)"
  shows "dlist h' L xs'"
proof -
  have xs: "set (ring L xs') = insert x (set (ring L xs))" and dist: "distinct (us @ a # x # b # vs)"
    using d x r r' by (auto simp: dlist_def)
  have c: "chain (nxt h) (prv h) (us @ [a])" "chain (nxt h) (prv h) (b # vs)"
    using d unfolding dlist_def r chain_split by auto
  have "chain (nxt h') (prv h') (us @ a # x # b # vs)"
    unfolding chain_split using c dist by (auto simp: h' butlast_append)
  moreover have "iLast L = last (b # vs)" "iFirst L = hd (us @ [a])"
    using arg_cong [OF r, of last] arg_cong [OF r, of hd] by (auto simp: ring_def hd_append)
  then have "iLast L \<noteq> a" "iFirst L \<noteq> b" "iLast L \<noteq> x" "iFirst L \<noteq> x"
    using dist last_in_set [of "b # vs"] hd_in_set [of "us @ [a]"] by auto
  then have "prv h' (iFirst L) = NULL" "nxt h' (iLast L) = NULL"
    using d by (simp_all add: h' dlist_def)
  moreover have "a \<in> set (ring L xs)" "b \<in> set (ring L xs)"
    by (simp_all add: r)
  then have "\<forall>e \<in> dom h' - set (ring L xs'). nxt h' e = NULL \<and> prv h' e = NULL"
    using d unfolding xs h' dlist_def by auto
  ultimately show ?thesis
    using d x(1) dist unfolding dlist_def xs by (simp add: r' h')
qed

lemma dlist_remove:
  assumes d: "dlist h L xs" and r: "ring L xs = us @ a # x # b # vs" and r': "ring L xs' = us @ a # b # vs"
    and h': "dom h' = dom h" "nxt h' = (nxt h)(a := b, x := NULL)" "prv h' = (prv h)(b := a, x := NULL)"
  shows "dlist h' L xs'"
proof -
  have dist: "distinct (us @ a # x # b # vs)" and xs: "set (ring L xs) = insert x (set (ring L xs'))"
    using d by (auto simp: dlist_def r r')
  have c: "chain (nxt h) (prv h) (us @ [a])" "chain (nxt h) (prv h) (b # vs)"
    using d unfolding dlist_def r chain_split by auto
  have "chain (nxt h') (prv h') (us @ a # b # vs)"
    unfolding chain_split using c dist by (auto simp: h' butlast_append)
  moreover have "iLast L = last (b # vs)" "iFirst L = hd (us @ [a])"
    using arg_cong [OF r', of last] arg_cong [OF r', of hd] by (auto simp: ring_def hd_append)
  then have "iLast L \<noteq> a" "iFirst L \<noteq> b" "iLast L \<noteq> x" "iFirst L \<noteq> x"
    using dist last_in_set [of "b # vs"] hd_in_set [of "us @ [a]"] by auto
  then have "prv h' (iFirst L) = NULL" "nxt h' (iLast L) = NULL"
    using d by (simp_all add: h' dlist_def)
  moreover have "a \<in> set (ring L xs')" "b \<in> set (ring L xs')"
    by (simp_all add: r')
  then have "\<forall>e \<in> dom h' - set (ring L xs'). nxt h' e = NULL \<and> prv h' e = NULL"
    using d unfolding xs h' dlist_def by auto
  ultimately show ?thesis
    using d dist unfolding dlist_def xs by (simp add: r' h')
qed

section \<open>The operations on the abstract list\<close>

lemma insertAfter_ok:
  assumes d: "dlist h L xs" and r: "ring L xs = us @ a # b # vs" and x: "x \<in> dom h" "x \<notin> set (ring L xs)"
    and r': "ring L xs' = us @ a # x # b # vs"
  shows "\<exists>h'. insertAfter a x h = Some h' \<and> dom h' = dom h \<and> dlist h' L xs'"
proof -
  note ab = dlist_split [OF d r]
  have "x \<noteq> a" "x \<noteq> b" using x r by auto
  then obtain h' where "insertAfter a x h = Some h'" "dom h' = dom h" "nxt h' = (nxt h)(x := b, a := x)" "prv h' = (prv h)(x := a, b := x)"
    using ab x(1) by (simp add: insertAfter_def heap_simps)
  then show ?thesis using dlist_insert [OF d r x r'] by blast
qed

lemma insertBefore_ok:
  assumes d: "dlist h L xs" and r: "ring L xs = us @ a # b # vs" and x: "x \<in> dom h" "x \<notin> set (ring L xs)"
    and r': "ring L xs' = us @ a # x # b # vs"
  shows "\<exists>h'. insertBefore b x h = Some h' \<and> dom h' = dom h \<and> dlist h' L xs'"
proof -
  note ab = dlist_split [OF d r]
  have "x \<noteq> a" "x \<noteq> b" using x r by auto
  then obtain h' where "insertBefore b x h = Some h'" "dom h' = dom h" "nxt h' = (nxt h)(x := b, a := x)" "prv h' = (prv h)(x := a, b := x)"
    using ab x(1) by (simp add: insertBefore_def heap_simps fun_upd_twist)
  then show ?thesis using dlist_insert [OF d r x r'] by blast
qed

lemma delink_ok:
  assumes d: "dlist h L xs" and r: "ring L xs = us @ a # x # b # vs" and r': "ring L xs' = us @ a # b # vs"
  shows "\<exists>h'. delink x h = Some h' \<and> dom h' = dom h \<and> dlist h' L xs'"
proof -
  note ax = dlist_split [OF d r]
  note xb = dlist_split [OF d, of "us @ [a]" x b vs]
  have "a \<noteq> b" using d by (simp add: dlist_def r)
  then obtain h' where "delink x h = Some h'" "dom h' = dom h" "nxt h' = (nxt h)(a := b, x := NULL)" "prv h' = (prv h)(b := a, x := NULL)"
    using ax xb r by (simp add: delink_def isInList_def heap_simps)
  then show ?thesis using dlist_remove [OF d r r'] by blast
qed

lemma dlist_free:
  assumes "dlist h L xs" "e \<in> dom h" "e \<notin> set (ring L xs)"
  shows "nxt h e = NULL" "prv h e = NULL"
  using assms unfolding dlist_def by auto

lemma isInList_ok:
  assumes d: "dlist h L xs" and e: "e \<in> dom h"
  shows "isInList h e = Some (e \<in> set xs)"
proof (cases "e \<in> set xs")
  case True
  then obtain us vs where "xs = us @ e # vs" by (auto simp: in_set_conv_decomp)
  then have "ring L xs = (iFirst L # us) @ e # vs @ [iLast L]" by (simp add: ring_def)
  moreover obtain us' a where "iFirst L # us = us' @ [a]" by (metis append_butlast_last_id list.distinct(1))
  moreover obtain b vs' where "vs @ [iLast L] = b # vs'" by (cases vs) auto
  ultimately have r: "ring L xs = us' @ a # e # b # vs'" "ring L xs = (us' @ [a]) @ e # b # vs'" by simp_all
  show ?thesis
    using dlist_split [OF d r(1)] dlist_split [OF d r(2)] True by (simp add: isInList_def heap_simps)
next
  case False
  then have "nxt h e = NULL \<or> prv h e = NULL"
    using d e dlist_free [OF d e] by (auto simp: dlist_def ring_def)
  then show ?thesis
    using e False by (auto simp: isInList_def heap_simps)
qed

lemma isEmpty_ok:
  assumes d: "dlist h L xs"
  shows "isEmpty h L = Some (xs = [])" "getFirst h L = Some (case xs of [] \<Rightarrow> NULL | x # _ \<Rightarrow> x)"
    "getLast h L = Some (if xs = [] then NULL else last xs)"
proof -
  obtain b vs where b: "xs @ [iLast L] = b # vs" by (cases xs) auto
  note first = dlist_split [OF d, of "[]" "iFirst L" b vs]
  have "b \<in> set xs \<longleftrightarrow> xs \<noteq> []" "xs \<noteq> [] \<Longrightarrow> b = hd xs"
    using b d by (cases xs; auto simp: dlist_def ring_def)+
  then show e: "isEmpty h L = Some (xs = [])"
    using first b isInList_ok [OF d, of b] by (simp add: isEmpty_def ring_def heap_simps)
  show "getFirst h L = Some (case xs of [] \<Rightarrow> NULL | x # _ \<Rightarrow> x)"
    using first b e by (cases xs) (simp_all add: getFirst_def ring_def heap_simps)
  have "ring L xs = (iFirst L # butlast xs) @ last xs # iLast L # []" if "xs \<noteq> []"
    using that by (simp add: ring_def)
  from dlist_split [OF d this] show "getLast h L = Some (if xs = [] then NULL else last xs)"
    using e by (simp add: getLast_def heap_simps)
qed

lemma next_element_ok:
  assumes d: "dlist h L xs" and xs: "xs = us @ e # vs"
  shows "next_element h e = Some (case vs of [] \<Rightarrow> NULL | y # _ \<Rightarrow> y)"
proof -
  obtain b ws where b: "vs @ [iLast L] = b # ws" by (cases vs) auto
  have r: "ring L xs = (iFirst L # us) @ e # b # ws" using xs b by (simp add: ring_def)
  note eb = dlist_split [OF d r]
  show ?thesis
  proof (cases ws)
    case Nil
    then have "vs = []" "b = iLast L" using b by (cases vs; simp)+
    then show ?thesis
      using eb d by (simp add: next_element_def hasNext_def heap_simps dlist_def)
  next
    case (Cons c ws')
    then obtain vs' where "vs = b # vs'" using b by (cases vs) auto
    moreover have "ring L xs = (iFirst L # us @ [e]) @ b # c # ws'" using r Cons by simp
    ultimately show ?thesis
      using eb dlist_split [OF d, of "iFirst L # us @ [e]" b c ws'] by (simp add: next_element_def hasNext_def heap_simps)
  qed
qed

lemma prev_element_ok:
  assumes d: "dlist h L xs" and xs: "xs = us @ e # vs"
  shows "prev_element h e = Some (if us = [] then NULL else last us)"
proof -
  have r: "ring L xs = butlast (iFirst L # us) @ last (iFirst L # us) # e # vs @ [iLast L]"
    using xs append_butlast_last_id [of "iFirst L # us"] by (simp add: ring_def del: append_butlast_last_id butlast.simps last.simps)
  note ae = dlist_split [OF d r]
  show ?thesis
  proof (cases us rule: rev_cases)
    case Nil
    then show ?thesis
      using ae d by (simp add: prev_element_def hasPrev_def heap_simps dlist_def)
  next
    case (snoc ws y)
    have "ring L xs = butlast (iFirst L # ws) @ last (iFirst L # ws) # y # e # vs @ [iLast L]"
      using xs snoc append_butlast_last_id [of "iFirst L # ws"] by (simp add: ring_def del: append_butlast_last_id butlast.simps last.simps)
    from dlist_split [OF d this] show ?thesis
      using ae snoc by (simp add: prev_element_def hasPrev_def heap_simps)
  qed
qed

lemma free_neighbours:
  assumes "dlist h L xs" "e \<in> dom h" "e \<notin> set (ring L xs)"
  shows "next_element h e = Some NULL" "prev_element h e = Some NULL" "delink e h = Some h"
  using assms dlist_free [OF assms] isInList_ok [OF assms(1,2)]
  by (simp_all add: next_element_def prev_element_def hasNext_def hasPrev_def heap_simps delink_def ring_def)

lemma size_loop_ok:
  assumes d: "dlist h L xs"
  shows "xs = us @ vs \<Longrightarrow> size_loop h (case vs of [] \<Rightarrow> NULL | y # _ \<Rightarrow> y) n = Some (n + of_nat (length vs))"
proof (induction vs arbitrary: us n)
  case Nil
  then show ?case by (simp add: size_loop.simps)
next
  case (Cons y vs)
  have "y \<noteq> NULL" using d Cons.prems by (auto simp: dlist_def ring_def)
  moreover have "size_loop h (case vs of [] \<Rightarrow> NULL | y # _ \<Rightarrow> y) (n + 1) = Some (n + 1 + of_nat (length vs))"
    using Cons.IH [of "us @ [y]"] Cons.prems by simp
  ultimately show ?case
    using next_element_ok [OF d Cons.prems] by (subst size_loop.simps) (simp add: add.assoc)
qed

lemma getSize_ok:
  assumes "dlist h L xs"
  shows "getSize h L = Some (if iSize L = 0 then of_nat (length xs) else iSize L)"
  using size_loop_ok [OF assms, of "[]" xs 0] isEmpty_ok(2) [OF assms] by (simp add: getSize_def)

section \<open>The list as a machine\<close>

datatype list_op =
    InsertFirst nat | InsertLast nat | InsertBefore nat nat | InsertAfter nat nat | Delink nat
  | IsEmpty | GetFirst | GetLast | Next nat | Prev nat | IsInList nat | GetSize | IncSize | DecSize

datatype list_answer = Done | Pointer nat | Answer bool | Size uint32

fun list_step :: "list_op \<Rightarrow> LinkedListHead \<times> heap \<Rightarrow> ((LinkedListHead \<times> heap) \<times> list_answer) option" where
  "list_step (InsertFirst x) (L, h) = map_option (\<lambda>h. ((L, h), Done)) (insertFirst L x h)"
| "list_step (InsertLast x) (L, h) = map_option (\<lambda>h. ((L, h), Done)) (insertLast L x h)"
| "list_step (InsertBefore e x) (L, h) = map_option (\<lambda>h. ((L, h), Done)) (insertBefore e x h)"
| "list_step (InsertAfter e x) (L, h) = map_option (\<lambda>h. ((L, h), Done)) (insertAfter e x h)"
| "list_step (Delink x) (L, h) = map_option (\<lambda>h. ((L, h), Done)) (delink x h)"
| "list_step IsEmpty (L, h) = map_option (\<lambda>b. ((L, h), Answer b)) (isEmpty h L)"
| "list_step GetFirst (L, h) = map_option (\<lambda>p. ((L, h), Pointer p)) (getFirst h L)"
| "list_step GetLast (L, h) = map_option (\<lambda>p. ((L, h), Pointer p)) (getLast h L)"
| "list_step (Next e) (L, h) = map_option (\<lambda>p. ((L, h), Pointer p)) (next_element h e)"
| "list_step (Prev e) (L, h) = map_option (\<lambda>p. ((L, h), Pointer p)) (prev_element h e)"
| "list_step (IsInList e) (L, h) = map_option (\<lambda>b. ((L, h), Answer b)) (isInList h e)"
| "list_step GetSize (L, h) = map_option (\<lambda>n. ((L, h), Size n)) (getSize h L)"
| "list_step IncSize (L, h) = Some ((incSize L, h), Done)"
| "list_step DecSize (L, h) = Some ((decSize L, h), Done)"

text \<open>The specification: a list of distinct elements, the elements that are in no list, the size counter.\<close>

record list_spec =
  elems :: "nat list"
  free :: "nat set"
  counter :: uint32

definition before :: "nat \<Rightarrow> nat list \<Rightarrow> nat list" where
  "before e xs = takeWhile (\<lambda>y. y \<noteq> e) xs"

definition after :: "nat \<Rightarrow> nat list \<Rightarrow> nat list" where
  "after e xs = tl (dropWhile (\<lambda>y. y \<noteq> e) xs)"

definition use_free :: "nat \<Rightarrow> nat list \<Rightarrow> list_spec \<Rightarrow> (list_spec \<times> list_answer) option" where
  "use_free x xs s = (if x \<in> free s then Some (s\<lparr>elems := xs, free := free s - {x}\<rparr>, Done) else None)"

definition known :: "nat \<Rightarrow> list_answer \<Rightarrow> list_answer \<Rightarrow> list_spec \<Rightarrow> (list_spec \<times> list_answer) option" where
  "known e listed unlisted s =
     (if e \<in> set (elems s) then Some (s, listed) else if e \<in> free s then Some (s, unlisted) else None)"

fun spec_step :: "list_op \<Rightarrow> list_spec \<Rightarrow> (list_spec \<times> list_answer) option" where
  "spec_step (InsertFirst x) s = use_free x (x # elems s) s"
| "spec_step (InsertLast x) s = use_free x (elems s @ [x]) s"
| "spec_step (InsertBefore e x) s =
     (if e \<in> set (elems s) then use_free x (before e (elems s) @ x # e # after e (elems s)) s else None)"
| "spec_step (InsertAfter e x) s =
     (if e \<in> set (elems s) then use_free x (before e (elems s) @ e # x # after e (elems s)) s else None)"
| "spec_step (Delink x) s =
     (if x \<in> set (elems s) then Some (s\<lparr>elems := before x (elems s) @ after x (elems s), free := insert x (free s)\<rparr>, Done)
      else if x \<in> free s then Some (s, Done) else None)"
| "spec_step IsEmpty s = Some (s, Answer (elems s = []))"
| "spec_step GetFirst s = Some (s, Pointer (case elems s of [] \<Rightarrow> NULL | x # _ \<Rightarrow> x))"
| "spec_step GetLast s = Some (s, Pointer (if elems s = [] then NULL else last (elems s)))"
| "spec_step (Next e) s = known e (Pointer (case after e (elems s) of [] \<Rightarrow> NULL | y # _ \<Rightarrow> y)) (Pointer NULL) s"
| "spec_step (Prev e) s = known e (Pointer (if before e (elems s) = [] then NULL else last (before e (elems s)))) (Pointer NULL) s"
| "spec_step (IsInList e) s = known e (Answer True) (Answer False) s"
| "spec_step GetSize s = Some (s, Size (if counter s = 0 then of_nat (length (elems s)) else counter s))"
| "spec_step IncSize s = Some (s\<lparr>counter := counter s + 1\<rparr>, Done)"
| "spec_step DecSize s = Some (s\<lparr>counter := counter s - 1\<rparr>, Done)"

definition list_rel :: "LinkedListHead \<times> heap \<Rightarrow> list_spec \<Rightarrow> bool" where
  "list_rel c s \<longleftrightarrow> dlist (snd c) (fst c) (elems s) \<and> counter s = iSize (fst c) \<and>
     dom (snd c) = set (ring (fst c) (elems s)) \<union> free s \<and> set (ring (fst c) (elems s)) \<inter> free s = {}"

lemma before_after: "e \<in> set xs \<Longrightarrow> xs = before e xs @ e # after e xs"
  unfolding before_def after_def by (induction xs) auto

lemma rel_parts:
  assumes "list_rel (L, h) s"
  shows "dlist h L (elems s)" "dom h = set (ring L (elems s)) \<union> free s" "set (ring L (elems s)) \<inter> free s = {}"
    "counter s = iSize L"
  using assms by (simp_all add: list_rel_def)

text \<open>One new element, at any place.\<close>

lemma rel_use_free:
  assumes rel: "list_rel (L, h) s" and step: "use_free x xs' s = Some (s', r)"
    and ring: "ring L (elems s) = us @ a # b # vs" "ring L xs' = us @ a # x # b # vs"
  shows "\<exists>h'. insertAfter a x h = Some h' \<and> list_rel (L, h') s' \<and> r = Done"
    and "\<exists>h'. insertBefore b x h = Some h' \<and> list_rel (L, h') s' \<and> r = Done"
proof -
  note p = rel_parts [OF rel]
  have s': "x \<in> free s" "s' = s\<lparr>elems := xs', free := free s - {x}\<rparr>" "r = Done"
    using step by (auto simp: use_free_def split: if_splits)
  then have x: "x \<in> dom h" "x \<notin> set (ring L (elems s))"
    using p by auto
  have rel': "list_rel (L, h') s'" if "dlist h' L xs'" "dom h' = dom h" for h'
    using that p x s' ring unfolding list_rel_def by auto
  show "\<exists>h'. insertAfter a x h = Some h' \<and> list_rel (L, h') s' \<and> r = Done"
    using insertAfter_ok [OF p(1) ring(1) x ring(2)] rel' s'(3) by blast
  show "\<exists>h'. insertBefore b x h = Some h' \<and> list_rel (L, h') s' \<and> r = Done"
    using insertBefore_ok [OF p(1) ring(1) x ring(2)] rel' s'(3) by blast
qed

text \<open>The ring around an element.\<close>

lemma ring_around:
  assumes "e \<in> set xs"
  obtains us a b vs where "ring L xs = us @ a # e # b # vs" "ring L (before e xs @ after e xs) = us @ a # b # vs"
    "ring L (before e xs @ x # e # after e xs) = us @ a # x # e # b # vs"
    "ring L (before e xs @ e # x # after e xs) = us @ a # e # x # b # vs"
proof -
  obtain us a where us: "iFirst L # before e xs = us @ [a]" by (metis append_butlast_last_id list.distinct(1))
  obtain b vs where vs: "after e xs @ [iLast L] = b # vs" by (cases "after e xs") auto
  have "ring L (before e xs @ ws @ after e xs) = us @ a # ws @ b # vs" for ws
    using us vs by (simp add: ring_def)
  from this [of "[e]"] this [of "[]"] this [of "[x, e]"] this [of "[e, x]"] that show thesis
    using before_after [OF assms] by simp
qed

text \<open>The steps of the specification, each followed by the code.\<close>

lemma sim_insert_ends:
  assumes rel: "list_rel (L, h) s"
  shows "use_free x (x # elems s) s = Some (s', r) \<Longrightarrow> \<exists>h'. insertFirst L x h = Some h' \<and> list_rel (L, h') s' \<and> r = Done"
    and "use_free x (elems s @ [x]) s = Some (s', r) \<Longrightarrow> \<exists>h'. insertLast L x h = Some h' \<and> list_rel (L, h') s' \<and> r = Done"
proof -
  obtain b vs where b: "elems s @ [iLast L] = b # vs" by (cases "elems s") auto
  then show "\<exists>h'. insertFirst L x h = Some h' \<and> list_rel (L, h') s' \<and> r = Done" if "use_free x (x # elems s) s = Some (s', r)"
    using rel_use_free(1) [OF rel that, of "[]" "iFirst L" b vs] by (simp add: ring_def insertFirst_def)
  obtain us a where "iFirst L # elems s = us @ [a]" by (metis append_butlast_last_id list.distinct(1))
  then have ring: "ring L (elems s) = us @ a # iLast L # []" "ring L (elems s @ [x]) = us @ a # x # iLast L # []"
    by (simp_all add: ring_def)
  show "\<exists>h'. insertLast L x h = Some h' \<and> list_rel (L, h') s' \<and> r = Done" if "use_free x (elems s @ [x]) s = Some (s', r)"
    using rel_use_free(2) [OF rel that ring] by (simp add: insertLast_def)
qed

lemma sim_insert_at:
  assumes rel: "list_rel (L, h) s" and e: "e \<in> set (elems s)"
  shows "use_free x (before e (elems s) @ x # e # after e (elems s)) s = Some (s', r) \<Longrightarrow>
      \<exists>h'. insertBefore e x h = Some h' \<and> list_rel (L, h') s' \<and> r = Done"
    and "use_free x (before e (elems s) @ e # x # after e (elems s)) s = Some (s', r) \<Longrightarrow>
      \<exists>h'. insertAfter e x h = Some h' \<and> list_rel (L, h') s' \<and> r = Done"
proof -
  from e obtain us a b vs where ring: "ring L (elems s) = us @ a # e # b # vs"
    "ring L (before e (elems s) @ x # e # after e (elems s)) = us @ a # x # e # b # vs"
    "ring L (before e (elems s) @ e # x # after e (elems s)) = us @ a # e # x # b # vs"
    by (rule ring_around)
  show "\<exists>h'. insertBefore e x h = Some h' \<and> list_rel (L, h') s' \<and> r = Done"
    if "use_free x (before e (elems s) @ x # e # after e (elems s)) s = Some (s', r)"
    by (rule rel_use_free(2) [OF rel that ring(1,2)])
  show "\<exists>h'. insertAfter e x h = Some h' \<and> list_rel (L, h') s' \<and> r = Done"
    if "use_free x (before e (elems s) @ e # x # after e (elems s)) s = Some (s', r)"
    using rel_use_free(1) [OF rel that, of "us @ [a]"] ring by simp
qed

lemma sim_delink:
  assumes rel: "list_rel (L, h) s" and step: "spec_step (Delink x) s = Some (s', r)"
  shows "\<exists>h'. delink x h = Some h' \<and> list_rel (L, h') s' \<and> r = Done"
proof (cases "x \<in> set (elems s)")
  case True
  note p = rel_parts [OF rel]
  let ?xs = "before x (elems s) @ after x (elems s)"
  have s': "s' = s\<lparr>elems := ?xs, free := insert x (free s)\<rparr>" "r = Done"
    using step True by simp_all
  from True obtain us a b vs where ring: "ring L (elems s) = us @ a # x # b # vs" "ring L ?xs = us @ a # b # vs"
    by (rule ring_around)
  obtain h' where h': "delink x h = Some h'" "dom h' = dom h" "dlist h' L ?xs"
    using delink_ok [OF p(1) ring] by blast
  have "distinct (us @ a # x # b # vs)" using p(1) by (simp add: dlist_def ring)
  then have "list_rel (L, h') s'"
    using h' p s' unfolding list_rel_def by (auto simp: ring)
  then show ?thesis using h'(1) s'(2) by simp
next
  case False
  note p = rel_parts [OF rel]
  have "x \<in> dom h" "x \<notin> set (ring L (elems s))" "s' = s" "r = Done"
    using step False p by (auto split: if_splits)
  then show ?thesis
    using free_neighbours(3) [OF p(1)] rel by simp
qed

lemma sim_known:
  assumes "list_rel (L, h) s" "known e a b s = Some (s', r)"
  shows "s' = s" "e \<in> dom h" "if e \<in> set (elems s) then r = a else e \<notin> set (ring L (elems s)) \<and> r = b"
  using assms(2) rel_parts [OF assms(1)] by (auto simp: known_def ring_def split: if_splits)

lemma sim_neighbours:
  assumes rel: "list_rel (L, h) s"
  shows "spec_step (Next e) s = Some (s', r) \<Longrightarrow> s' = s \<and> map_option Pointer (next_element h e) = Some r"
    and "spec_step (Prev e) s = Some (s', r) \<Longrightarrow> s' = s \<and> map_option Pointer (prev_element h e) = Some r"
    and "spec_step (IsInList e) s = Some (s', r) \<Longrightarrow> s' = s \<and> map_option Answer (isInList h e) = Some r"
proof -
  note p = rel_parts [OF rel]
  note nb = next_element_ok [OF p(1) before_after] prev_element_ok [OF p(1) before_after]
  note fr = free_neighbours [OF p(1)]
  show "s' = s \<and> map_option Pointer (next_element h e) = Some r" if "spec_step (Next e) s = Some (s', r)"
    using sim_known [OF rel that [unfolded spec_step.simps]] nb fr by (cases "e \<in> set (elems s)") auto
  show "s' = s \<and> map_option Pointer (prev_element h e) = Some r" if "spec_step (Prev e) s = Some (s', r)"
    using sim_known [OF rel that [unfolded spec_step.simps]] nb fr by (cases "e \<in> set (elems s)") auto
  show "s' = s \<and> map_option Answer (isInList h e) = Some r" if "spec_step (IsInList e) s = Some (s', r)"
    using sim_known [OF rel that [unfolded spec_step.simps]] isInList_ok [OF p(1)] by (auto split: if_splits)
qed

lemma list_step_sim:
  assumes rel: "list_rel c s" and step: "spec_step op s = Some (s', r)"
  shows "\<exists>c'. list_step op c = Some (c', r) \<and> list_rel c' s'"
proof -
  obtain L h where c: "c = (L, h)" by (cases c)
  have rel: "list_rel (L, h) s" using assms(1) c by simp
  note p = rel_parts [OF rel]
  note ends = sim_insert_ends [OF rel] and at = sim_insert_at [OF rel] and nbs = sim_neighbours [OF rel]
  show ?thesis
  proof (cases op)
    case (InsertBefore e x)
    then show ?thesis using step at [of e x s' r] c by (auto split: if_splits)
  next
    case (InsertAfter e x)
    then show ?thesis using step at [of e x s' r] c by (auto split: if_splits)
  next
    case (Delink x)
    then show ?thesis using sim_delink [OF rel, of x s' r] step c by auto
  next
    case (Next e)
    then show ?thesis using nbs(1) [of e s' r] step c rel by (auto simp del: spec_step.simps)
  next
    case (Prev e)
    then show ?thesis using nbs(2) [of e s' r] step c rel by (auto simp del: spec_step.simps)
  next
    case (IsInList e)
    then show ?thesis using nbs(3) [of e s' r] step c rel by (auto simp del: spec_step.simps)
  next
    case (InsertFirst x)
    then show ?thesis using ends(1) [of x s' r] step c by auto
  next
    case (InsertLast x)
    then show ?thesis using ends(2) [of x s' r] step c by auto
  qed (use step rel c isEmpty_ok [OF p(1)] getSize_ok [OF p(1)] p(4) in
       \<open>auto simp: list_rel_def incSize_def decSize_def ring_def dlist_def\<close>)
qed

interpretation intrusive_list: simulation list_step spec_step list_rel
  by unfold_locales (rule list_step_sim)

section \<open>References\<close>

text \<open>A \<open>Reference\<close> is a list element with two pointers; the virtual functions that tell the objects of a link are
  parameters.  \<open>link\<close> fails the assertion without a source object.\<close>

record RefState =
  links :: heap
  iRefTo :: "nat \<Rightarrow> nat"
  iRefFrom :: "nat \<Rightarrow> nat"

type_synonym ref_hook = "nat \<Rightarrow> RefState \<Rightarrow> RefState option"

definition ref_isValid :: "nat \<Rightarrow> RefState \<Rightarrow> bool" where
  "ref_isValid r s \<longleftrightarrow> iRefTo s r \<noteq> NULL"

definition unlink :: "ref_hook \<Rightarrow> ref_hook" where
  "unlink targetObjectDestroyLink this s =
     do { s \<leftarrow> targetObjectDestroyLink this s;
          h \<leftarrow> delink this (links s);
          Some (s\<lparr>links := h, iRefTo := (iRefTo s)(this := NULL), iRefFrom := (iRefFrom s)(this := NULL)\<rparr>) }"

definition link :: "ref_hook \<Rightarrow> ref_hook \<Rightarrow> nat \<Rightarrow> nat \<Rightarrow> ref_hook" where
  "link targetObjectBuildLink targetObjectDestroyLink toObj fromObj this s =
     (if fromObj = NULL then None
      else do { s \<leftarrow> (if ref_isValid this s then unlink targetObjectDestroyLink this s else Some s);
                if toObj \<noteq> NULL
                then targetObjectBuildLink this
                       (s\<lparr>iRefTo := (iRefTo s)(this := toObj), iRefFrom := (iRefFrom s)(this := fromObj)\<rparr>)
                else Some s })"

definition invalidate :: "ref_hook \<Rightarrow> ref_hook" where
  "invalidate sourceObjectDestroyLink this s =
     do { s \<leftarrow> sourceObjectDestroyLink this s;
          h \<leftarrow> delink this (links s);
          Some (s\<lparr>links := h, iRefTo := (iRefTo s)(this := NULL)\<rparr>) }"

text \<open>The loop of the destructor of \<open>RefManager\<close>.\<close>

partial_function (option) clearReferences :: "ref_hook \<Rightarrow> LinkedListHead \<Rightarrow> RefState \<Rightarrow> RefState option" where
  "clearReferences src L s =
     do { ref \<leftarrow> getFirst (links s) L;
          if ref = NULL then Some s
          else do { s \<leftarrow> invalidate src ref s;
                    h \<leftarrow> delink ref (links s);
                    clearReferences src L (s\<lparr>links := h\<rparr>) } }"

text \<open>\<open>GroupReference\<close>: a new link is put in front of the member list of the group; the other two functions
  are empty.\<close>

definition group_build :: "(nat \<Rightarrow> LinkedListHead) \<Rightarrow> ref_hook" where
  "group_build memberMgr this s =
     map_option (\<lambda>h. s\<lparr>links := h\<rparr>) (insertFirst (memberMgr (iRefTo s this)) this (links s))"

definition group_target_destroy :: ref_hook where
  "group_target_destroy this s = Some s"

definition group_source_destroy :: ref_hook where
  "group_source_destroy this s = Some s"

text \<open>What the loop relies on: telling the source leaves the links alone.\<close>

locale passive_source =
  fixes src :: "nat \<Rightarrow> RefState \<Rightarrow> RefState option"
  assumes tells: "\<exists>s'. src r s = Some s' \<and> links s' = links s \<and> iRefTo s' = iRefTo s \<and> iRefFrom s' = iRefFrom s"
begin

lemma invalidate_first:
  assumes "dlist (links s) L (x # xs)"
  shows "\<exists>s'. invalidate src x s = Some s' \<and> dlist (links s') L xs \<and> iRefTo s' = (iRefTo s)(x := NULL) \<and>
    iRefFrom s' = iRefFrom s \<and> x \<in> dom (links s') \<and> x \<notin> set (ring L xs)"
proof -
  obtain s1 where s1: "src x s = Some s1" "links s1 = links s" "iRefTo s1 = iRefTo s" "iRefFrom s1 = iRefFrom s"
    using tells by blast
  obtain b vs where b: "xs @ [iLast L] = b # vs" by (cases xs) auto
  then have r: "ring L (x # xs) = [] @ iFirst L # x # b # vs" "ring L xs = [] @ iFirst L # b # vs"
    by (simp_all add: ring_def)
  obtain h' where h': "delink x (links s) = Some h'" "dom h' = dom (links s)" "dlist h' L xs"
    using delink_ok [OF assms r] by blast
  have "x \<in> dom (links s)" "x \<notin> set (ring L xs)"
    using assms by (auto simp: dlist_def ring_def)
  then show ?thesis
    using s1 h' by (simp add: invalidate_def)
qed

lemma clears:
  "dlist (links s) L xs \<Longrightarrow>
   \<exists>s'. clearReferences src L s = Some s' \<and> dlist (links s') L [] \<and>
     iRefTo s' = (\<lambda>r. if r \<in> set xs then NULL else iRefTo s r) \<and> iRefFrom s' = iRefFrom s"
proof (induction xs arbitrary: s)
  case Nil
  then show ?case using isEmpty_ok(2) [OF Nil] by (subst clearReferences.simps) simp
next
  case (Cons x xs)
  obtain s1 where s1: "invalidate src x s = Some s1" "dlist (links s1) L xs" "iRefTo s1 = (iRefTo s)(x := NULL)"
    "iRefFrom s1 = iRefFrom s" "x \<in> dom (links s1)" "x \<notin> set (ring L xs)"
    using invalidate_first [OF Cons.prems] by blast
  have again: "delink x (links s1) = Some (links s1)"
    by (rule free_neighbours(3) [OF s1(2,5,6)])
  have "x \<noteq> NULL" using Cons.prems by (auto simp: dlist_def ring_def)
  then have "clearReferences src L s = clearReferences src L s1"
    using isEmpty_ok(2) [OF Cons.prems] s1(1) again by (subst clearReferences.simps) simp
  then show ?case
    using Cons.IH [OF s1(2)] s1(3,4) by (auto simp: fun_eq_iff)
qed

end

interpretation group_reference: passive_source group_source_destroy
  by unfold_locales (simp add: group_source_destroy_def)

section \<open>Properties of linked lists\<close>

text \<open>(C9) The intrusive list refines the abstract list: whatever sequence of operations the specification allows on
  a new list (an element is inserted only while it is in no list, neighbours are asked only of known
  elements), the pointer code runs it without following a null or dangling pointer, gives the same answers,
  and ends with links in both directions that spell the abstract list.\<close>

theorem linked_list_refines:
  assumes "h NULL = None" "f \<noteq> NULL" "l \<noteq> NULL" "f \<noteq> l" "ran h \<subseteq> {LinkedListElement_new}"
    and "run_ops spec_step ops \<lparr>elems = [], free = dom h - {f, l}, counter = 0\<rparr> = Some (s', answers)"
  shows "\<exists>L h'. run_ops list_step ops (LinkedListHead_new f l h) = Some ((L, h'), answers) \<and> dlist h' L (elems s')"
proof -
  have "list_rel (LinkedListHead_new f l h) \<lparr>elems = [], free = dom h - {f, l}, counter = 0\<rparr>"
    using dlist_new [OF assms(1-5)] by (auto simp: list_rel_def LinkedListHead_new_def ring_def)
  from intrusive_list.run_sim [OF this assms(6)] obtain c where
    "run_ops list_step ops (LinkedListHead_new f l h) = Some (c, answers)" "list_rel c s'" by blast
  then show ?thesis
    by (cases c) (auto dest: rel_parts(1))
qed

theorem linked_list_refines_witness:
  "let h = (\<lambda>e. if e \<in> {3, 4, 5} then Some LinkedListElement_new else None) in
   \<exists>L h'. run_ops list_step [InsertFirst 3, InsertLast 4, InsertAfter 3 5, Delink 3, Next 5, GetSize] (LinkedListHead_new 1 2 h) =
       Some ((L, h'), [Done, Done, Done, Done, Pointer 4, Size 2]) \<and> dlist h' L [5, 4]"
proof -
  let ?h = "\<lambda>e :: nat. if e \<in> {3, 4, 5} then Some LinkedListElement_new else None"
  let ?ops = "[InsertFirst 3, InsertLast 4, InsertAfter 3 5, Delink 3, Next 5, GetSize]"
  have free: "dom ?h - {1, 2} = {3, 4, 5}"
    by (auto simp: dom_def)
  have spec: "run_ops spec_step ?ops \<lparr>elems = [], free = dom ?h - {1, 2}, counter = 0\<rparr> =
      Some (\<lparr>elems = [5, 4], free = {3}, counter = 0\<rparr>, [Done, Done, Done, Done, Pointer 4, Size 2])"
    unfolding free by (auto simp: use_free_def known_def before_def after_def)
  have "ran ?h \<subseteq> {LinkedListElement_new}"
    by (auto simp: ran_def split: if_splits)
  from linked_list_refines [OF _ _ _ _ this spec] show ?thesis
    by simp
qed

text \<open>(C19) Destroying a list of group references ends: the loop invalidates every member once, whatever the number
  of members, and leaves an empty list in which no former member points to the group, while the source
  pointers stay.\<close>

theorem clear_references_terminates:
  assumes "dlist (links s) L xs"
  shows "\<exists>s'. clearReferences group_source_destroy L s = Some s' \<and> dlist (links s') L [] \<and>
    iRefTo s' = (\<lambda>r. if r \<in> set xs then NULL else iRefTo s r) \<and> iRefFrom s' = iRefFrom s"
  by (rule group_reference.clears [OF assms])

definition demo_refs :: RefState where
  "demo_refs = \<lparr>links = [1 \<mapsto> \<lparr>iNext = 3, iPrev = 0\<rparr>, 3 \<mapsto> \<lparr>iNext = 2, iPrev = 1\<rparr>, 2 \<mapsto> \<lparr>iNext = 0, iPrev = 3\<rparr>],
     iRefTo = (\<lambda>r. 7), iRefFrom = (\<lambda>r. 8)\<rparr>"

theorem clear_references_terminates_witness:
  "\<exists>s'. clearReferences group_source_destroy \<lparr>iFirst = 1, iLast = 2, iSize = 0\<rparr> demo_refs = Some s' \<and>
     iRefTo s' 3 = NULL \<and> iRefFrom s' 3 = 8"
proof -
  have "dlist (links demo_refs) \<lparr>iFirst = 1, iLast = 2, iSize = 0\<rparr> [3]"
    by (auto simp: dlist_def ring_def demo_refs_def nxt_def prv_def)
  from clear_references_terminates [OF this] show ?thesis
    by (auto simp: demo_refs_def)
qed

end
