(* ===== verification/LFG.thy ===== *)
theory LFG
  imports Util ObjectDefines
begin

text \<open>
  The data of the dungeon finder (\<open>DungeonFinding/LFG.h\<close>, \<open>LFG.cpp\<close>, \<open>LFGPlayerData.cpp\<close>, \<open>LFGGroupData.cpp\<close>) and the
  assignment of roles to the members of a group (\<open>LFGMgr::CheckGroupRoles\<close>).  The assignment is a backtracking
  search that changes the role map in place; it is proved to end, to restore the map when it fails, and to
  succeed exactly when a valid assignment exists.
\<close>

section \<open>Roles and states\<close>

type_synonym LfgRolesMap = "(uint64, uint8) omap"
type_synonym LfgDungeonSet = "uint32 list"

abbreviation PLAYER_ROLE_NONE :: uint8 where "PLAYER_ROLE_NONE \<equiv> 0x00"
abbreviation PLAYER_ROLE_LEADER :: uint8 where "PLAYER_ROLE_LEADER \<equiv> 0x01"
abbreviation PLAYER_ROLE_TANK :: uint8 where "PLAYER_ROLE_TANK \<equiv> 0x02"
abbreviation PLAYER_ROLE_HEALER :: uint8 where "PLAYER_ROLE_HEALER \<equiv> 0x04"
abbreviation PLAYER_ROLE_DAMAGE :: uint8 where "PLAYER_ROLE_DAMAGE \<equiv> 0x08"

abbreviation LFG_TANKS_NEEDED :: uint8 where "LFG_TANKS_NEEDED \<equiv> 1"
abbreviation LFG_HEALERS_NEEDED :: uint8 where "LFG_HEALERS_NEEDED \<equiv> 1"
abbreviation LFG_DPS_NEEDED :: uint8 where "LFG_DPS_NEEDED \<equiv> 3"

datatype LfgState =
    LFG_STATE_NONE | LFG_STATE_ROLECHECK | LFG_STATE_QUEUED | LFG_STATE_PROPOSAL
  | LFG_STATE_BOOT | LFG_STATE_DUNGEON | LFG_STATE_FINISHED_DUNGEON | LFG_STATE_RAIDBROWSER

datatype LfgAnswer = LFG_ANSWER_PENDING | LFG_ANSWER_DENY | LFG_ANSWER_AGREE

text \<open>\<open>ConcatenateDungeons\<close>, and \<open>GetRolesString\<close> over the localised names of the roles.\<close>

definition ConcatenateDungeons :: "LfgDungeonSet \<Rightarrow> string" where
  "ConcatenateDungeons dungeons =
     (case dungeons of
        [] \<Rightarrow> []
      | d # ds \<Rightarrow> show_nat (unat d) @ concat (map (\<lambda>d. '', '' @ show_nat (unat d)) ds))"

datatype lfg_name = LANG_LFG_ROLE_TANK | LANG_LFG_ROLE_HEALER | LANG_LFG_ROLE_DAMAGE | LANG_LFG_ROLE_LEADER | LANG_LFG_ROLE_NONE
  | LANG_LFG_STATE LfgState

definition add_role_name :: "bool \<Rightarrow> string \<Rightarrow> string \<Rightarrow> string" where
  "add_role_name b name rolesstr = (if b then rolesstr @ (if rolesstr \<noteq> [] then '', '' else []) @ name else rolesstr)"

definition GetRolesString :: "(lfg_name \<Rightarrow> string) \<Rightarrow> uint8 \<Rightarrow> string" where
  "GetRolesString names roles =
     (let s = (if has_flag roles PLAYER_ROLE_TANK then names LANG_LFG_ROLE_TANK else []);
          s = add_role_name (has_flag roles PLAYER_ROLE_HEALER) (names LANG_LFG_ROLE_HEALER) s;
          s = add_role_name (has_flag roles PLAYER_ROLE_DAMAGE) (names LANG_LFG_ROLE_DAMAGE) s;
          s = add_role_name (has_flag roles PLAYER_ROLE_LEADER) (names LANG_LFG_ROLE_LEADER) s in
      if s = [] then names LANG_LFG_ROLE_NONE else s)"

definition GetStateString :: "(lfg_name \<Rightarrow> string) \<Rightarrow> LfgState \<Rightarrow> string" where
  "GetStateString names state = names (LANG_LFG_STATE state)"

section \<open>Players\<close>

record LfgPlayerData =
  pd_State :: LfgState
  pd_OldState :: LfgState
  pd_Team :: uint8
  pd_Group :: uint64
  pd_Roles :: uint8
  pd_Comment :: string
  pd_SelectedDungeons :: LfgDungeonSet

definition LfgPlayerData_new :: LfgPlayerData where
  "LfgPlayerData_new = \<lparr>pd_State = LFG_STATE_NONE, pd_OldState = LFG_STATE_NONE, pd_Team = 0, pd_Group = 0, pd_Roles = 0,
     pd_Comment = [], pd_SelectedDungeons = []\<rparr>"

definition PD_SetState :: "LfgState \<Rightarrow> LfgPlayerData \<Rightarrow> LfgPlayerData" where
  "PD_SetState state d =
     (let d = (if state = LFG_STATE_NONE \<or> state = LFG_STATE_FINISHED_DUNGEON
               then d\<lparr>pd_Roles := 0, pd_SelectedDungeons := [], pd_Comment := []\<rparr> else d);
          d = (if state = LFG_STATE_NONE \<or> state = LFG_STATE_FINISHED_DUNGEON \<or> state = LFG_STATE_DUNGEON
               then d\<lparr>pd_OldState := state\<rparr> else d) in
      d\<lparr>pd_State := state\<rparr>)"

definition PD_RestoreState :: "LfgPlayerData \<Rightarrow> LfgPlayerData" where
  "PD_RestoreState d =
     (let d = (if pd_OldState d = LFG_STATE_NONE then d\<lparr>pd_SelectedDungeons := [], pd_Roles := 0\<rparr> else d) in
      d\<lparr>pd_State := pd_OldState d\<rparr>)"

definition PD_SetTeam :: "uint8 \<Rightarrow> LfgPlayerData \<Rightarrow> LfgPlayerData" where "PD_SetTeam team d = d\<lparr>pd_Team := team\<rparr>"
definition PD_SetGroup :: "uint64 \<Rightarrow> LfgPlayerData \<Rightarrow> LfgPlayerData" where "PD_SetGroup grp d = d\<lparr>pd_Group := grp\<rparr>"
definition PD_SetRoles :: "uint8 \<Rightarrow> LfgPlayerData \<Rightarrow> LfgPlayerData" where "PD_SetRoles roles d = d\<lparr>pd_Roles := roles\<rparr>"
definition PD_SetComment :: "string \<Rightarrow> LfgPlayerData \<Rightarrow> LfgPlayerData" where "PD_SetComment comment d = d\<lparr>pd_Comment := comment\<rparr>"
definition PD_SetSelectedDungeons :: "LfgDungeonSet \<Rightarrow> LfgPlayerData \<Rightarrow> LfgPlayerData" where
  "PD_SetSelectedDungeons dungeons d = d\<lparr>pd_SelectedDungeons := dungeons\<rparr>"

section \<open>Groups\<close>

abbreviation LFG_GROUP_MAX_KICKS :: uint8 where "LFG_GROUP_MAX_KICKS \<equiv> 3"

record LfgGroupData =
  gd_State :: LfgState
  gd_OldState :: LfgState
  gd_Leader :: uint64
  gd_Players :: "uint64 list"
  gd_Dungeon :: uint32
  gd_KicksLeft :: uint8

definition LfgGroupData_new :: LfgGroupData where
  "LfgGroupData_new = \<lparr>gd_State = LFG_STATE_NONE, gd_OldState = LFG_STATE_NONE, gd_Leader = 0, gd_Players = [], gd_Dungeon = 0,
     gd_KicksLeft = LFG_GROUP_MAX_KICKS\<rparr>"

definition GD_IsLfgGroup :: "LfgGroupData \<Rightarrow> bool" where
  "GD_IsLfgGroup d \<longleftrightarrow> gd_OldState d \<noteq> LFG_STATE_NONE"

definition GD_SetState :: "LfgState \<Rightarrow> LfgGroupData \<Rightarrow> LfgGroupData" where
  "GD_SetState state d =
     (let d = (if state = LFG_STATE_NONE then d\<lparr>gd_Dungeon := 0, gd_KicksLeft := LFG_GROUP_MAX_KICKS\<rparr> else d);
          d = (if state = LFG_STATE_NONE \<or> state = LFG_STATE_FINISHED_DUNGEON \<or> state = LFG_STATE_DUNGEON
               then d\<lparr>gd_OldState := state\<rparr> else d) in
      d\<lparr>gd_State := state\<rparr>)"

definition GD_RestoreState :: "LfgGroupData \<Rightarrow> LfgGroupData" where
  "GD_RestoreState d = d\<lparr>gd_State := gd_OldState d\<rparr>"

definition GD_AddPlayer :: "uint64 \<Rightarrow> LfgGroupData \<Rightarrow> LfgGroupData" where
  "GD_AddPlayer guid d = d\<lparr>gd_Players := os_insert guid (gd_Players d)\<rparr>"

definition GD_RemovePlayer :: "uint64 \<Rightarrow> LfgGroupData \<Rightarrow> uint8 \<times> LfgGroupData" where
  "GD_RemovePlayer guid d =
     (let d = d\<lparr>gd_Players := os_erase guid (gd_Players d)\<rparr> in (of_nat (length (gd_Players d)), d))"

definition GD_RemoveAllPlayers :: "LfgGroupData \<Rightarrow> LfgGroupData" where "GD_RemoveAllPlayers d = d\<lparr>gd_Players := []\<rparr>"
definition GD_SetLeader :: "uint64 \<Rightarrow> LfgGroupData \<Rightarrow> LfgGroupData" where "GD_SetLeader guid d = d\<lparr>gd_Leader := guid\<rparr>"
definition GD_SetDungeon :: "uint32 \<Rightarrow> LfgGroupData \<Rightarrow> LfgGroupData" where "GD_SetDungeon dungeon d = d\<lparr>gd_Dungeon := dungeon\<rparr>"

definition GD_DecreaseKicksLeft :: "LfgGroupData \<Rightarrow> LfgGroupData" where
  "GD_DecreaseKicksLeft d = (if gd_KicksLeft d \<noteq> 0 then d\<lparr>gd_KicksLeft := gd_KicksLeft d - 1\<rparr> else d)"

definition GD_GetPlayerCount :: "LfgGroupData \<Rightarrow> uint8" where
  "GD_GetPlayerCount d = of_nat (length (gd_Players d))"

definition GD_GetDungeon :: "bool \<Rightarrow> LfgGroupData \<Rightarrow> uint32" where
  "GD_GetDungeon asId d = (if asId then gd_Dungeon d AND 0x00FFFFFF else gd_Dungeon d)"

section \<open>Assigning roles\<close>

text \<open>The three blocks of the loop body, in their order, with the flag, the counter and the limit of each.\<close>

datatype role_block = Damage | Healer | Tank

definition role_blocks :: "role_block list" where
  "role_blocks = [Damage, Healer, Tank]"

fun role_bit :: "role_block \<Rightarrow> uint8" where
  "role_bit Damage = PLAYER_ROLE_DAMAGE"
| "role_bit Healer = PLAYER_ROLE_HEALER"
| "role_bit Tank = PLAYER_ROLE_TANK"

fun role_needed :: "role_block \<Rightarrow> uint8" where
  "role_needed Damage = LFG_DPS_NEEDED"
| "role_needed Healer = LFG_HEALERS_NEEDED"
| "role_needed Tank = LFG_TANKS_NEEDED"

definition role_at :: "LfgRolesMap \<Rightarrow> nat \<Rightarrow> uint8" where
  "role_at g i = snd (g ! i)"

definition set_role :: "nat \<Rightarrow> uint8 \<Rightarrow> LfgRolesMap \<Rightarrow> LfgRolesMap" where
  "set_role i r g = g[i := (fst (g ! i), r)]"

text \<open>
  The loop at player \<open>i\<close> with the remaining blocks.  Removing a role from a player with several roles starts
  the whole check again on the changed map, which is not empty; when that fails the role is added again to
  the map it left behind.
\<close>

function roles_loop :: "LfgRolesMap \<Rightarrow> nat \<Rightarrow> role_block list \<Rightarrow> (role_block \<Rightarrow> uint8) \<Rightarrow> bool \<times> LfgRolesMap" where
  "roles_loop g i bs n =
     (if i < length g
      then case bs of
             [] \<Rightarrow> roles_loop g (Suc i) role_blocks n
           | b # bs' \<Rightarrow>
               (if b = Damage \<and> role_at g i = PLAYER_ROLE_NONE then (False, g)
                else if has_flag (role_at g i) (role_bit b)
                then if role_at g i \<noteq> role_bit b
                     then let (ok, g') = roles_loop (set_role i (role_at g i - role_bit b) g) 0 role_blocks (\<lambda>_. 0) in
                          if ok then (True, g')
                          else roles_loop (set_role i (role_at g' i + role_bit b) g') i bs' n
                     else if n b = role_needed b then (False, g)
                     else roles_loop g i bs' (n(b := n b + 1))
                else roles_loop g i bs' n)
      else (unat (n Tank) + unat (n Healer) + unat (n Damage) = unat (of_nat (length g) :: uint8), g))"
  by pat_completeness auto

lemma set_role_simps [simp]:
  "length (set_role i r g) = length g" "i < length g \<Longrightarrow> role_at (set_role i r g) i = r"
  "set_role i r (set_role i r' g) = set_role i r g" "i < length g \<Longrightarrow> set_role i (role_at g i) g = g"
  "map fst (set_role i r g) = map fst g"
  by (cases "i < length g"; auto simp: set_role_def role_at_def list_eq_iff_nth_eq nth_list_update)+

text \<open>A failed check leaves the map as it was.\<close>

lemma roles_loop_fails: "roles_loop_dom (g, i, bs, n) \<Longrightarrow> \<not> fst (roles_loop g i bs n) \<Longrightarrow> snd (roles_loop g i bs n) = g"
proof (induction rule: roles_loop.pinduct)
  case (1 g i bs n)
  note eq = roles_loop.psimps [OF "1.hyps"]
  show ?case
  proof (cases "i < length g")
    case False
    then show ?thesis using eq by simp
  next
    case i: True
    show ?thesis
    proof (cases bs)
      case Nil
      then show ?thesis using eq "1.IH"(1) "1.prems" i by simp
    next
      case (Cons b bs')
      note ih = "1.IH"(2-5) [OF i Cons]
      let ?g = "set_role i (role_at g i - role_bit b) g"
      let ?r = "roles_loop ?g 0 role_blocks (\<lambda>_. 0)"
      consider (none) "b = Damage \<and> role_at g i = 0"
        | (many) "\<not> (b = Damage \<and> role_at g i = 0)" "has_flag (role_at g i) (role_bit b)" "role_at g i \<noteq> role_bit b"
        | (one) "\<not> (b = Damage \<and> role_at g i = 0)" "has_flag (role_at g i) (role_bit b)" "role_at g i = role_bit b"
        | (other) "\<not> (b = Damage \<and> role_at g i = 0)" "\<not> has_flag (role_at g i) (role_bit b)"
        by blast
      then show ?thesis
      proof cases
        case many
        show ?thesis
        proof (cases "fst ?r")
          case True
          then show ?thesis
            using "1.prems" eq i Cons many by (simp add: case_prod_beta Let_def)
        next
          case False
          then have restored: "set_role i (role_at (snd ?r) i + role_bit b) (snd ?r) = g"
            using ih(1) many i by simp
          have step: "roles_loop g i bs n = roles_loop g i bs' n"
            using eq i Cons many False restored by (simp add: case_prod_beta Let_def)
          show ?thesis
            using ih(2) [OF many, of ?r "fst ?r" "snd ?r"] False "1.prems" unfolding restored step by (simp add: prod_eq_iff)
        qed
      qed (use eq i Cons "1.prems" ih in \<open>auto simp: fun_upd_def split: if_splits\<close>)
    qed
  qed
qed

lemma role_bit_le:
  assumes "has_flag r (role_bit b)"
  shows "role_bit b \<le> r" "unat (r - role_bit b) < unat r"
proof -
  have "r AND role_bit b = role_bit b"
  proof -
    obtain k where k: "role_bit b = push_bit k 1"
      by (cases b) (simp_all add: that [of 3] that [of 2] that [of 1] push_bit_eq_mult)
    then have "bit r k"
      using assms by (auto simp: has_flag_bit bit_simps)
    then show ?thesis
      by (intro bit_word_eqI) (auto simp: k bit_simps)
  qed
  then show le: "role_bit b \<le> r"
    using word_and_le2 [of r "role_bit b"] by simp
  have "0 < unat (role_bit b)" by (cases b) simp_all
  then show "unat (r - role_bit b) < unat r"
    using unat_sub [OF le] le by (simp add: word_le_nat_alt)
qed

definition role_weight :: "LfgRolesMap \<Rightarrow> nat" where
  "role_weight g = sum_list (map (\<lambda>p. unat (snd p)) g)"

lemma role_weight_less:
  assumes "i < length g" "has_flag (role_at g i) (role_bit b)"
  shows "role_weight (set_role i (role_at g i - role_bit b) g) < role_weight g"
proof -
  have "unat (role_at g i - role_bit b) < unat (role_at g i)"
    by (rule role_bit_le(2) [OF assms(2)])
  then have "sum_list ((map (\<lambda>p. unat (snd p)) g)[i := unat (role_at g i - role_bit b)]) < role_weight g"
    using assms(1) member_le_sum_list [of "unat (role_at g i)" "map (\<lambda>p. unat (snd p)) g"]
    by (simp add: role_weight_def sum_list_update role_at_def)
  then show ?thesis
    by (simp add: role_weight_def set_role_def map_update)
qed

lemma roles_loop_total: "All roles_loop_dom"
proof (rule "roles_loop.termination" [of "measures [\<lambda>(g, i, bs, n). role_weight g, \<lambda>(g, i, bs, n). length g - i,
    \<lambda>(g, i, bs, n). length bs]"], goal_cases)
  case (4 g i bs n b bs' x ok g')
  have "snd x = set_role i (role_at g i - role_bit b) g"
    using roles_loop_fails [OF 4(9)] 4(6-8) by (metis fst_conv snd_conv)
  then have "set_role i (role_at g' i + role_bit b) g' = g"
    using 4 by (metis add.commute diff_add_cancel set_role_simps(2-4) snd_conv)
  then show ?case using 4(2) by simp
qed (auto simp: role_weight_less)

termination roles_loop
  by (rule roles_loop_total)

declare roles_loop.simps [simp del]

lemma roles_loop_restores: "\<not> fst (roles_loop g i bs n) \<Longrightarrow> snd (roles_loop g i bs n) = g"
  by (rule roles_loop_fails [OF roles_loop_total [THEN spec]])

definition CheckGroupRoles :: "LfgRolesMap \<Rightarrow> bool \<times> LfgRolesMap" where
  "CheckGroupRoles groles =
     (if groles = [] then (False, groles)
      else roles_loop (map (\<lambda>(k, r). (k, r AND NOT PLAYER_ROLE_LEADER)) groles) 0 role_blocks (\<lambda>_. 0))"

text \<open>The steps of the loop.\<close>

lemma loop_end: "\<not> i < length g \<Longrightarrow>
    roles_loop g i bs n = (unat (n Tank) + unat (n Healer) + unat (n Damage) = unat (of_nat (length g) :: uint8), g)"
  by (subst roles_loop.simps) simp

lemma loop_player: "i < length g \<Longrightarrow> roles_loop g i [] n = roles_loop g (Suc i) role_blocks n"
  by (subst roles_loop.simps) simp

lemma loop_none: "i < length g \<Longrightarrow> role_at g i = 0 \<Longrightarrow> roles_loop g i (Damage # bs) n = (False, g)"
  by (subst roles_loop.simps) simp

lemma loop_many:
  assumes "i < length g" "has_flag (role_at g i) (role_bit b)" "role_at g i \<noteq> role_bit b"
  shows "roles_loop g i (b # bs) n =
    (let r = roles_loop (set_role i (role_at g i - role_bit b) g) 0 role_blocks (\<lambda>_. 0) in
     if fst r then (True, snd r) else roles_loop g i bs n)"
proof -
  let ?r = "roles_loop (set_role i (role_at g i - role_bit b) g) 0 role_blocks (\<lambda>_. 0)"
  have "set_role i (role_at (snd ?r) i + role_bit b) (snd ?r) = g" if "\<not> fst ?r"
    using roles_loop_restores [OF that] assms(1) by simp
  then show ?thesis
    using assms by (subst roles_loop.simps) (auto simp: case_prod_beta Let_def)
qed

lemma loop_one:
  assumes "i < length g" "role_at g i = role_bit b"
  shows "roles_loop g i (b # bs) n = (if n b = role_needed b then (False, g) else roles_loop g i bs (n(b := n b + 1)))"
proof -
  have "has_flag (role_bit b) (role_bit b)" "role_bit b \<noteq> 0"
    by (cases b; simp add: has_flag_def)+
  then show ?thesis
    using assms by (subst roles_loop.simps) auto
qed

lemma loop_other:
  assumes "i < length g" "\<not> has_flag (role_at g i) (role_bit b)" "\<not> (b = Damage \<and> role_at g i = 0)"
  shows "roles_loop g i (b # bs) n = roles_loop g i bs n"
  using assms by (subst roles_loop.simps) auto

text \<open>Induction along the loop.\<close>

lemma roles_induct [case_names End Player None Many One Other]:
  assumes End: "\<And>g i bs n. \<not> i < length g \<Longrightarrow> P g i bs n"
    and Player: "\<And>g i n. i < length g \<Longrightarrow> P g (Suc i) role_blocks n \<Longrightarrow> P g i [] n"
    and None: "\<And>g i bs n. i < length g \<Longrightarrow> role_at g i = 0 \<Longrightarrow> P g i (Damage # bs) n"
    and Many: "\<And>g i b bs n. i < length g \<Longrightarrow> has_flag (role_at g i) (role_bit b) \<Longrightarrow> role_at g i \<noteq> role_bit b \<Longrightarrow>
      P (set_role i (role_at g i - role_bit b) g) 0 role_blocks (\<lambda>_. 0) \<Longrightarrow>
      (\<not> fst (roles_loop (set_role i (role_at g i - role_bit b) g) 0 role_blocks (\<lambda>_. 0)) \<Longrightarrow> P g i bs n) \<Longrightarrow> P g i (b # bs) n"
    and One: "\<And>g i b bs n. i < length g \<Longrightarrow> role_at g i = role_bit b \<Longrightarrow>
      (n b \<noteq> role_needed b \<Longrightarrow> P g i bs (n(b := n b + 1))) \<Longrightarrow> P g i (b # bs) n"
    and Other: "\<And>g i b bs n. i < length g \<Longrightarrow> \<not> has_flag (role_at g i) (role_bit b) \<Longrightarrow>
      \<not> (b = Damage \<and> role_at g i = 0) \<Longrightarrow> P g i bs n \<Longrightarrow> P g i (b # bs) n"
  shows "P g i bs n"
proof (induction g i bs n rule: roles_loop.induct)
  case (1 g i bs n)
  consider "\<not> i < length g" | (none) "i < length g" "bs = []" | (some) b bs' where "i < length g" "bs = b # bs'"
    by (cases bs) auto
  then show ?case
  proof cases
    case (some b bs')
    note ih = "1.IH"(2-5) [OF some]
    let ?r = "roles_loop (set_role i (role_at g i - role_bit b) g) 0 role_blocks (\<lambda>_. 0)"
    have again: "P g i bs' n" if "\<not> (b = Damage \<and> role_at g i = 0)" "has_flag (role_at g i) (role_bit b)"
      "role_at g i \<noteq> role_bit b" "\<not> fst ?r"
    proof -
      have "set_role i (role_at (snd ?r) i + role_bit b) (snd ?r) = g"
        using roles_loop_restores [OF that(4)] some(1) by simp
      then show ?thesis
        using ih(2) [OF that(1-3), of ?r "fst ?r" "snd ?r"] that(4) by (simp add: prod_eq_iff)
    qed
    have "has_flag (role_bit b) (role_bit b)" by (cases b) (simp_all add: has_flag_def)
    then show ?thesis
      using some ih(1,3,4) again None Many One Other by (metis (no_types, lifting))
  qed (use "1.IH"(1) End Player in auto)
qed

text \<open>The specification: every player gets one of his roles, and no role is given more often than needed.\<close>

definition role_count :: "role_block \<Rightarrow> role_block list \<Rightarrow> nat" where
  "role_count b fs = length (filter ((=) b) fs)"

definition valid_roles :: "LfgRolesMap \<Rightarrow> role_block list \<Rightarrow> bool" where
  "valid_roles g fs \<longleftrightarrow> length fs = length g \<and> (\<forall>i < length g. has_flag (role_at g i) (role_bit (fs ! i))) \<and>
     (\<forall>b. role_count b fs \<le> unat (role_needed b))"

definition assigned_roles :: "LfgRolesMap \<Rightarrow> role_block list \<Rightarrow> LfgRolesMap" where
  "assigned_roles g fs = zip (map fst g) (map role_bit fs)"

text \<open>Bytes with no other flag than the three roles.\<close>

definition clean_role :: "uint8 \<Rightarrow> bool" where
  "clean_role r \<longleftrightarrow> r AND NOT 0x0E = 0"

definition clean_roles :: "LfgRolesMap \<Rightarrow> bool" where
  "clean_roles g \<longleftrightarrow> (\<forall>p \<in> set g. clean_role (snd p))"

lemma bit_14: "bit (0x0E :: uint8) k \<longleftrightarrow> k \<in> {1, 2, 3}"
proof -
  have "(0x0E :: uint8) = push_bit 1 1 OR (push_bit 2 1 OR push_bit 3 1)"
    by simp
  then show ?thesis
    by (simp only: bit_or_iff bit_push_bit_iff) (auto simp: bit_simps)
qed

fun role_pos :: "role_block \<Rightarrow> nat" where
  "role_pos Damage = 3"
| "role_pos Healer = 2"
| "role_pos Tank = 1"

lemma role_pos_inj [simp]: "role_pos b = role_pos d \<longleftrightarrow> b = d"
  by (cases b; cases d) simp_all

lemma role_bit_push: "role_bit b = push_bit (role_pos b) 1"
  by (cases b) simp_all

lemma bit_role_bit: "bit (role_bit b) k \<longleftrightarrow> k = role_pos b"
  by (cases b; simp only: role_bit_push bit_push_bit_iff; auto simp: bit_simps)

lemma has_role_bit: "has_flag r (role_bit b) \<longleftrightarrow> bit r (role_pos b)"
  by (auto simp: has_flag_bit bit_role_bit)

lemma clean_bits: "clean_role r \<longleftrightarrow> (\<forall>k. bit r k \<longrightarrow> k \<in> {1, 2, 3})"
proof -
  have "k < 8" if "bit r k" for k
    using bit_imp_le_length [OF that] by simp
  then show ?thesis
    unfolding clean_role_def bit_eq_iff bit_and_iff bit_not_iff bit_14 by auto
qed

lemma clean_role_flags:
  assumes "clean_role r"
  shows "r = role_bit b \<longleftrightarrow> (\<forall>d. has_flag r (role_bit d) \<longleftrightarrow> d = b)"
proof
  assume f: "\<forall>d. has_flag r (role_bit d) \<longleftrightarrow> d = b"
  have "bit r k \<longleftrightarrow> k = role_pos b" for k
  proof -
    have "\<exists>d. k = role_pos d" if "bit r k"
    proof -
      have "k = role_pos Damage \<or> k = role_pos Healer \<or> k = role_pos Tank"
        using that assms by (auto simp: clean_bits)
      then show ?thesis by blast
    qed
    then show ?thesis
      using f by (metis has_role_bit)
  qed
  then show "r = role_bit b"
    by (intro bit_word_eqI) (simp add: bit_role_bit)
qed (simp add: has_role_bit bit_role_bit)

lemma remove_role:
  assumes "has_flag r (role_bit b)"
  shows "clean_role (r - role_bit b) = clean_role r"
    and "has_flag (r - role_bit b) (role_bit d) \<longleftrightarrow> has_flag r (role_bit d) \<and> d \<noteq> b"
proof -
  have k: "bit r (role_pos b)" using assms by (simp add: has_role_bit)
  have "(r AND NOT (role_bit b)) + role_bit b = (r AND NOT (role_bit b)) OR role_bit b"
    by (rule disjunctive_add) (simp add: bit_simps)
  also have "\<dots> = r"
    using k by (intro bit_word_eqI) (auto simp: bit_simps bit_role_bit)
  finally have "r - role_bit b = r AND NOT (role_bit b)"
    by (simp add: algebra_simps)
  then have bits: "bit (r - role_bit b) j \<longleftrightarrow> bit r j \<and> j \<noteq> role_pos b" for j
    by (auto simp: bit_simps bit_role_bit dest: bit_imp_le_length)
  show "clean_role (r - role_bit b) = clean_role r"
  proof -
    have "role_pos b \<in> {1, 2, 3}" by (cases b) simp_all
    then show ?thesis unfolding clean_bits bits by blast
  qed
  show "has_flag (r - role_bit b) (role_bit d) \<longleftrightarrow> has_flag r (role_bit d) \<and> d \<noteq> b"
    by (auto simp: has_role_bit bits)
qed

text \<open>The counters of the loop count the players with exactly one role that have been passed.\<close>

definition passed :: "LfgRolesMap \<Rightarrow> nat \<Rightarrow> role_block list \<Rightarrow> role_block \<Rightarrow> nat" where
  "passed g i bs b = length (filter (\<lambda>j. role_at g j = role_bit b) [0..<i]) +
     (if i < length g \<and> b \<notin> set bs \<and> role_at g i = role_bit b then 1 else 0)"

definition loop_inv :: "LfgRolesMap \<Rightarrow> nat \<Rightarrow> role_block list \<Rightarrow> (role_block \<Rightarrow> uint8) \<Rightarrow> bool" where
  "loop_inv g i bs n \<longleftrightarrow> i \<le> length g \<and> distinct bs \<and>
     (\<forall>b. unat (n b) = passed g i bs b \<and> unat (n b) \<le> unat (role_needed b))"

lemma role_bit_inj [simp]: "role_bit b = role_bit d \<longleftrightarrow> b = d"
  by (cases b; cases d) simp_all

lemma set_role_blocks [simp]: "b \<in> set role_blocks" "distinct role_blocks"
  by (cases b; simp add: role_blocks_def)+

lemma inv_start: "loop_inv g 0 role_blocks (\<lambda>_. 0)"
  by (simp add: loop_inv_def passed_def)

lemma passed_player: "i < length g \<Longrightarrow> passed g (Suc i) role_blocks = passed g i []"
  by (rule ext) (simp add: passed_def)

lemma passed_skip: "role_at g i \<noteq> role_bit b \<Longrightarrow> passed g i bs = passed g i (b # bs)"
  by (rule ext) (auto simp: passed_def)

lemma passed_one:
  "i < length g \<Longrightarrow> role_at g i = role_bit b \<Longrightarrow> b \<notin> set bs \<Longrightarrow>
   passed g i bs = (passed g i (b # bs))(b := passed g i (b # bs) b + 1)"
  by (rule ext) (auto simp: passed_def)

lemma inv_player: "loop_inv g i [] n \<Longrightarrow> i < length g \<Longrightarrow> loop_inv g (Suc i) role_blocks n"
  unfolding loop_inv_def by (metis Suc_leI passed_player set_role_blocks(2))

lemma inv_skip: "loop_inv g i (b # bs) n \<Longrightarrow> role_at g i \<noteq> role_bit b \<Longrightarrow> loop_inv g i bs n"
  unfolding loop_inv_def by (metis distinct.simps(2) passed_skip)

lemma inv_one:
  assumes inv: "loop_inv g i (b # bs) n" and i: "i < length g" "role_at g i = role_bit b" and b: "n b \<noteq> role_needed b"
  shows "loop_inv g i bs (n(b := n b + 1))"
proof -
  have n: "unat (n d) = passed g i (b # bs) d" "unat (n d) \<le> unat (role_needed d)" "i \<le> length g" "distinct (b # bs)" for d
    using inv unfolding loop_inv_def by blast+
  have "unat (n b) < unat (role_needed b)"
    using n(2) [of b] b by (metis le_neq_implies_less word_unat_eq_iff)
  moreover have "unat (role_needed b) \<le> 3" by (cases b) simp_all
  ultimately have "unat (n b + 1) = unat (n b) + 1" "unat (n b) + 1 \<le> unat (role_needed b)"
    using unat_add_lem [of "n b" 1] by simp_all
  then show ?thesis
    using n passed_one [OF i] by (simp add: loop_inv_def)
qed

text \<open>At the end the counters add up to the number of players exactly when every player has one role.\<close>

lemma passed_sum:
  "passed g (length g) bs Tank + passed g (length g) bs Healer + passed g (length g) bs Damage =
     length (filter (\<lambda>j. \<exists>b. role_at g j = role_bit b) [0..<length g])"
proof -
  have ex: "(\<exists>b. r = role_bit b) \<longleftrightarrow> r = role_bit Tank \<or> r = role_bit Healer \<or> r = role_bit Damage" for r
    by (metis role_block.exhaust)
  have "length (filter (\<lambda>j. role_at g j = role_bit Tank) js) + length (filter (\<lambda>j. role_at g j = role_bit Healer) js) +
      length (filter (\<lambda>j. role_at g j = role_bit Damage) js) = length (filter (\<lambda>j. \<exists>b. role_at g j = role_bit b) js)" for js
    unfolding ex by (induction js) auto
  then show ?thesis
    by (simp add: passed_def)
qed

lemma all_single:
  assumes "length (filter P [0..<k]) = k"
  shows "\<forall>j < k. P j"
  using assms length_filter_less [of _ "[0..<k]" P] by fastforce

lemma role_count_nth: "role_count b fs = length (filter (\<lambda>j. fs ! j = b) [0..<length fs])"
proof -
  have "role_count b fs = length (filter ((=) b) (map ((!) fs) [0..<length fs]))"
    by (simp add: role_count_def map_nth)
  then show ?thesis
    by (simp add: filter_map o_def eq_commute [of b])
qed

lemma clean_set_role:
  assumes "i < length g" "has_flag (role_at g i) (role_bit b)"
  shows "clean_roles (set_role i (role_at g i - role_bit b) g) = clean_roles g"
proof -
  have "clean_roles h \<longleftrightarrow> (\<forall>j < length h. clean_role (role_at h j))" for h
    by (auto simp: clean_roles_def role_at_def all_set_conv_all_nth)
  moreover have "role_at (set_role i r g) j = (if j = i then r else role_at g j)" if "j < length g" for j r
    using that by (simp add: set_role_def role_at_def nth_list_update)
  ultimately show ?thesis
    using assms remove_role(1) [OF assms(2)] by auto
qed

lemma valid_set_role:
  assumes "i < length g" "has_flag (role_at g i) (role_bit b)"
  shows "valid_roles (set_role i (role_at g i - role_bit b) g) fs \<longleftrightarrow> valid_roles g fs \<and> fs ! i \<noteq> b"
proof -
  have "role_at (set_role i r g) j = (if j = i then r else role_at g j)" if "j < length g" for j r
    using that by (simp add: set_role_def role_at_def nth_list_update)
  then show ?thesis
    using assms(1) remove_role(2) [OF assms(2)] by (auto simp: valid_roles_def)
qed

lemma end_sound:
  assumes inv: "loop_inv g (length g) bs n" and len: "length g < 256"
    and sum: "unat (n Tank) + unat (n Healer) + unat (n Damage) = unat (of_nat (length g) :: uint8)"
  shows "clean_roles g \<and> (\<exists>fs. valid_roles g fs \<and> g = assigned_roles g fs)"
proof -
  have n: "unat (n b) = passed g (length g) bs b" "unat (n b) \<le> unat (role_needed b)" for b
    using inv unfolding loop_inv_def by blast+
  have "unat (of_nat (length g) :: uint8) = length g"
    using len by (simp add: unat_of_nat)
  then have "\<forall>j < length g. \<exists>b. role_at g j = role_bit b"
    using sum passed_sum [of g bs] by (intro all_single) (simp add: n(1))
  then obtain fs where fs: "length fs = length g" "\<forall>j < length g. role_at g j = role_bit (fs ! j)"
    using Skolem_list_nth [of "length g" "\<lambda>j b. role_at g j = role_bit b"] by blast
  have "role_count b fs = passed g (length g) bs b" for b
    unfolding role_count_nth passed_def using fs by (auto intro!: arg_cong [of _ _ length] filter_cong)
  then have "valid_roles g fs"
    using fs n by (simp add: valid_roles_def has_role_bit bit_role_bit)
  moreover have "g = assigned_roles g fs"
    using fs by (auto simp: assigned_roles_def role_at_def list_eq_iff_nth_eq prod_eq_iff)
  moreover have "clean_roles g"
    unfolding clean_roles_def
  proof
    fix p assume "p \<in> set g"
    then obtain j where "j < length g" "snd p = role_bit (fs ! j)"
      using fs(2) by (auto simp: in_set_conv_nth role_at_def)
    then show "clean_role (snd p)"
      by (cases "fs ! j") (simp_all add: clean_role_def)
  qed
  ultimately show ?thesis by blast
qed

lemma loop_sound:
  "loop_inv g i bs n \<Longrightarrow> length g < 256 \<Longrightarrow> fst (roles_loop g i bs n) \<Longrightarrow>
   clean_roles g \<and> (\<exists>fs. valid_roles g fs \<and> snd (roles_loop g i bs n) = assigned_roles g fs)"
proof (induction g i bs n rule: roles_induct)
  case (End g i bs n)
  then have "i = length g" by (simp add: loop_inv_def)
  then show ?case using end_sound [of g bs n] End by (simp add: loop_end)
next
  case (Many g i b bs n)
  let ?g = "set_role i (role_at g i - role_bit b) g"
  have "assigned_roles ?g = assigned_roles g"
    by (simp add: assigned_roles_def fun_eq_iff)
  then show ?case
    using Many inv_start [of ?g] inv_skip [OF Many.prems(1) Many.hyps(3)] loop_many [OF Many.hyps, of bs n]
      clean_set_role [OF Many.hyps(1,2)] valid_set_role [OF Many.hyps(1,2)]
    by (auto simp: Let_def split: if_splits)
next
  case (One g i b bs n)
  then show ?case
    using inv_one [OF One.prems(1) One.hyps] loop_one [OF One.hyps, of bs n] by (auto simp: fun_upd_def split: if_splits)
next
  case (Other g i b bs n)
  then have "role_at g i \<noteq> role_bit b" by (auto simp: has_role_bit bit_role_bit)
  then show ?case
    using Other.IH inv_skip [OF Other.prems(1)] Other.prems loop_other [OF Other.hyps, of bs n] by simp
qed (simp_all add: loop_player loop_none inv_player)

text \<open>Completeness: the players that have been passed have the role of a valid assignment, and of the player at
  hand no role is left whose block has been passed, except that of the assignment.\<close>

definition follows :: "LfgRolesMap \<Rightarrow> role_block list \<Rightarrow> nat \<Rightarrow> role_block list \<Rightarrow> bool" where
  "follows g fs i bs \<longleftrightarrow> (\<forall>j < i. role_at g j = role_bit (fs ! j)) \<and>
     (i < length g \<longrightarrow> (\<forall>d. d \<notin> set bs \<and> d \<noteq> fs ! i \<longrightarrow> \<not> has_flag (role_at g i) (role_bit d)))"

lemma clean_role_at: "clean_roles g \<Longrightarrow> i < length g \<Longrightarrow> clean_role (role_at g i)"
  by (simp add: clean_roles_def role_at_def)

lemma end_complete:
  assumes inv: "loop_inv g (length g) bs n" and len: "length g < 256" and fs: "follows g fs (length g) bs"
  shows "unat (n Tank) + unat (n Healer) + unat (n Damage) = unat (of_nat (length g) :: uint8)"
proof -
  have "unat (n b) = passed g (length g) bs b" for b
    using inv unfolding loop_inv_def by blast
  moreover have "filter (\<lambda>j. \<exists>b. role_at g j = role_bit b) [0..<length g] = [0..<length g]"
    using fs by (auto simp: follows_def filter_id_conv)
  ultimately show ?thesis
    using passed_sum [of g bs] len by (simp add: unat_of_nat)
qed

lemma one_room:
  assumes inv: "loop_inv g i (b # bs) n" and v: "valid_roles g fs" and f: "follows g fs i (b # bs)"
    and i: "i < length g" "role_at g i = role_bit b"
  shows "n b \<noteq> role_needed b" "fs ! i = b"
proof -
  show b: "fs ! i = b"
    using v i by (auto simp: valid_roles_def has_role_bit bit_role_bit)
  have len: "length fs = length g" using v by (simp add: valid_roles_def)
  have "unat (n b) = length (filter (\<lambda>j. role_at g j = role_bit b) [0..<i])"
    using inv unfolding loop_inv_def passed_def by simp
  also have "\<dots> = length (filter (\<lambda>j. fs ! j = b) [0..<i])"
    using f by (auto simp: follows_def intro!: arg_cong [of _ _ length] filter_cong)
  also have "\<dots> < length (filter (\<lambda>j. fs ! j = b) [0..<length fs])"
  proof -
    have "[0..<length fs] = [0..<i] @ i # [Suc i..<length fs]"
      using i(1) len by (metis le_add_diff_inverse less_imp_le upt_add_eq_append upt_conv_Cons zero_le)
    then show ?thesis using b by simp
  qed
  also have "\<dots> \<le> unat (role_needed b)"
    using v unfolding valid_roles_def role_count_nth by blast
  finally show "n b \<noteq> role_needed b" by auto
qed

lemma loop_complete:
  "loop_inv g i bs n \<Longrightarrow> length g < 256 \<Longrightarrow> clean_roles g \<Longrightarrow> valid_roles g fs \<Longrightarrow> follows g fs i bs \<Longrightarrow>
   fst (roles_loop g i bs n)"
proof (induction g i bs n arbitrary: fs rule: roles_induct)
  case (End g i bs n)
  then have "i = length g" by (simp add: loop_inv_def)
  then show ?case using end_complete [of g bs n fs] End by (simp add: loop_end)
next
  case (Player g i n)
  have "role_at g i = role_bit (fs ! i)"
    using Player clean_role_flags [OF clean_role_at [OF Player.prems(3) Player.hyps], of "fs ! i"]
    by (auto simp: follows_def valid_roles_def)
  then have "follows g fs (Suc i) role_blocks"
    using Player.prems(5) by (auto simp: follows_def less_Suc_eq)
  then show ?case
    using Player by (simp add: loop_player inv_player)
next
  case (None g i bs n)
  then show ?case by (auto simp: valid_roles_def)
next
  case (Many g i b bs n)
  let ?g = "set_role i (role_at g i - role_bit b) g"
  show ?case
  proof (cases "fs ! i = b")
    case True
    then have "follows g fs i bs"
      using Many.prems(5) by (auto simp: follows_def)
    then show ?thesis
      using Many inv_skip [OF Many.prems(1) Many.hyps(3)] loop_many [OF Many.hyps, of bs n] by (auto simp: Let_def)
  next
    case False
    then have "fst (roles_loop ?g 0 role_blocks (\<lambda>_. 0))"
      using Many.IH(1) [OF inv_start, of fs] Many.prems clean_set_role [OF Many.hyps(1,2)] valid_set_role [OF Many.hyps(1,2)]
      by (simp add: follows_def)
    then show ?thesis
      using loop_many [OF Many.hyps, of bs n] by (simp add: Let_def)
  qed
next
  case (One g i b bs n)
  note room = one_room [OF One.prems(1,4,5) One.hyps]
  have "follows g fs i bs"
    using One.prems(5) room(2) by (auto simp: follows_def)
  then show ?case
    using One.IH [OF room(1) inv_one [OF One.prems(1) One.hyps room(1)] One.prems(2-4)] loop_one [OF One.hyps, of bs n] room(1)
    by (simp add: fun_upd_def)
next
  case (Other g i b bs n)
  have ne: "role_at g i \<noteq> role_bit b"
    using Other.hyps(2) by (auto simp: has_role_bit bit_role_bit)
  have "follows g fs i bs"
    using Other.prems(5) Other.hyps(2) by (auto simp: follows_def)
  then show ?case
    using Other inv_skip [OF Other.prems(1) ne] loop_other [OF Other.hyps, of bs n] by simp
qed

section \<open>Properties of roles\<close>

definition without_leader :: "LfgRolesMap \<Rightarrow> LfgRolesMap" where
  "without_leader g = map (\<lambda>(k, r). (k, r AND NOT PLAYER_ROLE_LEADER)) g"

text \<open>What the clients of the check use.\<close>

lemma CheckGroupRoles_sound:
  assumes "groles \<noteq> []" "length groles < 256" "fst (CheckGroupRoles groles)"
  shows "\<exists>fs. valid_roles (without_leader groles) fs \<and> snd (CheckGroupRoles groles) = assigned_roles groles fs"
proof -
  have "CheckGroupRoles groles = roles_loop (without_leader groles) 0 role_blocks (\<lambda>_. 0)"
    using assms(1) by (simp add: CheckGroupRoles_def without_leader_def)
  moreover have "assigned_roles (without_leader groles) = assigned_roles groles"
    by (simp add: assigned_roles_def without_leader_def fun_eq_iff case_prod_beta o_def)
  ultimately show ?thesis
    using loop_sound [OF inv_start, of "without_leader groles"] assms(2-3) by (simp add: without_leader_def)
qed

text \<open>(C16) The role check is exact: for up to 255 players the backtracking search ends and succeeds exactly when
  every player has selected only known roles and the roles can be distributed so that each player has one of
  his own, with at most one tank, one healer and three damage dealers.  On success the map holds such a
  distribution; on failure it is unchanged but for the leader flags.\<close>

theorem check_group_roles_exact:
  assumes "groles \<noteq> []" "length groles < 256"
  shows "(fst (CheckGroupRoles groles) \<longleftrightarrow> clean_roles (without_leader groles) \<and> (\<exists>fs. valid_roles (without_leader groles) fs)) \<and>
    (if fst (CheckGroupRoles groles)
     then \<exists>fs. valid_roles (without_leader groles) fs \<and> snd (CheckGroupRoles groles) = assigned_roles groles fs
     else snd (CheckGroupRoles groles) = without_leader groles)"
proof -
  let ?g = "without_leader groles"
  have c: "CheckGroupRoles groles = roles_loop ?g 0 role_blocks (\<lambda>_. 0)"
    using assms(1) by (simp add: CheckGroupRoles_def without_leader_def)
  have len: "length ?g < 256" using assms(2) by (simp add: without_leader_def)
  have "assigned_roles ?g = assigned_roles groles"
    by (simp add: assigned_roles_def without_leader_def fun_eq_iff case_prod_beta o_def)
  moreover have "follows ?g fs 0 role_blocks" for fs
    by (simp add: follows_def)
  ultimately show ?thesis
    using loop_sound [OF inv_start len] loop_complete [OF inv_start len] roles_loop_restores [of ?g] unfolding c by auto
qed

lemma all_blocks: "(\<forall>b. P b) \<longleftrightarrow> P Damage \<and> P Healer \<and> P Tank"
  by (metis role_block.exhaust)

theorem check_group_roles_exact_witness:
  "let groles = [(1, 0x0E), (2, 0x0B), (3, 0x08), (4, 0x0C), (5, 0x08)] in
   fst (CheckGroupRoles groles) \<and> (\<exists>fs. snd (CheckGroupRoles groles) = assigned_roles groles fs)"
proof -
  let ?g = "[(1, 0x0E), (2, 0x0B), (3, 0x08), (4, 0x0C), (5, 0x08)] :: LfgRolesMap"
  have "valid_roles (without_leader ?g) [Damage, Tank, Damage, Healer, Damage]"
    by (simp add: valid_roles_def without_leader_def role_at_def has_flag_def role_count_def All_less_Suc all_blocks)
  moreover have "clean_roles (without_leader ?g)"
    by (simp add: clean_roles_def without_leader_def clean_role_def)
  ultimately show ?thesis
    using check_group_roles_exact [of ?g] unfolding Let_def by auto
qed

end
