(* ===== verification/LFGQueue.thy ===== *)
theory LFGQueue
  imports LFG "HOL-Library.List_Lexorder" "HOL-Library.Char_ord"
begin

text \<open>
  The queue of the dungeon finder (\<open>DungeonFinding/LFGQueue.h\<close>, \<open>LFGQueue.cpp\<close>): the queued players and groups, the cache
  of compatible combinations, waiting times, and the search for groups, which creates proposals.  What the
  queue asks of the manager, of connected players, of the clock and of the random numbers is the record
  \<open>LfgEnv\<close>.  Dereferencing the end of a container is \<open>None\<close>.
\<close>

section \<open>Compatibility\<close>

datatype LfgCompatibility =
    LFG_COMPATIBILITY_PENDING
  | LFG_INCOMPATIBLES_WRONG_GROUP_SIZE
  | LFG_INCOMPATIBLES_TOO_MUCH_PLAYERS
  | LFG_INCOMPATIBLES_MULTIPLE_LFG_GROUPS
  | LFG_INCOMPATIBLES_HAS_IGNORES
  | LFG_INCOMPATIBLES_NO_ROLES
  | LFG_INCOMPATIBLES_NO_DUNGEONS
  | LFG_COMPATIBLES_WITH_LESS_PLAYERS
  | LFG_COMPATIBLES_BAD_STATES
  | LFG_COMPATIBLES_MATCH

text \<open>Enumerators compare by their position.\<close>

fun compat_value :: "LfgCompatibility \<Rightarrow> nat" where
  "compat_value LFG_COMPATIBILITY_PENDING = 0"
| "compat_value LFG_INCOMPATIBLES_WRONG_GROUP_SIZE = 1"
| "compat_value LFG_INCOMPATIBLES_TOO_MUCH_PLAYERS = 2"
| "compat_value LFG_INCOMPATIBLES_MULTIPLE_LFG_GROUPS = 3"
| "compat_value LFG_INCOMPATIBLES_HAS_IGNORES = 4"
| "compat_value LFG_INCOMPATIBLES_NO_ROLES = 5"
| "compat_value LFG_INCOMPATIBLES_NO_DUNGEONS = 6"
| "compat_value LFG_COMPATIBLES_WITH_LESS_PLAYERS = 7"
| "compat_value LFG_COMPATIBLES_BAD_STATES = 8"
| "compat_value LFG_COMPATIBLES_MATCH = 9"

instantiation LfgCompatibility :: linorder
begin

definition less_eq_LfgCompatibility :: "LfgCompatibility \<Rightarrow> LfgCompatibility \<Rightarrow> bool" where
  "less_eq_LfgCompatibility c c' \<longleftrightarrow> compat_value c \<le> compat_value c'"

definition less_LfgCompatibility :: "LfgCompatibility \<Rightarrow> LfgCompatibility \<Rightarrow> bool" where
  "less_LfgCompatibility c c' \<longleftrightarrow> compat_value c < compat_value c'"

instance
proof
  have inj: "compat_value c = compat_value c' \<Longrightarrow> c = c'" for c c'
    by (cases c; cases c') simp_all
  fix c c' c'' :: LfgCompatibility
  show "c = c'" if "c \<le> c'" "c' \<le> c"
    using that inj by (simp add: less_eq_LfgCompatibility_def)
qed (auto simp: less_eq_LfgCompatibility_def less_LfgCompatibility_def)

end

definition GetCompatibleString :: "LfgCompatibility \<Rightarrow> string" where
  "GetCompatibleString compatibles =
     (case compatibles of
        LFG_COMPATIBILITY_PENDING \<Rightarrow> ''Pending''
      | LFG_COMPATIBLES_BAD_STATES \<Rightarrow> ''Compatibles (Bad States)''
      | LFG_COMPATIBLES_MATCH \<Rightarrow> ''Match''
      | LFG_COMPATIBLES_WITH_LESS_PLAYERS \<Rightarrow> ''Compatibles (Not enough players)''
      | LFG_INCOMPATIBLES_HAS_IGNORES \<Rightarrow> ''Has ignores''
      | LFG_INCOMPATIBLES_MULTIPLE_LFG_GROUPS \<Rightarrow> ''Multiple Lfg Groups''
      | LFG_INCOMPATIBLES_NO_DUNGEONS \<Rightarrow> ''Incompatible dungeons''
      | LFG_INCOMPATIBLES_NO_ROLES \<Rightarrow> ''Incompatible roles''
      | LFG_INCOMPATIBLES_TOO_MUCH_PLAYERS \<Rightarrow> ''Too much players''
      | LFG_INCOMPATIBLES_WRONG_GROUP_SIZE \<Rightarrow> ''Wrong group size'')"

text \<open>The key of a combination: its guids in ascending order, each once.\<close>

fun join_guids :: "uint64 list \<Rightarrow> string" where
  "join_guids [] = []"
| "join_guids (g # gs) = show_nat (unat g) @ concat (map (\<lambda>g. CHR ''|'' # show_nat (unat g)) gs)"

definition ConcatenateGuids :: "uint64 list \<Rightarrow> string" where
  "ConcatenateGuids check = (if check = [] then [] else join_guids (fold os_insert check []))"

text \<open>\<open>std::string::find\<close> other than \<open>npos\<close>.\<close>

fun contains :: "string \<Rightarrow> string \<Rightarrow> bool" where
  "contains p [] \<longleftrightarrow> p = []"
| "contains p (c # s) \<longleftrightarrow> take (length p) (c # s) = p \<or> contains p s"

section \<open>The state of a queue\<close>

record LfgCompatibilityData =
  cd_compatibility :: LfgCompatibility
  cd_roles :: LfgRolesMap

record LfgQueueData =
  qd_joinTime :: int
  qd_tanks :: uint8
  qd_healers :: uint8
  qd_dps :: uint8
  qd_dungeons :: LfgDungeonSet
  qd_roles :: LfgRolesMap
  qd_bestCompatible :: string

record LfgWaitTime =
  wt_time :: uint32
  wt_number :: uint32

record LFGQueue =
  QueueDataStore :: "(uint64, LfgQueueData) omap"
  CompatibleMapStore :: "(string, LfgCompatibilityData) omap"
  waitTimesAvgStore :: "(uint32, LfgWaitTime) omap"
  waitTimesTankStore :: "(uint32, LfgWaitTime) omap"
  waitTimesHealerStore :: "(uint32, LfgWaitTime) omap"
  waitTimesDpsStore :: "(uint32, LfgWaitTime) omap"
  currentQueueStore :: "uint64 list"
  newToQueueStore :: "uint64 list"

definition LfgQueueData_new :: "int \<Rightarrow> LfgQueueData" where
  "LfgQueueData_new now = \<lparr>qd_joinTime = now, qd_tanks = LFG_TANKS_NEEDED, qd_healers = LFG_HEALERS_NEEDED, qd_dps = LFG_DPS_NEEDED,
     qd_dungeons = [], qd_roles = [], qd_bestCompatible = []\<rparr>"

definition LfgQueueData_init :: "int \<Rightarrow> LfgDungeonSet \<Rightarrow> LfgRolesMap \<Rightarrow> LfgQueueData" where
  "LfgQueueData_init joinTime dungeons roles = \<lparr>qd_joinTime = joinTime, qd_tanks = LFG_TANKS_NEEDED, qd_healers = LFG_HEALERS_NEEDED,
     qd_dps = LFG_DPS_NEEDED, qd_dungeons = dungeons, qd_roles = roles, qd_bestCompatible = []\<rparr>"

definition LfgCompatibilityData_new :: LfgCompatibilityData where
  "LfgCompatibilityData_new = \<lparr>cd_compatibility = LFG_COMPATIBILITY_PENDING, cd_roles = []\<rparr>"

text \<open>A waiting time is an \<open>int32\<close>, kept here as its 32 bits; it starts as -1.\<close>

definition LfgWaitTime_new :: LfgWaitTime where
  "LfgWaitTime_new = \<lparr>wt_time = - 1, wt_number = 0\<rparr>"

definition LFGQueue_new :: LFGQueue where
  "LFGQueue_new = \<lparr>QueueDataStore = [], CompatibleMapStore = [], waitTimesAvgStore = [], waitTimesTankStore = [],
     waitTimesHealerStore = [], waitTimesDpsStore = [], currentQueueStore = [], newToQueueStore = []\<rparr>"

section \<open>Joining and leaving\<close>

definition AddToNewQueue :: "uint64 \<Rightarrow> LFGQueue \<Rightarrow> LFGQueue" where
  "AddToNewQueue guid q = q\<lparr>newToQueueStore := newToQueueStore q @ [guid]\<rparr>"

definition RemoveFromNewQueue :: "uint64 \<Rightarrow> LFGQueue \<Rightarrow> LFGQueue" where
  "RemoveFromNewQueue guid q = q\<lparr>newToQueueStore := removeAll guid (newToQueueStore q)\<rparr>"

definition AddToCurrentQueue :: "uint64 \<Rightarrow> LFGQueue \<Rightarrow> LFGQueue" where
  "AddToCurrentQueue guid q = q\<lparr>currentQueueStore := currentQueueStore q @ [guid]\<rparr>"

definition RemoveFromCurrentQueue :: "uint64 \<Rightarrow> LFGQueue \<Rightarrow> LFGQueue" where
  "RemoveFromCurrentQueue guid q = q\<lparr>currentQueueStore := removeAll guid (currentQueueStore q)\<rparr>"

definition AddToQueue :: "uint64 \<Rightarrow> LFGQueue \<Rightarrow> LFGQueue" where
  "AddToQueue guid q = (if om_get (QueueDataStore q) guid = None then q else AddToNewQueue guid q)"

definition AddQueueData :: "uint64 \<Rightarrow> int \<Rightarrow> LfgDungeonSet \<Rightarrow> LfgRolesMap \<Rightarrow> LFGQueue \<Rightarrow> LFGQueue" where
  "AddQueueData guid joinTime dungeons rolesMap q =
     AddToQueue guid (q\<lparr>QueueDataStore := om_put guid (LfgQueueData_init joinTime dungeons rolesMap) (QueueDataStore q)\<rparr>)"

definition RemoveQueueData :: "uint64 \<Rightarrow> LFGQueue \<Rightarrow> LFGQueue" where
  "RemoveQueueData guid q = q\<lparr>QueueDataStore := om_erase guid (QueueDataStore q)\<rparr>"

definition RemoveFromCompatibles :: "uint64 \<Rightarrow> LFGQueue \<Rightarrow> LFGQueue" where
  "RemoveFromCompatibles guid q =
     q\<lparr>CompatibleMapStore := filter (\<lambda>(key, _). \<not> contains (show_nat (unat guid)) key) (CompatibleMapStore q)\<rparr>"

definition SetCompatibles :: "string \<Rightarrow> LfgCompatibility \<Rightarrow> LFGQueue \<Rightarrow> LFGQueue" where
  "SetCompatibles key compatibles q =
     (let data = (case om_get (CompatibleMapStore q) key of None \<Rightarrow> LfgCompatibilityData_new | Some data \<Rightarrow> data) in
      q\<lparr>CompatibleMapStore := om_put key (data\<lparr>cd_compatibility := compatibles\<rparr>) (CompatibleMapStore q)\<rparr>)"

definition SetCompatibilityData :: "string \<Rightarrow> LfgCompatibilityData \<Rightarrow> LFGQueue \<Rightarrow> LFGQueue" where
  "SetCompatibilityData key data q = q\<lparr>CompatibleMapStore := om_put key data (CompatibleMapStore q)\<rparr>"

definition GetCompatibles :: "string \<Rightarrow> LFGQueue \<Rightarrow> LfgCompatibility" where
  "GetCompatibles key q =
     (case om_get (CompatibleMapStore q) key of Some data \<Rightarrow> cd_compatibility data | None \<Rightarrow> LFG_COMPATIBILITY_PENDING)"

definition GetCompatibilityData :: "string \<Rightarrow> LFGQueue \<Rightarrow> LfgCompatibilityData option" where
  "GetCompatibilityData key q = om_get (CompatibleMapStore q) key"

text \<open>The best combination of an entry is the one with most guids; the missing roles are counted from it.\<close>

definition take_role :: "uint8 \<Rightarrow> LfgQueueData \<Rightarrow> LfgQueueData" where
  "take_role role d =
     (if has_flag role PLAYER_ROLE_TANK then d\<lparr>qd_tanks := qd_tanks d - 1\<rparr>
      else if has_flag role PLAYER_ROLE_HEALER then d\<lparr>qd_healers := qd_healers d - 1\<rparr>
      else d\<lparr>qd_dps := qd_dps d - 1\<rparr>)"

definition UpdateBestCompatibleInQueue :: "string \<Rightarrow> LfgRolesMap \<Rightarrow> LfgQueueData \<Rightarrow> LfgQueueData" where
  "UpdateBestCompatibleInQueue key roles d =
     (let storedSize = (if qd_bestCompatible d = [] then 0 else of_nat (count_list (qd_bestCompatible d) (CHR ''|'') + 1)) :: uint8;
          size = of_nat (count_list key (CHR ''|'') + 1) :: uint8 in
      if size \<le> storedSize then d
      else fold (\<lambda>(_, role). take_role role) roles
             (d\<lparr>qd_bestCompatible := key, qd_tanks := LFG_TANKS_NEEDED, qd_healers := LFG_HEALERS_NEEDED, qd_dps := LFG_DPS_NEEDED\<rparr>))"

definition FindBestCompatibleInQueue :: "(string, LfgCompatibilityData) omap \<Rightarrow> uint64 \<Rightarrow> LfgQueueData \<Rightarrow> LfgQueueData" where
  "FindBestCompatibleInQueue compatibles guid d =
     fold (\<lambda>(key, data) d.
         if cd_compatibility data = LFG_COMPATIBLES_WITH_LESS_PLAYERS \<and> contains (show_nat (unat guid)) key
         then UpdateBestCompatibleInQueue key (cd_roles data) d else d)
       compatibles d"

definition forget_best :: "uint64 \<Rightarrow> (string, LfgCompatibilityData) omap \<Rightarrow> uint64 \<Rightarrow> LfgQueueData \<Rightarrow> LfgQueueData" where
  "forget_best guid compatibles other d =
     (if other \<noteq> guid \<and> contains (show_nat (unat guid)) (qd_bestCompatible d)
      then FindBestCompatibleInQueue compatibles other (d\<lparr>qd_bestCompatible := []\<rparr>) else d)"

definition RemoveFromQueue :: "uint64 \<Rightarrow> LFGQueue \<Rightarrow> LFGQueue" where
  "RemoveFromQueue guid q =
     (let q = RemoveFromCompatibles guid (RemoveFromCurrentQueue guid (RemoveFromNewQueue guid q)) in
      q\<lparr>QueueDataStore := om_erase guid (map (\<lambda>(k, d). (k, forget_best guid (CompatibleMapStore q) k d)) (QueueDataStore q))\<rparr>)"

section \<open>Proposals\<close>

datatype LfgProposalState = LFG_PROPOSAL_INITIATING | LFG_PROPOSAL_FAILED | LFG_PROPOSAL_SUCCESS

record LfgProposalPlayer =
  pp_role :: uint8
  pp_accept :: LfgAnswer
  pp_group :: uint64

record LfgProposal =
  lp_id :: uint32
  lp_dungeonId :: uint32
  lp_state :: LfgProposalState
  lp_group :: uint64
  lp_leader :: uint64
  lp_cancelTime :: int
  lp_encounters :: uint32
  lp_isNew :: bool
  lp_queues :: "uint64 list"
  lp_showorder :: "uint64 list"
  lp_players :: "(uint64, LfgProposalPlayer) omap"

definition LfgProposal_new :: "uint32 \<Rightarrow> LfgProposal" where
  "LfgProposal_new dungeon = \<lparr>lp_id = 0, lp_dungeonId = dungeon, lp_state = LFG_PROPOSAL_INITIATING, lp_group = 0, lp_leader = 0,
     lp_cancelTime = 0, lp_encounters = 0, lp_isNew = True, lp_queues = [], lp_showorder = [], lp_players = []\<rparr>"

text \<open>
  What the queue asks of its surroundings.  \<open>le_urand n lo hi\<close> is the answer to the \<open>n\<close>-th call of \<open>urand\<close>;
  \<open>le_IgnoreList\<close> is \<open>PlayerSocial::HasIgnore\<close> of a connected player.
\<close>

record LfgEnv =
  le_State :: "uint64 \<Rightarrow> LfgState"
  le_OldState :: "uint64 \<Rightarrow> LfgState"
  le_IsLfgGroup :: "uint64 \<Rightarrow> bool"
  le_PlayerCount :: "uint64 \<Rightarrow> uint8"
  le_Connected :: "uint64 \<Rightarrow> bool"
  le_IgnoreList :: "uint64 \<Rightarrow> uint32 \<Rightarrow> bool"
  le_now :: int
  le_urand :: "nat \<Rightarrow> uint32 \<Rightarrow> uint32 \<Rightarrow> uint32"

definition HasIgnore :: "LfgEnv \<Rightarrow> uint64 \<Rightarrow> uint64 \<Rightarrow> bool" where
  "HasIgnore env guid1 guid2 \<longleftrightarrow>
     le_Connected env guid1 \<and> le_Connected env guid2 \<and>
     (le_IgnoreList env guid1 (GUID_LOPART guid2) \<or> le_IgnoreList env guid2 (GUID_LOPART guid1))"

definition AllQueued :: "LfgEnv \<Rightarrow> uint64 list \<Rightarrow> bool" where
  "AllQueued env check \<longleftrightarrow> check \<noteq> [] \<and> list_all (\<lambda>g. le_State env g = LFG_STATE_QUEUED) check"

text \<open>The queue during a search, the proposals handed to \<open>LFGMgr::AddProposal\<close> in their order, and the number of
  random numbers drawn.\<close>

record Matching =
  mt_queue :: LFGQueue
  mt_proposals :: "LfgProposal list"
  mt_draws :: nat

definition on_queue :: "(LFGQueue \<Rightarrow> LFGQueue) \<Rightarrow> Matching \<Rightarrow> Matching" where
  "on_queue f s = s\<lparr>mt_queue := f (mt_queue s)\<rparr>"

section \<open>Checking one combination\<close>

abbreviation MAXGROUPSIZE :: nat where "MAXGROUPSIZE \<equiv> 5"
abbreviation LFG_TIME_PROPOSAL :: int where "LFG_TIME_PROPOSAL \<equiv> 45"

type_synonym LfgGroupsMap = "(uint64, uint64) omap"

text \<open>The loop over the guids: players, dungeon groups, the first of these, the group each player came with.  A guid
  without queue data ends it.\<close>

fun count_loop :: "LfgEnv \<Rightarrow> LFGQueue \<Rightarrow> uint64 list \<Rightarrow> uint8 \<times> uint8 \<times> uint64 \<times> LfgGroupsMap \<Rightarrow>
    uint64 + (uint8 \<times> uint8 \<times> uint64 \<times> LfgGroupsMap)" where
  "count_loop env q [] acc = Inr acc"
| "count_loop env q (guid # gs) (numPlayers, numLfgGroups, grp, groups) =
     (if numLfgGroups < 2 \<and> numPlayers \<le> of_nat MAXGROUPSIZE
      then case om_get (QueueDataStore q) guid of
             None \<Rightarrow> Inl guid
           | Some d \<Rightarrow>
               (let groups = fold (\<lambda>p. om_put p (if IS_GROUP_GUID guid then guid else 0)) (om_keys (qd_roles d)) groups;
                    numPlayers = numPlayers + of_nat (length (qd_roles d)) in
                if le_IsLfgGroup env guid
                then count_loop env q gs (numPlayers, numLfgGroups + 1, if numLfgGroups = 0 then guid else grp, groups)
                else count_loop env q gs (numPlayers, numLfgGroups, grp, groups))
      else Inr (numPlayers, numLfgGroups, grp, groups))"

text \<open>\<open>QueueDataStore[guid]\<close> of a guid that the loop has found.\<close>

definition queue_data :: "LFGQueue \<Rightarrow> uint64 \<Rightarrow> LfgQueueData" where
  "queue_data q guid = (case om_get (QueueDataStore q) guid of Some d \<Rightarrow> d | None \<Rightarrow> LfgQueueData_new 0)"

definition add_player :: "LfgEnv \<Rightarrow> uint64 \<times> uint8 \<Rightarrow> LfgRolesMap \<Rightarrow> LfgRolesMap" where
  "add_player env = (\<lambda>(guid, role) proposalRoles.
     if list_ex (\<lambda>other. guid \<noteq> other \<and> HasIgnore env guid other) (om_keys proposalRoles) then proposalRoles
     else om_put guid role proposalRoles)"

definition collect_roles :: "LfgEnv \<Rightarrow> LFGQueue \<Rightarrow> uint64 list \<Rightarrow> LfgRolesMap" where
  "collect_roles env q check = fold (\<lambda>guid. fold (add_player env) (qd_roles (queue_data q guid))) check []"

fun set_intersection :: "uint32 list \<Rightarrow> uint32 list \<Rightarrow> uint32 list" where
  "set_intersection (a # as) (b # bs) =
     (if a < b then set_intersection as (b # bs)
      else if b < a then set_intersection (a # as) bs
      else a # set_intersection as bs)"
| "set_intersection _ _ = []"

definition common_dungeons :: "LFGQueue \<Rightarrow> uint64 list \<Rightarrow> LfgDungeonSet" where
  "common_dungeons q check =
     fold (\<lambda>guid dungeons. set_intersection dungeons (qd_dungeons (queue_data q guid))) (tl check)
       (qd_dungeons (queue_data q (hd check)))"

text \<open>The roles and dungeons of the combination, or why there are none.\<close>

definition merge_groups :: "LfgEnv \<Rightarrow> LFGQueue \<Rightarrow> uint64 list \<Rightarrow> uint8 \<Rightarrow> LfgCompatibility + (LfgRolesMap \<times> LfgDungeonSet)" where
  "merge_groups env q check numPlayers =
     (if length check > 1
      then let proposalRoles = collect_roles env q check in
           if numPlayers - of_nat (length proposalRoles) \<noteq> 0 then Inl LFG_INCOMPATIBLES_HAS_IGNORES
           else let (ok, proposalRoles) = CheckGroupRoles proposalRoles in
             if \<not> ok then Inl LFG_INCOMPATIBLES_NO_ROLES
             else let proposalDungeons = common_dungeons q check in
               if proposalDungeons = [] then Inl LFG_INCOMPATIBLES_NO_DUNGEONS
               else Inr (proposalRoles, proposalDungeons)
      else let d = queue_data q (hd check) in Inr (snd (CheckGroupRoles (qd_roles d)), qd_dungeons d))"

text \<open>The choice of the leader at one player: whether a candidate was seen, the leader so far, the draws.\<close>

definition choose_leader :: "LfgEnv \<Rightarrow> uint64 \<Rightarrow> uint8 \<Rightarrow> bool \<times> uint64 \<times> nat \<Rightarrow> bool \<times> uint64 \<times> nat" where
  "choose_leader env guid role = (\<lambda>(leader, who, n).
     if has_flag role PLAYER_ROLE_LEADER
     then if \<not> leader \<or> who = 0 then (True, guid, n)
          else (True, if le_urand env n 0 1 \<noteq> 0 then guid else who, n + 1)
     else if \<not> leader
     then if who = 0 then (leader, guid, n) else (leader, if le_urand env n 0 1 \<noteq> 0 then guid else who, n + 1)
     else (leader, who, n))"

definition proposal_player :: "LfgProposal \<Rightarrow> LfgGroupsMap \<Rightarrow> uint64 \<Rightarrow> uint8 \<Rightarrow> LfgProposalPlayer" where
  "proposal_player p groups guid role =
     (let grp = (case om_get groups guid of Some g \<Rightarrow> g | None \<Rightarrow> 0) in
      \<lparr>pp_role = role, pp_accept = (if \<not> lp_isNew p \<and> grp \<noteq> 0 \<and> grp = lp_group p then LFG_ANSWER_AGREE else LFG_ANSWER_PENDING),
       pp_group = grp\<rparr>)"

definition create_proposal ::
  "LfgEnv \<Rightarrow> uint64 list \<Rightarrow> uint8 \<Rightarrow> uint64 \<Rightarrow> LfgGroupsMap \<Rightarrow> LfgRolesMap \<Rightarrow> LfgDungeonSet \<Rightarrow> nat \<Rightarrow> (LfgProposal \<times> nat) option" where
  "create_proposal env check numLfgGroups grp groups roles dungeons n =
     (let i = le_urand env n 0 (of_nat (length dungeons) - 1) in
      if unat i < length dungeons
      then let (_, leader, n') = fold (\<lambda>(guid, role). choose_leader env guid role) roles (False, 0, n + 1);
               p = (LfgProposal_new (dungeons ! unat i))\<lparr>lp_group := grp, lp_queues := check,
                    lp_isNew := (numLfgGroups \<noteq> 1 \<or> le_OldState env (hd check) \<noteq> LFG_STATE_DUNGEON),
                    lp_cancelTime := le_now env + LFG_TIME_PROPOSAL, lp_leader := leader\<rparr> in
           Some (p\<lparr>lp_players := fold (\<lambda>(guid, role). om_put guid (proposal_player p groups guid role)) roles []\<rparr>, n')
      else None)"

definition leave_queues :: "uint64 list \<Rightarrow> LFGQueue \<Rightarrow> LFGQueue" where
  "leave_queues queues = fold (\<lambda>guid q. RemoveFromCurrentQueue guid (RemoveFromNewQueue guid q)) queues"

definition update_best :: "string \<Rightarrow> LfgRolesMap \<Rightarrow> uint64 \<Rightarrow> LFGQueue \<Rightarrow> LFGQueue" where
  "update_best key roles guid q =
     (case om_get (QueueDataStore q) guid of
        None \<Rightarrow> q
      | Some d \<Rightarrow> q\<lparr>QueueDataStore := om_put guid (UpdateBestCompatibleInQueue key roles d) (QueueDataStore q)\<rparr>)"

definition less_players :: "uint64 list \<Rightarrow> LfgRolesMap \<Rightarrow> LFGQueue \<Rightarrow> LFGQueue" where
  "less_players check roles q =
     (let key = ConcatenateGuids check in
      SetCompatibilityData key \<lparr>cd_compatibility = LFG_COMPATIBLES_WITH_LESS_PLAYERS, cd_roles = roles\<rparr>
        (fold (update_best key roles) check q))"

definition conclude :: "uint64 list \<Rightarrow> LfgCompatibility \<Rightarrow> Matching \<Rightarrow> (LfgCompatibility \<times> Matching) option" where
  "conclude check c s = Some (c, on_queue (SetCompatibles (ConcatenateGuids check) c) s)"

text \<open>The part of \<open>CheckCompatibility\<close> behind the check of all but the new guid.\<close>

definition check_combination :: "LfgEnv \<Rightarrow> uint64 list \<Rightarrow> Matching \<Rightarrow> (LfgCompatibility \<times> Matching) option" where
  "check_combination env check s =
     (let q = mt_queue s in
      case count_loop env q check (0, 0, 0, []) of
        Inl guid \<Rightarrow> Some (LFG_COMPATIBILITY_PENDING, on_queue (RemoveFromQueue guid) s)
      | Inr (numPlayers, numLfgGroups, grp, groups) \<Rightarrow>
          if length check = 1 \<and> numPlayers \<noteq> of_nat MAXGROUPSIZE
          then Some (LFG_COMPATIBLES_WITH_LESS_PLAYERS,
                 on_queue (less_players check (snd (CheckGroupRoles (qd_roles (queue_data q (hd check)))))) s)
          else if numLfgGroups > 1 then conclude check LFG_INCOMPATIBLES_MULTIPLE_LFG_GROUPS s
          else if numPlayers > of_nat MAXGROUPSIZE then conclude check LFG_INCOMPATIBLES_TOO_MUCH_PLAYERS s
          else case merge_groups env q check numPlayers of
                 Inl c \<Rightarrow> conclude check c s
               | Inr (roles, dungeons) \<Rightarrow>
                   if numPlayers \<noteq> of_nat MAXGROUPSIZE
                   then Some (LFG_COMPATIBLES_WITH_LESS_PLAYERS, on_queue (less_players check roles) s)
                   else if \<not> AllQueued env check then conclude check LFG_COMPATIBLES_BAD_STATES s
                   else case create_proposal env check numLfgGroups grp groups roles dungeons (mt_draws s) of
                          None \<Rightarrow> None
                        | Some (p, n) \<Rightarrow>
                            conclude check LFG_COMPATIBLES_MATCH
                              (on_queue (leave_queues check) (s\<lparr>mt_proposals := mt_proposals s @ [p], mt_draws := n\<rparr>)))"

fun CheckCompatibility :: "LfgEnv \<Rightarrow> uint64 list \<Rightarrow> Matching \<Rightarrow> (LfgCompatibility \<times> Matching) option" where
  "CheckCompatibility env [] s = Some (LFG_INCOMPATIBLES_WRONG_GROUP_SIZE, s)"
| "CheckCompatibility env (g # rest) s =
     (if length (g # rest) > MAXGROUPSIZE then Some (LFG_INCOMPATIBLES_WRONG_GROUP_SIZE, s)
      else if length (g # rest) > 2
      then case CheckCompatibility env rest s of
             None \<Rightarrow> None
           | Some (child_compatibles, s) \<Rightarrow>
               if child_compatibles < LFG_COMPATIBLES_WITH_LESS_PLAYERS then conclude (g # rest) child_compatibles s
               else check_combination env (g # rest) s
      else check_combination env (g # rest) s)"

section \<open>Searching for groups\<close>

text \<open>The first part of \<open>FindNewGroups\<close>: the cached compatibility or a new check, and the change from bad states to
  a match.\<close>

definition visit :: "LfgEnv \<Rightarrow> uint64 list \<Rightarrow> Matching \<Rightarrow> (LfgCompatibility \<times> Matching) option" where
  "visit env check s =
     (let strGuids = ConcatenateGuids check;
          compatibles = GetCompatibles strGuids (mt_queue s) in
      case (if compatibles = LFG_COMPATIBILITY_PENDING then CheckCompatibility env check s else Some (compatibles, s)) of
        None \<Rightarrow> None
      | Some (compatibles, s) \<Rightarrow>
          (if compatibles = LFG_COMPATIBLES_BAD_STATES \<and> AllQueued env check
           then Some (LFG_COMPATIBLES_MATCH, on_queue (SetCompatibles strGuids LFG_COMPATIBLES_MATCH) s)
           else Some (compatibles, s)))"

text \<open>
  The loop of \<open>FindNewGroups\<close> with the recursive call unfolded once: the call visits the longer combination and
  enters its own loop only with too few players.  The list of the other guids is passed by reference, so the
  outer loop goes on with what the inner one has left.
\<close>

function search_loop :: "LfgEnv \<Rightarrow> uint64 list \<Rightarrow> uint64 list \<Rightarrow> Matching \<Rightarrow> (LfgCompatibility \<times> uint64 list \<times> Matching) option" where
  "search_loop env check [] s = Some (LFG_COMPATIBLES_WITH_LESS_PLAYERS, [], s)"
| "search_loop env check (a # rest) s =
     (case visit env (check @ [a]) s of
        None \<Rightarrow> None
      | Some (c, s) \<Rightarrow>
          (if c = LFG_COMPATIBLES_WITH_LESS_PLAYERS
           then case search_loop env (check @ [a]) rest s of
                  None \<Rightarrow> None
                | Some (sub, rest', s) \<Rightarrow>
                    (if sub = LFG_COMPATIBLES_MATCH then Some (LFG_COMPATIBLES_MATCH, rest', s)
                     else search_loop env check rest' s)
           else if c = LFG_COMPATIBLES_MATCH then Some (LFG_COMPATIBLES_MATCH, rest, s)
           else search_loop env check rest s))"
  by pat_completeness auto

lemma search_loop_shrinks:
  "search_loop_dom (env, check, rest, s) \<Longrightarrow> search_loop env check rest s = Some (c, rest', s') \<Longrightarrow> length rest' \<le> length rest"
proof (induction arbitrary: c rest' s' rule: search_loop.pinduct)
  case (2 env check a rest s)
  note eq = search_loop.psimps(2) [OF "2.hyps"]
  from "2.prems" obtain v t where v: "visit env (check @ [a]) s = Some (v, t)"
    unfolding eq by (auto split: option.splits)
  show ?case
  proof (cases "v = LFG_COMPATIBLES_WITH_LESS_PLAYERS")
    case True
    with "2.prems" v obtain sub r u where inner: "search_loop env (check @ [a]) rest t = Some (sub, r, u)"
      unfolding eq by (auto split: option.splits)
    have len: "length r \<le> length rest"
      by (rule "2.IH"(1) [OF v refl True inner])
    show ?thesis
    proof (cases "sub = LFG_COMPATIBLES_MATCH")
      case False
      have "search_loop env check r u = Some (c, rest', s')"
        using "2.prems" v True inner False unfolding eq by simp
      from "2.IH"(2) [OF v refl True inner refl refl False this] len show ?thesis by simp
    qed (use "2.prems" v True inner len eq in auto)
  next
    case False
    then show ?thesis
      using "2.prems" v "2.IH"(3) [OF v refl False] unfolding eq by (fastforce split: if_splits)
  qed
qed (auto simp: search_loop.psimps)

termination search_loop
proof (relation "measure (\<lambda>(env, check, rest, s). length rest)", goal_cases)
  case (3 env check a rest s x v t y sub z r u)
  then show ?case using search_loop_shrinks [of env "check @ [a]" rest t sub r u] by auto
qed auto

declare search_loop.simps [simp del]

definition FindNewGroups :: "LfgEnv \<Rightarrow> uint64 list \<Rightarrow> uint64 list \<Rightarrow> Matching \<Rightarrow> (LfgCompatibility \<times> uint64 list \<times> Matching) option" where
  "FindNewGroups env check rest s =
     (case visit env check s of
        None \<Rightarrow> None
      | Some (c, s) \<Rightarrow> (if c = LFG_COMPATIBLES_WITH_LESS_PLAYERS then search_loop env check rest s else Some (c, rest, s)))"

text \<open>The loop is the one of the source: it calls \<open>FindNewGroups\<close> on the longer combination.\<close>

lemma search_loop_step:
  "search_loop env check (a # rest) s =
     (case FindNewGroups env (check @ [a]) rest s of
        None \<Rightarrow> None
      | Some (sub, rest', s) \<Rightarrow>
          (if sub = LFG_COMPATIBLES_MATCH then Some (LFG_COMPATIBLES_MATCH, rest', s) else search_loop env check rest' s))"
  by (simp add: search_loop.simps FindNewGroups_def split: option.splits)

section \<open>What the steps of a search keep\<close>

text \<open>A check that a combination is short of nothing but states is made only when not all are queued.\<close>

lemma combination_bad_states:
  "check_combination env check s = Some (LFG_COMPATIBLES_BAD_STATES, s') \<Longrightarrow> \<not> AllQueued env check"
  by (auto simp: check_combination_def conclude_def merge_groups_def Let_def case_prod_beta split: sum.splits if_splits option.splits)

lemma check_bad_states: "CheckCompatibility env check s = Some (LFG_COMPATIBLES_BAD_STATES, s') \<Longrightarrow> \<not> AllQueued env check"
  by (cases "(env, check, s)" rule: CheckCompatibility.cases)
    (auto simp: conclude_def less_LfgCompatibility_def dest: combination_bad_states split: if_splits option.splits)

text \<open>
  A search changes its state by checking combinations, by noting that a combination is refused, and by turning
  cached bad states into a match.  What these three keep, the search keeps.
\<close>

locale search_invariant =
  fixes env :: LfgEnv and inv :: "Matching \<Rightarrow> bool"
  assumes keeps_check: "inv s \<Longrightarrow> check \<noteq> [] \<Longrightarrow> length check \<le> MAXGROUPSIZE \<Longrightarrow> check_combination env check s = Some (c, s') \<Longrightarrow> inv s'"
    and keeps_refusal: "inv s \<Longrightarrow> c < LFG_COMPATIBLES_WITH_LESS_PLAYERS \<Longrightarrow> inv (on_queue (SetCompatibles key c) s)"
    and keeps_change: "inv s \<Longrightarrow> AllQueued env check \<Longrightarrow>
      GetCompatibles (ConcatenateGuids check) (mt_queue s) = LFG_COMPATIBLES_BAD_STATES \<Longrightarrow>
      inv (on_queue (SetCompatibles (ConcatenateGuids check) LFG_COMPATIBLES_MATCH) s)"
begin

lemma check_keeps: "inv s \<Longrightarrow> CheckCompatibility env check s = Some (c, s') \<Longrightarrow> inv s'"
proof (induction check arbitrary: c s')
  case (Cons g rest)
  show ?case
  proof (cases "length (g # rest) \<le> MAXGROUPSIZE \<and> length (g # rest) > 2")
    case True
    with Cons.prems(2) obtain child t where t: "CheckCompatibility env rest s = Some (child, t)"
      by (auto split: option.splits)
    show ?thesis
      using Cons.IH [OF Cons.prems(1) t] Cons.prems(2) t True keeps_check [of t "g # rest"] keeps_refusal
      by (auto simp: conclude_def split: if_splits)
  qed (use Cons.prems keeps_check [of s "g # rest"] in \<open>auto split: if_splits\<close>)
qed simp

lemma visit_keeps: "inv s \<Longrightarrow> visit env check s = Some (c, s') \<Longrightarrow> inv s'"
  using check_keeps [of s check] check_bad_states [of env check s] keeps_change [of s check]
  by (auto simp: visit_def Let_def split: if_splits option.splits)

lemma search_keeps_env: "e = env \<Longrightarrow> inv s \<Longrightarrow> search_loop e check rest s = Some (c, rest', s') \<Longrightarrow> inv s'"
proof (induction e check rest s arbitrary: c rest' s' rule: search_loop.induct)
  case (2 e check a rest s)
  note run = "2.prems"(3) [unfolded search_loop.simps(2)]
  from run obtain v t where v: "visit e (check @ [a]) s = Some (v, t)"
    by (auto split: option.splits)
  have t: "inv t"
    using visit_keeps [OF "2.prems"(2)] v "2.prems"(1) by simp
  show ?case
  proof (cases "v = LFG_COMPATIBLES_WITH_LESS_PLAYERS")
    case True
    with run v obtain sub r u where inner: "search_loop e (check @ [a]) rest t = Some (sub, r, u)"
      by (auto split: option.splits)
    have u: "inv u" by (rule "2.IH"(1) [OF v refl True "2.prems"(1) t inner])
    show ?thesis
      using run v True inner u "2.IH"(2) [OF v refl True inner refl refl _ "2.prems"(1) u] by (auto split: if_splits)
  qed (use run v t "2.IH"(3) [OF v refl _ _ "2.prems"(1) t] in \<open>auto split: if_splits\<close>)
qed (simp add: search_loop.simps)

lemmas search_keeps = search_keeps_env [OF refl]

lemma find_keeps: "inv s \<Longrightarrow> FindNewGroups env check rest s = Some (c, rest', s') \<Longrightarrow> inv s'"
  by (auto simp: FindNewGroups_def split: option.splits if_splits) (blast intro: visit_keeps search_keeps)+

end

text \<open>The outcomes of checking a combination.\<close>

lemma count_loop_missing: "count_loop env q gs acc = Inl guid \<Longrightarrow> guid \<in> set gs \<and> om_get (QueueDataStore q) guid = None"
  by (induction env q gs acc rule: count_loop.induct) (auto simp: Let_def split: if_splits option.splits)

definition add_proposal :: "uint64 list \<Rightarrow> LfgProposal \<Rightarrow> nat \<Rightarrow> Matching \<Rightarrow> Matching" where
  "add_proposal check p n s =
     on_queue (SetCompatibles (ConcatenateGuids check) LFG_COMPATIBLES_MATCH)
       (on_queue (leave_queues check) (s\<lparr>mt_proposals := mt_proposals s @ [p], mt_draws := n\<rparr>))"

definition matched :: "LfgEnv \<Rightarrow> LFGQueue \<Rightarrow> uint64 list \<Rightarrow> LfgProposal \<Rightarrow> nat \<Rightarrow> nat \<Rightarrow> bool" where
  "matched env q check p n n' \<longleftrightarrow> AllQueued env check \<and>
     (\<exists>numLfgGroups grp groups roles dungeons.
        count_loop env q check (0, 0, 0, []) = Inr (5, numLfgGroups, grp, groups) \<and> numLfgGroups \<le> 1 \<and>
        merge_groups env q check 5 = Inr (roles, dungeons) \<and>
        create_proposal env check numLfgGroups grp groups roles dungeons n = Some (p, n'))"

lemma merge_groups_refusal: "merge_groups env q check n = Inl c \<Longrightarrow> c < LFG_COMPATIBLES_WITH_LESS_PLAYERS"
  by (auto simp: merge_groups_def Let_def less_LfgCompatibility_def case_prod_beta split: if_splits)

lemma combination_cases:
  assumes "check_combination env check s = Some (c, s')"
  obtains (missing) guid where "guid \<in> set check" "om_get (QueueDataStore (mt_queue s)) guid = None"
      "c = LFG_COMPATIBILITY_PENDING" "s' = on_queue (RemoveFromQueue guid) s"
    | (less) roles where "c = LFG_COMPATIBLES_WITH_LESS_PLAYERS" "s' = on_queue (less_players check roles) s"
    | (refused) "c < LFG_COMPATIBLES_WITH_LESS_PLAYERS \<or> c = LFG_COMPATIBLES_BAD_STATES \<and> \<not> AllQueued env check"
      "s' = on_queue (SetCompatibles (ConcatenateGuids check) c) s"
    | (match) p n where "c = LFG_COMPATIBLES_MATCH" "matched env (mt_queue s) check p (mt_draws s) n" "s' = add_proposal check p n s"
proof (cases "count_loop env (mt_queue s) check (0, 0, 0, [])")
  case (Inl guid)
  then show ?thesis
    using assms missing count_loop_missing [OF Inl] by (auto simp: check_combination_def)
next
  case (Inr r)
  obtain np nl grp groups where r: "r = (np, nl, grp, groups)" by (cases r)
  note defs = check_combination_def Let_def Inr r conclude_def less_LfgCompatibility_def
  show ?thesis
  proof (cases "(length check = 1 \<and> np \<noteq> 5) \<or> nl > 1 \<or> np > 5")
    case True
    then show ?thesis
      using assms less refused by (auto simp: defs split: if_splits)
  next
    case False
    show ?thesis
    proof (cases "merge_groups env (mt_queue s) check np")
      case (Inl c')
      then show ?thesis
        using assms False refused merge_groups_refusal [OF Inl] by (auto simp: defs split: if_splits)
    next
      case (Inr m)
      then obtain roles dungeons where m: "merge_groups env (mt_queue s) check np = Inr (roles, dungeons)" by (cases m) auto
      show ?thesis
      proof (cases "np = 5 \<and> AllQueued env check")
        case True
        then have "matched env (mt_queue s) check p (mt_draws s) n"
          if "create_proposal env check nl grp groups roles dungeons (mt_draws s) = Some (p, n)" for p n
          using that False m \<open>count_loop env (mt_queue s) check (0, 0, 0, []) = Inr r\<close> r unfolding matched_def
          by (auto simp: not_less)
        then show ?thesis
          using assms False m True match by (auto simp: defs add_proposal_def split: option.splits)
      qed (use assms False m less refused in \<open>auto simp: defs split: if_splits\<close>)
    qed
  qed
qed

text \<open>The effect of the elementary operations on the parts of the state.\<close>

named_theorems lfg_simps \<open>parts of the queue after an operation\<close>

lemma on_queue_simps [simp]:
  "mt_queue (on_queue f s) = f (mt_queue s)" "mt_proposals (on_queue f s) = mt_proposals s" "mt_draws (on_queue f s) = mt_draws s"
  by (simp_all add: on_queue_def)

lemma SetCompatibles_simps [lfg_simps]:
  "newToQueueStore (SetCompatibles key c q) = newToQueueStore q" "currentQueueStore (SetCompatibles key c q) = currentQueueStore q"
  "QueueDataStore (SetCompatibles key c q) = QueueDataStore q"
  by (simp_all add: SetCompatibles_def Let_def)

lemma update_best_queues: "newToQueueStore (update_best key roles g q) = newToQueueStore q"
  "currentQueueStore (update_best key roles g q) = currentQueueStore q" "CompatibleMapStore (update_best key roles g q) = CompatibleMapStore q"
  by (simp_all add: update_best_def split: option.splits)

lemma fold_update_best_queues: "newToQueueStore (fold (update_best key roles) gs q) = newToQueueStore q"
  "currentQueueStore (fold (update_best key roles) gs q) = currentQueueStore q"
  "CompatibleMapStore (fold (update_best key roles) gs q) = CompatibleMapStore q"
  by (induction gs arbitrary: q) (simp_all add: update_best_queues)

lemma less_players_simps [lfg_simps]:
  "newToQueueStore (less_players check roles q) = newToQueueStore q" "currentQueueStore (less_players check roles q) = currentQueueStore q"
  "QueueDataStore (less_players check roles q) = QueueDataStore (fold (update_best (ConcatenateGuids check) roles) check q)"
  "CompatibleMapStore (less_players check roles q) =
     om_put (ConcatenateGuids check) \<lparr>cd_compatibility = LFG_COMPATIBLES_WITH_LESS_PLAYERS, cd_roles = roles\<rparr> (CompatibleMapStore q)"
  by (simp_all add: less_players_def Let_def SetCompatibilityData_def fold_update_best_queues)

lemma RemoveFromQueue_simps [lfg_simps]:
  "newToQueueStore (RemoveFromQueue guid q) = removeAll guid (newToQueueStore q)"
  "currentQueueStore (RemoveFromQueue guid q) = removeAll guid (currentQueueStore q)"
  "CompatibleMapStore (RemoveFromQueue guid q) = filter (\<lambda>(key, _). \<not> contains (show_nat (unat guid)) key) (CompatibleMapStore q)"
  by (simp_all add: RemoveFromQueue_def Let_def RemoveFromCompatibles_def RemoveFromCurrentQueue_def RemoveFromNewQueue_def)

lemma leave_queues_simps [lfg_simps]:
  "newToQueueStore (leave_queues gs q) = filter (\<lambda>g. g \<notin> set gs) (newToQueueStore q)"
  "currentQueueStore (leave_queues gs q) = filter (\<lambda>g. g \<notin> set gs) (currentQueueStore q)"
  "QueueDataStore (leave_queues gs q) = QueueDataStore q" "CompatibleMapStore (leave_queues gs q) = CompatibleMapStore q"
proof -
  have step: "leave_queues (g # gs) q = leave_queues gs (RemoveFromCurrentQueue g (RemoveFromNewQueue g q))" for g gs q
    by (simp add: leave_queues_def)
  have nil: "leave_queues [] q = q" for q
    by (simp add: leave_queues_def)
  show "newToQueueStore (leave_queues gs q) = filter (\<lambda>g. g \<notin> set gs) (newToQueueStore q)"
    "currentQueueStore (leave_queues gs q) = filter (\<lambda>g. g \<notin> set gs) (currentQueueStore q)"
    "QueueDataStore (leave_queues gs q) = QueueDataStore q" "CompatibleMapStore (leave_queues gs q) = CompatibleMapStore q"
    by (induction gs arbitrary: q)
      (auto simp: step nil RemoveFromCurrentQueue_def RemoveFromNewQueue_def removeAll_filter_not_eq intro: filter_cong)
qed

lemma add_proposal_simps [lfg_simps]:
  "newToQueueStore (mt_queue (add_proposal check p n s)) = filter (\<lambda>g. g \<notin> set check) (newToQueueStore (mt_queue s))"
  "currentQueueStore (mt_queue (add_proposal check p n s)) = filter (\<lambda>g. g \<notin> set check) (currentQueueStore (mt_queue s))"
  "QueueDataStore (mt_queue (add_proposal check p n s)) = QueueDataStore (mt_queue s)"
  "mt_proposals (add_proposal check p n s) = mt_proposals s @ [p]"
  by (simp_all add: add_proposal_def lfg_simps)

text \<open>The queue of new guids does not grow.\<close>

interpretation new_queue: search_invariant env "\<lambda>s. length (newToQueueStore (mt_queue s)) \<le> n" for env n
proof
  show "length (newToQueueStore (mt_queue s')) \<le> n"
    if "length (newToQueueStore (mt_queue s)) \<le> n" "check_combination env check s = Some (c, s')" for s check c s'
    using that(2)
  proof (cases rule: combination_cases)
    case (missing guid)
    then show ?thesis
      using that(1) le_trans [OF length_removeAll_less_eq [of guid "newToQueueStore (mt_queue s)"]] by (simp add: lfg_simps)
  next
    case (match p n)
    then show ?thesis
      using that(1) le_trans [OF length_filter_le [of "\<lambda>g. g \<notin> set check" "newToQueueStore (mt_queue s)"]] by (simp add: lfg_simps)
  qed (use that(1) in \<open>simp_all add: lfg_simps\<close>)
qed (simp_all add: lfg_simps)

section \<open>The main loop\<close>

function find_groups_loop :: "LfgEnv \<Rightarrow> uint8 \<Rightarrow> Matching \<Rightarrow> (uint8 \<times> Matching) option" where
  "find_groups_loop env proposals s =
     (case newToQueueStore (mt_queue s) of
        [] \<Rightarrow> Some (proposals, s)
      | frontguid # _ \<Rightarrow>
          (let s = on_queue (RemoveFromNewQueue frontguid) s in
           case FindNewGroups env [frontguid] (currentQueueStore (mt_queue s)) s of
             None \<Rightarrow> None
           | Some (compatibles, _, s) \<Rightarrow>
               (if compatibles = LFG_COMPATIBLES_MATCH then find_groups_loop env (proposals + 1) s
                else find_groups_loop env proposals (on_queue (AddToCurrentQueue frontguid) s))))"
  by pat_completeness auto

lemma find_shrinks:
  assumes "newToQueueStore (mt_queue s) = g # gs" "FindNewGroups env check rest (on_queue (RemoveFromNewQueue g) s) = Some (c, rest', s')"
  shows "length (newToQueueStore (mt_queue s')) < Suc (length gs)"
proof -
  have "length (newToQueueStore (mt_queue (on_queue (RemoveFromNewQueue g) s))) \<le> length gs"
    using assms(1) by (simp add: RemoveFromNewQueue_def length_removeAll_less_eq)
  from new_queue.find_keeps [OF this assms(2)] show ?thesis
    using assms(1) by simp
qed

termination find_groups_loop
  by (relation "measure (\<lambda>(env, proposals, s). length (newToQueueStore (mt_queue s)))")
    (auto simp: AddToCurrentQueue_def intro: find_shrinks)

declare find_groups_loop.simps [simp del]

definition FindGroups :: "LfgEnv \<Rightarrow> Matching \<Rightarrow> (uint8 \<times> Matching) option" where
  "FindGroups env s = find_groups_loop env 0 s"

section \<open>Waiting times\<close>

text \<open>The arithmetic is that of \<open>uint32\<close>; after \<open>2 ^ 32\<close> updates the division is by zero.\<close>

definition add_wait :: "uint32 \<Rightarrow> LfgWaitTime \<Rightarrow> LfgWaitTime option" where
  "add_wait waitTime wt =
     (let old_number = wt_number wt; number = old_number + 1 in
      if number = 0 then None else Some \<lparr>wt_time = (wt_time wt * old_number + waitTime) div number, wt_number = number\<rparr>)"

definition wait_at :: "uint32 \<Rightarrow> (uint32, LfgWaitTime) omap \<Rightarrow> LfgWaitTime" where
  "wait_at dungeonId store = (case om_get store dungeonId of Some wt \<Rightarrow> wt | None \<Rightarrow> LfgWaitTime_new)"

definition add_wait_at :: "uint32 \<Rightarrow> uint32 \<Rightarrow> (uint32, LfgWaitTime) omap \<Rightarrow> (uint32, LfgWaitTime) omap option" where
  "add_wait_at waitTime dungeonId store = map_option (\<lambda>wt. om_put dungeonId wt store) (add_wait waitTime (wait_at dungeonId store))"

definition UpdateWaitTimeAvg :: "uint32 \<Rightarrow> uint32 \<Rightarrow> LFGQueue \<Rightarrow> LFGQueue option" where
  "UpdateWaitTimeAvg waitTime dungeonId q =
     map_option (\<lambda>store. q\<lparr>waitTimesAvgStore := store\<rparr>) (add_wait_at waitTime dungeonId (waitTimesAvgStore q))"

definition UpdateWaitTimeTank :: "uint32 \<Rightarrow> uint32 \<Rightarrow> LFGQueue \<Rightarrow> LFGQueue option" where
  "UpdateWaitTimeTank waitTime dungeonId q =
     map_option (\<lambda>store. q\<lparr>waitTimesTankStore := store\<rparr>) (add_wait_at waitTime dungeonId (waitTimesTankStore q))"

definition UpdateWaitTimeHealer :: "uint32 \<Rightarrow> uint32 \<Rightarrow> LFGQueue \<Rightarrow> LFGQueue option" where
  "UpdateWaitTimeHealer waitTime dungeonId q =
     map_option (\<lambda>store. q\<lparr>waitTimesHealerStore := store\<rparr>) (add_wait_at waitTime dungeonId (waitTimesHealerStore q))"

definition UpdateWaitTimeDps :: "uint32 \<Rightarrow> uint32 \<Rightarrow> LFGQueue \<Rightarrow> LFGQueue option" where
  "UpdateWaitTimeDps waitTime dungeonId q =
     map_option (\<lambda>store. q\<lparr>waitTimesDpsStore := store\<rparr>) (add_wait_at waitTime dungeonId (waitTimesDpsStore q))"

record LfgQueueStatusData =
  qs_dungeonId :: uint32
  qs_waitTime :: uint32
  qs_waitTimeAvg :: uint32
  qs_waitTimeTank :: uint32
  qs_waitTimeHealer :: uint32
  qs_waitTimeDps :: uint32
  qs_queuedTime :: uint32
  qs_tanks :: uint8
  qs_healers :: uint8
  qs_dps :: uint8

text \<open>Reading a waiting time creates it.\<close>

definition with_wait :: "uint32 \<Rightarrow> (uint32, LfgWaitTime) omap \<Rightarrow> (uint32, LfgWaitTime) omap" where
  "with_wait dungeonId store = om_put dungeonId (wait_at dungeonId store) store"

definition read_waits :: "uint32 \<Rightarrow> LFGQueue \<Rightarrow> LFGQueue" where
  "read_waits dungeonId q = q\<lparr>waitTimesTankStore := with_wait dungeonId (waitTimesTankStore q),
     waitTimesHealerStore := with_wait dungeonId (waitTimesHealerStore q),
     waitTimesDpsStore := with_wait dungeonId (waitTimesDpsStore q), waitTimesAvgStore := with_wait dungeonId (waitTimesAvgStore q)\<rparr>"

definition selected_role :: "LfgRolesMap \<Rightarrow> uint8" where
  "selected_role roles = fold (\<lambda>(_, r) role. role OR r) roles PLAYER_ROLE_NONE AND NOT PLAYER_ROLE_LEADER"

definition queue_status :: "int \<Rightarrow> uint32 \<Rightarrow> LFGQueue \<Rightarrow> LfgQueueData \<Rightarrow> LfgQueueStatusData" where
  "queue_status currTime dungeonId q d =
     (let wtTank = wt_time (wait_at dungeonId (waitTimesTankStore q));
          wtHealer = wt_time (wait_at dungeonId (waitTimesHealerStore q));
          wtDps = wt_time (wait_at dungeonId (waitTimesDpsStore q));
          wtAvg = wt_time (wait_at dungeonId (waitTimesAvgStore q));
          role = selected_role (qd_roles d);
          waitTime = (if role = PLAYER_ROLE_NONE then - 1
                      else if role = PLAYER_ROLE_TANK then wtTank
                      else if role = PLAYER_ROLE_HEALER then wtHealer
                      else if role = PLAYER_ROLE_DAMAGE then wtDps
                      else wtAvg) in
      \<lparr>qs_dungeonId = dungeonId, qs_waitTime = waitTime, qs_waitTimeAvg = wtAvg, qs_waitTimeTank = wtTank, qs_waitTimeHealer = wtHealer,
       qs_waitTimeDps = wtDps, qs_queuedTime = of_int (currTime - qd_joinTime d), qs_tanks = qd_tanks d, qs_healers = qd_healers d,
       qs_dps = qd_dps d\<rparr>)"

fun timers_loop :: "int \<Rightarrow> (uint64, LfgQueueData) omap \<Rightarrow> LFGQueue \<Rightarrow> (LFGQueue \<times> (uint64 \<times> LfgQueueStatusData) list) option" where
  "timers_loop currTime [] q = Some (q, [])"
| "timers_loop currTime ((guid, d) # ds) q =
     (case qd_dungeons d of
        [] \<Rightarrow> None
      | dungeonId # _ \<Rightarrow>
          (let q = read_waits dungeonId q;
               d = (if qd_bestCompatible d = [] then FindBestCompatibleInQueue (CompatibleMapStore q) guid d else d);
               q = q\<lparr>QueueDataStore := om_put guid d (QueueDataStore q)\<rparr>;
               status = queue_status currTime dungeonId q d in
           map_option (\<lambda>(q, sent). (q, map (\<lambda>p. (p, status)) (om_keys (qd_roles d)) @ sent)) (timers_loop currTime ds q)))"

text \<open>The loop changes no entry but the one it is at.\<close>

definition UpdateQueueTimers :: "int \<Rightarrow> LFGQueue \<Rightarrow> (LFGQueue \<times> (uint64 \<times> LfgQueueStatusData) list) option" where
  "UpdateQueueTimers currTime q = timers_loop currTime (QueueDataStore q) q"

definition GetJoinTime :: "int \<Rightarrow> uint64 \<Rightarrow> LFGQueue \<Rightarrow> int \<times> LFGQueue" where
  "GetJoinTime now guid q =
     (case om_get (QueueDataStore q) guid of
        Some d \<Rightarrow> (qd_joinTime d, q)
      | None \<Rightarrow> (now, q\<lparr>QueueDataStore := om_put guid (LfgQueueData_new now) (QueueDataStore q)\<rparr>))"

section \<open>Reports\<close>

definition count_queued :: "LfgEnv \<Rightarrow> uint64 \<Rightarrow> uint32 \<times> uint32 \<times> uint32 \<Rightarrow> uint32 \<times> uint32 \<times> uint32" where
  "count_queued env guid = (\<lambda>(players, groups, playersInGroup).
     if IS_GROUP_GUID guid then (players, groups + 1, playersInGroup + ucast (le_PlayerCount env guid))
     else (players + 1, groups, playersInGroup))"

definition DumpQueueInfo :: "LfgEnv \<Rightarrow> LFGQueue \<Rightarrow> string" where
  "DumpQueueInfo env q =
     (let (players, groups, playersInGroup) = fold (count_queued env) (currentQueueStore q @ newToQueueStore q) (0, 0, 0) in
      ''Queued Players: '' @ show_nat (unat players) @ '' (in group: '' @ show_nat (unat playersInGroup) @
      '') Groups: '' @ show_nat (unat groups) @ [CHR 0x0A])"

definition DumpCompatibleInfo :: "bool \<Rightarrow> LFGQueue \<Rightarrow> string" where
  "DumpCompatibleInfo full q =
     ''Compatible Map size: '' @ show_nat (length (CompatibleMapStore q)) @ [CHR 0x0A] @
     (if full
      then concat (map (\<lambda>(key, data). ''('' @ key @ ''): '' @ GetCompatibleString (cd_compatibility data) @ [CHR 0x0A])
             (CompatibleMapStore q))
      else [])"

end
