(* ===== verification/LFGSearch.thy ===== *)
theory LFGSearch
  imports LFGQueue
begin

text \<open>
  What the search of the dungeon finder guarantees: the proposals it creates are groups that can play, it ends
  with every new guid dealt with, leaving a queue leaves no trace, and where it misses a group.
\<close>

section \<open>Keys of combinations\<close>

text \<open>The key of a combination determines its guids.\<close>

lemma show_nat_inj: "show_nat m = show_nat n \<Longrightarrow> m = n"
  by (metis read_digits_show_nat)

lemma join_guids_last:
  "gs \<noteq> [] \<Longrightarrow> join_guids gs = concat (map (\<lambda>t. t @ [CHR ''|'']) (map (show_nat \<circ> unat) (butlast gs))) @ show_nat (unat (last gs))"
proof (induction gs rule: join_guids.induct)
  case (2 g gs)
  have "show_nat (unat g) @ concat (map (\<lambda>g. CHR ''|'' # show_nat (unat g)) gs) =
      concat (map (\<lambda>g. show_nat (unat g) @ [CHR ''|'']) (butlast (g # gs))) @ show_nat (unat (last (g # gs)))"
    by (induction gs arbitrary: g) auto
  then show ?case by (simp add: o_def del: butlast.simps last.simps)
qed simp

lemma Tokenizer_join:
  assumes "gs \<noteq> []"
  shows "Tokenizer (join_guids gs) (CHR ''|'') = Some (map (show_nat \<circ> unat) gs)"
proof -
  have plain: "plain_token (CHR ''|'') (show_nat n)" for n
    by (rule plain_show_nat) (simp add: isdigit_def)
  have "map (show_nat \<circ> unat) (butlast gs) @ [show_nat (unat (last gs))] = map (show_nat \<circ> unat) (butlast gs @ [last gs])"
    by (simp only: map_append list.map o_def)
  moreover have "Tokenizer (join_guids gs) (CHR ''|'') = Some (map (show_nat \<circ> unat) (butlast gs) @ [show_nat (unat (last gs))])"
    unfolding join_guids_last [OF assms] by (subst Tokenizer_last) (auto simp: plain)
  ultimately show ?thesis
    using assms by simp
qed

lemma join_guids_inj:
  assumes "gs \<noteq> []" "hs \<noteq> []" "join_guids gs = join_guids hs"
  shows "gs = hs"
proof -
  have "map (show_nat \<circ> unat) gs = map (show_nat \<circ> unat) hs"
    using Tokenizer_join [OF assms(1)] Tokenizer_join [OF assms(2)] assms(3) by simp
  moreover have "inj (show_nat \<circ> unat :: uint64 \<Rightarrow> string)"
    by (rule injI) (auto dest!: show_nat_inj simp: word_unat_eq_iff)
  ultimately show ?thesis by simp
qed

lemma set_fold_insert: "set (fold os_insert xs s) = set xs \<union> set s"
  by (induction xs arbitrary: s) auto

lemma guids_key_inj:
  assumes "check \<noteq> []" "check' \<noteq> []" "ConcatenateGuids check = ConcatenateGuids check'"
  shows "set check = set check'"
proof -
  have "fold os_insert gs [] \<noteq> []" if "gs \<noteq> []" for gs :: "uint64 list"
    using that set_fold_insert [of gs "[]"] by auto
  then have "fold os_insert check [] = fold os_insert check' []"
    using assms join_guids_inj by (simp add: ConcatenateGuids_def)
  then show ?thesis
    using set_fold_insert [of check "[]"] set_fold_insert [of check' "[]"] by simp
qed

text \<open>A key contains the number of each of its guids.\<close>

lemma contains_iff: "contains p s \<longleftrightarrow> (\<exists>a b. s = a @ p @ b)"
proof (induction p s rule: contains.induct)
  case (2 p c s)
  have "take (length p) (c # s) = p \<longleftrightarrow> (\<exists>b. c # s = p @ b)"
    by (metis append_eq_conv_conj)
  moreover have "(\<exists>a b. c # s = a @ p @ b) \<longleftrightarrow> (\<exists>b. c # s = p @ b) \<or> (\<exists>a b. s = a @ p @ b)"
    by (metis append_Cons append_Nil neq_Nil_conv list.inject)
  ultimately show ?case
    using 2 by simp
qed auto

lemma key_contains: "g \<in> set check \<Longrightarrow> contains (show_nat (unat g)) (ConcatenateGuids check)"
proof -
  assume "g \<in> set check"
  then have "g \<in> set (fold os_insert check [])" "check \<noteq> []"
    by (auto simp: set_fold_insert)
  moreover have "contains (show_nat (unat g)) (join_guids gs)" if "g \<in> set gs" for gs
  proof (cases gs)
    case (Cons h hs)
    show ?thesis
    proof (cases "g = h")
      case False
      with that Cons have "g \<in> set hs" by simp
      then obtain a b where "hs = a @ g # b"
        by (auto dest: split_list)
      then have "join_guids gs = (show_nat (unat h) @ concat (map (\<lambda>g. CHR ''|'' # show_nat (unat g)) a) @ [CHR ''|'']) @
          show_nat (unat g) @ concat (map (\<lambda>g. CHR ''|'' # show_nat (unat g)) b)"
        by (simp add: Cons)
      then show ?thesis unfolding contains_iff by blast
    next
      case True
      then have "join_guids gs = [] @ show_nat (unat g) @ concat (map (\<lambda>g. CHR ''|'' # show_nat (unat g)) hs)"
        by (simp add: Cons)
      then show ?thesis unfolding contains_iff by blast
    qed
  qed (use that in simp)
  ultimately show ?thesis by (simp add: ConcatenateGuids_def)
qed

section \<open>Combining the entries\<close>

text \<open>
  What the manager grants of an entry: its roles are a map with at least one player and no more than a raid
  has, its dungeons are a set that is not empty, and five players have passed the role check when they joined.
\<close>

definition entry_ok :: "LfgQueueData \<Rightarrow> bool" where
  "entry_ok d \<longleftrightarrow> om_ok (qd_roles d) \<and> qd_roles d \<noteq> [] \<and> length (qd_roles d) \<le> 40 \<and> os_ok (qd_dungeons d) \<and> qd_dungeons d \<noteq> [] \<and>
     (length (qd_roles d) = MAXGROUPSIZE \<longrightarrow> fst (CheckGroupRoles (qd_roles d)))"

definition store_ok :: "(uint64, LfgQueueData) omap \<Rightarrow> bool" where
  "store_ok store \<longleftrightarrow> om_ok store \<and> (\<forall>g d. om_get store g = Some d \<longrightarrow> entry_ok d)"

definition urand_ok :: "LfgEnv \<Rightarrow> bool" where
  "urand_ok env \<longleftrightarrow> (\<forall>n lo hi. lo \<le> hi \<longrightarrow> lo \<le> le_urand env n lo hi \<and> le_urand env n lo hi \<le> hi)"

lemma store_okD: "store_ok (QueueDataStore q) \<Longrightarrow> om_get (QueueDataStore q) g \<noteq> None \<Longrightarrow> entry_ok (queue_data q g)"
  by (auto simp: store_ok_def queue_data_def)

definition all_players :: "LFGQueue \<Rightarrow> uint64 list \<Rightarrow> LfgRolesMap" where
  "all_players q check = concat (map (\<lambda>g. qd_roles (queue_data q g)) check)"

text \<open>Counting is exact as long as no limit is passed.\<close>

lemma count_loop_exact:
  assumes "count_loop env q gs (np, nl, grp, groups) = Inr (np', nl', grp', groups')" "np' \<le> 5" "nl' \<le> 1" "store_ok (QueueDataStore q)"
  shows "(\<forall>g \<in> set gs. om_get (QueueDataStore q) g \<noteq> None) \<and> unat np' = unat np + length (all_players q gs) \<and>
    unat nl' = unat nl + length (filter (le_IsLfgGroup env) gs)"
  using assms(1)
proof (induction gs arbitrary: np nl grp groups)
  case (Cons g gs)
  have "nl' < 2"
    using assms(3) by (simp add: word_less_nat_alt word_le_nat_alt)
  then have go: "nl < 2 \<and> np \<le> 5"
    using Cons.prems assms(2) by (auto split: if_splits)
  with Cons.prems obtain d where d: "om_get (QueueDataStore q) g = Some d"
    by (auto split: option.splits)
  have small: "unat np \<le> 5" "unat nl < 2" "length (qd_roles d) \<le> 40"
    using go d assms(4) by (auto simp: word_le_nat_alt word_less_nat_alt store_ok_def entry_ok_def)
  have "unat (np + of_nat (length (qd_roles d))) = unat np + length (qd_roles d)"
    using small by (simp add: unat_word_ariths unat_of_nat)
  moreover have "unat (nl + 1) = unat nl + 1"
    using small by (simp add: unat_word_ariths)
  moreover have "all_players q (g # gs) = qd_roles d @ all_players q gs"
    by (simp add: all_players_def queue_data_def d)
  ultimately show ?case
    using Cons.prems go d Cons.IH by (fastforce simp: Let_def split: if_splits)
qed (simp add: all_players_def)

lemma collect_roles_fold: "collect_roles env q check = fold (add_player env) (all_players q check) []"
proof -
  have "fold (\<lambda>g. fold (add_player env) (qd_roles (queue_data q g))) gs m = fold (add_player env) (all_players q gs) m" for gs m
    by (induction gs arbitrary: m) (simp_all add: all_players_def)
  then show ?thesis by (simp add: collect_roles_def)
qed

lemma length_om_put: "length (om_put k v m) \<le> Suc (length m)"
  by (induction k v m rule: om_put.induct) auto

lemma length_om_put_new: "om_ok m \<Longrightarrow> length (om_put k v m) = Suc (length m) \<Longrightarrow> k \<notin> set (om_keys m)"
  by (induction k v m rule: om_put.induct) (auto split: if_splits)

definition peaceful :: "LfgEnv \<Rightarrow> LfgRolesMap \<Rightarrow> bool" where
  "peaceful env m \<longleftrightarrow> (\<forall>a \<in> set (om_keys m). \<forall>b \<in> set (om_keys m). a \<noteq> b \<longrightarrow> \<not> HasIgnore env a b)"

lemma HasIgnore_sym: "HasIgnore env a b = HasIgnore env b a"
  by (auto simp: HasIgnore_def)

lemma add_player_keeps:
  assumes "om_ok m" "peaceful env m"
  shows "om_ok (add_player env x m)" "peaceful env (add_player env x m)" "length (add_player env x m) \<le> Suc (length m)"
proof -
  show "om_ok (add_player env x m)" "length (add_player env x m) \<le> Suc (length m)"
    using assms by (auto simp: add_player_def om_ok_put length_om_put split: prod.splits)
  show "peaceful env (add_player env x m)"
    using assms(2) HasIgnore_sym [of env] by (auto simp: peaceful_def add_player_def list_ex_iff split: prod.splits)
qed

lemma fold_add_player:
  assumes "om_ok m" "peaceful env m"
  shows "om_ok (fold (add_player env) xs m) \<and> peaceful env (fold (add_player env) xs m) \<and>
    length (fold (add_player env) xs m) \<le> length m + length xs"
  using assms
proof (induction xs arbitrary: m)
  case (Cons x xs)
  note m = add_player_keeps [OF Cons.prems, of x]
  from Cons.IH [OF m(1,2)] m(3) show ?case by auto
qed simp

text \<open>If nobody was left out, every player is there once, with the role he selected.\<close>

lemma fold_add_player_full:
  assumes "om_ok m" "peaceful env m" "length (fold (add_player env) xs m) = length m + length xs"
  shows "set (fold (add_player env) xs m) = set m \<union> set xs \<and> distinct (map fst xs) \<and> set (map fst xs) \<inter> set (om_keys m) = {}"
  using assms
proof (induction xs arbitrary: m)
  case (Cons x xs)
  obtain g r where x: "x = (g, r)" by (cases x)
  let ?m = "add_player env x m"
  note m = add_player_keeps [OF Cons.prems(1,2), of x]
  have "length ?m = Suc (length m)" "length (fold (add_player env) xs ?m) = length ?m + length xs"
    using fold_add_player [OF m(1,2), of xs] m(3) Cons.prems(3) by auto
  moreover from this(1) have put: "?m = om_put g r m"
    by (auto simp: add_player_def x split: if_splits)
  moreover have "g \<notin> set (om_keys m)"
    using length_om_put_new [OF Cons.prems(1)] calculation by metis
  moreover have "set (om_put g r m) = insert (g, r) (set m)"
    using om_set_iff [OF om_ok_put [OF Cons.prems(1)], of _ _ g r] om_set_iff [OF Cons.prems(1)] calculation(4) om_get_dom [of m g]
    by (auto simp: om_get_put split: if_splits)
  ultimately show ?case
    using Cons.IH [OF m(1,2)] by (auto simp: x)
qed simp

lemma set_intersection_subset: "set (set_intersection as bs) \<subseteq> set as \<inter> set bs"
  by (induction as bs rule: set_intersection.induct) auto

lemma set_intersection_ok: "os_ok as \<Longrightarrow> os_ok (set_intersection as bs)"
proof (induction as bs rule: set_intersection.induct)
  case (1 a as b bs)
  then show ?case using set_intersection_subset [of as bs] by (auto dest!: subsetD)
qed simp_all

lemma common_dungeons_subset:
  assumes "check \<noteq> []" "d \<in> set (common_dungeons q check)" "g \<in> set check"
  shows "d \<in> set (qd_dungeons (queue_data q g))"
proof -
  let ?f = "\<lambda>g ds. set_intersection ds (qd_dungeons (queue_data q g))"
  have "set (fold ?f gs ds) \<subseteq> set ds \<and> (\<forall>g \<in> set gs. set (fold ?f gs ds) \<subseteq> set (qd_dungeons (queue_data q g)))" for gs ds
    by (induction gs arbitrary: ds) (use set_intersection_subset in fastforce)+
  from this [of "tl check" "qd_dungeons (queue_data q (hd check))"] show ?thesis
    using assms by (cases check) (auto simp: common_dungeons_def)
qed

lemma common_dungeons_ok: "os_ok (qd_dungeons (queue_data q (hd check))) \<Longrightarrow> os_ok (common_dungeons q check)"
  unfolding common_dungeons_def
  by (rule fold_invariant [where P = os_ok and Q = "\<lambda>_. True"]) (auto intro: set_intersection_ok)

lemma distinct_concat_nonempty: "distinct (map fst (concat (map f xs))) \<Longrightarrow> \<forall>x \<in> set xs. f x \<noteq> [] \<Longrightarrow> distinct xs"
proof (induction xs)
  case (Cons x xs)
  obtain p where p: "p \<in> set (f x)"
    using Cons.prems(2) by (cases "f x") auto
  have "x \<notin> set xs"
  proof
    assume "x \<in> set xs"
    with p have "fst p \<in> set (map fst (concat (map f xs)))" by auto
    with p show False using Cons.prems(1) by auto
  qed
  then show ?case using Cons by auto
qed simp

definition merged :: "LfgEnv \<Rightarrow> LFGQueue \<Rightarrow> uint64 list \<Rightarrow> LfgRolesMap \<Rightarrow> LfgDungeonSet \<Rightarrow> bool" where
  "merged env q check roles dungeons \<longleftrightarrow>
     om_ok roles \<and> length roles = MAXGROUPSIZE \<and> set roles = set (all_players q check) \<and> fst (CheckGroupRoles roles) \<and>
     (length check > 1 \<longrightarrow> peaceful env roles) \<and> distinct check \<and> os_ok dungeons \<and> dungeons \<noteq> [] \<and>
     (\<forall>d \<in> set dungeons. \<forall>g \<in> set check. d \<in> set (qd_dungeons (queue_data q g)))"

lemma merge_groups_single:
  assumes "length (all_players q [g]) = MAXGROUPSIZE" "merge_groups env q [g] n = Inr (roles, dungeons)" "entry_ok (queue_data q g)"
  shows "\<exists>rs. merged env q [g] rs dungeons \<and> roles = snd (CheckGroupRoles rs)"
  using assms by (auto simp: merge_groups_def Let_def merged_def all_players_def entry_ok_def)

lemma merge_groups_many:
  assumes "length check > 1" "length (all_players q check) = MAXGROUPSIZE" "merge_groups env q check 5 = Inr (roles, dungeons)"
    and ok: "\<And>g. g \<in> set check \<Longrightarrow> entry_ok (queue_data q g)"
  shows "\<exists>rs. merged env q check rs dungeons \<and> roles = snd (CheckGroupRoles rs)"
proof -
  let ?rs = "collect_roles env q check"
  have ne: "check \<noteq> []" using assms(1) by auto
  have facts: "om_ok ?rs \<and> peaceful env ?rs \<and> length ?rs \<le> MAXGROUPSIZE"
    using fold_add_player [of "[]" env "all_players q check"] assms(2) by (simp add: collect_roles_fold peaceful_def)
  have m: "of_nat (length ?rs) = (5 :: uint8)" "fst (CheckGroupRoles ?rs)" "roles = snd (CheckGroupRoles ?rs)"
    "dungeons = common_dungeons q check" "dungeons \<noteq> []"
    using assms(1,3) by (auto simp: merge_groups_def Let_def case_prod_beta split: if_splits)
  from m(1) have "unat (of_nat (length ?rs) :: uint8) = unat (5 :: uint8)" by simp
  then have len: "length ?rs = MAXGROUPSIZE" using facts by (simp add: unat_of_nat)
  then have full: "set ?rs = set (all_players q check)" "distinct (map fst (all_players q check))"
    using fold_add_player_full [of "[]" env "all_players q check"] assms(2) by (simp_all add: collect_roles_fold peaceful_def)
  have "distinct check"
    by (rule distinct_concat_nonempty [OF full(2) [unfolded all_players_def]]) (use ok in \<open>auto simp: entry_ok_def\<close>)
  moreover have "os_ok dungeons"
    using ok [of "hd check"] ne unfolding m(4) by (intro common_dungeons_ok) (simp add: entry_ok_def)
  ultimately have "merged env q check ?rs dungeons"
    unfolding merged_def using facts len full m common_dungeons_subset [OF ne] by blast
  with m(3) show ?thesis by blast
qed

text \<open>Creating the proposal.\<close>

lemma om_put_last: "\<forall>a \<in> set (om_keys m). a < k \<Longrightarrow> om_put k v m = m @ [(k, v)]"
  by (induction k v m rule: om_put.induct) auto

lemma fold_om_put_map:
  assumes "om_ok m"
  shows "fold (\<lambda>(k, v). om_put k (f k v)) m [] = map (\<lambda>(k, v). (k, f k v)) m"
proof -
  let ?f = "\<lambda>(k, v). (k, f k v)"
  have "fold (\<lambda>(k, v). om_put k (f k v)) m (map ?f a) = map ?f (a @ m)" if "om_ok (a @ m)" for a
    using that
  proof (induction m arbitrary: a)
    case (Cons x m)
    obtain k v where x: "x = (k, v)" by (cases x)
    have "\<forall>b \<in> set (om_keys (map ?f a)). b < k"
      using Cons.prems by (auto simp: om_ok_def om_keys_def sorted_wrt_append x)
    then have "om_put k (f k v) (map ?f a) = map ?f (a @ [(k, v)])"
      by (simp add: om_put_last)
    then show ?case
      using Cons.IH [of "a @ [x]"] Cons.prems by (simp add: x)
  qed simp
  from this [of "[]"] assms show ?thesis by simp
qed

lemma leader_among: "fst (snd (fold (\<lambda>(g, r). choose_leader env g r) rs (l, who, n))) \<in> insert who (fst ` set rs)"
proof (induction rs arbitrary: l who n)
  case (Cons x rs)
  obtain g r where x: "x = (g, r)" by (cases x)
  obtain l' who' n' where c: "choose_leader env g r (l, who, n) = (l', who', n')" by (cases "choose_leader env g r (l, who, n)")
  then have "who' = who \<or> who' = g" by (auto simp: choose_leader_def split: if_splits)
  then show ?case using Cons.IH [of l' who' n'] by (auto simp: x c)
qed simp

lemma leader_chosen:
  assumes "rs \<noteq> []"
  shows "fst (snd (fold (\<lambda>(g, r). choose_leader env g r) rs (False, 0, n))) \<in> fst ` set rs"
proof -
  obtain g r rs' where rs: "rs = (g, r) # rs'" using assms by (cases rs) auto
  have "choose_leader env g r (False, 0, n) = (has_flag r PLAYER_ROLE_LEADER, g, n)"
    by (simp add: choose_leader_def)
  then show ?thesis using leader_among [of env rs' _ g n] by (simp add: rs)
qed

section \<open>Valid proposals\<close>

definition players_in :: "uint8 \<Rightarrow> LfgProposal \<Rightarrow> nat" where
  "players_in role p = om_count (\<lambda>d. pp_role d = role) (lp_players p)"

definition queued_players :: "LFGQueue \<Rightarrow> LfgProposal \<Rightarrow> (uint64 \<times> uint8) set" where
  "queued_players q p = (\<Union>g \<in> set (lp_queues p). set (qd_roles (queue_data q g)))"

text \<open>
  A group that can play: five players, exactly those of its entries, one tank, one healer and three damage
  dealers, each in a role he selected; a dungeon that every entry selected; at most one group that already has
  a dungeon; nobody who ignores another; everybody still queued; a leader from among the players.
\<close>

definition proposal_valid :: "LfgEnv \<Rightarrow> LFGQueue \<Rightarrow> LfgProposal \<Rightarrow> bool" where
  "proposal_valid env q p \<longleftrightarrow>
     om_ok (lp_players p) \<and> set (om_keys (lp_players p)) = fst ` queued_players q p \<and>
     players_in PLAYER_ROLE_TANK p = 1 \<and> players_in PLAYER_ROLE_HEALER p = 1 \<and> players_in PLAYER_ROLE_DAMAGE p = 3 \<and>
     (\<forall>(g, d) \<in> set (lp_players p). \<exists>r. (g, r) \<in> queued_players q p \<and> has_flag r (pp_role d)) \<and>
     (\<forall>g \<in> set (lp_queues p). lp_dungeonId p \<in> set (qd_dungeons (queue_data q g))) \<and>
     distinct (lp_queues p) \<and> length (filter (le_IsLfgGroup env) (lp_queues p)) \<le> 1 \<and>
     (length (lp_queues p) > 1 \<longrightarrow>
        (\<forall>a \<in> set (om_keys (lp_players p)). \<forall>b \<in> set (om_keys (lp_players p)). a \<noteq> b \<longrightarrow> \<not> HasIgnore env a b)) \<and>
     AllQueued env (lp_queues p) \<and> lp_leader p \<in> set (om_keys (lp_players p))"

lemma create_proposal_result:
  assumes "create_proposal env check nl grp groups roles dungeons n = Some (p, n')" "om_ok roles" "roles \<noteq> []"
  shows "lp_queues p = check \<and> lp_dungeonId p \<in> set dungeons \<and> lp_leader p \<in> set (om_keys roles) \<and>
    (\<exists>f. (\<forall>g r. pp_role (f g r) = r) \<and> lp_players p = map (\<lambda>(g, r). (g, f g r)) roles)"
proof -
  obtain l leader m where fold: "fold (\<lambda>(g, r). choose_leader env g r) roles (False, 0, n + 1) = (l, leader, m)"
    by (cases "fold (\<lambda>(g, r). choose_leader env g r) roles (False, 0, n + 1)")
  then have leader: "leader \<in> set (om_keys roles)"
    using leader_chosen [OF assms(3), of env "n + 1"] by (simp add: om_keys_def)
  define p0 where "p0 = (LfgProposal_new (dungeons ! unat (le_urand env n 0 (of_nat (length dungeons) - 1))))\<lparr>lp_group := grp,
    lp_queues := check, lp_isNew := (nl \<noteq> 1 \<or> le_OldState env (hd check) \<noteq> LFG_STATE_DUNGEON),
    lp_cancelTime := le_now env + LFG_TIME_PROPOSAL, lp_leader := leader\<rparr>"
  have p: "unat (le_urand env n 0 (of_nat (length dungeons) - 1)) < length dungeons"
    "p = p0\<lparr>lp_players := map (\<lambda>(g, r). (g, proposal_player p0 groups g r)) roles\<rparr>"
    using assms(1) fold_om_put_map [OF assms(2), of "proposal_player p0 groups"]
    unfolding create_proposal_def Let_def fold p0_def by (auto split: if_splits)
  have f: "\<forall>g r. pp_role (proposal_player p0 groups g r) = r"
    by (simp add: proposal_player_def Let_def)
  have "lp_queues p0 = check" "lp_leader p0 = leader" "lp_dungeonId p0 \<in> set dungeons"
    using p(1) by (simp_all add: p0_def LfgProposal_new_def)
  then show ?thesis
    using leader f unfolding p(2) by auto
qed

text \<open>A valid distribution among five players.\<close>

lemma role_counts: "(\<Sum>b \<leftarrow> role_blocks. role_count b fs) = length fs"
proof (induction fs)
  case (Cons f fs)
  then show ?case by (cases f) (simp_all add: role_blocks_def role_count_def)
qed (simp add: role_blocks_def role_count_def)

lemma valid_five:
  assumes "valid_roles g fs" "length g = MAXGROUPSIZE"
  shows "role_count b fs = unat (role_needed b)"
proof -
  have "role_count d fs \<le> unat (role_needed d)" for d
    using assms(1) by (simp add: valid_roles_def)
  from this [of Damage] this [of Healer] this [of Tank] show ?thesis
    using role_counts [of fs] assms by (cases b) (simp_all add: valid_roles_def role_blocks_def)
qed

lemma role_bit_inject [simp]: "role_bit b = role_bit d \<longleftrightarrow> b = d"
  by (cases b; cases d) simp_all

lemma assigned_count: "length g = length fs \<Longrightarrow> om_count (\<lambda>r. r = role_bit b) (assigned_roles g fs) = role_count b fs"
  by (induction g fs rule: list_induct2) (auto simp: assigned_roles_def role_count_def)

lemma om_count_map_key:
  "(\<And>k v. P (f k v) = Q v) \<Longrightarrow> om_count P (map (\<lambda>(k, v). (k, f k v)) m) = om_count Q m"
  by (induction m) auto

lemma assigned_facts:
  assumes "valid_roles (without_leader rs) fs"
  shows "om_keys (assigned_roles rs fs) = om_keys rs" "length fs = length rs"
    and "(g, r) \<in> set (assigned_roles rs fs) \<Longrightarrow> \<exists>r0. (g, r0) \<in> set rs \<and> has_flag r0 r"
proof -
  show len: "length fs = length rs"
    using assms by (simp add: valid_roles_def without_leader_def)
  then show "om_keys (assigned_roles rs fs) = om_keys rs"
    by (simp add: assigned_roles_def om_keys_def)
  show "\<exists>r0. (g, r0) \<in> set rs \<and> has_flag r0 r" if mem: "(g, r) \<in> set (assigned_roles rs fs)"
  proof -
    obtain i where i: "i < length rs" "g = fst (rs ! i)" "r = role_bit (fs ! i)"
      using mem len unfolding assigned_roles_def in_set_zip by auto
    have "has_flag (role_at (without_leader rs) i) r"
      using assms i by (simp add: valid_roles_def without_leader_def)
    then have "has_flag (snd (rs ! i)) r"
      using i(1) by (auto simp: without_leader_def role_at_def case_prod_beta has_flag_bit bit_simps)
    then show ?thesis
      using i by (intro exI [of _ "snd (rs ! i)"]) simp
  qed
qed

lemma count_merged:
  assumes "count_loop env q check (0, 0, 0, []) = Inr (5, nl, grp, groups)" "nl \<le> 1" "merge_groups env q check 5 = Inr (roles, dungeons)"
    and "store_ok (QueueDataStore q)" "check \<noteq> []"
  shows "(\<exists>rs. merged env q check rs dungeons \<and> roles = snd (CheckGroupRoles rs)) \<and>
    length (filter (le_IsLfgGroup env) check) \<le> 1 \<and> (\<forall>g \<in> set check. om_get (QueueDataStore q) g \<noteq> None)"
proof -
  have e: "\<forall>g \<in> set check. om_get (QueueDataStore q) g \<noteq> None" "length (all_players q check) = MAXGROUPSIZE"
    "unat nl = length (filter (le_IsLfgGroup env) check)"
    using count_loop_exact [OF assms(1) _ assms(2,4)] by simp_all
  have ok: "entry_ok (queue_data q g)" if "g \<in> set check" for g
    using store_okD [OF assms(4)] e(1) that by blast
  have "\<exists>rs. merged env q check rs dungeons \<and> roles = snd (CheckGroupRoles rs)"
  proof (cases "length check > 1")
    case False
    then obtain g where "check = [g]" using assms(5) by (cases check) auto
    then show ?thesis using merge_groups_single [of q g env 5 roles dungeons] e(2) assms(3) ok by simp
  qed (use merge_groups_many [of check q env roles dungeons] e(2) assms(3) ok in blast)
  moreover have "unat nl \<le> 1" using assms(2) by (simp add: word_le_nat_alt)
  ultimately show ?thesis using e by simp
qed

lemma matched_queues: "matched env q check p n n' \<Longrightarrow> lp_queues p = check"
  by (auto simp: matched_def create_proposal_def Let_def case_prod_beta split: if_splits)

lemma matched_merged:
  assumes "matched env q check p n n'" "store_ok (QueueDataStore q)" "check \<noteq> []"
  obtains rs nl grp groups dungeons where "merged env q check rs dungeons" "AllQueued env check"
    "length (filter (le_IsLfgGroup env) check) \<le> 1"
    "create_proposal env check nl grp groups (snd (CheckGroupRoles rs)) dungeons n = Some (p, n')"
proof -
  obtain nl grp groups roles dungeons where c: "count_loop env q check (0, 0, 0, []) = Inr (5, nl, grp, groups)" "nl \<le> 1"
    "merge_groups env q check 5 = Inr (roles, dungeons)" "create_proposal env check nl grp groups roles dungeons n = Some (p, n')"
    using assms(1) by (auto simp: matched_def)
  from count_merged [OF c(1-3) assms(2,3)] show ?thesis
    using that c(4) assms(1) by (auto simp: matched_def)
qed

lemma matched_valid:
  assumes "matched env q check p n n'" "store_ok (QueueDataStore q)" "check \<noteq> []"
  shows "proposal_valid env q p \<and> lp_queues p = check"
proof -
  obtain rs nl grp groups dungeons where m: "merged env q check rs dungeons" "AllQueued env check"
    "length (filter (le_IsLfgGroup env) check) \<le> 1"
    "create_proposal env check nl grp groups (snd (CheckGroupRoles rs)) dungeons n = Some (p, n')"
    by (rule matched_merged [OF assms])
  have rs: "om_ok rs" "length rs = MAXGROUPSIZE" "set rs = set (all_players q check)" "fst (CheckGroupRoles rs)"
    using m(1) by (simp_all add: merged_def)
  obtain fs where fs: "valid_roles (without_leader rs) fs" "snd (CheckGroupRoles rs) = assigned_roles rs fs"
    using CheckGroupRoles_sound [of rs] rs(2,4) by (cases "rs = []") auto
  note a = assigned_facts [OF fs(1)]
  have roles: "om_ok (assigned_roles rs fs)" "assigned_roles rs fs \<noteq> []"
    using a(1,2) rs by (auto simp: om_ok_def assigned_roles_def)
  obtain f where f: "\<forall>g r. pp_role (f g r) = r" "lp_players p = map (\<lambda>(g, r). (g, f g r)) (assigned_roles rs fs)"
    and p: "lp_queues p = check" "lp_dungeonId p \<in> set dungeons" "lp_leader p \<in> set (om_keys rs)"
    using create_proposal_result [OF m(4) [unfolded fs(2)] roles] a(1) by auto
  have qp: "queued_players q p = set rs"
    by (simp add: queued_players_def p(1) rs(3) all_players_def)
  have keys: "om_keys (lp_players p) = om_keys rs"
    by (simp add: f(2) a(1))
  have count: "players_in (role_bit b) p = unat (role_needed b)" for b
  proof -
    have "players_in (role_bit b) p = om_count (\<lambda>r. r = role_bit b) (assigned_roles rs fs)"
      unfolding players_in_def f(2) by (rule om_count_map_key) (simp add: f(1))
    then show ?thesis
      using assigned_count [of rs fs b] valid_five [OF fs(1), of b] a(2) rs(2) by (simp add: without_leader_def)
  qed
  have selected: "\<exists>r. (g, r) \<in> set rs \<and> has_flag r (pp_role d)" if "(g, d) \<in> set (lp_players p)" for g d
    using that a(3) f by auto
  show ?thesis
    unfolding proposal_valid_def qp keys
    using count [of Tank] count [of Healer] count [of Damage] selected m(1,2,3) p roles(1) a(1)
    by (auto simp: merged_def peaceful_def om_keys_def om_ok_def f(2) comp_def case_prod_beta)
qed

section \<open>A search creates valid proposals\<close>

text \<open>An invariant of the search that moving guids between the queues keeps is an invariant of \<open>FindGroups\<close>.\<close>

locale groups_invariant = search_invariant +
  assumes keeps_leave: "inv s \<Longrightarrow> inv (on_queue (RemoveFromNewQueue g) s)"
    and keeps_enter: "inv s \<Longrightarrow> inv (on_queue (AddToCurrentQueue g) s)"
begin

lemma groups_keeps_env: "e = env \<Longrightarrow> inv s \<Longrightarrow> find_groups_loop e k s = Some (n, s') \<Longrightarrow> inv s'"
proof (induction e k s rule: find_groups_loop.induct)
  case (1 e k s)
  show ?case
  proof (cases "newToQueueStore (mt_queue s)")
    case (Cons g gs)
    let ?s = "on_queue (RemoveFromNewQueue g) s"
    from "1.prems"(3) Cons obtain c r t where find: "FindNewGroups e [g] (currentQueueStore (mt_queue ?s)) ?s = Some (c, r, t)"
      by (subst (asm) find_groups_loop.simps) (auto simp: Let_def split: option.splits)
    have t: "inv t"
      using find_keeps [OF keeps_leave [OF "1.prems"(2)]] find "1.prems"(1) by simp
    have "find_groups_loop e k s = (if c = LFG_COMPATIBLES_MATCH then find_groups_loop e (k + 1) t
        else find_groups_loop e k (on_queue (AddToCurrentQueue g) t))"
      using Cons find by (simp add: find_groups_loop.simps [of e k s] Let_def)
    then show ?thesis
      using "1.prems"(3) "1.IH"(1) [OF Cons refl find refl refl _ "1.prems"(1) t]
        "1.IH"(2) [OF Cons refl find refl refl _ "1.prems"(1) keeps_enter [OF t]]
      by (auto split: if_splits)
  qed (use "1.prems" in \<open>simp add: find_groups_loop.simps\<close>)
qed

lemmas groups_keeps = groups_keeps_env [OF refl]

end

text \<open>The dungeons and roles of the entries stay the same.\<close>

definition skel :: "LFGQueue \<Rightarrow> uint64 \<Rightarrow> (LfgDungeonSet \<times> LfgRolesMap) option" where
  "skel q g = map_option (\<lambda>d. (qd_dungeons d, qd_roles d)) (om_get (QueueDataStore q) g)"

lemma take_roles_keep: "qd_dungeons (fold (\<lambda>(_, r). take_role r) rs d) = qd_dungeons d \<and> qd_roles (fold (\<lambda>(_, r). take_role r) rs d) = qd_roles d"
  by (induction rs arbitrary: d) (auto simp: take_role_def)

lemma UpdateBest_keeps [simp]:
  "qd_dungeons (UpdateBestCompatibleInQueue key roles d) = qd_dungeons d" "qd_roles (UpdateBestCompatibleInQueue key roles d) = qd_roles d"
  by (simp_all add: UpdateBestCompatibleInQueue_def Let_def take_roles_keep)

lemma FindBest_keeps [simp]:
  "qd_dungeons (FindBestCompatibleInQueue cs g d) = qd_dungeons d \<and> qd_roles (FindBestCompatibleInQueue cs g d) = qd_roles d"
  unfolding FindBestCompatibleInQueue_def by (induction cs arbitrary: d) auto

lemma forget_best_keeps [simp]: "qd_dungeons (forget_best g cs h d) = qd_dungeons d" "qd_roles (forget_best g cs h d) = qd_roles d"
  by (simp_all add: forget_best_def)

lemma store_ok_skel:
  assumes "store_ok (QueueDataStore q)" "om_ok (QueueDataStore q')" "skel q' = skel q"
  shows "store_ok (QueueDataStore q')"
proof -
  have "entry_ok d" if "om_get (QueueDataStore q') g = Some d" for g d
  proof -
    have "skel q g = Some (qd_dungeons d, qd_roles d)"
      using that fun_cong [OF assms(3), of g] by (simp add: skel_def)
    then obtain d' where "om_get (QueueDataStore q) g = Some d'" "qd_dungeons d' = qd_dungeons d" "qd_roles d' = qd_roles d"
      by (auto simp: skel_def)
    then show ?thesis
      using assms(1) unfolding store_ok_def entry_ok_def by metis
  qed
  then show ?thesis using assms(2) by (simp add: store_ok_def)
qed

lemma queue_data_skel:
  assumes "skel q' = skel q"
  shows "qd_roles (queue_data q' g) = qd_roles (queue_data q g)" "qd_dungeons (queue_data q' g) = qd_dungeons (queue_data q g)"
  using fun_cong [OF assms, of g]
  by (cases "om_get (QueueDataStore q) g"; cases "om_get (QueueDataStore q') g"; auto simp: skel_def queue_data_def)+

lemma proposal_valid_skel:
  assumes "skel q' = skel q"
  shows "proposal_valid env q' p = proposal_valid env q p"
  by (simp only: proposal_valid_def queued_players_def queue_data_skel [OF assms])

lemma update_best_skel: "om_ok (QueueDataStore q) \<Longrightarrow>
    om_ok (QueueDataStore (fold (update_best key roles) gs q)) \<and> skel (fold (update_best key roles) gs q) = skel q"
proof (induction gs arbitrary: q)
  case (Cons g gs)
  have "om_ok (QueueDataStore (update_best key roles g q)) \<and> skel (update_best key roles g q) = skel q"
    using Cons.prems by (auto simp: update_best_def skel_def fun_eq_iff om_ok_put om_get_put split: option.splits)
  then show ?case using Cons.IH by simp
qed simp

lemma RemoveFromQueue_data: "om_ok (QueueDataStore q) \<Longrightarrow> om_ok (QueueDataStore (RemoveFromQueue g q)) \<and>
    skel (RemoveFromQueue g q) = (skel q)(g := None)"
  by (auto simp: RemoveFromQueue_def Let_def RemoveFromCompatibles_def RemoveFromCurrentQueue_def RemoveFromNewQueue_def skel_def
      fun_eq_iff om_ok_erase om_get_erase om_get_map option.map_comp o_def)

definition search_ok :: "LfgEnv \<Rightarrow> LFGQueue \<Rightarrow> LfgProposal list \<Rightarrow> Matching \<Rightarrow> bool" where
  "search_ok env q ps s \<longleftrightarrow> store_ok (QueueDataStore (mt_queue s)) \<and> skel (mt_queue s) = skel q \<and>
     (\<exists>new. mt_proposals s = ps @ new \<and> (\<forall>p \<in> set new. proposal_valid env q p))"

lemma search_ok_queue:
  assumes "search_ok env q ps s" "om_ok (QueueDataStore (f (mt_queue s)))" "skel (f (mt_queue s)) = skel (mt_queue s)"
  shows "search_ok env q ps (on_queue f s)"
  using assms store_ok_skel [of "mt_queue s" "f (mt_queue s)"] by (simp add: search_ok_def)

lemma search_ok_same:
  "search_ok env q ps s \<Longrightarrow> QueueDataStore (f (mt_queue s)) = QueueDataStore (mt_queue s) \<Longrightarrow> search_ok env q ps (on_queue f s)"
  by (rule search_ok_queue) (auto simp: search_ok_def store_ok_def skel_def fun_eq_iff)

lemma search_ok_check:
  assumes "search_ok env q ps s" "check \<noteq> []" "check_combination env check s = Some (c, s')"
  shows "search_ok env q ps s'"
  using assms(3)
proof (cases rule: combination_cases)
  case (missing g)
  have "om_ok (QueueDataStore (mt_queue s))"
    using assms(1) by (simp add: search_ok_def store_ok_def)
  moreover have "skel (mt_queue s) g = None"
    using missing(2) by (simp add: skel_def)
  ultimately show ?thesis
    unfolding missing(4) using RemoveFromQueue_data [of "mt_queue s" g] by (intro search_ok_queue [OF assms(1)]) auto
next
  case (less roles)
  have "om_ok (QueueDataStore (mt_queue s))" using assms(1) by (simp add: search_ok_def store_ok_def)
  from update_best_skel [OF this, of "ConcatenateGuids check" roles check] show ?thesis
    unfolding less(2) by (intro search_ok_queue [OF assms(1)]) (simp_all add: skel_def lfg_simps fun_eq_iff)
next
  case refused
  then show ?thesis by (auto intro!: search_ok_same [OF assms(1)] simp: lfg_simps)
next
  case (match p n)
  have "proposal_valid env (mt_queue s) p"
    using matched_valid [OF match(2) _ assms(2)] assms(1) by (simp add: search_ok_def)
  then have "proposal_valid env q p"
    using assms(1) proposal_valid_skel [of "mt_queue s" q] by (simp add: search_ok_def)
  then show ?thesis
    using assms(1) unfolding match(3) by (auto simp: search_ok_def lfg_simps skel_def fun_eq_iff)
qed

interpretation valid_search: groups_invariant env "search_ok env q ps" for env q ps
proof
qed (auto intro: search_ok_check intro!: search_ok_same simp: lfg_simps RemoveFromNewQueue_def AddToCurrentQueue_def)

section \<open>A search loses nobody\<close>

text \<open>Among the combinations of the guids in \<open>V\<close>, a cached match stands for a proposal of this search, and bad states
  are cached only where somebody is not queued.  Nothing is said of the other combinations, in particular of
  those of earlier proposals that are still open: their guids have left the queues.\<close>

definition cache_ok :: "LfgEnv \<Rightarrow> uint64 set \<Rightarrow> LfgProposal list \<Rightarrow> LFGQueue \<Rightarrow> bool" where
  "cache_ok env V new q \<longleftrightarrow> (\<forall>check. check \<noteq> [] \<and> set check \<subseteq> V \<longrightarrow>
     (GetCompatibles (ConcatenateGuids check) q = LFG_COMPATIBLES_MATCH \<longrightarrow> (\<exists>p \<in> set new. set (lp_queues p) = set check)) \<and>
     (GetCompatibles (ConcatenateGuids check) q = LFG_COMPATIBLES_BAD_STATES \<longrightarrow> \<not> AllQueued env check))"

lemma GetCompatibles_set:
  "GetCompatibles key' (SetCompatibles key c q) = (if key' = key then c else GetCompatibles key' q)"
  by (simp add: GetCompatibles_def SetCompatibles_def Let_def om_get_put)

lemma GetCompatibles_less:
  "GetCompatibles key (less_players check roles q) =
     (if key = ConcatenateGuids check then LFG_COMPATIBLES_WITH_LESS_PLAYERS else GetCompatibles key q)"
  by (simp add: GetCompatibles_def lfg_simps om_get_put)

lemma om_get_filter_key: "om_get (filter (\<lambda>(k, _). P k) m) k = (if P k then om_get m k else None)"
  by (induction m) auto

lemma GetCompatibles_remove:
  "GetCompatibles key (RemoveFromQueue g q) = (if contains (show_nat (unat g)) key then LFG_COMPATIBILITY_PENDING else GetCompatibles key q)"
  by (simp add: GetCompatibles_def lfg_simps om_get_filter_key)

lemma GetCompatibles_leave: "GetCompatibles key (leave_queues gs q) = GetCompatibles key q"
  by (simp add: GetCompatibles_def lfg_simps)

lemma AllQueued_set: "set check = set check' \<Longrightarrow> AllQueued env check = AllQueued env check'"
  by (cases check; cases check') (auto simp: AllQueued_def list_all_iff)

lemma cache_ok_refused:
  assumes "cache_ok env V new q" "check \<noteq> []"
    and "c < LFG_COMPATIBLES_WITH_LESS_PLAYERS \<or> c = LFG_COMPATIBLES_BAD_STATES \<and> \<not> AllQueued env check"
  shows "cache_ok env V new (SetCompatibles (ConcatenateGuids check) c q)"
  unfolding cache_ok_def
proof (intro allI impI)
  fix check' :: "uint64 list"
  assume "check' \<noteq> [] \<and> set check' \<subseteq> V"
  then have ne: "check' \<noteq> []" and sub: "set check' \<subseteq> V" by simp_all
  show "(GetCompatibles (ConcatenateGuids check') (SetCompatibles (ConcatenateGuids check) c q) = LFG_COMPATIBLES_MATCH \<longrightarrow>
      (\<exists>p \<in> set new. set (lp_queues p) = set check')) \<and>
    (GetCompatibles (ConcatenateGuids check') (SetCompatibles (ConcatenateGuids check) c q) = LFG_COMPATIBLES_BAD_STATES \<longrightarrow>
      \<not> AllQueued env check')"
  proof (cases "ConcatenateGuids check' = ConcatenateGuids check")
    case True
    then have "AllQueued env check' = AllQueued env check"
      by (intro AllQueued_set guids_key_inj [OF ne assms(2)])
    then show ?thesis
      using True assms(3) by (auto simp: GetCompatibles_set less_LfgCompatibility_def)
  qed (use assms(1) ne sub in \<open>simp add: GetCompatibles_set cache_ok_def\<close>)
qed

lemma cache_ok_match:
  assumes "cache_ok env V new q" "check \<noteq> []" "lp_queues p = check"
  shows "cache_ok env V (new @ [p]) (SetCompatibles (ConcatenateGuids check) LFG_COMPATIBLES_MATCH q)"
  unfolding cache_ok_def GetCompatibles_set
proof (intro allI impI)
  fix check' :: "uint64 list"
  assume "check' \<noteq> [] \<and> set check' \<subseteq> V"
  then have ne: "check' \<noteq> []" and sub: "set check' \<subseteq> V" by simp_all
  let ?g = "\<lambda>key. if key = ConcatenateGuids check then LFG_COMPATIBLES_MATCH else GetCompatibles key q"
  have "set check' = set check" if "ConcatenateGuids check' = ConcatenateGuids check"
    using guids_key_inj [OF ne assms(2) that] .
  then show "(?g (ConcatenateGuids check') = LFG_COMPATIBLES_MATCH \<longrightarrow> (\<exists>p \<in> set (new @ [p]). set (lp_queues p) = set check')) \<and>
    (?g (ConcatenateGuids check') = LFG_COMPATIBLES_BAD_STATES \<longrightarrow> \<not> AllQueued env check')"
    using assms(1) [unfolded cache_ok_def, rule_format, OF conjI [OF ne sub]] assms(3) by auto
qed

lemma cache_ok_mono:
  assumes "cache_ok env V new q" "\<And>key. GetCompatibles key q' = GetCompatibles key q \<or>
    GetCompatibles key q' \<notin> {LFG_COMPATIBLES_MATCH, LFG_COMPATIBLES_BAD_STATES}"
  shows "cache_ok env V new q'"
  unfolding cache_ok_def
proof (intro allI impI)
  fix check :: "uint64 list"
  assume "check \<noteq> [] \<and> set check \<subseteq> V"
  then show "(GetCompatibles (ConcatenateGuids check) q' = LFG_COMPATIBLES_MATCH \<longrightarrow> (\<exists>p \<in> set new. set (lp_queues p) = set check)) \<and>
    (GetCompatibles (ConcatenateGuids check) q' = LFG_COMPATIBLES_BAD_STATES \<longrightarrow> \<not> AllQueued env check)"
    using assms(1) [unfolded cache_ok_def, rule_format, of check] assms(2) [of "ConcatenateGuids check"] by auto
qed

lemma cache_ok_restrict:
  assumes "cache_ok env V new q" "V' \<subseteq> V" "\<And>p g. p \<in> set new \<Longrightarrow> g \<in> V' \<Longrightarrow> g \<notin> set (lp_queues p)"
  shows "cache_ok env V' [] q"
  unfolding cache_ok_def
proof (intro allI impI)
  fix check :: "uint64 list"
  assume c: "check \<noteq> [] \<and> set check \<subseteq> V'"
  then have "\<not> (\<exists>p \<in> set new. set (lp_queues p) = set check)"
    using assms(3) by (metis hd_in_set subsetD)
  then show "(GetCompatibles (ConcatenateGuids check) q = LFG_COMPATIBLES_MATCH \<longrightarrow> (\<exists>p \<in> set []. set (lp_queues p) = set check)) \<and>
    (GetCompatibles (ConcatenateGuids check) q = LFG_COMPATIBLES_BAD_STATES \<longrightarrow> \<not> AllQueued env check)"
    using assms(1,2) c unfolding cache_ok_def by (meson subset_trans)
qed

text \<open>Where the guids of a set \<open>W\<close> are during a search.\<close>

definition placed :: "LfgProposal list \<Rightarrow> uint64 set \<Rightarrow> LFGQueue \<Rightarrow> bool" where
  "placed new W q \<longleftrightarrow> (\<forall>g \<in> W. skel q g \<noteq> None \<longrightarrow>
     g \<in> set (newToQueueStore q) \<or> g \<in> set (currentQueueStore q) \<or> (\<exists>p \<in> set new. g \<in> set (lp_queues p)))"

definition queues_in :: "uint64 set \<Rightarrow> LFGQueue \<Rightarrow> bool" where
  "queues_in V q \<longleftrightarrow> set (newToQueueStore q) \<subseteq> V \<and> set (currentQueueStore q) \<subseteq> V"

definition run_ok :: "LfgEnv \<Rightarrow> uint64 set \<Rightarrow> LFGQueue \<Rightarrow> LfgProposal list \<Rightarrow> uint64 set \<Rightarrow> Matching \<Rightarrow> bool" where
  "run_ok env V q ps W s \<longleftrightarrow> search_ok env q ps s \<and> cache_ok env V (drop (length ps) (mt_proposals s)) (mt_queue s) \<and>
     placed (drop (length ps) (mt_proposals s)) W (mt_queue s) \<and> queues_in V (mt_queue s)"

lemma run_ok_check:
  assumes "run_ok env V q ps W s" "check \<noteq> []" "check_combination env check s = Some (c, s')"
  shows "run_ok env V q ps W s'"
proof -
  let ?new = "drop (length ps) (mt_proposals s)"
  have ok: "search_ok env q ps s" "cache_ok env V ?new (mt_queue s)" "placed ?new W (mt_queue s)" "queues_in V (mt_queue s)"
    using assms(1) by (simp_all add: run_ok_def)
  have ok': "search_ok env q ps s'" by (rule search_ok_check [OF ok(1) assms(2,3)])
  then have skel: "skel (mt_queue s') = skel (mt_queue s)" using ok(1) by (simp add: search_ok_def)
  show ?thesis
    using assms(3)
  proof (cases rule: combination_cases)
    case (missing g)
    have "skel (mt_queue s) g = None" using missing(2) by (simp add: skel_def)
    then have "placed ?new W (mt_queue s')"
      using ok(3) unfolding placed_def skel by (auto simp: missing(4) lfg_simps)
    moreover have "cache_ok env V ?new (mt_queue s')"
      by (rule cache_ok_mono [OF ok(2)]) (simp add: missing(4) GetCompatibles_remove)
    ultimately show ?thesis using ok' ok(4) by (auto simp: run_ok_def missing(4) queues_in_def lfg_simps)
  next
    case (less roles)
    have "placed ?new W (mt_queue s')"
      using ok(3) unfolding placed_def skel by (simp add: less(2) lfg_simps)
    moreover have "cache_ok env V ?new (mt_queue s')"
      by (rule cache_ok_mono [OF ok(2)]) (simp add: less(2) GetCompatibles_less)
    ultimately show ?thesis using ok' ok(4) by (simp add: run_ok_def less(2) queues_in_def lfg_simps)
  next
    case refused
    have "placed ?new W (mt_queue s')"
      using ok(3) unfolding placed_def skel by (simp add: refused(2) lfg_simps)
    then show ?thesis
      using ok' ok(4) cache_ok_refused [OF ok(2) assms(2) refused(1)] by (simp add: run_ok_def refused(2) queues_in_def lfg_simps)
  next
    case (match p n)
    have new: "drop (length ps) (mt_proposals s') = ?new @ [p]"
      using ok(1) by (auto simp: match(3) lfg_simps search_ok_def)
    have p: "lp_queues p = check" by (rule matched_queues [OF match(2)])
    have "placed (?new @ [p]) W (mt_queue s')"
      using ok(3) p unfolding placed_def skel by (auto simp: match(3) lfg_simps)
    moreover have "cache_ok env V ?new (leave_queues check (mt_queue s))"
      by (rule cache_ok_mono [OF ok(2)]) (simp add: GetCompatibles_leave)
    ultimately show ?thesis
      using ok' ok(4) new cache_ok_match [OF _ assms(2) p] by (auto simp: run_ok_def match(3) add_proposal_def queues_in_def lfg_simps)
  qed
qed

lemma run_ok_same:
  assumes "run_ok env V q ps W s" "QueueDataStore (f (mt_queue s)) = QueueDataStore (mt_queue s)"
    and "newToQueueStore (f (mt_queue s)) = newToQueueStore (mt_queue s)" "currentQueueStore (f (mt_queue s)) = currentQueueStore (mt_queue s)"
    and "\<And>key. GetCompatibles key (f (mt_queue s)) = GetCompatibles key (mt_queue s) \<or>
      GetCompatibles key (f (mt_queue s)) \<notin> {LFG_COMPATIBLES_MATCH, LFG_COMPATIBLES_BAD_STATES}"
  shows "run_ok env V q ps W (on_queue f s)"
proof -
  let ?new = "drop (length ps) (mt_proposals s)"
  have "search_ok env q ps (on_queue f s)"
    by (rule search_ok_same) (use assms(1,2) in \<open>auto simp: run_ok_def\<close>)
  moreover have "cache_ok env V ?new (f (mt_queue s))"
    by (rule cache_ok_mono [OF _ assms(5)]) (use assms(1) in \<open>simp add: run_ok_def\<close>)
  moreover have "placed ?new W (f (mt_queue s))"
    using assms(1-4) by (simp add: run_ok_def placed_def skel_def)
  moreover have "queues_in V (f (mt_queue s))"
    using assms(1,3,4) by (simp add: run_ok_def queues_in_def)
  ultimately show ?thesis by (simp add: run_ok_def)
qed

lemma run_ok_outside:
  assumes "run_ok env V q ps W s" "\<not> set check \<subseteq> V" "check \<noteq> []"
  shows "run_ok env V q ps W (on_queue (SetCompatibles (ConcatenateGuids check) c) s)"
proof -
  let ?f = "SetCompatibles (ConcatenateGuids check) c"
  have "search_ok env q ps (on_queue ?f s)"
    by (rule search_ok_same) (use assms(1) in \<open>auto simp: run_ok_def lfg_simps\<close>)
  moreover have "ConcatenateGuids check' \<noteq> ConcatenateGuids check" if "check' \<noteq> [] \<and> set check' \<subseteq> V" for check'
    using guids_key_inj [of check' check] that assms(2,3) by auto
  then have "cache_ok env V new (?f (mt_queue s)) = cache_ok env V new (mt_queue s)" for new
    unfolding cache_ok_def by (metis GetCompatibles_set)
  ultimately show ?thesis
    using assms(1) by (auto simp: run_ok_def placed_def queues_in_def skel_def lfg_simps)
qed

interpretation run: search_invariant env "run_ok env V q ps W" for env V q ps W
proof
  show "run_ok env V q ps W (on_queue (SetCompatibles key c) s)"
    if "run_ok env V q ps W s" "c < LFG_COMPATIBLES_WITH_LESS_PLAYERS" for key c s
    by (rule run_ok_same [OF that(1)]) (use that(2) in \<open>auto simp: lfg_simps GetCompatibles_set less_LfgCompatibility_def\<close>)
  show "run_ok env V q ps W (on_queue (SetCompatibles (ConcatenateGuids check) LFG_COMPATIBLES_MATCH) s)"
    if "run_ok env V q ps W s" "AllQueued env check"
      "GetCompatibles (ConcatenateGuids check) (mt_queue s) = LFG_COMPATIBLES_BAD_STATES" for check s
  proof (rule run_ok_outside [OF that(1)])
    show "\<not> set check \<subseteq> V" "check \<noteq> []"
      using that unfolding run_ok_def cache_ok_def by (auto simp: AllQueued_def)
  qed
qed (auto intro: run_ok_check)

text \<open>When a search reports a match, the guids it started with are in a proposal.\<close>

context search_invariant
begin

lemma check_last:
  assumes "inv s" "CheckCompatibility env check s = Some (LFG_COMPATIBLES_MATCH, s')"
  shows "\<exists>t. inv t \<and> check_combination env check t = Some (LFG_COMPATIBLES_MATCH, s')"
proof (cases check)
  case (Cons g rest)
  show ?thesis
  proof (cases "length check > 2")
    case True
    then obtain child t where "CheckCompatibility env rest s = Some (child, t)" "check_combination env check t = Some (LFG_COMPATIBLES_MATCH, s')"
      using assms(2) by (auto simp: Cons conclude_def less_LfgCompatibility_def split: if_splits option.splits)
    then show ?thesis using check_keeps [OF assms(1)] by blast
  qed (use assms in \<open>auto simp: Cons split: if_splits\<close>)
qed (use assms in simp)

end

lemma visit_match:
  assumes "run_ok env V q ps W s" "visit env check s = Some (LFG_COMPATIBLES_MATCH, s')" "check \<noteq> []" "set check \<subseteq> V"
  shows "\<exists>p \<in> set (drop (length ps) (mt_proposals s')). set (lp_queues p) = set check"
proof (cases "GetCompatibles (ConcatenateGuids check) (mt_queue s) = LFG_COMPATIBILITY_PENDING")
  case True
  then have c: "CheckCompatibility env check s = Some (LFG_COMPATIBLES_MATCH, s')"
    using assms(2) check_bad_states [of env check s] by (auto simp: visit_def Let_def split: option.splits if_splits)
  obtain t where t: "run_ok env V q ps W t" "check_combination env check t = Some (LFG_COMPATIBLES_MATCH, s')"
    using run.check_last [OF assms(1) c] by blast
  from t(2) show ?thesis
  proof (cases rule: combination_cases)
    case (match p n)
    have "\<exists>new. mt_proposals t = ps @ new"
      using t(1) by (auto simp: run_ok_def search_ok_def)
    then show ?thesis
      using matched_queues [OF match(2)] by (auto simp: match(3) lfg_simps)
  qed (auto simp: less_LfgCompatibility_def)
next
  case False
  have "\<not> (GetCompatibles (ConcatenateGuids check) (mt_queue s) = LFG_COMPATIBLES_BAD_STATES \<and> AllQueued env check)"
    using assms(1,3,4) unfolding run_ok_def cache_ok_def by blast
  then have "GetCompatibles (ConcatenateGuids check) (mt_queue s) = LFG_COMPATIBLES_MATCH" "s' = s"
    using assms(2) False by (auto simp: visit_def Let_def split: if_splits)
  then show ?thesis
    using assms(1,3,4) unfolding run_ok_def cache_ok_def by blast
qed

text \<open>The loop without a match has used up the list of the others.\<close>

lemma search_loop_exhausts:
  "search_loop env check rest s = Some (c, rest', s') \<Longrightarrow> c \<noteq> LFG_COMPATIBLES_MATCH \<Longrightarrow> c = LFG_COMPATIBLES_WITH_LESS_PLAYERS \<and> rest' = []"
proof (induction env check rest s arbitrary: c rest' s' rule: search_loop.induct)
  case (2 env check a rest s)
  note run = "2.prems"(1) [unfolded search_loop.simps(2)]
  from run obtain v t where v: "visit env (check @ [a]) s = Some (v, t)"
    by (auto split: option.splits)
  show ?case
  proof (cases "v = LFG_COMPATIBLES_WITH_LESS_PLAYERS")
    case True
    with run v obtain sub r u where inner: "search_loop env (check @ [a]) rest t = Some (sub, r, u)"
      by (auto split: option.splits)
    show ?thesis
      using "2.IH"(2) [OF v refl True inner refl refl _ _ "2.prems"(2)] run v True inner "2.prems"(2) by (auto split: if_splits)
  qed (use "2.IH"(3) [OF v refl _ _ _ "2.prems"(2)] run v "2.prems"(2) in \<open>auto split: if_splits\<close>)
qed (simp add: search_loop.simps)

lemma search_match:
  "run_ok env V q ps W s \<Longrightarrow> search_loop env check rest s = Some (LFG_COMPATIBLES_MATCH, rest', s') \<Longrightarrow>
   set check \<union> set rest \<subseteq> V \<Longrightarrow> \<exists>p \<in> set (drop (length ps) (mt_proposals s')). set check \<subseteq> set (lp_queues p)"
proof (induction env check rest s arbitrary: rest' s' rule: search_loop.induct)
  case (2 env check a rest s)
  note run = "2.prems"(2) [unfolded search_loop.simps(2)]
  from run obtain v t where v: "visit env (check @ [a]) s = Some (v, t)"
    by (auto split: option.splits)
  have t: "run_ok env V q ps W t"
    by (rule run.visit_keeps [OF "2.prems"(1) v])
  consider "v = LFG_COMPATIBLES_WITH_LESS_PLAYERS" | "v = LFG_COMPATIBLES_MATCH"
    | "v \<noteq> LFG_COMPATIBLES_WITH_LESS_PLAYERS" "v \<noteq> LFG_COMPATIBLES_MATCH"
    by blast
  then show ?case
  proof cases
    case less: 1
    with run v obtain sub r u where inner: "search_loop env (check @ [a]) rest t = Some (sub, r, u)"
      by (auto split: option.splits)
    show ?thesis
    proof (cases "sub = LFG_COMPATIBLES_MATCH")
      case True
      then have "\<exists>p \<in> set (drop (length ps) (mt_proposals u)). set (check @ [a]) \<subseteq> set (lp_queues p)"
        using "2.IH"(1) [OF v refl less t] inner "2.prems"(3) by auto
      then show ?thesis using run v less inner True by auto
    next
      case False
      then have "r = []" using search_loop_exhausts [OF inner] by blast
      then show ?thesis
        using "2.IH"(2) [OF v refl less inner refl refl False run.search_keeps [OF t inner]] run v less inner False "2.prems"(3) by auto
    qed
  next
    case 2
    then show ?thesis
      using run v visit_match [OF \<open>run_ok env V q ps W s\<close>, of "check @ [a]" t] \<open>set check \<union> set (a # rest) \<subseteq> V\<close> by auto
  next
    case 3
    then show ?thesis using "2.IH"(3) [OF v refl 3 t] run v \<open>set check \<union> set (a # rest) \<subseteq> V\<close> by auto
  qed
qed (simp add: search_loop.simps)

lemma find_match:
  assumes "run_ok env V q ps W s" "FindNewGroups env check rest s = Some (LFG_COMPATIBLES_MATCH, rest', s')" "check \<noteq> []"
    and sub: "set check \<union> set rest \<subseteq> V"
  shows "\<exists>p \<in> set (drop (length ps) (mt_proposals s')). set check \<subseteq> set (lp_queues p)"
proof -
  from assms(2) obtain c t where v: "visit env check s = Some (c, t)"
    by (auto simp: FindNewGroups_def split: option.splits)
  show ?thesis
  proof (cases "c = LFG_COMPATIBLES_WITH_LESS_PLAYERS")
    case True
    then show ?thesis
      using search_match [OF run.visit_keeps [OF assms(1) v], of check rest rest' s'] assms(2) v sub by (simp add: FindNewGroups_def)
  qed (use visit_match [OF assms(1) _ assms(3)] assms(2) v sub in \<open>auto simp: FindNewGroups_def\<close>)
qed

text \<open>With the random numbers in range, a search always returns.\<close>

lemma create_proposal_total:
  assumes "urand_ok env" "dungeons \<noteq> []"
  shows "create_proposal env check nl grp groups roles dungeons n \<noteq> None"
proof -
  let ?hi = "of_nat (length dungeons) - 1 :: uint32"
  have "?hi = of_nat (length dungeons - 1)"
    using assms(2) by (simp add: Suc_leI of_nat_diff)
  then have hi: "unat ?hi < length dungeons"
    using assms(2) unat_of_nat [of "length dungeons - 1", where 'a = 32] mod_less_eq_dividend [of "length dungeons - 1" "2 ^ 32"]
    by (cases dungeons) (auto simp: less_Suc_eq_le)
  have "le_urand env n 0 ?hi \<le> ?hi"
    using assms(1) unfolding urand_ok_def by (metis word_zero_le)
  then have "unat (le_urand env n 0 ?hi) < length dungeons"
    using hi by (simp add: word_le_nat_alt)
  then show ?thesis
    by (simp add: create_proposal_def Let_def case_prod_beta)
qed

lemma combination_total:
  assumes "urand_ok env" "search_ok env q ps s" "check \<noteq> []"
  shows "check_combination env check s \<noteq> None"
proof
  assume none: "check_combination env check s = None"
  then obtain np nl grp groups where c: "count_loop env (mt_queue s) check (0, 0, 0, []) = Inr (np, nl, grp, groups)"
    by (auto simp: check_combination_def Let_def split: sum.splits)
  obtain roles dungeons where m: "np = 5" "\<not> nl > 1" "merge_groups env (mt_queue s) check np = Inr (roles, dungeons)"
    "create_proposal env check nl grp groups roles dungeons (mt_draws s) = None"
    using none c by (auto simp: check_combination_def conclude_def Let_def split: sum.splits if_splits option.splits)
  have "nl \<le> 1" using m(2) by simp
  from count_merged [OF c [unfolded m(1)] this m(3) [unfolded m(1)] _ assms(3)]
  have "\<exists>rs. merged env (mt_queue s) check rs dungeons"
    using assms(2) by (auto simp: search_ok_def)
  then have "dungeons \<noteq> []" by (auto simp: merged_def)
  from create_proposal_total [OF assms(1) this] m(4) show False by blast
qed

text \<open>A search in which every check returns, returns.\<close>

locale total_search = search_invariant +
  assumes check_returns: "inv s \<Longrightarrow> check \<noteq> [] \<Longrightarrow> check_combination env check s \<noteq> None"
begin

lemma check_total: "inv s \<Longrightarrow> CheckCompatibility env check s \<noteq> None"
proof (induction check)
  case (Cons g rest)
  then obtain c t where "CheckCompatibility env rest s = Some (c, t)" by auto
  then show ?case
    using check_keeps [OF Cons.prems] check_returns [of _ "g # rest"] Cons.prems by (auto simp: conclude_def)
qed simp

lemma visit_total: "inv s \<Longrightarrow> visit env check s \<noteq> None"
  using check_total [of s check] by (auto simp: visit_def Let_def)

lemma search_total_env: "e = env \<Longrightarrow> inv s \<Longrightarrow> search_loop e check rest s \<noteq> None"
proof (induction e check rest s rule: search_loop.induct)
  case (2 e check a rest s)
  obtain v t where v: "visit e (check @ [a]) s = Some (v, t)"
    using visit_total [OF "2.prems"(2)] "2.prems"(1) by fastforce
  have t: "inv t"
    using visit_keeps [OF "2.prems"(2)] v "2.prems"(1) by simp
  show ?case
  proof (cases "v = LFG_COMPATIBLES_WITH_LESS_PLAYERS")
    case True
    obtain sub r u where inner: "search_loop e (check @ [a]) rest t = Some (sub, r, u)"
      using "2.IH"(1) [OF v refl True "2.prems"(1) t] by fastforce
    have "inv u" using search_keeps [OF t] inner "2.prems"(1) by simp
    then show ?thesis
      using "2.IH"(2) [OF v refl True inner refl refl _ "2.prems"(1)] v True inner by (auto simp: search_loop.simps)
  qed (use "2.IH"(3) [OF v refl _ _ "2.prems"(1) t] v in \<open>auto simp: search_loop.simps\<close>)
qed (simp add: search_loop.simps)

lemma find_total: "inv s \<Longrightarrow> FindNewGroups env check rest s \<noteq> None"
  using visit_total [of s check] visit_keeps [of s check] search_total_env [OF refl]
  by (auto simp: FindNewGroups_def split: option.splits)

end

interpretation total_run: total_search env "\<lambda>s. urand_ok env \<and> run_ok env V q ps W s" for env V q ps W
proof
  show "check_combination env check s \<noteq> None" if "urand_ok env \<and> run_ok env V q ps W s" "check \<noteq> []" for check s
    using that combination_total [of env q ps s check] by (simp add: run_ok_def)
qed (auto intro: run.keeps_check run.keeps_refusal run.keeps_change)

lemma run_ok_enter:
  assumes "run_ok env V q ps (W - {g}) s" "search_ok env q ps s" "g \<in> V"
  shows "run_ok env V q ps W (on_queue (AddToCurrentQueue g) s)"
proof -
  have "search_ok env q ps (on_queue (AddToCurrentQueue g) s)"
    by (rule search_ok_same [OF assms(2)]) (simp add: AddToCurrentQueue_def)
  moreover have "cache_ok env V new (AddToCurrentQueue g q') = cache_ok env V new q'" for new q'
    by (simp add: cache_ok_def GetCompatibles_def AddToCurrentQueue_def)
  ultimately show ?thesis
    using assms(1,3) by (auto simp: run_ok_def placed_def queues_in_def skel_def AddToCurrentQueue_def)
qed

lemma run_ok_leave:
  assumes "run_ok env V q ps W s"
  shows "run_ok env V q ps (W - {g}) (on_queue (RemoveFromNewQueue g) s)"
proof -
  have "search_ok env q ps (on_queue (RemoveFromNewQueue g) s)"
    by (rule search_ok_same) (use assms in \<open>simp_all add: RemoveFromNewQueue_def run_ok_def\<close>)
  moreover have "cache_ok env V new (RemoveFromNewQueue g q') = cache_ok env V new q'" for new q'
    by (simp add: cache_ok_def GetCompatibles_def RemoveFromNewQueue_def)
  ultimately show ?thesis
    using assms by (auto simp: run_ok_def placed_def queues_in_def skel_def RemoveFromNewQueue_def)
qed

lemma find_groups_run:
  "urand_ok env \<Longrightarrow> run_ok env V q ps W s \<Longrightarrow>
   \<exists>n s'. find_groups_loop env k s = Some (n, s') \<and> newToQueueStore (mt_queue s') = [] \<and> run_ok env V q ps W s'"
proof (induction env k s rule: find_groups_loop.induct)
  case (1 env k s)
  show ?case
  proof (cases "newToQueueStore (mt_queue s)")
    case Nil
    then show ?thesis using "1.prems" by (simp add: find_groups_loop.simps)
  next
    case (Cons g gs)
    let ?s = "on_queue (RemoveFromNewQueue g) s"
    have s: "run_ok env V q ps (W - {g}) ?s" by (rule run_ok_leave [OF "1.prems"(2)])
    have sub: "set [g] \<union> set (currentQueueStore (mt_queue ?s)) \<subseteq> V" and g: "g \<in> V"
      using "1.prems"(2) Cons s by (auto simp: run_ok_def queues_in_def)
    obtain c r t where find: "FindNewGroups env [g] (currentQueueStore (mt_queue ?s)) ?s = Some (c, r, t)"
      using total_run.find_total [of env V q ps "W - {g}" ?s "[g]"] s "1.prems"(1) by fastforce
    have t: "run_ok env V q ps (W - {g}) t" by (rule run.find_keeps [OF s find])
    have step: "find_groups_loop env k s = (if c = LFG_COMPATIBLES_MATCH then find_groups_loop env (k + 1) t
        else find_groups_loop env k (on_queue (AddToCurrentQueue g) t))"
      using Cons find by (simp add: find_groups_loop.simps [of env k s] Let_def)
    show ?thesis
    proof (cases "c = LFG_COMPATIBLES_MATCH")
      case True
      have "run_ok env V q ps W t"
        using find_match [OF s find [unfolded True] _ sub] t by (auto simp: run_ok_def placed_def)
      from "1.IH"(1) [OF Cons refl find refl refl True "1.prems"(1) this] show ?thesis
        using step True by simp
    next
      case False
      from "1.IH"(2) [OF Cons refl find refl refl False "1.prems"(1) run_ok_enter [OF t _ g]] show ?thesis
        using step False t by (simp add: run_ok_def)
    qed
  qed
qed

section \<open>Properties of the queue\<close>

text \<open>(C14) Every proposal that \<open>FindGroups\<close> creates is a group that can play: exactly the players of the combined
  entries, five in number, one tank, one healer and three damage dealers, each in a role he selected; a dungeon
  that every entry selected; no entry twice and at most one group with a dungeon; no two players of different
  entries who ignore each other; every entry in the state queued; the leader one of the players.\<close>

theorem lfg_proposals_valid:
  assumes "store_ok (QueueDataStore (mt_queue s))" "FindGroups env s = Some (n, s')"
  shows "\<exists>new. mt_proposals s' = mt_proposals s @ new \<and> (\<forall>p \<in> set new. proposal_valid env (mt_queue s) p)"
proof -
  have "search_ok env (mt_queue s) (mt_proposals s) s"
    using assms(1) by (simp add: search_ok_def)
  from valid_search.groups_keeps [OF this assms(2) [unfolded FindGroups_def]] show ?thesis
    by (auto simp: search_ok_def)
qed

text \<open>A queue with a solo player (1), another (2) and a group of four (3) behind it.\<close>

definition demo_env :: LfgEnv where
  "demo_env = \<lparr>le_State = (\<lambda>g. LFG_STATE_QUEUED), le_OldState = (\<lambda>g. LFG_STATE_NONE), le_IsLfgGroup = (\<lambda>g. False),
     le_PlayerCount = (\<lambda>g. 4), le_Connected = (\<lambda>g. True), le_IgnoreList = (\<lambda>g l. False), le_now = 1000, le_urand = (\<lambda>n lo hi. hi)\<rparr>"

definition demo_store :: "(uint64, LfgQueueData) omap" where
  "demo_store = [(1, LfgQueueData_init 900 [261, 262] [(1, 8)]), (2, LfgQueueData_init 800 [262] [(2, 9)]),
     (3, LfgQueueData_init 700 [261] [(4, 2), (5, 4), (6, 8), (7, 12)])]"

definition demo_matching :: "uint64 list \<Rightarrow> Matching" where
  "demo_matching current = \<lparr>mt_queue = LFGQueue_new\<lparr>QueueDataStore := demo_store, currentQueueStore := current, newToQueueStore := [1]\<rparr>,
     mt_proposals = [], mt_draws = 0\<rparr>"

lemma demo_store_ok: "store_ok demo_store"
proof -
  have "list_all (\<lambda>(g, d). entry_ok d) demo_store"
    by code_simp
  moreover have "om_ok demo_store"
    by code_simp
  ultimately show ?thesis
    by (auto simp: store_ok_def list_all_iff dest!: om_get_in_set)
qed

lemma demo_matching_simps [simp]: "QueueDataStore (mt_queue (demo_matching current)) = demo_store" "mt_proposals (demo_matching current) = []"
  by (simp_all add: demo_matching_def)

theorem lfg_proposals_valid_witness:
  "\<exists>n s' p. FindGroups demo_env (demo_matching [3]) = Some (n, s') \<and> mt_proposals s' = [p] \<and> lp_queues p = [1, 3] \<and>
     proposal_valid demo_env (mt_queue (demo_matching [3])) p"
proof -
  have "map_option (\<lambda>(n, s). map lp_queues (mt_proposals s)) (FindGroups demo_env (demo_matching [3])) = Some [[1, 3]]"
    by code_simp
  then obtain n s' p where run: "FindGroups demo_env (demo_matching [3]) = Some (n, s')" "mt_proposals s' = [p]" "lp_queues p = [1, 3]"
    by auto
  then show ?thesis
    using lfg_proposals_valid [of "demo_matching [3]" demo_env n s'] by (auto simp: demo_store_ok)
qed

text \<open>(C15) \<open>FindGroups\<close> ends with an empty queue of new guids and loses nobody: every guid with data that was in
  one of the two queues is afterwards in the main queue or in one of the proposals created.  The conditions are
  that random numbers are in their range, that the entries are as the manager adds them, and that no combination
  of guids now in the two queues is cached as a match, or with bad states although all its guids are queued;
  combinations of other guids, such as those of earlier proposals that are still open, may be cached in any
  way.  The search re-establishes the condition on the cache for the guids it leaves in the main queue and in no
  proposal.\<close>

theorem lfg_find_groups_complete:
  assumes "urand_ok env" "store_ok (QueueDataStore (mt_queue s))"
    and "cache_ok env (set (newToQueueStore (mt_queue s)) \<union> set (currentQueueStore (mt_queue s))) [] (mt_queue s)"
  shows "\<exists>n s' new. FindGroups env s = Some (n, s') \<and> newToQueueStore (mt_queue s') = [] \<and> mt_proposals s' = mt_proposals s @ new \<and>
    (\<forall>g \<in> set (newToQueueStore (mt_queue s)) \<union> set (currentQueueStore (mt_queue s)).
       om_get (QueueDataStore (mt_queue s)) g \<noteq> None \<longrightarrow>
       g \<in> set (currentQueueStore (mt_queue s')) \<or> (\<exists>p \<in> set new. g \<in> set (lp_queues p))) \<and>
    cache_ok env {g \<in> set (currentQueueStore (mt_queue s')). \<forall>p \<in> set new. g \<notin> set (lp_queues p)} [] (mt_queue s')"
proof -
  let ?W = "set (newToQueueStore (mt_queue s)) \<union> set (currentQueueStore (mt_queue s))"
  have "run_ok env ?W (mt_queue s) (mt_proposals s) ?W s"
    using assms(2,3) by (auto simp: run_ok_def search_ok_def placed_def queues_in_def)
  from find_groups_run [OF assms(1) this, of 0] obtain n s' where run: "FindGroups env s = Some (n, s')"
    "newToQueueStore (mt_queue s') = []" "run_ok env ?W (mt_queue s) (mt_proposals s) ?W s'"
    by (auto simp: FindGroups_def)
  let ?new = "drop (length (mt_proposals s)) (mt_proposals s')"
  from run(3) have ok: "search_ok env (mt_queue s) (mt_proposals s) s'" "cache_ok env ?W ?new (mt_queue s')"
    and placed: "placed ?new ?W (mt_queue s')" "set (currentQueueStore (mt_queue s')) \<subseteq> ?W"
    by (simp_all add: run_ok_def queues_in_def)
  from ok(1) have new: "mt_proposals s' = mt_proposals s @ ?new" "skel (mt_queue s') = skel (mt_queue s)"
    by (auto simp: search_ok_def)
  have "skel (mt_queue s') g \<noteq> None" if "om_get (QueueDataStore (mt_queue s)) g \<noteq> None" for g
    unfolding new(2) using that by (simp add: skel_def)
  moreover have "cache_ok env {g \<in> set (currentQueueStore (mt_queue s')). \<forall>p \<in> set ?new. g \<notin> set (lp_queues p)} [] (mt_queue s')"
    by (rule cache_ok_restrict [OF ok(2)]) (use placed(2) in auto)
  ultimately show ?thesis
    using run(1,2) new(1) placed(1) unfolding placed_def by (intro exI [of _ n] exI [of _ s'] exI [of _ ?new]) auto
qed

text \<open>Player 1 is new, player 2 and the group 3 are queued, and the match of an open proposal of 8 and 9 is cached.\<close>

theorem lfg_find_groups_complete_witness:
  "let s = on_queue (SetCompatibles (ConcatenateGuids [8, 9]) LFG_COMPATIBLES_MATCH) (demo_matching [2, 3]) in
   \<exists>n s'. FindGroups demo_env s = Some (n, s') \<and> newToQueueStore (mt_queue s') = [] \<and>
     (1 \<in> set (currentQueueStore (mt_queue s')) \<or> (\<exists>p \<in> set (mt_proposals s'). 1 \<in> set (lp_queues p)))"
proof -
  let ?s = "on_queue (SetCompatibles (ConcatenateGuids [8, 9]) LFG_COMPATIBLES_MATCH) (demo_matching [2, 3])"
  have "urand_ok demo_env"
    by (simp add: urand_ok_def demo_env_def)
  moreover have "ConcatenateGuids check \<noteq> ConcatenateGuids [8, 9]" if "check \<noteq> []" "set check \<subseteq> {1, 2, 3}" for check
    using guids_key_inj [OF that(1), of "[8, 9]"] that(2) by auto
  then have "cache_ok demo_env {1, 2, 3} [] (mt_queue ?s)"
    by (auto simp: cache_ok_def GetCompatibles_set) (simp_all add: GetCompatibles_def demo_matching_def LFGQueue_new_def)
  moreover have "set (newToQueueStore (mt_queue ?s)) \<union> set (currentQueueStore (mt_queue ?s)) = {1, 2, 3}"
    "QueueDataStore (mt_queue ?s) = demo_store" "mt_proposals ?s = []"
    by (auto simp: demo_matching_def lfg_simps LFGQueue_new_def)
  moreover have "om_get demo_store 1 \<noteq> None"
    by (simp add: demo_store_def)
  ultimately show ?thesis
    using lfg_find_groups_complete [of demo_env ?s] demo_store_ok unfolding Let_def by fastforce
qed

text \<open>(C25) The search for a group is greedy: as soon as the new guids are compatible with the first of the others, the
  result is that of the search for combinations that contain it, since the inner loop empties the list it
  shares with the outer one.  Combinations without that guid are not tried, although the comment of
  \<open>FindNewGroups\<close> promises the first match there is.\<close>

theorem lfg_search_greedy:
  assumes "visit env check s = Some (LFG_COMPATIBLES_WITH_LESS_PLAYERS, s1)"
    and "visit env (check @ [a]) s1 = Some (LFG_COMPATIBLES_WITH_LESS_PLAYERS, s2)"
  shows "FindNewGroups env check (a # rest) s = search_loop env (check @ [a]) rest s2"
proof (cases "search_loop env (check @ [a]) rest s2")
  case None
  then show ?thesis using assms by (simp add: FindNewGroups_def search_loop.simps)
next
  case (Some r)
  obtain c rest' s' where r: "r = (c, rest', s')" by (cases r)
  have "c = LFG_COMPATIBLES_WITH_LESS_PLAYERS \<and> rest' = []" if "c \<noteq> LFG_COMPATIBLES_MATCH"
    by (rule search_loop_exhausts [OF Some [unfolded r] that])
  then show ?thesis
    using assms Some r by (cases "c = LFG_COMPATIBLES_MATCH") (auto simp: FindNewGroups_def search_loop.simps)
qed

text \<open>The witness: player 1 and the group 3 are a match, but behind player 2 the group is not found.\<close>

theorem lfg_search_greedy_witness:
  "(\<exists>s'. FindNewGroups demo_env [1] [2, 3] (demo_matching [2, 3]) = Some (LFG_COMPATIBLES_WITH_LESS_PLAYERS, [], s') \<and> mt_proposals s' = []) \<and>
   (\<exists>s'. FindNewGroups demo_env [1] [3] (demo_matching [2, 3]) = Some (LFG_COMPATIBLES_MATCH, [], s') \<and> mt_proposals s' \<noteq> [])"
proof -
  have "map_option fst (visit demo_env [1] (demo_matching [2, 3])) = Some LFG_COMPATIBLES_WITH_LESS_PLAYERS"
    by code_simp
  then obtain s1 where s1: "visit demo_env [1] (demo_matching [2, 3]) = Some (LFG_COMPATIBLES_WITH_LESS_PLAYERS, s1)"
    by auto
  have "map_option fst (Option.bind (visit demo_env [1] (demo_matching [2, 3])) (\<lambda>(_, s). visit demo_env [1, 2] s)) =
      Some LFG_COMPATIBLES_WITH_LESS_PLAYERS"
    by code_simp
  then obtain s2 where s2: "visit demo_env ([1] @ [2]) s1 = Some (LFG_COMPATIBLES_WITH_LESS_PLAYERS, s2)"
    by (auto simp: s1)
  have "map_option (\<lambda>(c, r, s). (c, r, length (mt_proposals s)))
      (Option.bind (visit demo_env [1] (demo_matching [2, 3])) (\<lambda>(_, s).
         Option.bind (visit demo_env [1, 2] s) (\<lambda>(_, s). search_loop demo_env [1, 2] [3] s))) =
      Some (LFG_COMPATIBLES_WITH_LESS_PLAYERS, [], 0)"
    by code_simp
  then have "map_option (\<lambda>(c, r, s). (c, r, length (mt_proposals s))) (search_loop demo_env ([1] @ [2]) [3] s2) =
      Some (LFG_COMPATIBLES_WITH_LESS_PLAYERS, [], 0)"
    using s2 by (simp add: s1)
  then have "\<exists>s'. FindNewGroups demo_env [1] [2, 3] (demo_matching [2, 3]) = Some (LFG_COMPATIBLES_WITH_LESS_PLAYERS, [], s') \<and>
      mt_proposals s' = []"
    unfolding lfg_search_greedy [OF s1 s2] by auto
  moreover have "map_option (\<lambda>(c, r, s). (c, r, length (mt_proposals s))) (FindNewGroups demo_env [1] [3] (demo_matching [2, 3])) =
      Some (LFG_COMPATIBLES_MATCH, [], 1)"
    by code_simp
  then have "\<exists>s'. FindNewGroups demo_env [1] [3] (demo_matching [2, 3]) = Some (LFG_COMPATIBLES_MATCH, [], s') \<and> mt_proposals s' \<noteq> []"
    by auto
  ultimately show ?thesis by blast
qed

text \<open>(C24) Leaving the queue leaves no trace: the guid is in neither queue and has no data, no cached combination and
  no best combination of another entry contains it, and the dungeons and roles of the others are unchanged.\<close>

theorem lfg_remove_from_queue:
  assumes "om_ok (QueueDataStore q)"
  shows "guid \<notin> set (newToQueueStore (RemoveFromQueue guid q)) \<and> guid \<notin> set (currentQueueStore (RemoveFromQueue guid q)) \<and>
    skel (RemoveFromQueue guid q) = (skel q)(guid := None) \<and>
    (\<forall>check. guid \<in> set check \<longrightarrow> GetCompatibilityData (ConcatenateGuids check) (RemoveFromQueue guid q) = None) \<and>
    (\<forall>g d. om_get (QueueDataStore (RemoveFromQueue guid q)) g = Some d \<longrightarrow> \<not> contains (show_nat (unat guid)) (qd_bestCompatible d))"
proof -
  let ?q = "RemoveFromQueue guid q" and ?s = "show_nat (unat guid)"
  let ?cs = "CompatibleMapStore ?q"
  have take_roles: "qd_bestCompatible (fold (\<lambda>(_, r). take_role r) rs d) = qd_bestCompatible d" for rs d
    by (induction rs arbitrary: d) (auto simp: take_role_def)
  have update: "qd_bestCompatible (UpdateBestCompatibleInQueue key rs d) \<in> {key, qd_bestCompatible d}" for key rs d
    by (simp add: UpdateBestCompatibleInQueue_def Let_def take_roles)
  have keys: "\<forall>x \<in> set ?cs. \<not> contains ?s (fst x)"
    by (auto simp: lfg_simps)
  have "\<not> contains ?s (qd_bestCompatible (FindBestCompatibleInQueue cs g d))"
    if "\<forall>x \<in> set cs. \<not> contains ?s (fst x)" "\<not> contains ?s (qd_bestCompatible d)" for cs g d
    using that unfolding FindBestCompatibleInQueue_def
  proof (induction cs arbitrary: d)
    case (Cons x cs)
    then show ?case using update [of "fst x" "cd_roles (snd x)" d] by (auto simp: case_prod_beta)
  qed simp
  from this [OF keys] have best: "\<not> contains ?s (qd_bestCompatible (forget_best guid ?cs g d))" if "g \<noteq> guid" for g d
    using that by (auto simp: forget_best_def)
  have store: "QueueDataStore ?q = om_erase guid (map (\<lambda>(k, d). (k, forget_best guid ?cs k d)) (QueueDataStore q))"
    by (simp add: RemoveFromQueue_def Let_def RemoveFromCompatibles_def RemoveFromCurrentQueue_def RemoveFromNewQueue_def)
  have "\<not> contains ?s (qd_bestCompatible d)" if "om_get (QueueDataStore ?q) g = Some d" for g d
    using that best assms by (auto simp: store om_get_erase om_get_map split: if_splits)
  moreover have "GetCompatibilityData (ConcatenateGuids check) ?q = None" if "guid \<in> set check" for check
    using key_contains [OF that] by (simp add: GetCompatibilityData_def lfg_simps om_get_filter_key)
  ultimately show ?thesis
    using RemoveFromQueue_data [OF assms, of guid] by (simp add: lfg_simps)
qed

theorem lfg_remove_from_queue_witness:
  "skel (RemoveFromQueue 2 (mt_queue (demo_matching [2, 3]))) 2 = None \<and>
   2 \<notin> set (currentQueueStore (RemoveFromQueue 2 (mt_queue (demo_matching [2, 3]))))"
proof -
  have "om_ok (QueueDataStore (mt_queue (demo_matching [2, 3])))"
    using demo_store_ok by (simp add: store_ok_def)
  from lfg_remove_from_queue [OF this, of 2] show ?thesis by simp
qed

text \<open>The depth-first search runs into a combination that is cached with bad states.\<close>

lemma visit_cached_less:
  "GetCompatibles (ConcatenateGuids check) (mt_queue s) = LFG_COMPATIBLES_WITH_LESS_PLAYERS \<Longrightarrow>
   visit env check s = Some (LFG_COMPATIBLES_WITH_LESS_PLAYERS, s)"
  by (simp add: visit_def Let_def)

lemma visit_cached_bad:
  "GetCompatibles (ConcatenateGuids check) (mt_queue s) = LFG_COMPATIBLES_BAD_STATES \<Longrightarrow> AllQueued env check \<Longrightarrow>
   visit env check s = Some (LFG_COMPATIBLES_MATCH, on_queue (SetCompatibles (ConcatenateGuids check) LFG_COMPATIBLES_MATCH) s)"
  by (simp add: visit_def Let_def)

lemma search_cached_bad:
  assumes "\<forall>n. 0 < n \<and> n < length gs \<longrightarrow>
      GetCompatibles (ConcatenateGuids (check @ take n gs)) (mt_queue s) = LFG_COMPATIBLES_WITH_LESS_PLAYERS"
    and "GetCompatibles (ConcatenateGuids (check @ gs)) (mt_queue s) = LFG_COMPATIBLES_BAD_STATES" "AllQueued env (check @ gs)" "gs \<noteq> []"
  shows "\<exists>rest'. search_loop env check (gs @ rest) s =
    Some (LFG_COMPATIBLES_MATCH, rest', on_queue (SetCompatibles (ConcatenateGuids (check @ gs)) LFG_COMPATIBLES_MATCH) s)"
  using assms
proof (induction gs arbitrary: check)
  case (Cons a gs)
  show ?case
  proof (cases "gs = []")
    case True
    then show ?thesis
      using visit_cached_bad [of "check @ [a]" s env] Cons.prems(2,3) by (simp add: search_loop.simps)
  next
    case False
    have "GetCompatibles (ConcatenateGuids ((check @ [a]) @ take n gs)) (mt_queue s) = LFG_COMPATIBLES_WITH_LESS_PLAYERS"
      if "n < length gs" for n
      using Cons.prems(1) [rule_format, of "Suc n"] that by simp
    moreover from this [of 0] have "visit env (check @ [a]) s = Some (LFG_COMPATIBLES_WITH_LESS_PLAYERS, s)"
      using False by (intro visit_cached_less) simp
    moreover note Cons.IH [of "check @ [a]"] Cons.prems(2,3) False
    ultimately show ?thesis by (auto simp: search_loop.simps)
  qed
qed simp

text \<open>(C26) A combination that is cached with bad states, but whose guids are all queued again, is reported as a match
  without a proposal being created.  When the only new guid heads such a combination with the first guids of the
  main queue, the shorter ones of which are cached as compatible with less players, \<open>FindGroups\<close> counts one
  group, creates no proposal and drops the new guid from both queues, although its data stays and its state
  is queued; the other guids of the combination stay in the main queue.\<close>

theorem lfg_bad_states_lost:
  assumes "newToQueueStore (mt_queue s) = [guid]" "currentQueueStore (mt_queue s) = gs @ rest" "guid \<notin> set (gs @ rest)"
    and "\<forall>n < length gs. GetCompatibles (ConcatenateGuids (guid # take n gs)) (mt_queue s) = LFG_COMPATIBLES_WITH_LESS_PLAYERS"
    and "GetCompatibles (ConcatenateGuids (guid # gs)) (mt_queue s) = LFG_COMPATIBLES_BAD_STATES" "AllQueued env (guid # gs)"
  shows "\<exists>s'. FindGroups env s = Some (1, s') \<and> mt_proposals s' = mt_proposals s \<and> QueueDataStore (mt_queue s') = QueueDataStore (mt_queue s) \<and>
    newToQueueStore (mt_queue s') = [] \<and> currentQueueStore (mt_queue s') = gs @ rest"
proof -
  let ?t = "on_queue (RemoveFromNewQueue guid) s"
  let ?s' = "on_queue (SetCompatibles (ConcatenateGuids (guid # gs)) LFG_COMPATIBLES_MATCH) ?t"
  have keep: "GetCompatibles key (RemoveFromNewQueue guid q) = GetCompatibles key q" for key q
    by (simp add: GetCompatibles_def RemoveFromNewQueue_def)
  have cur: "currentQueueStore (mt_queue ?t) = gs @ rest"
    using assms(2) by (simp add: RemoveFromNewQueue_def)
  have "\<exists>r. FindNewGroups env [guid] (gs @ rest) ?t = Some (LFG_COMPATIBLES_MATCH, r, ?s')"
  proof (cases "gs = []")
    case True
    then show ?thesis
      using visit_cached_bad [of "[guid]" ?t env] assms(5,6) by (simp add: FindNewGroups_def keep)
  next
    case False
    then have "visit env [guid] ?t = Some (LFG_COMPATIBLES_WITH_LESS_PLAYERS, ?t)"
      using assms(4) [rule_format, of 0] by (intro visit_cached_less) (simp add: keep)
    then show ?thesis
      using search_cached_bad [of gs "[guid]" ?t env rest] assms(4-6) False by (simp add: FindNewGroups_def keep)
  qed
  then obtain r where find: "FindNewGroups env [guid] (currentQueueStore (mt_queue ?t)) ?t = Some (LFG_COMPATIBLES_MATCH, r, ?s')"
    unfolding cur by blast
  have "newToQueueStore (mt_queue ?s') = []"
    using assms(1) by (simp add: lfg_simps RemoveFromNewQueue_def)
  moreover from this have "find_groups_loop env 1 ?s' = Some (1, ?s')"
    by (simp add: find_groups_loop.simps [of env 1 ?s'])
  then have "FindGroups env s = Some (1, ?s')"
    using assms(1) find by (simp add: FindGroups_def find_groups_loop.simps [of env 0 s] Let_def)
  ultimately show ?thesis
    using assms(2) by (auto simp: lfg_simps RemoveFromNewQueue_def)
qed

text \<open>The cache entry made by the search itself: when player 1 comes to the queue in another state, the search with the
  group 3 caches bad states.  Later he has left the main queue with a proposal, which is refused, and is added
  to the queue of new guids again, now queued: he is lost.\<close>

definition busy_env :: LfgEnv where
  "busy_env = demo_env\<lparr>le_State := (\<lambda>g. if g = 1 then LFG_STATE_ROLECHECK else LFG_STATE_QUEUED)\<rparr>"

definition returned :: "Matching option" where
  "returned = map_option (\<lambda>(n, s). on_queue (AddToQueue 1) (on_queue (leave_queues [1]) s)) (FindGroups busy_env (demo_matching [3]))"

theorem lfg_bad_states_lost_witness:
  "\<exists>s s'. returned = Some s \<and> FindGroups demo_env s = Some (1, s') \<and> mt_proposals s' = [] \<and>
     1 \<notin> set (newToQueueStore (mt_queue s')) \<and> 1 \<notin> set (currentQueueStore (mt_queue s')) \<and>
     om_get (QueueDataStore (mt_queue s')) 1 \<noteq> None"
proof -
  have "case returned of None \<Rightarrow> False | Some s \<Rightarrow> newToQueueStore (mt_queue s) = [1] \<and> currentQueueStore (mt_queue s) = [3] \<and>
      mt_proposals s = [] \<and> om_get (QueueDataStore (mt_queue s)) 1 \<noteq> None \<and>
      GetCompatibles (ConcatenateGuids [1]) (mt_queue s) = LFG_COMPATIBLES_WITH_LESS_PLAYERS \<and>
      GetCompatibles (ConcatenateGuids [1, 3]) (mt_queue s) = LFG_COMPATIBLES_BAD_STATES"
    by code_simp
  then obtain s where s: "returned = Some s" "newToQueueStore (mt_queue s) = [1]" "currentQueueStore (mt_queue s) = [3] @ []"
    "mt_proposals s = []" "om_get (QueueDataStore (mt_queue s)) 1 \<noteq> None"
    "GetCompatibles (ConcatenateGuids [1]) (mt_queue s) = LFG_COMPATIBLES_WITH_LESS_PLAYERS"
    "GetCompatibles (ConcatenateGuids [1, 3]) (mt_queue s) = LFG_COMPATIBLES_BAD_STATES"
    by (auto split: option.splits)
  have "AllQueued demo_env [1, 3]" by code_simp
  from lfg_bad_states_lost [OF s(2,3) _ _ s(7) this] s show ?thesis by auto
qed

end
