(* ===== verification/Action.thy ===== *)
theory Action
  imports Prelude
begin

text \<open>
  The vocabulary of the components whose operations change a state, send packets and statements, and may run into
  undefined behaviour: an action returns the new state and what it sends, in order, or \<open>None\<close> where the code
  dereferences the end of a container, leaves an array or hits an \<open>ASSERT\<close>.  The rules below compose what the parts
  of an operation keep; they carry the invariants of the dungeon finder and of the loot rolls.
\<close>

section \<open>Actions\<close>

type_synonym ('s, 'e) act = "'s \<Rightarrow> ('s \<times> 'e list) option"

definition act_change :: "('s \<Rightarrow> 's) \<Rightarrow> ('s, 'e) act" where
  "act_change f m = Some (f m, [])"

definition act_send :: "('s \<Rightarrow> 'e list) \<Rightarrow> ('s, 'e) act" where
  "act_send f m = Some (m, f m)"

definition act_then :: "('s, 'e) act \<Rightarrow> ('s, 'e) act \<Rightarrow> ('s, 'e) act" where
  "act_then a b m =
     (case a m of
        None \<Rightarrow> None
      | Some (m, e) \<Rightarrow> map_option (\<lambda>(m, e'). (m, e @ e')) (b m))"

definition act_read :: "('s \<Rightarrow> ('s, 'e) act) \<Rightarrow> ('s, 'e) act" where
  "act_read f m = f m m"

primrec act_seq :: "('s, 'e) act list \<Rightarrow> ('s, 'e) act" where
  "act_seq [] = act_send (\<lambda>_. [])"
| "act_seq (a # as) = act_then a (act_seq as)"

primrec act_each :: "('a \<Rightarrow> ('s, 'e) act) \<Rightarrow> 'a list \<Rightarrow> ('s, 'e) act" where
  "act_each f [] = act_send (\<lambda>_. [])"
| "act_each f (x # xs) = act_then (f x) (act_each f xs)"

definition act_if :: "bool \<Rightarrow> ('s, 'e) act \<Rightarrow> ('s, 'e) act" where
  "act_if b a = (if b then a else act_send (\<lambda>_. []))"

section \<open>What actions keep\<close>

definition keeps :: "('s \<Rightarrow> bool) \<Rightarrow> ('s, 'e) act \<Rightarrow> bool" where
  "keeps I a \<longleftrightarrow> (\<forall>m m' e. I m \<longrightarrow> a m = Some (m', e) \<longrightarrow> I m')"

named_theorems keeps_intros \<open>rules for composed actions\<close>

lemma keeps_step: "keeps I a \<Longrightarrow> I m \<Longrightarrow> a m = Some (m', e) \<Longrightarrow> I m'"
  unfolding keeps_def by blast

lemma keepsI: "(\<And>m m' e. I m \<Longrightarrow> a m = Some (m', e) \<Longrightarrow> I m') \<Longrightarrow> keeps I a"
  unfolding keeps_def by blast

lemma act_then_Some:
  assumes "act_then a b m = Some (m', e)"
  obtains m1 e1 e2 where "a m = Some (m1, e1)" "b m1 = Some (m', e2)" "e = e1 @ e2"
proof -
  obtain r where "a m = Some r" using assms by (cases "a m") (simp_all add: act_then_def)
  moreover obtain m1 e1 where "r = (m1, e1)" by (cases r)
  moreover obtain r' where "b m1 = Some r'" using assms calculation by (cases "b m1") (simp_all add: act_then_def)
  moreover obtain m2 e2 where "r' = (m2, e2)" by (cases r')
  ultimately show ?thesis using assms that by (simp add: act_then_def)
qed

lemma act_readD: "act_read f m = Some r \<Longrightarrow> f m m = Some r"
  by (simp add: act_read_def)

lemma keeps_change [keeps_intros]: "(\<And>m. I m \<Longrightarrow> I (f m)) \<Longrightarrow> keeps I (act_change f)"
  by (rule keepsI) (metis act_change_def option.inject prod.inject)

lemma keeps_send [keeps_intros]: "keeps I (act_send f)"
  by (rule keepsI) (simp add: act_send_def)

lemma keeps_then [keeps_intros]: "keeps I a \<Longrightarrow> keeps I b \<Longrightarrow> keeps I (act_then a b)"
  by (rule keepsI) (blast elim!: act_then_Some dest: keeps_step)

lemma keeps_read [keeps_intros]: "(\<And>m. I m \<Longrightarrow> keeps I (f m)) \<Longrightarrow> keeps I (act_read f)"
  unfolding keeps_def act_read_def by blast

lemma keeps_if [keeps_intros]: "(b \<Longrightarrow> keeps I a) \<Longrightarrow> keeps I (act_if b a)"
  by (simp add: act_if_def keeps_send)

lemma keeps_cond: "keeps I a \<Longrightarrow> keeps I b \<Longrightarrow> keeps I (if c then a else b)"
  by simp

lemma keeps_none [keeps_intros]: "keeps I (\<lambda>_. None)"
  by (simp add: keeps_def)

lemma keeps_seq_Nil [keeps_intros]: "keeps I (act_seq [])"
  by (simp add: keeps_send)

lemma keeps_seq_Cons [keeps_intros]: "keeps I a \<Longrightarrow> keeps I (act_seq as) \<Longrightarrow> keeps I (act_seq (a # as))"
  by (simp add: keeps_then)

lemma keeps_each [keeps_intros]: "(\<And>x. x \<in> set xs \<Longrightarrow> keeps I (f x)) \<Longrightarrow> keeps I (act_each f xs)"
  by (induction xs) (simp_all add: keeps_send keeps_then)

text \<open>An action from one condition to another.\<close>

definition leads :: "('s \<Rightarrow> bool) \<Rightarrow> ('s, 'e) act \<Rightarrow> ('s \<Rightarrow> bool) \<Rightarrow> bool" where
  "leads P a Q \<longleftrightarrow> (\<forall>m m' e. P m \<longrightarrow> a m = Some (m', e) \<longrightarrow> Q m')"

lemma leadsD: "leads P a Q \<Longrightarrow> P m \<Longrightarrow> a m = Some (m', e) \<Longrightarrow> Q m'"
  unfolding leads_def by blast

lemma leads_keeps: "keeps I a \<Longrightarrow> leads I a I"
  by (simp add: keeps_def leads_def)

lemma leads_change: "(\<And>m. P m \<Longrightarrow> Q (f m)) \<Longrightarrow> leads P (act_change f) Q"
  by (simp add: leads_def act_change_def)

lemma leads_read: "(\<And>m. P m \<Longrightarrow> leads P (f m) Q) \<Longrightarrow> leads P (act_read f) Q"
  unfolding leads_def act_read_def by blast

lemma leads_then: "leads P a Q \<Longrightarrow> leads Q b R \<Longrightarrow> leads P (act_then a b) R"
  unfolding leads_def by (metis act_then_Some)

lemma leads_seq: "leads P a Q \<Longrightarrow> leads Q (act_seq as) R \<Longrightarrow> leads P (act_seq (a # as)) R"
  by (simp add: leads_then)

lemma leads_nil: "leads P (act_seq []) P"
  by (simp add: leads_keeps keeps_send)

section \<open>Actions that always return\<close>

definition returns :: "('s, 'e) act \<Rightarrow> bool" where
  "returns a \<longleftrightarrow> (\<forall>m. a m \<noteq> None)"

named_theorems returns_intros \<open>actions that dereference no end\<close>

lemma returns_basic [returns_intros]:
  "returns (act_change f)" "returns (act_send g)" "(\<And>m. returns (h m)) \<Longrightarrow> returns (act_read h)"
  by (simp_all add: returns_def act_change_def act_send_def act_read_def)

lemma returns_then [returns_intros]: "returns a \<Longrightarrow> returns b \<Longrightarrow> returns (act_then a b)"
  by (auto simp: returns_def act_then_def split: option.split)

lemma returns_if [returns_intros]: "(b \<Longrightarrow> returns a) \<Longrightarrow> returns (act_if b a)" "returns a \<Longrightarrow> returns a' \<Longrightarrow> returns (if b then a else a')"
  by (simp_all add: act_if_def returns_basic)

lemma returns_seq [returns_intros]: "returns (act_seq [])" "returns a \<Longrightarrow> returns (act_seq as) \<Longrightarrow> returns (act_seq (a # as))"
  by (simp_all add: returns_basic returns_then)

lemma returns_each [returns_intros]: "(\<And>x. x \<in> set xs \<Longrightarrow> returns (f x)) \<Longrightarrow> returns (act_each f xs)"
  by (induction xs) (simp_all add: returns_basic returns_then)

section \<open>Actions that return under a condition\<close>

definition succeeds :: "('s \<Rightarrow> bool) \<Rightarrow> ('s, 'e) act \<Rightarrow> bool" where
  "succeeds I a \<longleftrightarrow> (\<forall>m. I m \<longrightarrow> (\<exists>m' e. a m = Some (m', e) \<and> I m'))"

named_theorems succeeds_intros \<open>rules for actions that return\<close>

lemma succeedsD: "succeeds I a \<Longrightarrow> I m \<Longrightarrow> \<exists>m' e. a m = Some (m', e) \<and> I m'"
  by (simp add: succeeds_def)

lemma succeeds_change [succeeds_intros]: "(\<And>m. I m \<Longrightarrow> I (f m)) \<Longrightarrow> succeeds I (act_change f)"
  by (simp add: succeeds_def act_change_def)

lemma succeeds_send [succeeds_intros]: "succeeds I (act_send f)"
  by (simp add: succeeds_def act_send_def)

lemma succeeds_then [succeeds_intros]:
  assumes "succeeds I a" "succeeds I b"
  shows "succeeds I (act_then a b)"
  unfolding succeeds_def
proof (intro allI impI)
  fix m assume "I m"
  from succeedsD [OF assms(1) this] obtain m1 e1 where m1: "a m = Some (m1, e1)" "I m1" by blast
  from succeedsD [OF assms(2) m1(2)] obtain m2 e2 where "b m1 = Some (m2, e2)" "I m2" by blast
  with m1(1) show "\<exists>m' e. act_then a b m = Some (m', e) \<and> I m'" by (simp add: act_then_def)
qed

lemma succeeds_read [succeeds_intros]: "(\<And>m. I m \<Longrightarrow> succeeds I (f m)) \<Longrightarrow> succeeds I (act_read f)"
  unfolding succeeds_def act_read_def by blast

lemma succeeds_if [succeeds_intros]: "(b \<Longrightarrow> succeeds I a) \<Longrightarrow> succeeds I (act_if b a)"
  by (simp add: act_if_def succeeds_send)

lemma succeeds_cond [succeeds_intros]: "(b \<Longrightarrow> succeeds I a) \<Longrightarrow> (\<not> b \<Longrightarrow> succeeds I a') \<Longrightarrow> succeeds I (if b then a else a')"
  by simp

lemma succeeds_seq [succeeds_intros]:
  "succeeds I (act_seq [])" "succeeds I a \<Longrightarrow> succeeds I (act_seq as) \<Longrightarrow> succeeds I (act_seq (a # as))"
  by (simp_all add: succeeds_send succeeds_then)

end
