(* ===== verification/LFGMgr.thy ===== *)
theory LFGMgr
  imports Complex_Main Action LFGSearch
begin

text \<open>
  The manager of the dungeon finder (\<open>DungeonFinding/LFGMgr.h\<close>, \<open>LFGMgr.cpp\<close>): states of players and groups, joining and
  leaving, role checks, proposals, votes to kick, and the update that runs the queues of \<open>LFGQueue\<close>.  An action returns
  the new manager and the packets and statements it sends, in their order; dereferencing the end of a
  container is \<open>None\<close>.  \<open>PlayersStore\<close> and \<open>GroupsStore\<close> are only read through \<open>operator[]\<close>, which creates a missing
  entry with its default, so they are total functions; erasing is returning to the default.  What the manager
  asks of players, of the world and of the group system is passed in.
\<close>

section \<open>Data\<close>

datatype LfgRoleCheckState =
    LFG_ROLECHECK_DEFAULT | LFG_ROLECHECK_FINISHED | LFG_ROLECHECK_INITIALITING | LFG_ROLECHECK_MISSING_ROLE
  | LFG_ROLECHECK_WRONG_ROLES | LFG_ROLECHECK_ABORTED | LFG_ROLECHECK_NO_ROLE

datatype LfgJoinResult =
    LFG_JOIN_OK | LFG_JOIN_FAILED | LFG_JOIN_GROUPFULL | LFG_JOIN_INTERNAL_ERROR | LFG_JOIN_NOT_MEET_REQS
  | LFG_JOIN_PARTY_NOT_MEET_REQS | LFG_JOIN_MIXED_RAID_DUNGEON | LFG_JOIN_MULTI_REALM | LFG_JOIN_DISCONNECTED
  | LFG_JOIN_PARTY_INFO_FAILED | LFG_JOIN_DUNGEON_INVALID | LFG_JOIN_DESERTER | LFG_JOIN_PARTY_DESERTER
  | LFG_JOIN_RANDOM_COOLDOWN | LFG_JOIN_PARTY_RANDOM_COOLDOWN | LFG_JOIN_TOO_MUCH_MEMBERS | LFG_JOIN_USING_BG_SYSTEM

datatype LfgUpdateType =
    LFG_UPDATETYPE_DEFAULT | LFG_UPDATETYPE_LEADER_UNK1 | LFG_UPDATETYPE_ROLECHECK_ABORTED | LFG_UPDATETYPE_JOIN_QUEUE
  | LFG_UPDATETYPE_ROLECHECK_FAILED | LFG_UPDATETYPE_REMOVED_FROM_QUEUE | LFG_UPDATETYPE_PROPOSAL_FAILED
  | LFG_UPDATETYPE_PROPOSAL_DECLINED | LFG_UPDATETYPE_GROUP_FOUND | LFG_UPDATETYPE_ADDED_TO_QUEUE | LFG_UPDATETYPE_PROPOSAL_BEGIN
  | LFG_UPDATETYPE_UPDATE_STATUS | LFG_UPDATETYPE_GROUP_MEMBER_OFFLINE | LFG_UPDATETYPE_GROUP_DISBAND_UNK16

abbreviation LFG_TYPE_NONE :: uint8 where "LFG_TYPE_NONE \<equiv> 0"
abbreviation LFG_TYPE_DUNGEON :: uint8 where "LFG_TYPE_DUNGEON \<equiv> 1"
abbreviation LFG_TYPE_RAID :: uint8 where "LFG_TYPE_RAID \<equiv> 2"
abbreviation LFG_TYPE_HEROIC :: uint8 where "LFG_TYPE_HEROIC \<equiv> 5"
abbreviation LFG_TYPE_RANDOM :: uint8 where "LFG_TYPE_RANDOM \<equiv> 6"

type_synonym LfgLockMap = "(uint32, uint32) omap"
type_synonym LfgLockPartyMap = "(uint64, LfgLockMap) omap"

record LfgJoinResultData =
  jr_result :: LfgJoinResult
  jr_state :: LfgRoleCheckState
  jr_lockmap :: LfgLockPartyMap

record LfgUpdateData =
  ud_updateType :: LfgUpdateType
  ud_state :: LfgState
  ud_dungeons :: LfgDungeonSet
  ud_comment :: string

definition update_data :: "LfgUpdateType \<Rightarrow> LfgUpdateData" where
  "update_data ty = \<lparr>ud_updateType = ty, ud_state = LFG_STATE_NONE, ud_dungeons = [], ud_comment = []\<rparr>"

definition update_data_for :: "LfgUpdateType \<Rightarrow> LfgDungeonSet \<Rightarrow> string \<Rightarrow> LfgUpdateData" where
  "update_data_for ty dungeons comment = \<lparr>ud_updateType = ty, ud_state = LFG_STATE_NONE, ud_dungeons = dungeons, ud_comment = comment\<rparr>"

record LfgReward =
  rw_maxLevel :: uint32
  rw_firstQuest :: uint32
  rw_otherQuest :: uint32

record LfgRoleCheck =
  rc_cancelTime :: int
  rc_roles :: LfgRolesMap
  rc_state :: LfgRoleCheckState
  rc_dungeons :: LfgDungeonSet
  rc_rDungeonId :: uint32
  rc_leader :: uint64

record LfgPlayerBoot =
  lb_cancelTime :: int
  lb_inProgress :: bool
  lb_votes :: "(uint64, LfgAnswer) omap"
  lb_victim :: uint64
  lb_reason :: string

text \<open>Coordinates are kept as the bits of single-precision numbers; the only operation on them is the comparison with 0.\<close>

type_synonym float32 = "32 word"

definition float_zero :: "float32 \<Rightarrow> bool" where
  "float_zero x \<longleftrightarrow> x AND 0x7FFFFFFF = 0"

record LFGDungeonData =
  ld_id :: uint32
  ld_map :: uint16
  ld_type :: uint8
  ld_expansion :: uint8
  ld_group :: uint8
  ld_minlevel :: uint8
  ld_maxlevel :: uint8
  ld_difficulty :: uint8
  ld_seasonal :: bool
  ld_x :: float32
  ld_y :: float32
  ld_z :: float32
  ld_o :: float32

definition Entry :: "LFGDungeonData \<Rightarrow> uint32" where
  "Entry d = ld_id d + push_bit 24 (ucast (ld_type d))"

record LFGMgr =
  m_QueueTimer :: uint32
  m_lfgProposalId :: uint32
  m_options :: uint32
  QueuesStore :: "(uint8, LFGQueue) omap"
  CachedDungeonMapStore :: "(uint8, LfgDungeonSet) omap"
  RewardMapStore :: "(uint32, LfgReward) mmap"
  LfgDungeonStore :: "(uint32, LFGDungeonData) omap"
  RoleChecksStore :: "(uint64, LfgRoleCheck) omap"
  ProposalsStore :: "(uint32, LfgProposal) omap"
  BootsStore :: "(uint64, LfgPlayerBoot) omap"
  PlayersStore :: "uint64 \<Rightarrow> LfgPlayerData"
  GroupsStore :: "uint64 \<Rightarrow> LfgGroupData"
  m_draws :: nat

definition LFGMgr_new :: "uint32 \<Rightarrow> LFGMgr" where
  "LFGMgr_new options = \<lparr>m_QueueTimer = 0, m_lfgProposalId = 1, m_options = options, QueuesStore = [], CachedDungeonMapStore = [],
     RewardMapStore = [], LfgDungeonStore = [], RoleChecksStore = [], ProposalsStore = [], BootsStore = [],
     PlayersStore = (\<lambda>_. LfgPlayerData_new), GroupsStore = (\<lambda>_. LfgGroupData_new), m_draws = 0\<rparr>"

section \<open>Actions\<close>

datatype LfgTeleportError =
    LFG_TELEPORTERROR_OK | LFG_TELEPORTERROR_PLAYER_DEAD | LFG_TELEPORTERROR_FALLING | LFG_TELEPORTERROR_IN_VEHICLE
  | LFG_TELEPORTERROR_FATIGUE | LFG_TELEPORTERROR_INVALID_LOCATION | LFG_TELEPORTERROR_CHARMING

datatype lfg_effect =
    RoleChosen uint64 uint64 uint8
  | RoleCheckUpdate uint64 LfgRoleCheck
  | UpdatePlayer uint64 LfgUpdateData
  | UpdateParty uint64 LfgUpdateData
  | JoinResult uint64 LfgJoinResultData
  | BootProposalUpdate uint64 LfgPlayerBoot
  | UpdateProposalPacket uint64 LfgProposal
  | QueueStatus uint64 LfgQueueStatusData
  | OfferContinue uint64 uint32
  | LfrList uint64 bool
  | CHAR_DEL_LFG_DATA uint32
  | CHAR_INS_LFG_DATA uint32 uint32 LfgState
  | CastSpell uint64 uint32
  | CallTeleportPlayer uint64 bool
  | TeleportError uint64 LfgTeleportError
  | TeleportToBGEntryPoint uint64
  | SetBattlegroundEntryPoint uint64
  | MovementExpired uint64
  | CleanupAfterTaxiFlight uint64
  | TeleportTo uint64 uint32 float32 float32 float32 float32
  | TeleportHome uint64
  | RemoveAuras uint64 uint32
  | NameQuery uint64 uint64
  | GroupDisband uint64
  | GroupUpdate uint64
  | UseLfdCriteria uint64
  | RewardQuest uint64 uint32
  | PlayerReward uint64 uint32 uint32 bool uint32

type_synonym lfg_act = "(LFGMgr, lfg_effect) act"

record AccessRequirement =
  ar_item_level :: uint16
  ar_item :: uint32
  ar_item2 :: uint32
  ar_quest_A :: uint32
  ar_quest_H :: uint32
  ar_achievement :: uint32

text \<open>A player in the world, as far as the manager asks him.\<close>

record LfgPlayer =
  pl_guid :: uint64
  pl_level :: uint8
  pl_expansion :: uint8
  pl_alliance :: bool
  pl_canJoin :: bool
  pl_inBattleground :: bool
  pl_aura :: "uint32 \<Rightarrow> bool"
  pl_disabledMap :: "uint16 \<Rightarrow> bool"
  pl_boundInstance :: "uint16 \<Rightarrow> uint8 \<Rightarrow> bool"
  pl_itemLevel :: rat
  pl_achieved :: "uint32 \<Rightarrow> bool"
  pl_questRewarded :: "uint32 \<Rightarrow> bool"
  pl_hasItem :: "uint32 \<Rightarrow> bool"

text \<open>What the manager asks of the world; packets go to connected players only.\<close>

record LfgWorld =
  lw_now :: int
  lw_Connected :: "uint64 \<Rightarrow> bool"
  lw_IgnoreList :: "uint64 \<Rightarrow> uint32 \<Rightarrow> bool"
  lw_urand :: "nat \<Rightarrow> uint32 \<Rightarrow> uint32 \<Rightarrow> uint32"
  lw_twoSide :: bool
  lw_HolidayActive :: "uint32 \<Rightarrow> bool"
  lw_FindPlayer :: "uint64 \<Rightarrow> LfgPlayer option"
  lw_AccessRequirement :: "uint16 \<Rightarrow> uint8 \<Rightarrow> AccessRequirement option"

definition to_player :: "LfgWorld \<Rightarrow> uint64 \<Rightarrow> lfg_effect \<Rightarrow> lfg_act" where
  "to_player w guid e = act_send (\<lambda>_. if lw_Connected w guid then [e] else [])"

definition SendLfgRoleChosen :: "LfgWorld \<Rightarrow> uint64 \<Rightarrow> uint64 \<Rightarrow> uint8 \<Rightarrow> lfg_act" where
  "SendLfgRoleChosen w guid pguid roles = to_player w guid (RoleChosen guid pguid roles)"

definition SendLfgRoleCheckUpdate :: "LfgWorld \<Rightarrow> uint64 \<Rightarrow> LfgRoleCheck \<Rightarrow> lfg_act" where
  "SendLfgRoleCheckUpdate w guid roleCheck = to_player w guid (RoleCheckUpdate guid roleCheck)"

definition SendLfgUpdatePlayer :: "LfgWorld \<Rightarrow> uint64 \<Rightarrow> LfgUpdateData \<Rightarrow> lfg_act" where
  "SendLfgUpdatePlayer w guid data = to_player w guid (UpdatePlayer guid data)"

definition SendLfgUpdateParty :: "LfgWorld \<Rightarrow> uint64 \<Rightarrow> LfgUpdateData \<Rightarrow> lfg_act" where
  "SendLfgUpdateParty w guid data = to_player w guid (UpdateParty guid data)"

definition SendLfgJoinResult :: "LfgWorld \<Rightarrow> uint64 \<Rightarrow> LfgJoinResultData \<Rightarrow> lfg_act" where
  "SendLfgJoinResult w guid data = to_player w guid (JoinResult guid data)"

definition SendLfgBootProposalUpdate :: "LfgWorld \<Rightarrow> uint64 \<Rightarrow> LfgPlayerBoot \<Rightarrow> lfg_act" where
  "SendLfgBootProposalUpdate w guid boot = to_player w guid (BootProposalUpdate guid boot)"

definition SendLfgUpdateProposal :: "LfgWorld \<Rightarrow> uint64 \<Rightarrow> LfgProposal \<Rightarrow> lfg_act" where
  "SendLfgUpdateProposal w guid proposal = to_player w guid (UpdateProposalPacket guid proposal)"

definition SendLfgQueueStatus :: "LfgWorld \<Rightarrow> uint64 \<Rightarrow> LfgQueueStatusData \<Rightarrow> lfg_act" where
  "SendLfgQueueStatus w guid data = to_player w guid (QueueStatus guid data)"

section \<open>Data of players and groups\<close>

definition on_player :: "uint64 \<Rightarrow> (LfgPlayerData \<Rightarrow> LfgPlayerData) \<Rightarrow> LFGMgr \<Rightarrow> LFGMgr" where
  "on_player guid f m = m\<lparr>PlayersStore := (PlayersStore m)(guid := f (PlayersStore m guid))\<rparr>"

definition on_group :: "uint64 \<Rightarrow> (LfgGroupData \<Rightarrow> LfgGroupData) \<Rightarrow> LFGMgr \<Rightarrow> LFGMgr" where
  "on_group guid f m = m\<lparr>GroupsStore := (GroupsStore m)(guid := f (GroupsStore m guid))\<rparr>"

definition GetState :: "LFGMgr \<Rightarrow> uint64 \<Rightarrow> LfgState" where
  "GetState m guid = (if IS_GROUP_GUID guid then gd_State (GroupsStore m guid) else pd_State (PlayersStore m guid))"

definition GetOldState :: "LFGMgr \<Rightarrow> uint64 \<Rightarrow> LfgState" where
  "GetOldState m guid = (if IS_GROUP_GUID guid then gd_OldState (GroupsStore m guid) else pd_OldState (PlayersStore m guid))"

definition SetState :: "uint64 \<Rightarrow> LfgState \<Rightarrow> LFGMgr \<Rightarrow> LFGMgr" where
  "SetState guid state = (if IS_GROUP_GUID guid then on_group guid (GD_SetState state) else on_player guid (PD_SetState state))"

definition RestoreState :: "uint64 \<Rightarrow> LFGMgr \<Rightarrow> LFGMgr" where
  "RestoreState guid = (if IS_GROUP_GUID guid then on_group guid GD_RestoreState else on_player guid PD_RestoreState)"

definition GetDungeon :: "LFGMgr \<Rightarrow> uint64 \<Rightarrow> bool \<Rightarrow> uint32" where
  "GetDungeon m guid asId = GD_GetDungeon asId (GroupsStore m guid)"

definition SetDungeon :: "uint64 \<Rightarrow> uint32 \<Rightarrow> LFGMgr \<Rightarrow> LFGMgr" where
  "SetDungeon guid dungeon = on_group guid (GD_SetDungeon dungeon)"

definition SetRoles :: "uint64 \<Rightarrow> uint8 \<Rightarrow> LFGMgr \<Rightarrow> LFGMgr" where
  "SetRoles guid roles = on_player guid (PD_SetRoles roles)"

definition SetComment :: "uint64 \<Rightarrow> string \<Rightarrow> LFGMgr \<Rightarrow> LFGMgr" where
  "SetComment guid comment = on_player guid (PD_SetComment comment)"

definition SetSelectedDungeons :: "uint64 \<Rightarrow> LfgDungeonSet \<Rightarrow> LFGMgr \<Rightarrow> LFGMgr" where
  "SetSelectedDungeons guid dungeons = on_player guid (PD_SetSelectedDungeons dungeons)"

definition DecreaseKicksLeft :: "uint64 \<Rightarrow> LFGMgr \<Rightarrow> LFGMgr" where
  "DecreaseKicksLeft guid = on_group guid GD_DecreaseKicksLeft"

definition GetRoles :: "LFGMgr \<Rightarrow> uint64 \<Rightarrow> uint8" where "GetRoles m guid = pd_Roles (PlayersStore m guid)"
definition GetComment :: "LFGMgr \<Rightarrow> uint64 \<Rightarrow> string" where "GetComment m guid = pd_Comment (PlayersStore m guid)"
definition GetSelectedDungeons :: "LFGMgr \<Rightarrow> uint64 \<Rightarrow> LfgDungeonSet" where "GetSelectedDungeons m guid = pd_SelectedDungeons (PlayersStore m guid)"
definition GetKicksLeft :: "LFGMgr \<Rightarrow> uint64 \<Rightarrow> uint8" where "GetKicksLeft m guid = gd_KicksLeft (GroupsStore m guid)"
definition GetTeam :: "LFGMgr \<Rightarrow> uint64 \<Rightarrow> uint8" where "GetTeam m guid = pd_Team (PlayersStore m guid)"
definition GetGroup :: "LFGMgr \<Rightarrow> uint64 \<Rightarrow> uint64" where "GetGroup m guid = pd_Group (PlayersStore m guid)"
definition GetPlayers :: "LFGMgr \<Rightarrow> uint64 \<Rightarrow> uint64 list" where "GetPlayers m guid = gd_Players (GroupsStore m guid)"
definition GetPlayerCount :: "LFGMgr \<Rightarrow> uint64 \<Rightarrow> uint8" where "GetPlayerCount m guid = GD_GetPlayerCount (GroupsStore m guid)"
definition GetLeader :: "LFGMgr \<Rightarrow> uint64 \<Rightarrow> uint64" where "GetLeader m guid = gd_Leader (GroupsStore m guid)"

definition SetLeader :: "uint64 \<Rightarrow> uint64 \<Rightarrow> LFGMgr \<Rightarrow> LFGMgr" where "SetLeader gguid leader = on_group gguid (GD_SetLeader leader)"
definition SetGroup :: "uint64 \<Rightarrow> uint64 \<Rightarrow> LFGMgr \<Rightarrow> LFGMgr" where "SetGroup guid grp = on_player guid (PD_SetGroup grp)"

definition SetTeam :: "LfgWorld \<Rightarrow> uint64 \<Rightarrow> uint8 \<Rightarrow> LFGMgr \<Rightarrow> LFGMgr" where
  "SetTeam w guid team = on_player guid (PD_SetTeam (if lw_twoSide w then 0 else team))"

definition AddPlayerToGroup :: "uint64 \<Rightarrow> uint64 \<Rightarrow> LFGMgr \<Rightarrow> LFGMgr" where
  "AddPlayerToGroup gguid guid = on_group gguid (GD_AddPlayer guid)"

definition RemovePlayerFromGroup :: "uint64 \<Rightarrow> uint64 \<Rightarrow> LFGMgr \<Rightarrow> uint8 \<times> LFGMgr" where
  "RemovePlayerFromGroup gguid guid m =
     (let (n, d) = GD_RemovePlayer guid (GroupsStore m gguid) in (n, on_group gguid (\<lambda>_. d) m))"

definition RemovePlayerData :: "uint64 \<Rightarrow> LFGMgr \<Rightarrow> LFGMgr" where
  "RemovePlayerData guid = on_player guid (\<lambda>_. LfgPlayerData_new)"

definition RemoveGroupData :: "LfgWorld \<Rightarrow> uint64 \<Rightarrow> lfg_act" where
  "RemoveGroupData w guid =
     act_read (\<lambda>m. act_then
       (act_each (\<lambda>p. act_seq
           [act_change (SetGroup p 0),
            act_if (GetState m guid \<noteq> LFG_STATE_PROPOSAL)
              (act_then (act_change (SetState p LFG_STATE_NONE))
                 (SendLfgUpdateParty w p (update_data LFG_UPDATETYPE_REMOVED_FROM_QUEUE)))])
         (GetPlayers m guid))
       (act_change (on_group guid (\<lambda>_. LfgGroupData_new))))"

definition IsLfgGroup :: "LFGMgr \<Rightarrow> uint64 \<Rightarrow> bool" where
  "IsLfgGroup m guid \<longleftrightarrow> guid \<noteq> 0 \<and> IS_GROUP_GUID guid \<and> GD_IsLfgGroup (GroupsStore m guid)"

definition SetupGroupMember :: "uint64 \<Rightarrow> uint64 \<Rightarrow> LFGMgr \<Rightarrow> LFGMgr" where
  "SetupGroupMember guid gguid m =
     (let m = SetSelectedDungeons guid [GetDungeon m gguid True] m;
          m = SetState guid (GetState m gguid) m in
      AddPlayerToGroup gguid guid (SetGroup guid gguid m))"

definition GetLfgStatus :: "LFGMgr \<Rightarrow> uint64 \<Rightarrow> LfgUpdateData" where
  "GetLfgStatus m guid = \<lparr>ud_updateType = LFG_UPDATETYPE_UPDATE_STATUS, ud_state = pd_State (PlayersStore m guid),
     ud_dungeons = pd_SelectedDungeons (PlayersStore m guid), ud_comment = []\<rparr>"

section \<open>Dungeons and rewards\<close>

text \<open>The rows of the client's dungeon table that exist, and the rows of \<open>lfg_entrances\<close>; \<open>trigger\<close> finds the entrance of a map.\<close>

record LFGDungeonEntry =
  le_ID :: uint32
  le_map :: uint32
  le_type :: uint32
  le_expansion :: uint32
  le_grouptype :: uint32
  le_minlevel :: uint32
  le_maxlevel :: uint32
  le_difficulty :: uint32
  le_flags :: uint32

record AreaTrigger =
  at_target_mapId :: uint32
  at_target_X :: float32
  at_target_Y :: float32
  at_target_Z :: float32
  at_target_Orientation :: float32

definition LFGDungeonData_of :: "LFGDungeonEntry \<Rightarrow> LFGDungeonData" where
  "LFGDungeonData_of dbc = \<lparr>ld_id = le_ID dbc, ld_map = ucast (le_map dbc), ld_type = ucast (le_type dbc), ld_expansion = ucast (le_expansion dbc),
     ld_group = ucast (le_grouptype dbc), ld_minlevel = ucast (le_minlevel dbc), ld_maxlevel = ucast (le_maxlevel dbc),
     ld_difficulty = ucast (le_difficulty dbc), ld_seasonal = has_flag (le_flags dbc) 4, ld_x = 0, ld_y = 0, ld_z = 0, ld_o = 0\<rparr>"

definition load_dbc :: "LFGDungeonEntry list \<Rightarrow> (uint32, LFGDungeonData) omap" where
  "load_dbc rows = fold (\<lambda>dbc store.
       if le_type dbc = 1 \<or> le_type dbc = 5 \<or> le_type dbc = 2 \<or> le_type dbc = 6
       then om_put (le_ID dbc) (LFGDungeonData_of dbc) store else store) rows []"

definition load_entrance :: "uint32 \<times> float32 \<times> float32 \<times> float32 \<times> float32 \<Rightarrow> (uint32, LFGDungeonData) omap \<Rightarrow> (uint32, LFGDungeonData) omap" where
  "load_entrance = (\<lambda>(dungeonId, x, y, z, ori) store.
     case om_get store dungeonId of
       None \<Rightarrow> store
     | Some d \<Rightarrow> om_put dungeonId (d\<lparr>ld_x := x, ld_y := y, ld_z := z, ld_o := ori\<rparr>) store)"

text \<open>A dungeon without coordinates and without a trigger is left out of the sets of dungeons.\<close>

definition needs_trigger :: "LFGDungeonData \<Rightarrow> bool" where
  "needs_trigger d \<longleftrightarrow> ld_type d \<noteq> LFG_TYPE_RANDOM \<and> float_zero (ld_x d) \<and> float_zero (ld_y d) \<and> float_zero (ld_z d)"

definition place_dungeon :: "(uint16 \<Rightarrow> AreaTrigger option) \<Rightarrow> LFGDungeonData \<Rightarrow> LFGDungeonData" where
  "place_dungeon trigger d =
     (case trigger (ld_map d) of
        Some a \<Rightarrow> if needs_trigger d
          then d\<lparr>ld_map := ucast (at_target_mapId a), ld_x := at_target_X a, ld_y := at_target_Y a, ld_z := at_target_Z a,
                 ld_o := at_target_Orientation a\<rparr>
          else d
      | None \<Rightarrow> d)"

definition cache_insert :: "uint8 \<Rightarrow> uint32 \<Rightarrow> (uint8, LfgDungeonSet) omap \<Rightarrow> (uint8, LfgDungeonSet) omap" where
  "cache_insert grp d cache = om_put grp (os_insert d (case om_get cache grp of Some s \<Rightarrow> s | None \<Rightarrow> [])) cache"

definition cache_dungeon :: "(uint16 \<Rightarrow> AreaTrigger option) \<Rightarrow> LFGDungeonData \<Rightarrow> (uint8, LfgDungeonSet) omap \<Rightarrow> (uint8, LfgDungeonSet) omap" where
  "cache_dungeon trigger d cache =
     (if needs_trigger d \<and> trigger (ld_map d) = None then cache
      else cache_insert 0 (ld_id d) (if ld_type d \<noteq> LFG_TYPE_RANDOM then cache_insert (ld_group d) (ld_id d) cache else cache))"

text \<open>The store is a hash table; the order of the last loop does not matter.  Without entrances the function returns early.\<close>

definition LoadLFGDungeons :: "bool \<Rightarrow> LFGDungeonEntry list \<Rightarrow> (uint32 \<times> float32 \<times> float32 \<times> float32 \<times> float32) list \<Rightarrow>
    (uint16 \<Rightarrow> AreaTrigger option) \<Rightarrow> LFGMgr \<Rightarrow> LFGMgr" where
  "LoadLFGDungeons reload dbc entrances trigger m =
     (let store = load_dbc dbc in
      if entrances = [] then m\<lparr>LfgDungeonStore := store\<rparr>
      else let store = fold load_entrance entrances store;
               cache = fold (\<lambda>(_, d). cache_dungeon trigger d) store (CachedDungeonMapStore m) in
        m\<lparr>LfgDungeonStore := map (\<lambda>(k, d). (k, place_dungeon trigger d)) store,
          CachedDungeonMapStore := (if reload then [] else cache)\<rparr>)"

definition GetLFGDungeon :: "LFGMgr \<Rightarrow> uint32 \<Rightarrow> LFGDungeonData option" where
  "GetLFGDungeon m dungeon = om_get (LfgDungeonStore m) dungeon"

definition GetDungeonType :: "LFGMgr \<Rightarrow> uint32 \<Rightarrow> uint8" where
  "GetDungeonType m dungeonId = (case GetLFGDungeon m dungeonId of None \<Rightarrow> LFG_TYPE_NONE | Some d \<Rightarrow> ld_type d)"

definition GetLFGDungeonEntry :: "LFGMgr \<Rightarrow> uint32 \<Rightarrow> uint32" where
  "GetLFGDungeonEntry m dungeon =
     (if dungeon \<noteq> 0 then case GetLFGDungeon m dungeon of Some d \<Rightarrow> Entry d | None \<Rightarrow> 0 else 0)"

definition GetDungeonMapId :: "LFGMgr \<Rightarrow> uint64 \<Rightarrow> uint32" where
  "GetDungeonMapId m guid =
     (let dungeonId = GetDungeon m guid True in
      if dungeonId \<noteq> 0 then case GetLFGDungeon m dungeonId of Some d \<Rightarrow> ucast (ld_map d) | None \<Rightarrow> 0 else 0)"

text \<open>The set of a random dungeon; a missing one is empty (and created, which cannot be observed).\<close>

definition GetDungeonsByRandom :: "LFGMgr \<Rightarrow> uint32 \<Rightarrow> LfgDungeonSet" where
  "GetDungeonsByRandom m randomdungeon =
     (let grp = (case GetLFGDungeon m randomdungeon of Some d \<Rightarrow> ld_group d | None \<Rightarrow> 0) in
      case om_get (CachedDungeonMapStore m) grp of Some ds \<Rightarrow> ds | None \<Rightarrow> [])"

fun reward_loop :: "uint8 \<Rightarrow> LfgReward option \<Rightarrow> LfgReward list \<Rightarrow> LfgReward option" where
  "reward_loop level rew [] = rew"
| "reward_loop level rew (r # rs) = (if rw_maxLevel r \<ge> ucast level then Some r else reward_loop level (Some r) rs)"

definition GetRandomDungeonReward :: "LFGMgr \<Rightarrow> uint32 \<Rightarrow> uint8 \<Rightarrow> LfgReward option" where
  "GetRandomDungeonReward m dungeon level =
     reward_loop level None (map snd (filter (\<lambda>(k, _). k = dungeon AND 0x00FFFFFF) (RewardMapStore m)))"

text \<open>The rows of \<open>lfg_dungeon_rewards\<close>, ordered by dungeon and level; \<open>quest\<close> says whether a quest template exists.\<close>

definition load_reward :: "(uint32 \<Rightarrow> bool) \<Rightarrow> uint32 \<Rightarrow> uint32 \<times> uint8 \<times> uint32 \<times> uint32 \<Rightarrow> LFGMgr \<Rightarrow> LFGMgr" where
  "load_reward quest maxPlayerLevel = (\<lambda>(dungeonId, level, firstQuestId, otherQuestId) m.
     if GetLFGDungeonEntry m dungeonId = 0 then m
     else let maxLevel = ucast level :: uint32;
              maxLevel = (if maxLevel = 0 \<or> maxLevel > maxPlayerLevel then maxPlayerLevel else maxLevel) in
       if firstQuestId = 0 \<or> \<not> quest firstQuestId then m
       else let otherQuestId = (if otherQuestId \<noteq> 0 \<and> \<not> quest otherQuestId then 0 else otherQuestId) in
         m\<lparr>RewardMapStore := mm_insert dungeonId \<lparr>rw_maxLevel = maxLevel, rw_firstQuest = firstQuestId, rw_otherQuest = otherQuestId\<rparr>
             (RewardMapStore m)\<rparr>)"

definition LoadRewards :: "(uint32 \<Rightarrow> bool) \<Rightarrow> uint32 \<Rightarrow> (uint32 \<times> uint8 \<times> uint32 \<times> uint32) list \<Rightarrow> LFGMgr \<Rightarrow> LFGMgr" where
  "LoadRewards quest maxPlayerLevel rows m = fold (load_reward quest maxPlayerLevel) rows (m\<lparr>RewardMapStore := []\<rparr>)"

definition IsSeasonActive :: "LfgWorld \<Rightarrow> uint32 \<Rightarrow> bool" where
  "IsSeasonActive w dungeonId =
     (if dungeonId = 285 then lw_HolidayActive w 324
      else if dungeonId = 286 then lw_HolidayActive w 341
      else if dungeonId = 287 then lw_HolidayActive w 372
      else if dungeonId = 288 then lw_HolidayActive w 423
      else False)"

definition selectedRandomLfgDungeon :: "LFGMgr \<Rightarrow> uint64 \<Rightarrow> bool" where
  "selectedRandomLfgDungeon m guid =
     (if GetState m guid \<noteq> LFG_STATE_NONE
      then case GetSelectedDungeons m guid of
             [] \<Rightarrow> False
           | d # _ \<Rightarrow> (case GetLFGDungeon m d of None \<Rightarrow> False | Some dungeon \<Rightarrow> ld_type dungeon = LFG_TYPE_RANDOM \<or> ld_seasonal dungeon)
      else False)"

definition inLfgDungeonMap :: "LFGMgr \<Rightarrow> uint64 \<Rightarrow> uint32 \<Rightarrow> uint8 \<Rightarrow> bool" where
  "inLfgDungeonMap m guid map_id difficulty =
     (let guid = (if \<not> IS_GROUP_GUID guid then GetGroup m guid else guid);
          dungeonId = GetDungeon m guid True in
      if dungeonId \<noteq> 0
      then case GetLFGDungeon m dungeonId of
             None \<Rightarrow> False
           | Some d \<Rightarrow> ucast (ld_map d) = map_id \<and> ld_difficulty d = difficulty
      else False)"

definition GetRandomAndSeasonalDungeons :: "LfgWorld \<Rightarrow> LFGMgr \<Rightarrow> uint8 \<Rightarrow> uint8 \<Rightarrow> LfgDungeonSet" where
  "GetRandomAndSeasonalDungeons w m level expansion =
     fold (\<lambda>(_, d) s.
         if (ld_type d = LFG_TYPE_RANDOM \<or> ld_seasonal d \<and> IsSeasonActive w (ld_id d)) \<and>
            ld_expansion d \<le> expansion \<and> ld_minlevel d \<le> level \<and> level \<le> ld_maxlevel d
         then os_insert (Entry d) s else s)
       (LfgDungeonStore m) []"

section \<open>Locked dungeons\<close>

datatype LfgLockStatusType =
    LFG_LOCKSTATUS_INSUFFICIENT_EXPANSION | LFG_LOCKSTATUS_TOO_LOW_LEVEL | LFG_LOCKSTATUS_TOO_HIGH_LEVEL
  | LFG_LOCKSTATUS_TOO_LOW_GEAR_SCORE | LFG_LOCKSTATUS_RAID_LOCKED | LFG_LOCKSTATUS_QUEST_NOT_COMPLETED
  | LFG_LOCKSTATUS_MISSING_ITEM | LFG_LOCKSTATUS_NOT_IN_SEASON | LFG_LOCKSTATUS_MISSING_ACHIEVEMENT

fun lock_value :: "LfgLockStatusType \<Rightarrow> uint32" where
  "lock_value LFG_LOCKSTATUS_INSUFFICIENT_EXPANSION = 1"
| "lock_value LFG_LOCKSTATUS_TOO_LOW_LEVEL = 2"
| "lock_value LFG_LOCKSTATUS_TOO_HIGH_LEVEL = 3"
| "lock_value LFG_LOCKSTATUS_TOO_LOW_GEAR_SCORE = 4"
| "lock_value LFG_LOCKSTATUS_RAID_LOCKED = 6"
| "lock_value LFG_LOCKSTATUS_QUEST_NOT_COMPLETED = 1022"
| "lock_value LFG_LOCKSTATUS_MISSING_ITEM = 1025"
| "lock_value LFG_LOCKSTATUS_NOT_IN_SEASON = 1031"
| "lock_value LFG_LOCKSTATUS_MISSING_ACHIEVEMENT = 1034"

definition access_lock :: "LfgPlayer \<Rightarrow> AccessRequirement \<Rightarrow> LfgLockStatusType option" where
  "access_lock p ar =
     (if ar_item_level ar \<noteq> 0 \<and> pl_itemLevel p < of_nat (unat (ar_item_level ar)) then Some LFG_LOCKSTATUS_TOO_LOW_GEAR_SCORE
      else if ar_achievement ar \<noteq> 0 \<and> \<not> pl_achieved p (ar_achievement ar) then Some LFG_LOCKSTATUS_MISSING_ACHIEVEMENT
      else if pl_alliance p \<and> ar_quest_A ar \<noteq> 0 \<and> \<not> pl_questRewarded p (ar_quest_A ar) then Some LFG_LOCKSTATUS_QUEST_NOT_COMPLETED
      else if \<not> pl_alliance p \<and> ar_quest_H ar \<noteq> 0 \<and> \<not> pl_questRewarded p (ar_quest_H ar) then Some LFG_LOCKSTATUS_QUEST_NOT_COMPLETED
      else if ar_item ar \<noteq> 0
      then if \<not> pl_hasItem p (ar_item ar) \<and> (ar_item2 ar = 0 \<or> \<not> pl_hasItem p (ar_item2 ar)) then Some LFG_LOCKSTATUS_MISSING_ITEM else None
      else if ar_item2 ar \<noteq> 0 \<and> \<not> pl_hasItem p (ar_item2 ar) then Some LFG_LOCKSTATUS_MISSING_ITEM
      else None)"

definition lock_status :: "LfgWorld \<Rightarrow> LfgPlayer \<Rightarrow> LFGDungeonData \<Rightarrow> LfgLockStatusType option" where
  "lock_status w p d =
     (if \<not> pl_canJoin p then Some LFG_LOCKSTATUS_RAID_LOCKED
      else if ld_expansion d > pl_expansion p then Some LFG_LOCKSTATUS_INSUFFICIENT_EXPANSION
      else if pl_disabledMap p (ld_map d) then Some LFG_LOCKSTATUS_RAID_LOCKED
      else if ld_difficulty d > 0 \<and> pl_boundInstance p (ld_map d) (ld_difficulty d) then Some LFG_LOCKSTATUS_RAID_LOCKED
      else if ld_minlevel d > pl_level p then Some LFG_LOCKSTATUS_TOO_LOW_LEVEL
      else if ld_maxlevel d < pl_level p then Some LFG_LOCKSTATUS_TOO_HIGH_LEVEL
      else if ld_seasonal d \<and> \<not> IsSeasonActive w (ld_id d) then Some LFG_LOCKSTATUS_NOT_IN_SEASON
      else case lw_AccessRequirement w (ld_map d) (ld_difficulty d) of None \<Rightarrow> None | Some ar \<Rightarrow> access_lock p ar)"

definition GetLockedDungeons :: "LfgWorld \<Rightarrow> LFGMgr \<Rightarrow> uint64 \<Rightarrow> LfgLockMap" where
  "GetLockedDungeons w m guid =
     (case lw_FindPlayer w guid of
        None \<Rightarrow> []
      | Some p \<Rightarrow>
          fold (\<lambda>dungeonId lock.
              case GetLFGDungeon m dungeonId of
                None \<Rightarrow> lock
              | Some d \<Rightarrow> (case lock_status w p d of None \<Rightarrow> lock | Some s \<Rightarrow> om_put (Entry d) (lock_value s) lock))
            (GetDungeonsByRandom m 0) [])"

text \<open>Removing what one player may not enter; each inner loop stops when no dungeon is left.\<close>

fun drop_locked :: "uint64 \<Rightarrow> LfgLockMap \<Rightarrow> LfgDungeonSet \<times> LfgLockPartyMap \<Rightarrow> LfgDungeonSet \<times> LfgLockPartyMap" where
  "drop_locked guid [] acc = acc"
| "drop_locked guid ((entry, status) # locks) (dungeons, lockMap) =
     (if dungeons = [] then (dungeons, lockMap)
      else let dungeonId = entry AND 0x00FFFFFF in
        if os_mem dungeons dungeonId
        then drop_locked guid locks (os_erase dungeonId dungeons,
               om_put guid (om_put dungeonId status (case om_get lockMap guid of Some l \<Rightarrow> l | None \<Rightarrow> [])) lockMap)
        else drop_locked guid locks (dungeons, lockMap))"

fun compatible_loop :: "(uint64 \<Rightarrow> LfgLockMap) \<Rightarrow> uint64 list \<Rightarrow> LfgDungeonSet \<times> LfgLockPartyMap \<Rightarrow> LfgDungeonSet \<times> LfgLockPartyMap" where
  "compatible_loop locked [] acc = acc"
| "compatible_loop locked (guid # players) (dungeons, lockMap) =
     (if dungeons = [] then (dungeons, lockMap)
      else compatible_loop locked players (drop_locked guid (locked guid) (dungeons, lockMap)))"

definition GetCompatibleDungeons :: "(uint64 \<Rightarrow> LfgLockMap) \<Rightarrow> LfgDungeonSet \<Rightarrow> uint64 list \<Rightarrow> LfgDungeonSet \<times> LfgLockPartyMap" where
  "GetCompatibleDungeons locked dungeons players =
     (let (dungeons, lockMap) = compatible_loop locked players (dungeons, []) in
      (dungeons, if dungeons \<noteq> [] then [] else lockMap))"

section \<open>Queues\<close>

definition GetQueue :: "LFGMgr \<Rightarrow> uint64 \<Rightarrow> uint8" where
  "GetQueue m guid =
     (if IS_GROUP_GUID guid
      then case GetPlayers m guid of [] \<Rightarrow> 0 | pguid # _ \<Rightarrow> (if pguid \<noteq> 0 then GetTeam m pguid else 0)
      else GetTeam m guid)"

definition queue_at :: "LFGMgr \<Rightarrow> uint8 \<Rightarrow> LFGQueue" where
  "queue_at m i = (case om_get (QueuesStore m) i of Some q \<Rightarrow> q | None \<Rightarrow> LFGQueue_new)"

definition put_queue :: "uint8 \<Rightarrow> LFGQueue \<Rightarrow> LFGMgr \<Rightarrow> LFGMgr" where
  "put_queue i q m = m\<lparr>QueuesStore := om_put i q (QueuesStore m)\<rparr>"

text \<open>\<open>QueuesStore[i]\<close>, created when it is missing.\<close>

definition at_queue :: "uint8 \<Rightarrow> (LFGQueue \<Rightarrow> LFGQueue) \<Rightarrow> LFGMgr \<Rightarrow> LFGMgr" where
  "at_queue i f m = put_queue i (f (queue_at m i)) m"

definition act_queue :: "uint8 \<Rightarrow> (LFGQueue \<Rightarrow> LFGQueue option) \<Rightarrow> lfg_act" where
  "act_queue i f m = map_option (\<lambda>q. (put_queue i q m, [])) (f (queue_at m i))"

definition AddProposal :: "LfgProposal \<Rightarrow> LFGMgr \<Rightarrow> LFGMgr" where
  "AddProposal proposal m =
     (let n = m_lfgProposalId m + 1 in
      m\<lparr>m_lfgProposalId := n, ProposalsStore := om_put n (proposal\<lparr>lp_id := n\<rparr>) (ProposalsStore m)\<rparr>)"

definition queue_env :: "LfgWorld \<Rightarrow> LFGMgr \<Rightarrow> LfgEnv" where
  "queue_env w m = \<lparr>le_State = GetState m, le_OldState = GetOldState m, le_IsLfgGroup = IsLfgGroup m, le_PlayerCount = GetPlayerCount m,
     le_Connected = lw_Connected w, le_IgnoreList = lw_IgnoreList w, le_now = lw_now w, le_urand = lw_urand w\<rparr>"

text \<open>\<open>FindGroups\<close> of one queue, with the proposals it adds.\<close>

definition find_in_queue :: "LfgWorld \<Rightarrow> uint8 \<Rightarrow> lfg_act" where
  "find_in_queue w i m =
     map_option (\<lambda>(_, s). (fold AddProposal (mt_proposals s) ((put_queue i (mt_queue s) m)\<lparr>m_draws := mt_draws s\<rparr>), []))
       (FindGroups (queue_env w m) \<lparr>mt_queue = queue_at m i, mt_proposals = [], mt_draws = m_draws m\<rparr>)"

section \<open>Role checks\<close>

definition choose_role :: "uint64 \<Rightarrow> uint8 \<Rightarrow> LfgRoleCheck \<Rightarrow> LfgRoleCheck" where
  "choose_role guid roles rc =
     (if guid = 0 then rc\<lparr>rc_state := LFG_ROLECHECK_ABORTED\<rparr>
      else if roles < PLAYER_ROLE_TANK then rc\<lparr>rc_state := LFG_ROLECHECK_NO_ROLE\<rparr>
      else let rc = rc\<lparr>rc_roles := om_put guid roles (rc_roles rc)\<rparr> in
        if list_all (\<lambda>(_, r). r \<noteq> PLAYER_ROLE_NONE) (rc_roles rc)
        then rc\<lparr>rc_state := (if fst (CheckGroupRoles (rc_roles rc)) then LFG_ROLECHECK_FINISHED else LFG_ROLECHECK_WRONG_ROLES)\<rparr>
        else rc)"

definition role_check_member :: "LfgWorld \<Rightarrow> LfgRoleCheck \<Rightarrow> bool \<Rightarrow> uint64 \<Rightarrow> uint8 \<Rightarrow> LfgDungeonSet \<Rightarrow> uint64 \<times> uint8 \<Rightarrow> lfg_act" where
  "role_check_member w rc sendRoleChosen guid roles dungeons = (\<lambda>(pguid, role). act_seq
     [act_if sendRoleChosen (SendLfgRoleChosen w pguid guid roles),
      SendLfgRoleCheckUpdate w pguid rc,
      (case rc_state rc of
         LFG_ROLECHECK_INITIALITING \<Rightarrow> act_seq []
       | LFG_ROLECHECK_FINISHED \<Rightarrow> act_seq
           [act_change (SetState pguid LFG_STATE_QUEUED),
            act_change (SetRoles pguid role),
            act_read (\<lambda>m. SendLfgUpdateParty w pguid (update_data_for LFG_UPDATETYPE_ADDED_TO_QUEUE dungeons (GetComment m pguid)))]
       | _ \<Rightarrow> act_seq
           [act_if (rc_leader rc = pguid)
              (SendLfgJoinResult w pguid \<lparr>jr_result = LFG_JOIN_FAILED, jr_state = rc_state rc, jr_lockmap = []\<rparr>),
            SendLfgUpdateParty w pguid (update_data LFG_UPDATETYPE_ROLECHECK_FAILED),
            act_change (RestoreState pguid)])])"

definition erase_role_check :: "uint64 \<Rightarrow> LFGMgr \<Rightarrow> LFGMgr" where
  "erase_role_check gguid m = m\<lparr>RoleChecksStore := om_erase gguid (RoleChecksStore m)\<rparr>"

definition UpdateRoleCheck :: "LfgWorld \<Rightarrow> uint64 \<Rightarrow> uint64 \<Rightarrow> uint8 \<Rightarrow> lfg_act" where
  "UpdateRoleCheck w gguid guid roles =
     act_read (\<lambda>m.
       case (if gguid = 0 then None else om_get (RoleChecksStore m) gguid) of
         None \<Rightarrow> act_seq []
       | Some old \<Rightarrow>
           (let sendRoleChosen = (rc_state old \<noteq> LFG_ROLECHECK_DEFAULT \<and> guid \<noteq> 0);
                rc = choose_role guid roles old;
                dungeons = (if rc_rDungeonId rc \<noteq> 0 then [rc_rDungeonId rc] else rc_dungeons rc) in
            act_seq
              [act_change (\<lambda>m. m\<lparr>RoleChecksStore := om_put gguid rc (RoleChecksStore m)\<rparr>),
               act_each (role_check_member w rc sendRoleChosen guid roles dungeons) (rc_roles rc),
               (if rc_state rc = LFG_ROLECHECK_FINISHED
                then act_seq
                  [act_change (SetState gguid LFG_STATE_QUEUED),
                   act_read (\<lambda>m. act_change (at_queue (GetQueue m gguid) (AddQueueData gguid (lw_now w) (rc_dungeons rc) (rc_roles rc)))),
                   act_change (erase_role_check gguid)]
                else act_if (rc_state rc \<noteq> LFG_ROLECHECK_INITIALITING)
                  (act_seq [act_change (RestoreState gguid), act_change (erase_role_check gguid)]))]))"

section \<open>Proposals\<close>

definition erase_proposal :: "uint32 \<Rightarrow> LFGMgr \<Rightarrow> LFGMgr" where
  "erase_proposal proposalId m = m\<lparr>ProposalsStore := om_erase proposalId (ProposalsStore m)\<rparr>"

definition proposal_entry :: "uint64 \<times> LfgProposalPlayer \<Rightarrow> uint64" where
  "proposal_entry = (\<lambda>(guid, d). if pp_group d \<noteq> 0 then pp_group d else guid)"

text \<open>The answers after a removal, and the entries that have to leave the queue.\<close>

definition fail_answer :: "LfgUpdateType \<Rightarrow> LfgProposalPlayer \<Rightarrow> LfgProposalPlayer" where
  "fail_answer ty d =
     (let d = (if ty = LFG_UPDATETYPE_PROPOSAL_FAILED \<and> pp_accept d = LFG_ANSWER_PENDING then d\<lparr>pp_accept := LFG_ANSWER_DENY\<rparr> else d) in
      if pp_accept d \<noteq> LFG_ANSWER_AGREE \<and> (pp_accept d = LFG_ANSWER_DENY \<or> ty = LFG_UPDATETYPE_PROPOSAL_FAILED)
      then d\<lparr>pp_accept := LFG_ANSWER_DENY\<rparr> else d)"

definition failed_proposal :: "LfgUpdateType \<Rightarrow> LfgProposal \<Rightarrow> LfgProposal" where
  "failed_proposal ty p =
     p\<lparr>lp_state := LFG_PROPOSAL_FAILED, lp_players := map (\<lambda>(guid, d). (guid, fail_answer ty d)) (lp_players p)\<rparr>"

definition proposal_toRemove :: "LfgProposal \<Rightarrow> uint64 oset" where
  "proposal_toRemove p =
     fold (\<lambda>(guid, d) s. if pp_accept d = LFG_ANSWER_DENY then os_insert (proposal_entry (guid, d)) s else s) (lp_players p) []"

definition removed_player :: "LfgWorld \<Rightarrow> LfgProposal \<Rightarrow> LfgUpdateType \<Rightarrow> uint64 oset \<Rightarrow> uint64 \<times> LfgProposalPlayer \<Rightarrow> lfg_act" where
  "removed_player w p ty toRemove = (\<lambda>(guid, d).
     let gguid = proposal_entry (guid, d) in
     act_then (SendLfgUpdateProposal w guid p)
       (if os_mem toRemove gguid
        then let data = update_data (if pp_accept d = LFG_ANSWER_DENY then ty else LFG_UPDATETYPE_REMOVED_FROM_QUEUE) in
          act_then (act_change (RestoreState guid))
            (if gguid \<noteq> guid
             then act_then (act_change (RestoreState (pp_group d))) (SendLfgUpdateParty w guid data)
             else SendLfgUpdatePlayer w guid data)
        else act_then (act_change (SetState guid LFG_STATE_QUEUED))
          (if gguid \<noteq> guid
           then act_then (act_change (SetState gguid LFG_STATE_QUEUED))
             (act_read (\<lambda>m. SendLfgUpdateParty w guid
                (update_data_for LFG_UPDATETYPE_ADDED_TO_QUEUE (GetSelectedDungeons m guid) (GetComment m guid))))
           else act_read (\<lambda>m. SendLfgUpdatePlayer w guid
                (update_data_for LFG_UPDATETYPE_ADDED_TO_QUEUE (GetSelectedDungeons m guid) (GetComment m guid))))))"

text \<open>Its queue is that of the first player, who exists unless the proposal is empty.\<close>

definition RemoveProposal :: "LfgWorld \<Rightarrow> uint32 \<Rightarrow> LfgUpdateType \<Rightarrow> lfg_act" where
  "RemoveProposal w proposalId ty =
     act_read (\<lambda>m.
       case om_get (ProposalsStore m) proposalId of
         None \<Rightarrow> (\<lambda>_. None)
       | Some old \<Rightarrow>
           (let p = failed_proposal ty old; toRemove = proposal_toRemove p in
            act_seq
              [act_change (\<lambda>m. m\<lparr>ProposalsStore := om_put proposalId p (ProposalsStore m)\<rparr>),
               act_each (removed_player w p ty toRemove) (lp_players p),
               (case lp_players p of
                  [] \<Rightarrow> (\<lambda>_. None)
                | (first, _) # _ \<Rightarrow> act_read (\<lambda>m. act_change (at_queue (GetQueue m first) (\<lambda>q.
                    fold AddToQueue (filter (\<lambda>g. \<not> os_mem toRemove g) (lp_queues p)) (fold RemoveFromQueue toRemove q))))),
               act_change (erase_proposal proposalId)]))"

text \<open>The group system: forming the group of a proposal (the players in order, the leader first), kicking a member,
  and what the manager asks of groups.  Its hooks change the manager.\<close>

record LfgGroupSystem =
  gs_form :: "LfgProposal \<Rightarrow> uint64 list \<Rightarrow> LFGMgr \<Rightarrow> (uint64 \<times> LFGMgr \<times> lfg_effect list) option"
  gs_kick :: "uint64 \<Rightarrow> uint64 \<Rightarrow> lfg_act"
  gs_exists :: "uint64 \<Rightarrow> bool"
  gs_dbStoreId :: "uint64 \<Rightarrow> uint32"

definition SaveToDB :: "uint64 \<Rightarrow> uint32 \<Rightarrow> lfg_act" where
  "SaveToDB guid db_guid =
     act_send (\<lambda>m. if \<not> IS_GROUP_GUID guid then []
       else [CHAR_DEL_LFG_DATA db_guid, CHAR_INS_LFG_DATA db_guid (GetDungeon m guid True) (GetState m guid)])"

definition leader_first :: "LfgProposal \<Rightarrow> uint64 list" where
  "leader_first p = fold (\<lambda>g players. if g = lp_leader p then g # players else players @ [g]) (om_keys (lp_players p)) []"

definition playersToTeleport :: "LfgProposal \<Rightarrow> LFGMgr \<Rightarrow> uint64 list" where
  "playersToTeleport p m = filter (\<lambda>g. lp_isNew p \<or> GetGroup m g \<noteq> lp_group p) (om_keys (lp_players p))"

definition group_formed :: "LfgWorld \<Rightarrow> LfgGroupSystem \<Rightarrow> LFGDungeonData \<Rightarrow> uint64 \<Rightarrow> uint64 list \<Rightarrow> lfg_act" where
  "group_formed w gs dungeon gguid teleported = act_seq
     [act_change (SetDungeon gguid (Entry dungeon)),
      act_change (SetState gguid LFG_STATE_DUNGEON),
      SaveToDB gguid (gs_dbStoreId gs gguid),
      act_each (\<lambda>g. act_send (\<lambda>_. if lw_FindPlayer w g \<noteq> None then [CallTeleportPlayer g False] else [])) teleported,
      act_send (\<lambda>_. [GroupUpdate gguid])]"

text \<open>The players and the dungeon are found here; the group system adds the players to the group and sets its difficulty.\<close>

definition MakeNewGroup :: "LfgWorld \<Rightarrow> LfgGroupSystem \<Rightarrow> LfgProposal \<Rightarrow> lfg_act" where
  "MakeNewGroup w gs p m =
     (case GetLFGDungeon m (lp_dungeonId p) of
        None \<Rightarrow> None
      | Some dungeon \<Rightarrow>
          (case gs_form gs p (leader_first p) m of
             None \<Rightarrow> None
           | Some (gguid, m', formed) \<Rightarrow>
               map_option (\<lambda>(m, e). (m, formed @ e)) (group_formed w gs dungeon gguid (playersToTeleport p m) m')))"

definition update_wait :: "uint8 \<Rightarrow> uint32 \<Rightarrow> uint32 \<Rightarrow> LFGQueue \<Rightarrow> LFGQueue option" where
  "update_wait role waitTime dungeonId =
     (if role = PLAYER_ROLE_DAMAGE then UpdateWaitTimeDps waitTime dungeonId
      else if role = PLAYER_ROLE_HEALER then UpdateWaitTimeHealer waitTime dungeonId
      else if role = PLAYER_ROLE_TANK then UpdateWaitTimeTank waitTime dungeonId
      else UpdateWaitTimeAvg waitTime dungeonId)"

text \<open>One player of an accepted proposal.  The update data is shared by all players and changed by the first.\<close>

definition accepted_player :: "LfgWorld \<Rightarrow> uint8 \<Rightarrow> LfgProposal \<Rightarrow> bool \<Rightarrow> LfgUpdateType \<Rightarrow> uint64 \<times> LfgProposalPlayer \<Rightarrow> lfg_act" where
  "accepted_player w i p sendUpdate ty = (\<lambda>(pguid, d).
     act_read (\<lambda>m.
       case GetSelectedDungeons m pguid of
         [] \<Rightarrow> (\<lambda>_. None)
       | dungeonId # _ \<Rightarrow>
           (let gguid = pp_group d; entry = (if gguid \<noteq> 0 then gguid else pguid) in
            act_seq
              [act_if sendUpdate (SendLfgUpdateProposal w pguid p),
               act_read (\<lambda>m.
                 let (joined, q) = GetJoinTime (lw_now w) entry (queue_at m i);
                     waitTime = of_int (c_div (lw_now w - joined) 1000) :: uint32 in
                 act_seq
                   [act_change (put_queue i q),
                    (if gguid \<noteq> 0 then SendLfgUpdateParty w pguid (update_data ty) else SendLfgUpdatePlayer w pguid (update_data ty)),
                    SendLfgUpdatePlayer w pguid (update_data LFG_UPDATETYPE_REMOVED_FROM_QUEUE),
                    SendLfgUpdateParty w pguid (update_data LFG_UPDATETYPE_REMOVED_FROM_QUEUE),
                    act_read (\<lambda>m. act_queue i (update_wait (GetRoles m pguid AND NOT PLAYER_ROLE_LEADER) waitTime dungeonId))]),
               act_change (SetState pguid LFG_STATE_DUNGEON)])))"

fun accepted_players :: "LfgWorld \<Rightarrow> uint8 \<Rightarrow> LfgProposal \<Rightarrow> bool \<Rightarrow> LfgUpdateType \<Rightarrow> (uint64 \<times> LfgProposalPlayer) list \<Rightarrow> lfg_act" where
  "accepted_players w i p sendUpdate ty [] = act_seq []"
| "accepted_players w i p sendUpdate ty (x # xs) =
     act_then (accepted_player w i p sendUpdate ty x) (accepted_players w i p sendUpdate LFG_UPDATETYPE_REMOVED_FROM_QUEUE xs)"

definition UpdateProposal :: "LfgWorld \<Rightarrow> LfgGroupSystem \<Rightarrow> uint32 \<Rightarrow> uint64 \<Rightarrow> bool \<Rightarrow> lfg_act" where
  "UpdateProposal w gs proposalId guid accept =
     act_read (\<lambda>m.
       case om_get (ProposalsStore m) proposalId of
         None \<Rightarrow> act_seq []
       | Some old \<Rightarrow>
           (case om_get (lp_players old) guid of
              None \<Rightarrow> act_seq []
            | Some d \<Rightarrow>
                (let p = old\<lparr>lp_players := om_put guid (d\<lparr>pp_accept := (if accept then LFG_ANSWER_AGREE else LFG_ANSWER_DENY)\<rparr>) (lp_players old)\<rparr>;
                     store = (\<lambda>p. act_change (\<lambda>m. m\<lparr>ProposalsStore := om_put proposalId p (ProposalsStore m)\<rparr>)) in
                 act_then (store p)
                   (if \<not> accept then RemoveProposal w proposalId LFG_UPDATETYPE_PROPOSAL_DECLINED
                    else if \<not> list_all (\<lambda>(_, d). pp_accept d = LFG_ANSWER_AGREE) (lp_players p)
                    then act_each (\<lambda>g. SendLfgUpdateProposal w g p) (om_keys (lp_players p))
                    else let sendUpdate = (lp_state p \<noteq> LFG_PROPOSAL_SUCCESS); p = p\<lparr>lp_state := LFG_PROPOSAL_SUCCESS\<rparr>; i = GetQueue m guid in
                      act_seq
                        [store p,
                         accepted_players w i p sendUpdate LFG_UPDATETYPE_GROUP_FOUND (lp_players p),
                         act_change (at_queue i (fold RemoveFromQueue (lp_queues p))),
                         MakeNewGroup w gs p,
                         act_change (erase_proposal proposalId)]))))"

section \<open>Votes to kick\<close>

abbreviation LFG_TIME_BOOT :: int where "LFG_TIME_BOOT \<equiv> 120"
abbreviation LFG_GROUP_KICK_VOTES_NEEDED :: nat where "LFG_GROUP_KICK_VOTES_NEEDED \<equiv> 3"

definition put_boot :: "uint64 \<Rightarrow> LfgPlayerBoot \<Rightarrow> LFGMgr \<Rightarrow> LFGMgr" where
  "put_boot gguid boot m = m\<lparr>BootsStore := om_put gguid boot (BootsStore m)\<rparr>"

definition erase_boot :: "uint64 \<Rightarrow> LFGMgr \<Rightarrow> LFGMgr" where
  "erase_boot gguid m = m\<lparr>BootsStore := om_erase gguid (BootsStore m)\<rparr>"

definition InitBoot :: "LfgWorld \<Rightarrow> uint64 \<Rightarrow> uint64 \<Rightarrow> uint64 \<Rightarrow> string \<Rightarrow> lfg_act" where
  "InitBoot w gguid kicker victim reason =
     act_then (act_change (SetState gguid LFG_STATE_BOOT))
       (act_read (\<lambda>m.
          let players = GetPlayers m gguid;
              votes = (case om_get (BootsStore m) gguid of Some b \<Rightarrow> lb_votes b | None \<Rightarrow> []);
              votes = fold (\<lambda>g. om_put g LFG_ANSWER_PENDING) players votes;
              boot = \<lparr>lb_cancelTime = lw_now w + LFG_TIME_BOOT, lb_inProgress = True,
                      lb_votes = om_put kicker LFG_ANSWER_AGREE (om_put victim LFG_ANSWER_DENY votes),
                      lb_victim = victim, lb_reason = reason\<rparr> in
          act_seq
            [act_each (\<lambda>g. act_change (SetState g LFG_STATE_BOOT)) players,
             act_change (put_boot gguid boot),
             act_each (\<lambda>g. SendLfgBootProposalUpdate w g boot) players]))"

text \<open>Reading the vote of a player who has none creates it as a denial.\<close>

definition vote_of :: "LfgPlayerBoot \<Rightarrow> uint64 \<Rightarrow> LfgAnswer" where
  "vote_of boot guid = (case om_get (lb_votes boot) guid of Some a \<Rightarrow> a | None \<Rightarrow> LFG_ANSWER_DENY)"

definition with_vote :: "uint64 \<Rightarrow> LfgAnswer \<Rightarrow> LfgPlayerBoot \<Rightarrow> LfgPlayerBoot" where
  "with_vote guid a boot = boot\<lparr>lb_votes := om_put guid a (lb_votes boot)\<rparr>"

definition votes_given :: "LfgPlayerBoot \<Rightarrow> uint8" where
  "votes_given boot = of_nat (om_count (\<lambda>a. a \<noteq> LFG_ANSWER_PENDING) (lb_votes boot))"

definition votes_agree :: "LfgPlayerBoot \<Rightarrow> uint8" where
  "votes_agree boot = of_nat (om_count (\<lambda>a. a = LFG_ANSWER_AGREE) (lb_votes boot))"

definition end_vote :: "LfgWorld \<Rightarrow> LfgGroupSystem \<Rightarrow> uint64 \<Rightarrow> LfgPlayerBoot \<Rightarrow> lfg_act" where
  "end_vote w gs gguid boot =
     act_seq
       [act_change (put_boot gguid boot),
        act_each (\<lambda>p. act_if (p \<noteq> lb_victim boot)
          (act_then (act_change (SetState p LFG_STATE_DUNGEON)) (SendLfgBootProposalUpdate w p boot))) (om_keys (lb_votes boot)),
        act_change (SetState gguid LFG_STATE_DUNGEON),
        act_if (votes_agree boot = of_nat LFG_GROUP_KICK_VOTES_NEEDED)
          (act_then (act_if (gs_exists gs gguid) (gs_kick gs gguid (lb_victim boot))) (act_change (DecreaseKicksLeft gguid))),
        act_change (erase_boot gguid)]"

definition UpdateBoot :: "LfgWorld \<Rightarrow> LfgGroupSystem \<Rightarrow> uint64 \<Rightarrow> bool \<Rightarrow> lfg_act" where
  "UpdateBoot w gs guid accept =
     act_read (\<lambda>m.
       let gguid = GetGroup m guid in
       case (if gguid = 0 then None else om_get (BootsStore m) gguid) of
         None \<Rightarrow> act_seq []
       | Some boot \<Rightarrow>
           if vote_of boot guid \<noteq> LFG_ANSWER_PENDING then act_change (put_boot gguid (with_vote guid (vote_of boot guid) boot))
           else let boot = with_vote guid (if accept then LFG_ANSWER_AGREE else LFG_ANSWER_DENY) boot;
                    votesNum = votes_given boot; agreeNum = votes_agree boot in
             if unat agreeNum < LFG_GROUP_KICK_VOTES_NEEDED \<and> int (unat votesNum) - int (unat agreeNum) < int LFG_GROUP_KICK_VOTES_NEEDED
             then act_change (put_boot gguid boot)
             else end_vote w gs gguid (boot\<lparr>lb_inProgress := False\<rparr>))"

section \<open>Leaving\<close>

definition leave_proposal :: "LfgWorld \<Rightarrow> uint64 \<Rightarrow> lfg_act" where
  "leave_proposal w pguid =
     act_read (\<lambda>m.
       case find (\<lambda>(_, p). om_get (lp_players p) pguid \<noteq> None) (ProposalsStore m) of
         None \<Rightarrow> act_seq []
       | Some (n, p) \<Rightarrow>
           (let players = map (\<lambda>(g, d). (g, if g = pguid then d\<lparr>pp_accept := LFG_ANSWER_DENY\<rparr> else d)) (lp_players p) in
            act_then (act_change (\<lambda>m. m\<lparr>ProposalsStore := om_put n (p\<lparr>lp_players := players\<rparr>) (ProposalsStore m)\<rparr>))
              (RemoveProposal w n LFG_UPDATETYPE_PROPOSAL_DECLINED)))"

definition LeaveLfg :: "LfgWorld \<Rightarrow> uint64 \<Rightarrow> lfg_act" where
  "LeaveLfg w guid =
     act_read (\<lambda>m.
       let gguid = (if IS_GROUP_GUID guid then guid else GetGroup m guid) in
       case GetState m guid of
         LFG_STATE_QUEUED \<Rightarrow>
           (if gguid \<noteq> 0
            then act_seq
              [act_change (at_queue (GetQueue m gguid) (RemoveFromQueue gguid)),
               act_change (SetState gguid LFG_STATE_NONE),
               act_each (\<lambda>p. act_then (act_change (SetState p LFG_STATE_NONE))
                   (SendLfgUpdateParty w p (update_data LFG_UPDATETYPE_REMOVED_FROM_QUEUE))) (GetPlayers m gguid)]
            else act_seq
              [act_change (at_queue (GetQueue m guid) (RemoveFromQueue guid)),
               SendLfgUpdatePlayer w guid (update_data LFG_UPDATETYPE_REMOVED_FROM_QUEUE),
               act_change (SetState guid LFG_STATE_NONE)])
       | LFG_STATE_ROLECHECK \<Rightarrow> act_if (gguid \<noteq> 0) (UpdateRoleCheck w gguid 0 PLAYER_ROLE_NONE)
       | LFG_STATE_PROPOSAL \<Rightarrow> leave_proposal w (if gguid = guid then GetLeader m gguid else guid)
       | LFG_STATE_NONE \<Rightarrow> act_seq []
       | LFG_STATE_RAIDBROWSER \<Rightarrow> act_seq []
       | _ \<Rightarrow> act_if (guid \<noteq> gguid) (act_change (SetState guid LFG_STATE_NONE)))"

section \<open>Joining\<close>

abbreviation LFG_SPELL_DUNGEON_COOLDOWN :: uint32 where "LFG_SPELL_DUNGEON_COOLDOWN \<equiv> 71328"
abbreviation LFG_SPELL_DUNGEON_DESERTER :: uint32 where "LFG_SPELL_DUNGEON_DESERTER \<equiv> 71041"
abbreviation LFG_TIME_ROLECHECK :: int where "LFG_TIME_ROLECHECK \<equiv> 45000"

record LfgGroup =
  lg_guid :: uint64
  lg_isLFGGroup :: bool
  lg_membersCount :: uint32
  lg_members :: "LfgPlayer option list"

fun members_loop :: "LfgPlayer option list \<Rightarrow> LfgJoinResult \<times> uint8 \<times> uint64 oset \<Rightarrow> LfgJoinResult \<times> uint8 \<times> uint64 oset" where
  "members_loop [] acc = acc"
| "members_loop (mem # ms) (result, memberCount, players) =
     (if result \<noteq> LFG_JOIN_OK then (result, memberCount, players)
      else case mem of
        None \<Rightarrow> members_loop ms (result, memberCount, players)
      | Some p \<Rightarrow>
          (let result = (if \<not> pl_canJoin p then LFG_JOIN_PARTY_NOT_MEET_REQS else result);
               result = (if pl_aura p LFG_SPELL_DUNGEON_DESERTER then LFG_JOIN_PARTY_DESERTER
                         else if pl_aura p LFG_SPELL_DUNGEON_COOLDOWN then LFG_JOIN_PARTY_RANDOM_COOLDOWN
                         else if pl_inBattleground p then LFG_JOIN_USING_BG_SYSTEM else result) in
           members_loop ms (result, memberCount + 1, os_insert (pl_guid p) players)))"

definition join_restrictions :: "LfgPlayer \<Rightarrow> LfgGroup option \<Rightarrow> LfgDungeonSet \<Rightarrow> LfgJoinResult \<times> uint64 oset" where
  "join_restrictions player grp dungeons =
     (if \<not> pl_canJoin player then (LFG_JOIN_NOT_MEET_REQS, [])
      else if pl_inBattleground player then (LFG_JOIN_USING_BG_SYSTEM, [])
      else if pl_aura player LFG_SPELL_DUNGEON_DESERTER then (LFG_JOIN_DESERTER, [])
      else if pl_aura player LFG_SPELL_DUNGEON_COOLDOWN then (LFG_JOIN_RANDOM_COOLDOWN, [])
      else if dungeons = [] then (LFG_JOIN_NOT_MEET_REQS, [])
      else case grp of
        None \<Rightarrow> (LFG_JOIN_OK, [pl_guid player])
      | Some g \<Rightarrow>
          if lg_membersCount g > of_nat MAXGROUPSIZE then (LFG_JOIN_TOO_MUCH_MEMBERS, [])
          else let (result, memberCount, players) = members_loop (lg_members g) (LFG_JOIN_OK, 0, []) in
            (if result = LFG_JOIN_OK \<and> ucast memberCount \<noteq> lg_membersCount g then LFG_JOIN_DISCONNECTED else result, players))"

text \<open>The types of the dungeons: the result, the random dungeon, whether there are dungeons and raids.\<close>

fun types_loop :: "(uint32 \<Rightarrow> uint8) \<Rightarrow> LfgDungeonSet \<Rightarrow> LfgDungeonSet \<Rightarrow> LfgJoinResult \<times> uint32 \<times> bool \<times> bool \<Rightarrow>
    LfgJoinResult \<times> uint32 \<times> bool \<times> bool" where
  "types_loop ty dungeons [] acc = acc"
| "types_loop ty dungeons (d # ds) (result, rDungeonId, isDungeon, isRaid) =
     (if result \<noteq> LFG_JOIN_OK then (result, rDungeonId, isDungeon, isRaid)
      else if ty d \<in> {LFG_TYPE_RANDOM, LFG_TYPE_HEROIC, LFG_TYPE_DUNGEON}
      then let result = (if ty d = LFG_TYPE_RANDOM \<and> length dungeons > 1 then LFG_JOIN_DUNGEON_INVALID else result);
               rDungeonId = (if ty d = LFG_TYPE_RANDOM \<and> \<not> length dungeons > 1 then hd dungeons else rDungeonId);
               result = (if isRaid then LFG_JOIN_MIXED_RAID_DUNGEON else result) in
           types_loop ty dungeons ds (result, rDungeonId, True, isRaid)
      else if ty d = LFG_TYPE_RAID
      then types_loop ty dungeons ds (if isDungeon then LFG_JOIN_MIXED_RAID_DUNGEON else result, rDungeonId, isDungeon, True)
      else types_loop ty dungeons ds (LFG_JOIN_DUNGEON_INVALID, rDungeonId, isDungeon, isRaid))"

text \<open>All conditions together: the result, the dungeons left, the locks, the random dungeon, whether it is a raid.\<close>

definition join_conditions :: "LfgWorld \<Rightarrow> LFGMgr \<Rightarrow> LfgPlayer \<Rightarrow> LfgGroup option \<Rightarrow> LfgDungeonSet \<Rightarrow>
    LfgJoinResult \<times> LfgDungeonSet \<times> LfgLockPartyMap \<times> uint32 \<times> bool" where
  "join_conditions w m player grp dungeons =
     (let (result, players) = join_restrictions player grp dungeons in
      if result \<noteq> LFG_JOIN_OK then (result, dungeons, [], 0, False)
      else let (result, rDungeonId, isDungeon, isRaid) = types_loop (GetDungeonType m) dungeons dungeons (LFG_JOIN_OK, 0, False, False) in
        if result \<noteq> LFG_JOIN_OK then (result, dungeons, [], rDungeonId, isRaid)
        else let dungeons = (if rDungeonId \<noteq> 0 then GetDungeonsByRandom m rDungeonId else dungeons);
                 (dungeons, lockmap) = GetCompatibleDungeons (GetLockedDungeons w m) dungeons players in
          (if dungeons = [] then if grp \<noteq> None then LFG_JOIN_PARTY_NOT_MEET_REQS else LFG_JOIN_NOT_MEET_REQS else LFG_JOIN_OK,
           dungeons, lockmap, rDungeonId, isRaid))"

definition join_group :: "LfgWorld \<Rightarrow> LfgPlayer \<Rightarrow> LfgGroup \<Rightarrow> uint8 \<Rightarrow> LfgDungeonSet \<Rightarrow> uint32 \<Rightarrow> bool \<Rightarrow> string \<Rightarrow> lfg_act" where
  "join_group w player grp roles dungeons rDungeonId isContinue comment =
     act_read (\<lambda>m.
       let gguid = lg_guid grp; guid = pl_guid player;
           members = map pl_guid (concat (map (\<lambda>x. case x of Some p \<Rightarrow> [p] | None \<Rightarrow> []) (lg_members grp)));
           roles0 = (case om_get (RoleChecksStore m) gguid of Some rc \<Rightarrow> rc_roles rc | None \<Rightarrow> []);
           rc = \<lparr>rc_cancelTime = lw_now w + LFG_TIME_ROLECHECK, rc_roles = fold (\<lambda>p. om_put p 0) members roles0,
                 rc_state = LFG_ROLECHECK_INITIALITING, rc_dungeons = dungeons, rc_rDungeonId = rDungeonId, rc_leader = guid\<rparr>;
           dungeons = (if rDungeonId \<noteq> 0 then [rDungeonId] else dungeons) in
       act_seq
         [act_change (\<lambda>m. m\<lparr>RoleChecksStore := om_put gguid rc (RoleChecksStore m)\<rparr>),
          act_change (SetState gguid LFG_STATE_ROLECHECK),
          act_each (\<lambda>p. act_seq
              [act_send (\<lambda>_. [UpdateParty p (update_data_for LFG_UPDATETYPE_JOIN_QUEUE dungeons comment)]),
               act_change (SetState p LFG_STATE_ROLECHECK),
               act_if (\<not> isContinue) (act_change (SetSelectedDungeons p dungeons))]) members,
          UpdateRoleCheck w gguid guid roles])"

definition join_alone :: "LfgWorld \<Rightarrow> LfgPlayer \<Rightarrow> uint8 \<Rightarrow> LfgDungeonSet \<Rightarrow> uint32 \<Rightarrow> LfgJoinResultData \<Rightarrow> string \<Rightarrow> lfg_act" where
  "join_alone w player roles dungeons rDungeonId joinData comment =
     act_read (\<lambda>m.
       let guid = pl_guid player; selected = (if rDungeonId \<noteq> 0 then [rDungeonId] else dungeons) in
       act_seq
         [act_change (at_queue (GetQueue m guid) (AddQueueData guid (lw_now w) dungeons [(guid, roles)])),
          act_change (SetSelectedDungeons guid selected),
          act_send (\<lambda>_. [JoinResult guid joinData, UpdatePlayer guid (update_data_for LFG_UPDATETYPE_JOIN_QUEUE selected comment)]),
          act_change (SetState guid LFG_STATE_QUEUED),
          act_change (SetRoles guid roles)])"

definition JoinLfg :: "LfgWorld \<Rightarrow> LfgPlayer \<Rightarrow> LfgGroup option \<Rightarrow> uint8 \<Rightarrow> LfgDungeonSet \<Rightarrow> string \<Rightarrow> lfg_act" where
  "JoinLfg w player grp roles dungeons comment =
     (if dungeons = [] then act_seq []
      else act_read (\<lambda>m.
        let guid = pl_guid player;
            gguid = (case grp of Some g \<Rightarrow> lg_guid g | None \<Rightarrow> guid);
            isContinue = (case grp of Some g \<Rightarrow> lg_isLFGGroup g \<and> GetState m gguid \<noteq> LFG_STATE_FINISHED_DUNGEON | None \<Rightarrow> False);
            dungeons = (if isContinue then [GetDungeon m gguid True] else dungeons) in
        act_then (act_if (GetState m gguid = LFG_STATE_QUEUED) (act_change (at_queue (GetQueue m gguid) (RemoveFromQueue gguid))))
          (act_read (\<lambda>m.
            let (result, dungeons, lockmap, rDungeonId, isRaid) = join_conditions w m player grp dungeons;
                joinData = \<lparr>jr_result = result, jr_state = LFG_ROLECHECK_DEFAULT,
                            jr_lockmap = (if result \<noteq> LFG_JOIN_OK \<and> dungeons \<noteq> [] then [] else lockmap)\<rparr> in
            if result \<noteq> LFG_JOIN_OK then act_send (\<lambda>_. [JoinResult guid joinData])
            else act_then (act_change (SetComment guid comment))
              (if isRaid then act_seq []
               else case grp of
                 Some g \<Rightarrow> join_group w player g roles dungeons rDungeonId isContinue comment
               | None \<Rightarrow> join_alone w player roles dungeons rDungeonId joinData comment)))))"

section \<open>The update\<close>

abbreviation LFG_OPTION_ENABLE_DUNGEON_FINDER :: uint32 where "LFG_OPTION_ENABLE_DUNGEON_FINDER \<equiv> 1"
abbreviation LFG_OPTION_ENABLE_RAID_BROWSER :: uint32 where "LFG_OPTION_ENABLE_RAID_BROWSER \<equiv> 2"
abbreviation LFG_QUEUEUPDATE_INTERVAL :: uint32 where "LFG_QUEUEUPDATE_INTERVAL \<equiv> 15000"

definition isOptionEnabled :: "LFGMgr \<Rightarrow> uint32 \<Rightarrow> bool" where
  "isOptionEnabled m option_mask = has_flag (m_options m) option_mask"

definition SetOptions :: "uint32 \<Rightarrow> LFGMgr \<Rightarrow> LFGMgr" where
  "SetOptions options m = m\<lparr>m_options := options\<rparr>"

definition Clean :: "LFGMgr \<Rightarrow> LFGMgr" where
  "Clean m = m\<lparr>QueuesStore := []\<rparr>"

definition expire_role_check :: "LfgWorld \<Rightarrow> uint64 \<times> LfgRoleCheck \<Rightarrow> lfg_act" where
  "expire_role_check w = (\<lambda>(gguid, old).
     act_if (\<not> lw_now w < rc_cancelTime old)
       (let rc = old\<lparr>rc_state := LFG_ROLECHECK_MISSING_ROLE\<rparr> in
        act_seq
          [act_each (\<lambda>guid. act_seq
              [act_change (RestoreState guid),
               SendLfgRoleCheckUpdate w guid rc,
               act_if (guid = rc_leader rc) (SendLfgJoinResult w guid
                 \<lparr>jr_result = LFG_JOIN_FAILED, jr_state = LFG_ROLECHECK_MISSING_ROLE, jr_lockmap = []\<rparr>)]) (om_keys (rc_roles rc)),
           act_change (RestoreState gguid),
           act_change (erase_role_check gguid)]))"

definition expire_proposal :: "LfgWorld \<Rightarrow> uint32 \<times> LfgProposal \<Rightarrow> lfg_act" where
  "expire_proposal w = (\<lambda>(n, p). act_if (lp_cancelTime p < lw_now w) (RemoveProposal w n LFG_UPDATETYPE_PROPOSAL_FAILED))"

definition expire_boot :: "LfgWorld \<Rightarrow> uint64 \<times> LfgPlayerBoot \<Rightarrow> lfg_act" where
  "expire_boot w = (\<lambda>(gguid, old).
     act_if (lb_cancelTime old < lw_now w)
       (let boot = old\<lparr>lb_inProgress := False\<rparr> in
        act_seq
          [act_each (\<lambda>p. act_then (act_if (p \<noteq> lb_victim boot) (SendLfgBootProposalUpdate w p boot))
              (act_change (SetState p LFG_STATE_DUNGEON))) (om_keys (lb_votes boot)),
           act_change (SetState gguid LFG_STATE_DUNGEON),
           act_change (erase_boot gguid)]))"

definition begin_player :: "LfgWorld \<Rightarrow> LfgProposal \<Rightarrow> uint64 \<Rightarrow> lfg_act" where
  "begin_player w p guid =
     act_then (act_change (SetState guid LFG_STATE_PROPOSAL))
       (act_read (\<lambda>m.
          let gguid = GetGroup m guid;
              data = (\<lambda>m. update_data_for LFG_UPDATETYPE_PROPOSAL_BEGIN (GetSelectedDungeons m guid) (GetComment m guid)) in
          act_then
            (if gguid \<noteq> 0
             then act_then (act_change (SetState gguid LFG_STATE_PROPOSAL)) (act_read (\<lambda>m. SendLfgUpdateParty w guid (data m)))
             else SendLfgUpdatePlayer w guid (data m))
            (SendLfgUpdateProposal w guid p)))"

definition begin_proposal :: "LfgWorld \<Rightarrow> LfgGroupSystem \<Rightarrow> uint32 \<times> LfgProposal \<Rightarrow> lfg_act" where
  "begin_proposal w gs = (\<lambda>(n, p).
     act_then (act_each (begin_player w p) (om_keys (lp_players p)))
       (act_if (lp_state p = LFG_PROPOSAL_SUCCESS)
          (UpdateProposal w gs n (if lp_players p = [] then 0 else last (om_keys (lp_players p))) True)))"

text \<open>Only the proposals from the newest identifier on are begun, although several may be new.\<close>

definition begin_new_proposals :: "LfgWorld \<Rightarrow> LfgGroupSystem \<Rightarrow> uint32 \<Rightarrow> lfg_act" where
  "begin_new_proposals w gs lastProposalId =
     act_read (\<lambda>m. act_if (lastProposalId \<noteq> m_lfgProposalId m)
       (act_each (begin_proposal w gs) (dropWhile (\<lambda>(n, _). n \<noteq> m_lfgProposalId m) (ProposalsStore m))))"

definition send_status :: "LfgWorld \<Rightarrow> uint8 \<Rightarrow> lfg_act" where
  "send_status w i m =
     (case UpdateQueueTimers (lw_now w) (queue_at m i) of
        None \<Rightarrow> None
      | Some (q, sent) \<Rightarrow> act_each (\<lambda>(g, data). SendLfgQueueStatus w g data) sent (put_queue i q m))"

definition Update :: "LfgWorld \<Rightarrow> LfgGroupSystem \<Rightarrow> uint32 \<Rightarrow> lfg_act" where
  "Update w gs diff =
     act_read (\<lambda>m. act_if (isOptionEnabled m (LFG_OPTION_ENABLE_DUNGEON_FINDER OR LFG_OPTION_ENABLE_RAID_BROWSER))
       (act_seq
         [act_read (\<lambda>m. act_each (expire_role_check w) (RoleChecksStore m)),
          act_read (\<lambda>m. act_each (expire_proposal w) (ProposalsStore m)),
          act_read (\<lambda>m. act_each (expire_boot w) (BootsStore m)),
          act_read (\<lambda>m. act_then (act_each (find_in_queue w) (om_keys (QueuesStore m))) (begin_new_proposals w gs (m_lfgProposalId m))),
          act_read (\<lambda>m.
            if m_QueueTimer m > LFG_QUEUEUPDATE_INTERVAL
            then act_then (act_change (\<lambda>m. m\<lparr>m_QueueTimer := 0\<rparr>)) (act_each (send_status w) (om_keys (QueuesStore m)))
            else act_change (\<lambda>m. m\<lparr>m_QueueTimer := m_QueueTimer m + diff\<rparr>))]))"

section \<open>Loading, and the hooks of the group system\<close>

text \<open>A row of a group: the leader, the dungeon and the state.\<close>

definition LoadFromDB :: "uint64 \<Rightarrow> (uint32 \<times> uint32 \<times> uint8) option \<Rightarrow> LFGMgr \<Rightarrow> LFGMgr" where
  "LoadFromDB guid row m =
     (case row of
        None \<Rightarrow> m
      | Some (leader, dungeon, state) \<Rightarrow>
          if \<not> IS_GROUP_GUID guid then m
          else let m = SetLeader guid (MAKE_NEW_GUID leader 0 HIGHGUID_PLAYER) m in
            if dungeon = 0 \<or> state = 0 then m
            else let m = SetDungeon guid dungeon m in
              if state = 5 then SetState guid LFG_STATE_DUNGEON m
              else if state = 6 then SetState guid LFG_STATE_FINISHED_DUNGEON m
              else m)"

datatype RemoveMethod =
    GROUP_REMOVEMETHOD_DEFAULT | GROUP_REMOVEMETHOD_KICK | GROUP_REMOVEMETHOD_LEAVE | GROUP_REMOVEMETHOD_KICK_LFG

definition if_enabled :: "lfg_act \<Rightarrow> lfg_act" where
  "if_enabled a = act_read (\<lambda>m. act_if (isOptionEnabled m (LFG_OPTION_ENABLE_DUNGEON_FINDER OR LFG_OPTION_ENABLE_RAID_BROWSER)) a)"

definition OnLogout :: "LfgWorld \<Rightarrow> uint64 \<Rightarrow> bool \<Rightarrow> lfg_act" where
  "OnLogout w guid inGroup = if_enabled (act_if (\<not> inGroup) (act_then (act_send (\<lambda>_. [LfrList guid False])) (LeaveLfg w guid)))"

definition OnLogin :: "LfgWorld \<Rightarrow> uint64 \<Rightarrow> uint64 option \<Rightarrow> uint8 \<Rightarrow> lfg_act" where
  "OnLogin w guid grp team = if_enabled (act_change (\<lambda>m.
     SetTeam w guid team
       (case grp of None \<Rightarrow> m | Some gguid2 \<Rightarrow> if GetGroup m guid \<noteq> gguid2 then SetupGroupMember guid gguid2 m else m)))"

definition OnAddMember :: "LfgWorld \<Rightarrow> uint64 \<Rightarrow> uint64 \<Rightarrow> uint64 \<Rightarrow> lfg_act" where
  "OnAddMember w gguid leader guid = if_enabled (act_seq
     [(if leader = guid then act_change (SetLeader gguid guid)
       else act_read (\<lambda>m.
         let gstate = GetState m gguid; state = GetState m guid in
         act_then (act_if (state = LFG_STATE_QUEUED) (LeaveLfg w guid)) (act_if (gstate = LFG_STATE_QUEUED) (LeaveLfg w gguid)))),
      act_change (SetGroup guid gguid),
      act_change (AddPlayerToGroup gguid guid)])"

text \<open>\<open>inDungeon\<close>: the removed player is in the world, and whether he is on a dungeon map.\<close>

definition OnRemoveMember :: "LfgWorld \<Rightarrow> uint64 \<Rightarrow> bool \<Rightarrow> uint64 \<Rightarrow> RemoveMethod \<Rightarrow> uint64 \<Rightarrow> string \<Rightarrow> bool option \<Rightarrow> lfg_act" where
  "OnRemoveMember w gguid isLFG guid method kicker reason inDungeon = if_enabled (
     if isLFG \<and> method = GROUP_REMOVEMETHOD_KICK then InitBoot w gguid kicker guid reason
     else act_read (\<lambda>m.
       let state = GetState m gguid in
       if state = LFG_STATE_PROPOSAL \<and> method = GROUP_REMOVEMETHOD_DEFAULT
       then act_change (\<lambda>m. snd (RemovePlayerFromGroup gguid guid (SetGroup guid 0 m)))
       else act_seq
         [LeaveLfg w guid,
          act_change (SetGroup guid 0),
          act_read (\<lambda>m.
            let players = fst (RemovePlayerFromGroup gguid guid m) in
            act_then (act_change (\<lambda>m. snd (RemovePlayerFromGroup gguid guid m)))
              (case inDungeon of
                 None \<Rightarrow> act_seq []
               | Some dungeonMap \<Rightarrow> act_send (\<lambda>_.
                   (if method = GROUP_REMOVEMETHOD_LEAVE \<and> state = LFG_STATE_DUNGEON \<and> unat players \<ge> LFG_GROUP_KICK_VOTES_NEEDED
                    then [CastSpell guid LFG_SPELL_DUNGEON_DESERTER] else []) @
                   [UpdateParty guid (update_data LFG_UPDATETYPE_LEADER_UNK1)] @
                   (if isLFG \<and> dungeonMap then [CallTeleportPlayer guid True] else [])))),
          act_if (isLFG \<and> state \<noteq> LFG_STATE_FINISHED_DUNGEON)
            (act_read (\<lambda>m. to_player w (GetLeader m gguid) (OfferContinue (GetLeader m gguid) (GetDungeon m gguid False))))]))"

definition OnDisband :: "LfgWorld \<Rightarrow> uint64 \<Rightarrow> lfg_act" where
  "OnDisband w gguid = if_enabled (RemoveGroupData w gguid)"

definition OnChangeLeader :: "uint64 \<Rightarrow> uint64 \<Rightarrow> lfg_act" where
  "OnChangeLeader gguid newLeaderGuid = if_enabled (act_change (SetLeader gguid newLeaderGuid))"

definition OnInviteMember :: "LfgWorld \<Rightarrow> uint64 \<Rightarrow> uint64 \<Rightarrow> lfg_act" where
  "OnInviteMember w gguid leader = if_enabled (act_if (leader \<noteq> 0 \<and> gguid = 0) (LeaveLfg w leader))"

definition MgrDumpQueueInfo :: "LfgWorld \<Rightarrow> bool \<Rightarrow> LFGMgr \<Rightarrow> string" where
  "MgrDumpQueueInfo w full m =
     ''Number of Queues: '' @ show_nat (length (QueuesStore m)) @ [CHR 0x0A] @
     concat (map (\<lambda>(_, q). DumpQueueInfo (queue_env w m) q @ DumpCompatibleInfo full q) (QueuesStore m))"

section \<open>Teleporting\<close>

text \<open>The player who is teleported: his group with the maps and positions of its members in their order, and what the
  function asks of him; \<open>tv_teleports\<close> is the answer of \<open>TeleportTo\<close>.\<close>

record LfgTraveller =
  tv_guid :: uint64
  tv_group :: "uint64 option"
  tv_isLFG :: bool
  tv_members :: "(uint64 \<times> uint32 \<times> float32 \<times> float32 \<times> float32 \<times> float32) option list"
  tv_mapId :: uint32
  tv_alive :: bool
  tv_falling :: bool
  tv_fatigue :: bool
  tv_vehicle :: bool
  tv_charming :: bool
  tv_inDungeon :: bool
  tv_inFlight :: bool
  tv_teleports :: bool

text \<open>The loop stops as soon as the map is not 0, which it is from the start unless the dungeon is on map 0.\<close>

fun find_inside :: "uint64 \<Rightarrow> uint32 \<Rightarrow> (uint64 \<times> uint32 \<times> float32 \<times> float32 \<times> float32 \<times> float32) option list \<Rightarrow>
    uint32 \<times> float32 \<times> float32 \<times> float32 \<times> float32 \<Rightarrow> uint32 \<times> float32 \<times> float32 \<times> float32 \<times> float32" where
  "find_inside guid dmap [] pos = pos"
| "find_inside guid dmap (mem # ms) pos =
     (if fst pos \<noteq> 0 then pos
      else case mem of
        Some (plrg, mapid, xyzo) \<Rightarrow> if plrg \<noteq> guid \<and> mapid = dmap then (mapid, xyzo) else find_inside guid dmap ms pos
      | None \<Rightarrow> find_inside guid dmap ms pos)"

definition teleport_in :: "LfgTraveller \<Rightarrow> LFGDungeonData \<Rightarrow> bool \<Rightarrow> LfgTeleportError \<times> lfg_effect list" where
  "teleport_in t dungeon fromOpcode =
     (if \<not> tv_alive t then (LFG_TELEPORTERROR_PLAYER_DEAD, [])
      else if tv_falling t then (LFG_TELEPORTERROR_FALLING, [])
      else if tv_fatigue t then (LFG_TELEPORTERROR_FATIGUE, [])
      else if tv_vehicle t then (LFG_TELEPORTERROR_IN_VEHICLE, [])
      else if tv_charming t then (LFG_TELEPORTERROR_CHARMING, [])
      else if tv_mapId t \<noteq> ucast (ld_map dungeon)
      then let pos = (ucast (ld_map dungeon), ld_x dungeon, ld_y dungeon, ld_z dungeon, ld_o dungeon);
               (mapid, x, y, z, ori) = (if fromOpcode then pos else find_inside (tv_guid t) (ucast (ld_map dungeon)) (tv_members t) pos) in
           (if tv_teleports t then LFG_TELEPORTERROR_OK else LFG_TELEPORTERROR_INVALID_LOCATION,
            (if \<not> tv_inDungeon t then [SetBattlegroundEntryPoint (tv_guid t)] else []) @
            (if tv_inFlight t then [MovementExpired (tv_guid t), CleanupAfterTaxiFlight (tv_guid t)] else []) @
            [TeleportTo (tv_guid t) mapid x y z ori])
      else (LFG_TELEPORTERROR_INVALID_LOCATION, []))"

definition TeleportPlayer :: "LfgTraveller \<Rightarrow> bool \<Rightarrow> bool \<Rightarrow> LFGMgr \<Rightarrow> lfg_effect list" where
  "TeleportPlayer t out fromOpcode m =
     (case (case tv_group t of Some gguid \<Rightarrow> if tv_isLFG t then GetLFGDungeon m (GetDungeon m gguid True) else None | None \<Rightarrow> None) of
        None \<Rightarrow> [TeleportError (tv_guid t) LFG_TELEPORTERROR_INVALID_LOCATION]
      | Some dungeon \<Rightarrow>
          if out then (if tv_mapId t = ucast (ld_map dungeon) then [TeleportToBGEntryPoint (tv_guid t)] else [])
          else let (error, effects) = teleport_in t dungeon fromOpcode in
            effects @ (if error \<noteq> LFG_TELEPORTERROR_OK then [TeleportError (tv_guid t) error] else []))"

abbreviation LFG_SPELL_LUCK_OF_THE_DRAW :: uint32 where "LFG_SPELL_LUCK_OF_THE_DRAW \<equiv> 72221"

text \<open>A player on a new map: its identifier and difficulty, and his group with its members in the world.\<close>

definition OnMapChanged :: "LfgWorld \<Rightarrow> uint64 \<Rightarrow> uint32 \<Rightarrow> uint8 \<Rightarrow> (uint64 \<times> uint32 \<times> uint64 list) option \<Rightarrow> lfg_act" where
  "OnMapChanged w guid map_id difficulty grp =
     act_read (\<lambda>m.
       if inLfgDungeonMap m guid map_id difficulty
       then case grp of
              None \<Rightarrow> act_then (LeaveLfg w guid) (act_send (\<lambda>_. [RemoveAuras guid LFG_SPELL_LUCK_OF_THE_DRAW, TeleportHome guid]))
            | Some (_, _, members) \<Rightarrow> act_send (\<lambda>m. map (NameQuery guid) members @
                (if selectedRandomLfgDungeon m guid then [CastSpell guid LFG_SPELL_LUCK_OF_THE_DRAW] else []))
       else act_then
         (case grp of
            Some (gguid, count, _) \<Rightarrow> act_if (count = 1) (act_then (LeaveLfg w gguid) (act_send (\<lambda>_. [GroupDisband gguid])))
          | None \<Rightarrow> act_seq [])
         (act_send (\<lambda>_. [RemoveAuras guid LFG_SPELL_LUCK_OF_THE_DRAW])))"

section \<open>Finishing a dungeon\<close>

text \<open>A player on the map that was finished: his map, his level, which quests exist and which he can be rewarded for.\<close>

record LfgFinish =
  lf_onMap :: "uint64 \<Rightarrow> bool"
  lf_mapId :: "uint64 \<Rightarrow> uint32"
  lf_level :: "uint64 \<Rightarrow> uint8"
  lf_quest :: "uint32 \<Rightarrow> bool"
  lf_canReward :: "uint64 \<Rightarrow> uint32 \<Rightarrow> bool"

abbreviation DUNGEON_DIFFICULTY_HEROIC :: uint8 where "DUNGEON_DIFFICULTY_HEROIC \<equiv> 1"

definition give_reward :: "LfgFinish \<Rightarrow> LFGMgr \<Rightarrow> uint64 \<Rightarrow> uint32 \<Rightarrow> LFGDungeonData \<Rightarrow> uint64 \<Rightarrow> lfg_effect list" where
  "give_reward fin m gguid rDungeonId dungeon guid =
     (if ld_difficulty dungeon = DUNGEON_DIFFICULTY_HEROIC then [UseLfdCriteria guid] else []) @
     (case GetRandomDungeonReward m rDungeonId (lf_level fin guid) of
        None \<Rightarrow> []
      | Some reward \<Rightarrow>
          if \<not> lf_quest fin (rw_firstQuest reward) then []
          else let done = (\<not> lf_canReward fin guid (rw_firstQuest reward));
                   quest = (if done then rw_otherQuest reward else rw_firstQuest reward) in
            if \<not> lf_quest fin quest then []
            else [RewardQuest guid quest, PlayerReward guid (Entry dungeon) (GetDungeon m gguid False) done quest])"

definition finish_player :: "LfgFinish \<Rightarrow> uint64 \<Rightarrow> uint32 \<Rightarrow> uint64 \<Rightarrow> lfg_act" where
  "finish_player fin gguid dungeonId guid =
     act_read (\<lambda>m. act_if (GetState m guid \<noteq> LFG_STATE_FINISHED_DUNGEON)
       (let rDungeonId = (case GetSelectedDungeons m guid of [] \<Rightarrow> 0 | d # _ \<Rightarrow> d) in
        act_then (act_change (SetState guid LFG_STATE_FINISHED_DUNGEON))
          (act_send (\<lambda>m.
             case GetLFGDungeon m rDungeonId of
               None \<Rightarrow> []
             | Some dungeon \<Rightarrow>
                 if ld_type dungeon \<noteq> LFG_TYPE_RANDOM \<and> \<not> ld_seasonal dungeon then []
                 else if \<not> lf_onMap fin guid then []
                 else if lf_mapId fin guid \<noteq> (case GetLFGDungeon m dungeonId of Some d \<Rightarrow> ucast (ld_map d) | None \<Rightarrow> 0) then []
                 else give_reward fin m gguid rDungeonId dungeon guid))))"

definition FinishDungeon :: "LfgFinish \<Rightarrow> uint64 \<Rightarrow> uint32 \<Rightarrow> lfg_act" where
  "FinishDungeon fin gguid dungeonId =
     act_read (\<lambda>m. act_if (GetDungeon m gguid True = dungeonId \<and> GetState m gguid \<noteq> LFG_STATE_FINISHED_DUNGEON)
       (act_then (act_change (SetState gguid LFG_STATE_FINISHED_DUNGEON))
          (act_each (finish_player fin gguid dungeonId) (GetPlayers m gguid))))"

end
