(* ===== verification/LFGMgrInv.thy ===== *)
theory LFGMgrInv
  imports LFGMgr
begin

text \<open>
  Invariants of the dungeon finder's manager over all sequences of its operations: which states can be
  restored, and that the queues, role checks and proposals are as the search of \<open>LFGSearch\<close> relies on.
\<close>

section \<open>Packets\<close>

lemma keeps_to_player [keeps_intros]: "keeps I (to_player w g e)"
  by (simp add: to_player_def keeps_send)

lemmas packets = SendLfgRoleChosen_def SendLfgRoleCheckUpdate_def SendLfgUpdatePlayer_def SendLfgUpdateParty_def SendLfgJoinResult_def
  SendLfgBootProposalUpdate_def SendLfgUpdateProposal_def SendLfgQueueStatus_def

lemma keeps_packets [keeps_intros]:
  "keeps I (SendLfgRoleChosen w g p r)" "keeps I (SendLfgRoleCheckUpdate w g rc)" "keeps I (SendLfgUpdatePlayer w g d)"
  "keeps I (SendLfgUpdateParty w g d)" "keeps I (SendLfgJoinResult w g j)" "keeps I (SendLfgBootProposalUpdate w g b)"
  "keeps I (SendLfgUpdateProposal w g q)" "keeps I (SendLfgQueueStatus w g s)"
  by (simp_all add: packets keeps_to_player)

section \<open>The operations\<close>

text \<open>What the world calls: packets of players, the periodic update, loading, and the hooks of the group system.\<close>

datatype lfg_hook =
    HookLogout uint64 bool
  | HookLogin uint64 "uint64 option" uint8
  | HookAdd uint64 uint64 uint64
  | HookRemove uint64 bool uint64 RemoveMethod uint64 string "bool option"
  | HookDisband uint64
  | HookLeader uint64 uint64
  | HookInvite uint64 uint64
  | HookForming uint64
  | HookMap uint64 uint32 uint8 "(uint64 \<times> uint32 \<times> uint64 list) option"

datatype lfg_op =
    OpJoin LfgPlayer "LfgGroup option" uint8 LfgDungeonSet string
  | OpLeave uint64
  | OpRole uint64 uint64 uint8
  | OpAnswer uint32 uint64 bool
  | OpVote uint64 bool
  | OpUpdate uint32
  | OpFinish LfgFinish uint64 uint32
  | OpLoad uint64 "(uint32 \<times> uint32 \<times> uint8) option"
  | OpSetup uint64 uint64
  | OpOptions uint32
  | OpComment uint64 string
  | OpClean
  | OpHook lfg_hook
  | OpDungeons bool "LFGDungeonEntry list" "(uint32 \<times> float32 \<times> float32 \<times> float32 \<times> float32) list" "uint16 \<Rightarrow> AreaTrigger option"
  | OpRewards "uint32 \<Rightarrow> bool" uint32 "(uint32 \<times> uint8 \<times> uint32 \<times> uint32) list"

fun lfg_hook_act :: "LfgWorld \<Rightarrow> lfg_hook \<Rightarrow> lfg_act" where
  "lfg_hook_act w (HookLogout guid inGroup) = OnLogout w guid inGroup"
| "lfg_hook_act w (HookLogin guid grp team) = OnLogin w guid grp team"
| "lfg_hook_act w (HookAdd gguid leader guid) = OnAddMember w gguid leader guid"
| "lfg_hook_act w (HookRemove gguid isLFG guid method kicker reason inDungeon) = OnRemoveMember w gguid isLFG guid method kicker reason inDungeon"
| "lfg_hook_act w (HookDisband gguid) = OnDisband w gguid"
| "lfg_hook_act w (HookLeader gguid leader) = OnChangeLeader gguid leader"
| "lfg_hook_act w (HookInvite gguid leader) = OnInviteMember w gguid leader"
| "lfg_hook_act w (HookForming gguid) = act_change (SetState gguid LFG_STATE_PROPOSAL)"
| "lfg_hook_act w (HookMap guid map_id difficulty grp) = OnMapChanged w guid map_id difficulty grp"

fun lfg_op_act :: "LfgWorld \<Rightarrow> LfgGroupSystem \<Rightarrow> lfg_op \<Rightarrow> lfg_act" where
  "lfg_op_act w gs (OpJoin player grp roles dungeons comment) = JoinLfg w player grp roles dungeons comment"
| "lfg_op_act w gs (OpLeave guid) = LeaveLfg w guid"
| "lfg_op_act w gs (OpRole gguid guid roles) = UpdateRoleCheck w gguid guid roles"
| "lfg_op_act w gs (OpAnswer n guid accept) = UpdateProposal w gs n guid accept"
| "lfg_op_act w gs (OpVote guid accept) = UpdateBoot w gs guid accept"
| "lfg_op_act w gs (OpUpdate diff) = Update w gs diff"
| "lfg_op_act w gs (OpFinish fin gguid dungeonId) = FinishDungeon fin gguid dungeonId"
| "lfg_op_act w gs (OpLoad guid row) = act_change (LoadFromDB guid row)"
| "lfg_op_act w gs (OpSetup guid gguid) = act_change (SetupGroupMember guid gguid)"
| "lfg_op_act w gs (OpOptions options) = act_change (SetOptions options)"
| "lfg_op_act w gs (OpComment guid comment) = act_change (SetComment guid comment)"
| "lfg_op_act w gs OpClean = act_change Clean"
| "lfg_op_act w gs (OpHook h) = lfg_hook_act w h"
| "lfg_op_act w gs (OpDungeons reload dbc entrances trigger) = act_change (LoadLFGDungeons reload dbc entrances trigger)"
| "lfg_op_act w gs (OpRewards quest maxPlayerLevel rows) = act_change (LoadRewards quest maxPlayerLevel rows)"

text \<open>The group system changes the manager through the hooks only, and by marking a new group while it is formed.\<close>

inductive hook_run :: "LfgWorld \<Rightarrow> LFGMgr \<Rightarrow> LFGMgr \<Rightarrow> bool" for w where
  hook_nil: "hook_run w m m"
| hook_step: "lfg_hook_act w h m = Some (m', e) \<Longrightarrow> hook_run w m' m'' \<Longrightarrow> hook_run w m m''"

definition hooks_only :: "LfgWorld \<Rightarrow> LfgGroupSystem \<Rightarrow> bool" where
  "hooks_only w gs \<longleftrightarrow>
     (\<forall>p players m gguid m' e. gs_form gs p players m = Some (gguid, m', e) \<longrightarrow> hook_run w m m') \<and>
     (\<forall>gguid guid m m' e. gs_kick gs gguid guid m = Some (m', e) \<longrightarrow> hook_run w m m')"

lemma hook_run_keeps: "hook_run w m m' \<Longrightarrow> (\<And>h. keeps I (lfg_hook_act w h)) \<Longrightarrow> I m \<Longrightarrow> I m'"
  by (induction rule: hook_run.induct) (auto dest: keeps_step)

section \<open>The players of a proposal and their entries\<close>

definition solo_ok :: "LFGQueue \<Rightarrow> bool" where
  "solo_ok q \<longleftrightarrow> (\<forall>g d. om_get (QueueDataStore q) g = Some d \<longrightarrow> \<not> IS_GROUP_GUID g \<longrightarrow> om_keys (qd_roles d) = [g])"

lemma solo_ok_skel:
  assumes "solo_ok q" "skel q' = skel q"
  shows "solo_ok q'"
  unfolding solo_ok_def
proof (intro allI impI)
  fix g d
  assume d: "om_get (QueueDataStore q') g = Some d" and g: "\<not> IS_GROUP_GUID g"
  then have "skel q g = Some (qd_dungeons d, qd_roles d)"
    using fun_cong [OF assms(2), of g] by (simp add: skel_def)
  then obtain d' where "om_get (QueueDataStore q) g = Some d'" "qd_roles d' = qd_roles d"
    by (auto simp: skel_def)
  then show "om_keys (qd_roles d) = [g]"
    using assms(1) g unfolding solo_ok_def by metis
qed

lemma fold_put_groups: "om_get (fold (\<lambda>p. om_put p x) ps m) k = (if k \<in> set ps then Some x else om_get m k)"
  by (induction ps arbitrary: m) (auto simp: om_get_put)

lemma count_loop_groups:
  assumes "count_loop env q gs (np, nl, grp, groups) = Inr (np', nl', grp', groups')" "np' \<le> 5" "nl' \<le> 1"
  shows "p \<in> fst ` set (all_players q gs) \<Longrightarrow>
      \<exists>g \<in> set gs. p \<in> set (om_keys (qd_roles (queue_data q g))) \<and> om_get groups' p = Some (if IS_GROUP_GUID g then g else 0)"
    and "p \<notin> fst ` set (all_players q gs) \<Longrightarrow> om_get groups' p = om_get groups p"
proof -
  have "(p \<in> fst ` set (all_players q gs) \<longrightarrow>
      (\<exists>g \<in> set gs. p \<in> set (om_keys (qd_roles (queue_data q g))) \<and> om_get groups' p = Some (if IS_GROUP_GUID g then g else 0))) \<and>
    (p \<notin> fst ` set (all_players q gs) \<longrightarrow> om_get groups' p = om_get groups p)"
    using assms(1)
  proof (induction gs arbitrary: np nl grp groups)
    case (Cons g gs)
    have "nl' < 2" using assms(3) by (simp add: word_less_nat_alt word_le_nat_alt)
    then have go: "nl < 2 \<and> np \<le> 5" using Cons.prems assms(2) by (auto split: if_splits)
    with Cons.prems obtain d where d: "om_get (QueueDataStore q) g = Some d" by (auto split: option.splits)
    let ?groups = "fold (\<lambda>p. om_put p (if IS_GROUP_GUID g then g else 0)) (om_keys (qd_roles d)) groups"
    obtain np1 nl1 grp1 where "count_loop env q gs (np1, nl1, grp1, ?groups) = Inr (np', nl', grp', groups')"
      using Cons.prems go d by (auto simp: Let_def split: if_splits)
    note ih = Cons.IH [OF this]
    have "fst ` set (all_players q (g # gs)) = set (om_keys (qd_roles d)) \<union> fst ` set (all_players q gs)"
      by (simp add: all_players_def queue_data_def d om_keys_def image_Un)
    moreover have "queue_data q g = d" by (simp add: queue_data_def d)
    ultimately show ?case
      using ih by (auto simp: fold_put_groups)
  qed (simp add: all_players_def)
  then show "p \<in> fst ` set (all_players q gs) \<Longrightarrow>
      \<exists>g \<in> set gs. p \<in> set (om_keys (qd_roles (queue_data q g))) \<and> om_get groups' p = Some (if IS_GROUP_GUID g then g else 0)"
    "p \<notin> fst ` set (all_players q gs) \<Longrightarrow> om_get groups' p = om_get groups p" by blast+
qed

lemma group_guid_nonzero: "IS_GROUP_GUID g \<Longrightarrow> g \<noteq> 0"
  by (auto simp: IS_GROUP_GUID_def GUID_HIPART_def)

definition prop_ok :: "LfgProposal \<Rightarrow> bool" where
  "prop_ok p \<longleftrightarrow> lp_players p \<noteq> [] \<and> om_ok (lp_players p) \<and> (\<forall>x \<in> set (lp_players p). proposal_entry x \<in> set (lp_queues p))"

lemma create_proposal_shape:
  assumes "create_proposal env check nl grp groups roles dungeons n = Some (p, n')"
  obtains p0 where "lp_state p0 = LFG_PROPOSAL_INITIATING" "lp_queues p0 = check"
    "p = p0\<lparr>lp_players := fold (\<lambda>(guid, role). om_put guid (proposal_player p0 groups guid role)) roles []\<rparr>"
proof -
  obtain l leader m where fold: "fold (\<lambda>(g, r). choose_leader env g r) roles (False, 0, n + 1) = (l, leader, m)"
    by (cases "fold (\<lambda>(g, r). choose_leader env g r) roles (False, 0, n + 1)")
  define p0 where "p0 = (LfgProposal_new (dungeons ! unat (le_urand env n 0 (of_nat (length dungeons) - 1))))\<lparr>lp_group := grp,
    lp_queues := check, lp_isNew := (nl \<noteq> 1 \<or> le_OldState env (hd check) \<noteq> LFG_STATE_DUNGEON),
    lp_cancelTime := le_now env + LFG_TIME_PROPOSAL, lp_leader := leader\<rparr>"
  have "p = p0\<lparr>lp_players := fold (\<lambda>(guid, role). om_put guid (proposal_player p0 groups guid role)) roles []\<rparr>"
    using assms unfolding create_proposal_def Let_def fold p0_def by (auto split: if_splits)
  moreover have "lp_state p0 = LFG_PROPOSAL_INITIATING" "lp_queues p0 = check"
    by (simp_all add: p0_def LfgProposal_new_def)
  ultimately show ?thesis using that by blast
qed

lemma om_put_subset: "set (om_put k v m) \<subseteq> insert (k, v) (set m)"
  by (induction k v m rule: om_put.induct) auto

lemma fold_put_values:
  "x \<in> set (fold (\<lambda>(k, r). om_put k (f k r)) rs m) \<Longrightarrow> x \<in> set m \<or> (\<exists>r. snd x = f (fst x) r)"
proof (induction rs arbitrary: m)
  case (Cons y rs)
  then have "x \<in> set (om_put (fst y) (f (fst y) (snd y)) m) \<or> (\<exists>r. snd x = f (fst x) r)"
    by (simp add: case_prod_beta)
  moreover have "x = (fst y, f (fst y) (snd y)) \<Longrightarrow> snd x = f (fst x) (snd y)" by simp
  ultimately show ?case using om_put_subset [of "fst y" "f (fst y) (snd y)" m] by blast
qed simp

lemma matched_prop_ok:
  assumes m: "matched env q check p n n'" and ok: "store_ok (QueueDataStore q)" "solo_ok q" and ne: "check \<noteq> []"
  shows "prop_ok p"
proof -
  obtain nl grp groups roles dungeons where c: "count_loop env q check (0, 0, 0, []) = Inr (5, nl, grp, groups)" "nl \<le> 1"
    "merge_groups env q check 5 = Inr (roles, dungeons)" "create_proposal env check nl grp groups roles dungeons n = Some (p, n')"
    using m by (auto simp: matched_def)
  from create_proposal_shape [OF c(4)] obtain p0 where p0: "lp_state p0 = LFG_PROPOSAL_INITIATING" "lp_queues p0 = check"
    "p = p0\<lparr>lp_players := fold (\<lambda>(guid, role). om_put guid (proposal_player p0 groups guid role)) roles []\<rparr>" .
  then have p: "lp_state p = LFG_PROPOSAL_INITIATING" "lp_queues p = check"
    "lp_players p = fold (\<lambda>(guid, role). om_put guid (proposal_player p0 groups guid role)) roles []" by simp_all
  have valid: "om_ok (lp_players p)" "set (om_keys (lp_players p)) = fst ` queued_players q p" "players_in PLAYER_ROLE_TANK p = 1"
    using matched_valid [OF m ok(1) ne] by (simp_all add: proposal_valid_def)
  have found: "om_get (QueueDataStore q) g \<noteq> None" if "g \<in> set check" for g
    using count_merged [OF c(1-3) ok(1) ne] that by blast
  have "proposal_entry (g, d) \<in> set check" if x: "(g, d) \<in> set (lp_players p)" for g d
  proof -
    have "g \<in> set (om_keys (lp_players p))"
      using image_eqI [OF _ x, of g fst] by (simp add: om_keys_def)
    then have "g \<in> fst ` set (all_players q check)"
      by (simp add: valid(2) queued_players_def p(2) all_players_def)
    from count_loop_groups(1) [OF c(1) _ c(2) this] obtain h where h: "h \<in> set check" "g \<in> set (om_keys (qd_roles (queue_data q h)))"
      "om_get groups g = Some (if IS_GROUP_GUID h then h else 0)" by auto
    from fold_put_values [OF x [unfolded p(3)]] have "\<exists>r. d = proposal_player p0 groups g r" by simp
    then have d: "pp_group d = (if IS_GROUP_GUID h then h else 0)" by (auto simp: proposal_player_def Let_def h(3))
    show ?thesis
    proof (cases "IS_GROUP_GUID h")
      case True
      then show ?thesis using d h(1) group_guid_nonzero by (simp add: proposal_entry_def)
    next
      case False
      then have "g = h"
        using h(2) ok(2) found [OF h(1)] by (auto simp: solo_ok_def queue_data_def)
      then show ?thesis using d False h(1) by (simp add: proposal_entry_def)
    qed
  qed
  moreover have "lp_players p \<noteq> []" using valid(3) by (auto simp: players_in_def)
  ultimately show ?thesis using valid(1) p by (auto simp: prop_ok_def)
qed

section \<open>The invariant\<close>

text \<open>The states that can be restored, and that a restorable state is its own restore point.\<close>

definition restorable :: "LfgState \<Rightarrow> bool" where
  "restorable s \<longleftrightarrow> s = LFG_STATE_NONE \<or> s = LFG_STATE_DUNGEON \<or> s = LFG_STATE_FINISHED_DUNGEON"

definition states_ok :: "LfgState \<Rightarrow> LfgState \<Rightarrow> bool" where
  "states_ok old s \<longleftrightarrow> restorable old \<and> (restorable s \<longrightarrow> old = s)"

definition players_ok :: "(uint64 \<Rightarrow> LfgPlayerData) \<Rightarrow> bool" where
  "players_ok ps \<longleftrightarrow> (\<forall>g. states_ok (pd_OldState (ps g)) (pd_State (ps g)))"

definition groups_ok :: "(uint64 \<Rightarrow> LfgGroupData) \<Rightarrow> bool" where
  "groups_ok gs \<longleftrightarrow> (\<forall>g. states_ok (gd_OldState (gs g)) (gd_State (gs g)))"

text \<open>A queue in which only the entries \<open>X\<close> may be out of order.\<close>

definition queue_ok :: "uint64 set \<Rightarrow> LFGQueue \<Rightarrow> bool" where
  "queue_ok X q \<longleftrightarrow> om_ok (QueueDataStore q) \<and>
     (\<forall>g d. om_get (QueueDataStore q) g = Some d \<longrightarrow> g \<notin> X \<longrightarrow> entry_ok d \<and> (\<not> IS_GROUP_GUID g \<longrightarrow> om_keys (qd_roles d) = [g]))"

definition check_ok :: "uint64 \<Rightarrow> LfgRoleCheck \<Rightarrow> bool" where
  "check_ok g rc \<longleftrightarrow> IS_GROUP_GUID g \<and> om_ok (rc_roles rc) \<and> length (rc_roles rc) \<le> 40 \<and> os_ok (rc_dungeons rc) \<and> rc_dungeons rc \<noteq> [] \<and>
     rc_state rc = LFG_ROLECHECK_INITIALITING"

definition queues_ok :: "(uint8 \<Rightarrow> uint64 set) \<Rightarrow> (uint8, LFGQueue) omap \<Rightarrow> bool" where
  "queues_ok X qs \<longleftrightarrow> om_ok qs \<and> (\<forall>x \<in> set qs. queue_ok (X (fst x)) (snd x))"

definition checks_ok :: "uint64 set \<Rightarrow> (uint64, LfgRoleCheck) omap \<Rightarrow> bool" where
  "checks_ok R rcs \<longleftrightarrow> om_ok rcs \<and> (\<forall>x \<in> set rcs. fst x \<notin> R \<longrightarrow> check_ok (fst x) (snd x))"

definition proposals_ok :: "(uint32, LfgProposal) omap \<Rightarrow> bool" where
  "proposals_ok ps \<longleftrightarrow> (\<forall>x \<in> set ps. prop_ok (snd x))"

definition cached_ok :: "(uint8, LfgDungeonSet) omap \<Rightarrow> bool" where
  "cached_ok cs \<longleftrightarrow> (\<forall>x \<in> set cs. os_ok (snd x))"

definition mgr_ok_but :: "(uint8 \<Rightarrow> uint64 set) \<Rightarrow> uint64 set \<Rightarrow> LFGMgr \<Rightarrow> bool" where
  "mgr_ok_but X R m \<longleftrightarrow> players_ok (PlayersStore m) \<and> groups_ok (GroupsStore m) \<and> queues_ok X (QueuesStore m) \<and>
     checks_ok R (RoleChecksStore m) \<and> proposals_ok (ProposalsStore m) \<and> cached_ok (CachedDungeonMapStore m)"

definition mgr_ok :: "LFGMgr \<Rightarrow> bool" where
  "mgr_ok = mgr_ok_but (\<lambda>_. {}) {}"

lemma mgr_ok_new: "mgr_ok (LFGMgr_new options)"
  by (simp add: mgr_ok_def mgr_ok_but_def LFGMgr_new_def players_ok_def groups_ok_def queues_ok_def checks_ok_def proposals_ok_def
      cached_ok_def states_ok_def restorable_def LfgPlayerData_new_def LfgGroupData_new_def)

section \<open>Changing one part of the manager\<close>

text \<open>Data of players and groups.\<close>

lemma states_ok_set: "states_ok old s \<Longrightarrow> states_ok (if restorable t then t else old) t"
  by (simp add: states_ok_def)

lemma states_ok_restore: "states_ok old s \<Longrightarrow> states_ok old old"
  by (simp add: states_ok_def)

definition keeps_player :: "(LfgPlayerData \<Rightarrow> LfgPlayerData) \<Rightarrow> bool" where
  "keeps_player f \<longleftrightarrow> (\<forall>d. states_ok (pd_OldState d) (pd_State d) \<longrightarrow> states_ok (pd_OldState (f d)) (pd_State (f d)))"

definition keeps_group :: "(LfgGroupData \<Rightarrow> LfgGroupData) \<Rightarrow> bool" where
  "keeps_group f \<longleftrightarrow> (\<forall>d. states_ok (gd_OldState d) (gd_State d) \<longrightarrow> states_ok (gd_OldState (f d)) (gd_State (f d)))"

lemma on_player_ok: "keeps_player f \<Longrightarrow> mgr_ok_but X R m \<Longrightarrow> mgr_ok_but X R (on_player g f m)"
  by (simp add: mgr_ok_but_def on_player_def players_ok_def keeps_player_def)

lemma on_group_ok: "keeps_group f \<Longrightarrow> mgr_ok_but X R m \<Longrightarrow> mgr_ok_but X R (on_group g f m)"
  by (simp add: mgr_ok_but_def on_group_def groups_ok_def keeps_group_def)

lemma keeps_player_intros:
  "keeps_player (PD_SetState s)" "keeps_player PD_RestoreState" "keeps_player (PD_SetRoles r)" "keeps_player (PD_SetComment c)"
  "keeps_player (PD_SetSelectedDungeons ds)" "keeps_player (PD_SetTeam t)" "keeps_player (PD_SetGroup g)" "keeps_player (\<lambda>_. LfgPlayerData_new)"
  by (auto simp: keeps_player_def states_ok_def restorable_def PD_SetState_def PD_RestoreState_def PD_SetRoles_def PD_SetComment_def
      PD_SetSelectedDungeons_def PD_SetTeam_def PD_SetGroup_def LfgPlayerData_new_def Let_def)

lemma keeps_group_intros:
  "keeps_group (GD_SetState s)" "keeps_group GD_RestoreState" "keeps_group (GD_SetDungeon d)" "keeps_group (GD_SetLeader l)"
  "keeps_group GD_DecreaseKicksLeft" "keeps_group (GD_AddPlayer g)" "keeps_group (\<lambda>_. LfgGroupData_new)"
  by (auto simp: keeps_group_def states_ok_def restorable_def GD_SetState_def GD_RestoreState_def GD_SetDungeon_def GD_SetLeader_def
      GD_DecreaseKicksLeft_def GD_AddPlayer_def LfgGroupData_new_def Let_def)

named_theorems ok_intros \<open>changes that keep the invariant of the manager\<close>

lemma data_ok [ok_intros]:
  assumes "mgr_ok_but X R m"
  shows "mgr_ok_but X R (SetState g s m)" "mgr_ok_but X R (RestoreState g m)" "mgr_ok_but X R (SetRoles g r m)"
    "mgr_ok_but X R (SetComment g c m)" "mgr_ok_but X R (SetSelectedDungeons g ds m)" "mgr_ok_but X R (SetTeam w g t m)"
    "mgr_ok_but X R (SetGroup g gg m)" "mgr_ok_but X R (RemovePlayerData g m)"
    "mgr_ok_but X R (SetDungeon g d m)" "mgr_ok_but X R (SetLeader g l m)" "mgr_ok_but X R (DecreaseKicksLeft g m)"
    "mgr_ok_but X R (AddPlayerToGroup gg g m)" "mgr_ok_but X R (on_group g (\<lambda>_. LfgGroupData_new) m)"
  using assms
  by (simp_all add: SetState_def RestoreState_def SetRoles_def SetComment_def SetSelectedDungeons_def SetTeam_def SetGroup_def
      RemovePlayerData_def SetDungeon_def SetLeader_def DecreaseKicksLeft_def AddPlayerToGroup_def
      on_player_ok on_group_ok keeps_player_intros keeps_group_intros)

lemma RemovePlayerFromGroup_ok [ok_intros]: "mgr_ok_but X R m \<Longrightarrow> mgr_ok_but X R (snd (RemovePlayerFromGroup gg g m))"
  by (simp add: RemovePlayerFromGroup_def GD_RemovePlayer_def Let_def mgr_ok_but_def on_group_def groups_ok_def)

lemma SetupGroupMember_ok [ok_intros]: "mgr_ok_but X R m \<Longrightarrow> mgr_ok_but X R (SetupGroupMember g gg m)"
  by (simp add: SetupGroupMember_def Let_def ok_intros)

lemma LoadFromDB_ok [ok_intros]: "mgr_ok_but X R m \<Longrightarrow> mgr_ok_but X R (LoadFromDB g row m)"
  by (simp add: LoadFromDB_def Let_def ok_intros split: option.split prod.split)

text \<open>Queues.\<close>

lemma queue_ok_all: "queue_ok {} q \<longleftrightarrow> store_ok (QueueDataStore q) \<and> solo_ok q"
  unfolding queue_ok_def store_ok_def solo_ok_def by auto

lemma queue_ok_skel:
  assumes "queue_ok X q" "om_ok (QueueDataStore q')" "\<And>g. g \<notin> X \<Longrightarrow> skel q' g = skel q g \<or> skel q' g = None"
  shows "queue_ok X q'"
  unfolding queue_ok_def
proof (intro conjI allI impI)
  fix g d
  assume d: "om_get (QueueDataStore q') g = Some d" and g: "g \<notin> X"
  then have "skel q g = Some (qd_dungeons d, qd_roles d)"
    using assms(3) [OF g] by (auto simp: skel_def)
  then obtain d' where d': "om_get (QueueDataStore q) g = Some d'" "qd_roles d' = qd_roles d" "qd_dungeons d' = qd_dungeons d"
    by (auto simp: skel_def)
  with assms(1) g have "entry_ok d' \<and> (\<not> IS_GROUP_GUID g \<longrightarrow> om_keys (qd_roles d') = [g])"
    unfolding queue_ok_def by blast
  then show "entry_ok d" "\<not> IS_GROUP_GUID g \<Longrightarrow> om_keys (qd_roles d) = [g]"
    by (simp_all add: entry_ok_def d')
qed (rule assms(2))

lemma queue_new_ok: "queue_ok X LFGQueue_new"
  by (simp add: queue_ok_def LFGQueue_new_def)

lemma queue_at_ok: "mgr_ok_but X R m \<Longrightarrow> queue_ok (X i) (queue_at m i)"
  by (auto simp: queue_at_def mgr_ok_but_def queues_ok_def queue_new_ok split: option.split dest!: om_get_in_set)

lemma put_queue_ok [ok_intros]: "mgr_ok_but X R m \<Longrightarrow> queue_ok (X i) q \<Longrightarrow> mgr_ok_but X R (put_queue i q m)"
  using om_put_subset [of i q "QueuesStore m"] by (auto simp: put_queue_def mgr_ok_but_def queues_ok_def om_ok_put)

lemma at_queue_ok [ok_intros]:
  assumes "mgr_ok_but X R m" "\<And>q. queue_ok (X i) q \<Longrightarrow> queue_ok (X i) (f q)"
  shows "mgr_ok_but X R (at_queue i f m)"
  using put_queue_ok [OF assms(1)] assms(2) [OF queue_at_ok [OF assms(1)]] by (simp add: at_queue_def)

lemma queue_ok_sorted: "queue_ok X q \<Longrightarrow> om_ok (QueueDataStore q)"
  by (simp add: queue_ok_def)

lemma RemoveFromQueue_ok: "queue_ok X q \<Longrightarrow> queue_ok X (RemoveFromQueue g q)"
  using RemoveFromQueue_data [OF queue_ok_sorted, of X q g] queue_ok_skel [of X q "RemoveFromQueue g q"] by simp

lemma AddToQueue_ok: "queue_ok X q \<Longrightarrow> queue_ok X (AddToQueue g q)"
  by (simp add: queue_ok_def AddToQueue_def AddToNewQueue_def)

lemma fold_queue_ok: "(\<And>g q. queue_ok X q \<Longrightarrow> queue_ok X (f g q)) \<Longrightarrow> queue_ok X q \<Longrightarrow> queue_ok X (fold f gs q)"
  by (induction gs arbitrary: q) simp_all

lemma AddQueueData_ok:
  assumes "queue_ok X q" "entry_ok (LfgQueueData_init t ds rs)" "\<not> IS_GROUP_GUID g \<Longrightarrow> om_keys rs = [g]"
  shows "queue_ok X (AddQueueData g t ds rs q)"
  unfolding AddQueueData_def
  by (rule AddToQueue_ok) (use assms in \<open>auto simp: queue_ok_def om_get_put om_ok_put LfgQueueData_init_def\<close>)

lemma queue_ok_same: "QueueDataStore q' = QueueDataStore q \<Longrightarrow> queue_ok X q' = queue_ok X q"
  by (simp add: queue_ok_def)

lemma update_wait_ok:
  assumes "queue_ok X q" "update_wait role t d q = Some q'"
  shows "queue_ok X q'"
proof -
  have "QueueDataStore q' = QueueDataStore q"
    using assms(2)
    by (auto simp: update_wait_def UpdateWaitTimeAvg_def UpdateWaitTimeTank_def UpdateWaitTimeHealer_def UpdateWaitTimeDps_def split: if_splits)
  from queue_ok_same [OF this] assms(1) show ?thesis by blast
qed

text \<open>The timers change only the best combinations.\<close>

lemma timers_skel:
  "timers_loop t ds q = Some (q', sent) \<Longrightarrow> om_ok (QueueDataStore q) \<Longrightarrow>
   (\<And>g d. (g, d) \<in> set ds \<Longrightarrow> skel q g = Some (qd_dungeons d, qd_roles d)) \<Longrightarrow> om_ok (QueueDataStore q') \<and> skel q' = skel q"
proof (induction t ds q arbitrary: q' sent rule: timers_loop.induct)
  case (2 t g d ds q)
  from "2.prems"(1) obtain x xs where x: "qd_dungeons d = x # xs" by (auto split: list.splits)
  let ?q = "read_waits x q"
  let ?d = "if qd_bestCompatible d = [] then FindBestCompatibleInQueue (CompatibleMapStore ?q) g d else d"
  let ?q2 = "?q\<lparr>QueueDataStore := om_put g ?d (QueueDataStore ?q)\<rparr>"
  from "2.prems"(1) obtain sent' where run: "timers_loop t ds ?q2 = Some (q', sent')"
    by (auto simp: x Let_def)
  have "skel q g = Some (qd_dungeons d, qd_roles d)" using "2.prems"(3) by simp
  then have sk: "skel ?q2 = skel q"
    by (auto simp: skel_def fun_eq_iff om_get_put read_waits_def)
  moreover have "om_ok (QueueDataStore ?q2)" using "2.prems"(2) by (simp add: om_ok_put read_waits_def)
  moreover have "skel ?q2 h = Some (qd_dungeons e, qd_roles e)" if "(h, e) \<in> set ds" for h e
    unfolding sk using "2.prems"(3) that by simp
  ultimately show ?case using "2.IH" [OF x refl refl refl refl run] by simp
qed simp

lemma UpdateQueueTimers_ok:
  assumes "queue_ok X q" "UpdateQueueTimers t q = Some (q', sent)"
  shows "queue_ok X q'"
proof -
  have "om_ok (QueueDataStore q') \<and> skel q' = skel q"
    by (rule timers_skel [OF assms(2) [unfolded UpdateQueueTimers_def]])
      (use assms(1) in \<open>auto simp: queue_ok_def skel_def om_set_iff\<close>)
  then show ?thesis using queue_ok_skel [OF assms(1)] by simp
qed

text \<open>An entry that \<open>GetJoinTime\<close> creates is out of order until it is removed.\<close>

lemma GetJoinTime_ok: "queue_ok X q \<Longrightarrow> g \<in> X \<Longrightarrow> queue_ok X (snd (GetJoinTime t g q))"
  by (auto simp: GetJoinTime_def queue_ok_def om_get_put om_ok_put split: option.split)

lemma RemoveFromQueue_exempt:
  assumes "queue_ok (insert g X) q"
  shows "queue_ok X (RemoveFromQueue g q)"
proof -
  have "queue_ok (insert g X) (RemoveFromQueue g q)" by (rule RemoveFromQueue_ok [OF assms])
  moreover have "om_get (QueueDataStore (RemoveFromQueue g q)) g = None"
  proof -
    have "skel (RemoveFromQueue g q) g = None"
      using RemoveFromQueue_data [OF queue_ok_sorted [OF assms], of g] by simp
    then show ?thesis by (simp add: skel_def)
  qed
  ultimately show ?thesis unfolding queue_ok_def by (metis insertE option.distinct(1))
qed

lemma fold_remove_exempt: "queue_ok (set gs) q \<Longrightarrow> queue_ok {} (fold RemoveFromQueue gs q)"
proof (induction gs arbitrary: q)
  case (Cons g gs)
  then show ?case using RemoveFromQueue_exempt [of g "set gs" q] by simp
qed simp

section \<open>What a search keeps\<close>

definition matching_ok :: "Matching \<Rightarrow> bool" where
  "matching_ok s \<longleftrightarrow> queue_ok {} (mt_queue s) \<and> (\<forall>p \<in> set (mt_proposals s). prop_ok p)"

lemma matching_ok_same: "matching_ok s \<Longrightarrow> QueueDataStore (f (mt_queue s)) = QueueDataStore (mt_queue s) \<Longrightarrow> matching_ok (on_queue f s)"
  using queue_ok_same [of "f (mt_queue s)" "mt_queue s"] by (simp add: matching_ok_def on_queue_def)

lemma matching_ok_check:
  assumes "matching_ok s" "check \<noteq> []" "check_combination env check s = Some (c, s')"
  shows "matching_ok s'"
  using assms(3)
proof (cases rule: combination_cases)
  case (missing g)
  then show ?thesis using assms(1) RemoveFromQueue_ok by (simp add: matching_ok_def on_queue_def)
next
  case (less roles)
  have "om_ok (QueueDataStore (mt_queue s))" using assms(1) queue_ok_sorted unfolding matching_ok_def by blast
  from update_best_skel [OF this, of "ConcatenateGuids check" roles check]
  have "queue_ok {} (less_players check roles (mt_queue s))"
    using assms(1) queue_ok_skel [of "{}" "mt_queue s" "less_players check roles (mt_queue s)"]
    by (simp add: matching_ok_def skel_def lfg_simps fun_eq_iff)
  then show ?thesis using assms(1) less(2) by (simp add: matching_ok_def on_queue_def)
next
  case refused
  then show ?thesis using matching_ok_same [OF assms(1)] by (simp add: lfg_simps)
next
  case (match p n)
  have "prop_ok p"
    using matched_prop_ok [OF match(2) _ _ assms(2)] assms(1) by (simp add: matching_ok_def queue_ok_all)
  moreover have "queue_ok {} (mt_queue s') = queue_ok {} (mt_queue s)"
    by (rule queue_ok_same) (simp add: match(3) lfg_simps)
  ultimately show ?thesis
    using assms(1) by (auto simp: matching_ok_def match(3) lfg_simps)
qed

interpretation kept_search: groups_invariant env matching_ok for env
proof
qed (auto intro: matching_ok_check intro!: matching_ok_same simp: lfg_simps RemoveFromNewQueue_def AddToCurrentQueue_def)

lemma proposals_ok_put: "proposals_ok ps \<Longrightarrow> prop_ok p \<Longrightarrow> proposals_ok (om_put n p ps)"
  unfolding proposals_ok_def by (induction n p ps rule: om_put.induct) auto

lemma AddProposal_ok [ok_intros]: "mgr_ok_but X R m \<Longrightarrow> prop_ok p \<Longrightarrow> mgr_ok_but X R (AddProposal p m)"
  by (simp add: mgr_ok_but_def AddProposal_def Let_def proposals_ok_put prop_ok_def)

lemma fold_AddProposal_ok: "mgr_ok_but X R m \<Longrightarrow> (\<forall>p \<in> set ps. prop_ok p) \<Longrightarrow> mgr_ok_but X R (fold AddProposal ps m)"
  by (induction ps arbitrary: m) (simp_all add: AddProposal_ok)

lemma draws_ok [ok_intros]:
  "mgr_ok_but X R m \<Longrightarrow> mgr_ok_but X R (m\<lparr>m_draws := n\<rparr>)" "mgr_ok_but X R m \<Longrightarrow> mgr_ok_but X R (m\<lparr>m_QueueTimer := t\<rparr>)"
  "mgr_ok_but X R m \<Longrightarrow> mgr_ok_but X R (SetOptions opts m)" "mgr_ok_but X R m \<Longrightarrow> mgr_ok_but X R (Clean m)"
  by (simp_all add: mgr_ok_but_def SetOptions_def Clean_def queues_ok_def)

lemma find_in_queue_keeps: "keeps mgr_ok (find_in_queue w i)"
proof (rule keepsI)
  fix m m' e
  assume m: "mgr_ok m" and run: "find_in_queue w i m = Some (m', e)"
  from run obtain n s where s: "FindGroups (queue_env w m) \<lparr>mt_queue = queue_at m i, mt_proposals = [], mt_draws = m_draws m\<rparr> = Some (n, s)"
    and m': "m' = fold AddProposal (mt_proposals s) ((put_queue i (mt_queue s) m)\<lparr>m_draws := mt_draws s\<rparr>)"
    unfolding find_in_queue_def by auto
  have "matching_ok \<lparr>mt_queue = queue_at m i, mt_proposals = [], mt_draws = m_draws m\<rparr>"
    using queue_at_ok [OF m [unfolded mgr_ok_def], of i] by (simp add: matching_ok_def)
  from kept_search.groups_keeps [OF this s [unfolded FindGroups_def]] have "matching_ok s" .
  then show "mgr_ok m'"
    using m fold_AddProposal_ok unfolding m' mgr_ok_def matching_ok_def by (simp add: ok_intros)
qed

section \<open>Role checks\<close>

lemma om_erase_subset: "set (om_erase k m) \<subseteq> set m"
  by (induction k m rule: om_erase.induct) auto

lemma checks_ok_exempt: "checks_ok R rcs \<Longrightarrow> checks_ok (insert g R) (om_put g rc rcs)"
  using om_put_subset [of g rc rcs] by (auto simp: checks_ok_def om_ok_put)

lemma checks_ok_put: "checks_ok R rcs \<Longrightarrow> check_ok g rc \<Longrightarrow> checks_ok R (om_put g rc rcs)"
  using om_put_subset [of g rc rcs] by (auto simp: checks_ok_def om_ok_put)

lemma checks_ok_erase:
  assumes "checks_ok (insert g R) rcs"
  shows "checks_ok R (om_erase g rcs)"
proof -
  have ok: "om_ok rcs" using assms by (simp add: checks_ok_def)
  have "check_ok (fst x) (snd x)" if x: "x \<in> set (om_erase g rcs)" "fst x \<notin> R" for x
  proof -
    have "fst x \<in> set (om_keys (om_erase g rcs))" using x(1) by (simp add: om_keys_def)
    then have "fst x \<noteq> g" by (simp add: om_keys_erase [OF ok])
    then show ?thesis using assms x om_erase_subset [of g rcs] by (auto simp: checks_ok_def)
  qed
  then show ?thesis by (simp add: checks_ok_def om_ok_erase [OF ok])
qed

lemma erase_role_check_ok: "mgr_ok_but X (insert g R) m \<Longrightarrow> mgr_ok_but X R (erase_role_check g m)"
  by (simp add: mgr_ok_but_def erase_role_check_def checks_ok_erase)

lemma checks_ok_more: "checks_ok R rcs \<Longrightarrow> checks_ok (insert g R) rcs"
  by (auto simp: checks_ok_def)

lemma erase_role_check_keeps [ok_intros]: "mgr_ok_but X R m \<Longrightarrow> mgr_ok_but X R (erase_role_check g m)"
  by (simp add: mgr_ok_but_def erase_role_check_def checks_ok_erase checks_ok_more)

lemma role_check_member_keeps: "keeps (mgr_ok_but X R) (role_check_member w rc b g r ds x)"
  by (cases x; cases "rc_state rc") (auto simp: role_check_member_def intro!: keeps_intros ok_intros)

lemma length_om_put_old: "om_ok m \<Longrightarrow> k \<in> set (om_keys m) \<Longrightarrow> length (om_put k v m) = length m"
  by (induction k v m rule: om_put.induct) auto

lemma om_put_not_Nil: "om_put k v m \<noteq> []"
  by (induction k v m rule: om_put.induct) auto

text \<open>There is room for an answer when it comes from a player already in the check, or while he is below the limit.\<close>

definition has_room :: "uint64 \<Rightarrow> LfgRoleCheck \<Rightarrow> bool" where
  "has_room guid rc \<longleftrightarrow> guid = 0 \<or> guid \<in> set (om_keys (rc_roles rc)) \<or> length (rc_roles rc) < 40"

lemma choose_role_ok:
  assumes "check_ok g old" "has_room guid old"
  shows "rc_dungeons (choose_role guid roles old) = rc_dungeons old" "rc_rDungeonId (choose_role guid roles old) = rc_rDungeonId old"
    and "om_ok (rc_roles (choose_role guid roles old)) \<and> length (rc_roles (choose_role guid roles old)) \<le> 40"
    and "rc_state (choose_role guid roles old) = LFG_ROLECHECK_FINISHED \<Longrightarrow>
      rc_roles (choose_role guid roles old) \<noteq> [] \<and> fst (CheckGroupRoles (rc_roles (choose_role guid roles old)))"
proof -
  have "length (om_put guid roles (rc_roles old)) \<le> 40" if "guid \<noteq> 0"
    using assms that length_om_put [of guid roles "rc_roles old"] length_om_put_old [of "rc_roles old" guid roles]
    by (auto simp: has_room_def check_ok_def)
  then show "om_ok (rc_roles (choose_role guid roles old)) \<and> length (rc_roles (choose_role guid roles old)) \<le> 40"
    using assms by (simp add: choose_role_def Let_def check_ok_def om_ok_put)
qed (use assms in \<open>simp_all add: choose_role_def Let_def om_put_not_Nil check_ok_def split: if_splits\<close>)

lemma put_role_check_ok: "mgr_ok_but X R m \<Longrightarrow> check_ok g rc \<Longrightarrow> mgr_ok_but X R (m\<lparr>RoleChecksStore := om_put g rc (RoleChecksStore m)\<rparr>)"
  by (simp add: mgr_ok_but_def checks_ok_put)

lemma put_role_check_exempt: "mgr_ok_but X R m \<Longrightarrow> mgr_ok_but X (insert g R) (m\<lparr>RoleChecksStore := om_put g rc (RoleChecksStore m)\<rparr>)"
  by (simp add: mgr_ok_but_def checks_ok_exempt)

lemma role_check_found: "mgr_ok m \<Longrightarrow> om_get (RoleChecksStore m) g = Some rc \<Longrightarrow> check_ok g rc"
  by (auto simp: mgr_ok_def mgr_ok_but_def checks_ok_def dest!: om_get_in_set)

lemma queued_role_check:
  assumes "check_ok g old" "has_room guid old" "rc_state (choose_role guid roles old) = LFG_ROLECHECK_FINISHED" "mgr_ok_but X R m"
  shows "mgr_ok_but X R (at_queue i (AddQueueData g t (rc_dungeons (choose_role guid roles old)) (rc_roles (choose_role guid roles old))) m)"
proof (rule at_queue_ok [OF assms(4)])
  fix q
  assume "queue_ok (X i) q"
  then show "queue_ok (X i) (AddQueueData g t (rc_dungeons (choose_role guid roles old)) (rc_roles (choose_role guid roles old)) q)"
    by (rule AddQueueData_ok)
      (use choose_role_ok [OF assms(1,2), of roles] assms(1,3) in \<open>simp_all add: entry_ok_def LfgQueueData_init_def check_ok_def\<close>)
qed

lemma UpdateRoleCheck_leads:
  assumes "check_ok gguid old" "has_room guid old" "rc = choose_role guid roles old"
  shows "leads mgr_ok (act_seq
              [act_change (\<lambda>m. m\<lparr>RoleChecksStore := om_put gguid rc (RoleChecksStore m)\<rparr>),
               act_each (role_check_member w rc sendRoleChosen guid roles dungeons) (rc_roles rc),
               (if rc_state rc = LFG_ROLECHECK_FINISHED
                then act_seq
                  [act_change (SetState gguid LFG_STATE_QUEUED),
                   act_read (\<lambda>m. act_change (at_queue (GetQueue m gguid) (AddQueueData gguid (lw_now w) (rc_dungeons rc) (rc_roles rc)))),
                   act_change (erase_role_check gguid)]
                else act_if (rc_state rc \<noteq> LFG_ROLECHECK_INITIALITING)
                  (act_seq [act_change (RestoreState gguid), act_change (erase_role_check gguid)]))]) mgr_ok"
    (is "leads mgr_ok (act_seq [?put, ?each, ?final]) mgr_ok")
proof (cases "rc_state rc = LFG_ROLECHECK_INITIALITING")
  case True
  have "check_ok gguid rc"
    using assms(1) choose_role_ok [OF assms(1,2), of roles] True by (simp add: check_ok_def assms(3))
  then have "keeps mgr_ok ?put" "keeps mgr_ok ?each" "keeps mgr_ok ?final"
    using True by (auto simp: mgr_ok_def intro!: keeps_intros put_role_check_ok role_check_member_keeps)
  then show ?thesis by (meson leads_keeps keeps_seq_Cons keeps_seq_Nil)
next
  case False
  let ?I = "mgr_ok_but (\<lambda>_. {}) {gguid}"
  have erase: "leads ?I (act_change (erase_role_check gguid) :: lfg_act) mgr_ok"
    by (rule leads_change) (simp add: mgr_ok_def erase_role_check_ok)
  have "leads ?I (act_seq [act_change (SetState gguid LFG_STATE_QUEUED) :: lfg_act,
      act_read (\<lambda>m. act_change (at_queue (GetQueue m gguid) (AddQueueData gguid (lw_now w) (rc_dungeons rc) (rc_roles rc)))),
      act_change (erase_role_check gguid)]) mgr_ok" if "rc_state rc = LFG_ROLECHECK_FINISHED"
  proof -
    have "keeps ?I (act_change (SetState gguid LFG_STATE_QUEUED) :: lfg_act)" by (intro keeps_intros ok_intros)
    moreover have "keeps ?I (act_read (\<lambda>m. act_change (at_queue (GetQueue m gguid)
        (AddQueueData gguid (lw_now w) (rc_dungeons rc) (rc_roles rc)))) :: lfg_act)"
      using queued_role_check [OF assms(1,2)] that unfolding assms(3) by (intro keeps_intros) blast
    ultimately show ?thesis using erase by (meson leads_seq leads_nil leads_keeps)
  qed
  moreover have "leads ?I (act_seq [act_change (RestoreState gguid) :: lfg_act, act_change (erase_role_check gguid)]) mgr_ok"
  proof -
    have "keeps ?I (act_change (RestoreState gguid) :: lfg_act)" by (intro keeps_intros ok_intros)
    then show ?thesis using erase by (meson leads_seq leads_nil leads_keeps)
  qed
  ultimately have "leads ?I ?final mgr_ok" using False by (simp add: act_if_def)
  moreover have "leads mgr_ok ?put ?I"
    by (rule leads_change) (simp add: mgr_ok_def put_role_check_exempt)
  moreover have "leads ?I ?each ?I"
    by (intro leads_keeps keeps_intros role_check_member_keeps)
  ultimately show ?thesis by (meson leads_seq leads_nil)
qed

lemma UpdateRoleCheck_ok:
  assumes "mgr_ok m" "UpdateRoleCheck w gguid guid roles m = Some (m', e)"
    "\<And>rc. om_get (RoleChecksStore m) gguid = Some rc \<Longrightarrow> has_room guid rc"
  shows "mgr_ok m'"
proof (cases "if gguid = 0 then None else om_get (RoleChecksStore m) gguid")
  case None
  then show ?thesis using assms(1,2) by (simp add: UpdateRoleCheck_def act_read_def act_send_def)
next
  case (Some old)
  then have old: "om_get (RoleChecksStore m) gguid = Some old" by (simp split: if_splits)
  note step = leadsD [OF UpdateRoleCheck_leads [OF role_check_found [OF assms(1) old] assms(3) [OF old] refl] assms(1)]
  from assms(2) [unfolded UpdateRoleCheck_def, THEN act_readD] show ?thesis
    unfolding Let_def Some option.case by (rule step)
qed

lemma abort_role_check_keeps [keeps_intros]: "keeps mgr_ok (UpdateRoleCheck w gguid 0 roles)"
  by (rule keepsI) (auto intro: UpdateRoleCheck_ok simp: has_room_def)

section \<open>Proposals\<close>

lemma erase_proposal_ok [ok_intros]: "mgr_ok_but X R m \<Longrightarrow> mgr_ok_but X R (erase_proposal n m)"
  using om_erase_subset [of n "ProposalsStore m"] by (auto simp: mgr_ok_but_def erase_proposal_def proposals_ok_def)

lemma put_proposal_ok [ok_intros]: "mgr_ok_but X R m \<Longrightarrow> prop_ok p \<Longrightarrow> mgr_ok_but X R (m\<lparr>ProposalsStore := om_put n p (ProposalsStore m)\<rparr>)"
  by (simp add: mgr_ok_but_def proposals_ok_put)

lemma proposal_in_store: "mgr_ok_but X R m \<Longrightarrow> (n, p) \<in> set (ProposalsStore m) \<Longrightarrow> prop_ok p"
  by (auto simp: mgr_ok_but_def proposals_ok_def)

lemma proposal_found: "mgr_ok_but X R m \<Longrightarrow> om_get (ProposalsStore m) n = Some p \<Longrightarrow> prop_ok p"
  using proposal_in_store om_get_in_set by metis

text \<open>A proposal stays in order when answers of its players change.\<close>

lemma prop_ok_players:
  assumes "prop_ok p" "lp_queues q = lp_queues p" "lp_players q = map (\<lambda>(g, d). (g, f g d)) (lp_players p)"
    and "\<And>g d. pp_group (f g d) = pp_group d"
  shows "prop_ok q"
  using assms by (auto simp: prop_ok_def proposal_entry_def split: if_splits)

lemma fail_answer_group [simp]: "pp_group (fail_answer ty d) = pp_group d"
  by (simp add: fail_answer_def Let_def)

lemma failed_proposal_ok: "prop_ok p \<Longrightarrow> prop_ok (failed_proposal ty p)"
  by (rule prop_ok_players [of p _ "\<lambda>_. fail_answer ty"]) (simp_all add: failed_proposal_def)

lemma om_put_member: "om_ok m \<Longrightarrow> om_get m k = Some v \<Longrightarrow> om_put k w m = map (\<lambda>(a, x). (a, if a = k then w else x)) m"
proof (induction k w m rule: om_put.induct)
  case (2 k w a x m)
  then show ?case
  proof (cases "k = a")
    case True
    have "map (\<lambda>(b, x). (b, if b = k then w else x)) m = m"
      using 2 True by (intro map_idI) (auto simp: om_keys_def)
    then show ?thesis using True by simp
  next
    case False
    then have "a < k" using 2 om_get_above [of m a k] by auto
    then show ?thesis using 2 False by auto
  qed
qed simp

lemma answered_ok:
  assumes "prop_ok p" "om_get (lp_players p) g = Some d"
  shows "prop_ok (p\<lparr>lp_players := om_put g (d\<lparr>pp_accept := a\<rparr>) (lp_players p)\<rparr>)"
proof (rule prop_ok_players [OF assms(1), where f = "\<lambda>k x. if k = g then x\<lparr>pp_accept := a\<rparr> else x"])
  have ok: "om_ok (lp_players p)" using assms(1) by (simp add: prop_ok_def)
  have "map (\<lambda>(k, x). (k, if k = g then d\<lparr>pp_accept := a\<rparr> else x)) (lp_players p) =
      map (\<lambda>(k, x). (k, if k = g then x\<lparr>pp_accept := a\<rparr> else x)) (lp_players p)"
    using om_in_set_get [OF ok] assms(2) by (intro map_cong) auto
  then show "lp_players (p\<lparr>lp_players := om_put g (d\<lparr>pp_accept := a\<rparr>) (lp_players p)\<rparr>) =
      map (\<lambda>(k, x). (k, if k = g then x\<lparr>pp_accept := a\<rparr> else x)) (lp_players p)"
    by (simp add: om_put_member [OF ok assms(2)])
qed simp_all

lemma removed_player_keeps: "keeps (mgr_ok_but X R) (removed_player w p ty rs x)"
  by (cases x) (auto simp: removed_player_def Let_def intro!: keeps_intros ok_intros)

lemma RemoveProposal_keeps [keeps_intros]: "keeps (mgr_ok_but X R) (RemoveProposal w n ty)"
  unfolding RemoveProposal_def
proof (rule keeps_read)
  fix m
  assume m: "mgr_ok_but X R m"
  have queue: "mgr_ok_but X R (at_queue i (\<lambda>q. fold AddToQueue gs (fold RemoveFromQueue hs q)) m')" if "mgr_ok_but X R m'" for i gs hs m'
    by (rule at_queue_ok [OF that]) (intro fold_queue_ok AddToQueue_ok RemoveFromQueue_ok)
  show "keeps (mgr_ok_but X R) (case om_get (ProposalsStore m) n of None \<Rightarrow> \<lambda>_. None | Some old \<Rightarrow>
      let p = failed_proposal ty old; toRemove = proposal_toRemove p in
      act_seq
        [act_change (\<lambda>m. m\<lparr>ProposalsStore := om_put n p (ProposalsStore m)\<rparr>),
         act_each (removed_player w p ty toRemove) (lp_players p),
         (case lp_players p of
            [] \<Rightarrow> (\<lambda>_. None)
          | (first, _) # _ \<Rightarrow> act_read (\<lambda>m. act_change (at_queue (GetQueue m first) (\<lambda>q.
              fold AddToQueue (filter (\<lambda>g. \<not> os_mem toRemove g) (lp_queues p)) (fold RemoveFromQueue toRemove q))))),
         act_change (erase_proposal n)])"
  proof (cases "om_get (ProposalsStore m) n")
    case (Some old)
    show ?thesis
      unfolding Some Let_def option.case
      by (intro keeps_intros ok_intros removed_player_keeps failed_proposal_ok proposal_found [OF m Some] queue)
        (auto split: list.splits intro!: keeps_intros queue)
  qed (simp add: keeps_none)
qed

section \<open>Loading\<close>

lemma cached_ok_insert: "cached_ok cs \<Longrightarrow> cached_ok (cache_insert k d cs)"
proof -
  assume cs: "cached_ok cs"
  then have "os_ok (case om_get cs k of Some s \<Rightarrow> s | None \<Rightarrow> [])"
    by (auto simp: cached_ok_def split: option.split dest!: om_get_in_set)
  then show ?thesis
    using cs om_put_subset [of k "os_insert d (case om_get cs k of Some s \<Rightarrow> s | None \<Rightarrow> [])" cs]
    by (auto simp: cached_ok_def cache_insert_def os_ok_insert)
qed

lemma LoadLFGDungeons_ok [ok_intros]: "mgr_ok_but X R m \<Longrightarrow> mgr_ok_but X R (LoadLFGDungeons reload dbc ents trigger m)"
proof -
  assume m: "mgr_ok_but X R m"
  have "cached_ok cs \<Longrightarrow> cached_ok (cache_dungeon trigger d cs)" for d cs
    by (simp add: cache_dungeon_def cached_ok_insert)
  then have "cached_ok cs \<Longrightarrow> cached_ok (fold (\<lambda>(_, d). cache_dungeon trigger d) ds cs)" for ds :: "(uint32, LFGDungeonData) omap" and cs
    by (induction ds arbitrary: cs) auto
  moreover have "cached_ok []" by (simp add: cached_ok_def)
  ultimately show ?thesis using m by (simp add: LoadLFGDungeons_def Let_def mgr_ok_but_def)
qed

lemma LoadRewards_ok [ok_intros]: "mgr_ok_but X R m \<Longrightarrow> mgr_ok_but X R (LoadRewards quest lvl rows m)"
proof -
  assume m: "mgr_ok_but X R m"
  have "mgr_ok_but X R m \<Longrightarrow> mgr_ok_but X R (load_reward quest lvl row m)" for row m
    by (cases row) (simp add: load_reward_def Let_def mgr_ok_but_def)
  then have "mgr_ok_but X R m \<Longrightarrow> mgr_ok_but X R (fold (load_reward quest lvl) rows m)" for m
    by (induction rows arbitrary: m) simp_all
  moreover have "mgr_ok_but X R (m\<lparr>RewardMapStore := []\<rparr>)" using m by (simp add: mgr_ok_but_def)
  ultimately show ?thesis by (simp add: LoadRewards_def)
qed

section \<open>Leaving, votes and the hooks\<close>

lemma boots_ok [ok_intros]: "mgr_ok_but X R m \<Longrightarrow> mgr_ok_but X R (put_boot g b m)" "mgr_ok_but X R m \<Longrightarrow> mgr_ok_but X R (erase_boot g m)"
  by (simp_all add: mgr_ok_but_def put_boot_def erase_boot_def)

lemma RemoveFromQueue_at_ok [ok_intros]: "mgr_ok_but X R m \<Longrightarrow> mgr_ok_but X R (at_queue i (RemoveFromQueue g) m)"
  by (rule at_queue_ok) (simp_all add: RemoveFromQueue_ok)

lemma RemoveGroupData_keeps [keeps_intros]: "keeps (mgr_ok_but X R) (RemoveGroupData w g)"
  unfolding RemoveGroupData_def by (intro keeps_intros ok_intros)

lemma InitBoot_keeps [keeps_intros]: "keeps (mgr_ok_but X R) (InitBoot w gg k v r)"
  unfolding InitBoot_def Let_def by (intro keeps_intros ok_intros)

lemma leave_proposal_keeps: "keeps (mgr_ok_but X R) (leave_proposal w g)"
  unfolding leave_proposal_def
proof (rule keeps_read)
  fix m
  assume m: "mgr_ok_but X R m"
  show "keeps (mgr_ok_but X R) (case find (\<lambda>(_, p). om_get (lp_players p) g \<noteq> None) (ProposalsStore m) of
      None \<Rightarrow> act_seq []
    | Some (n, p) \<Rightarrow>
        let players = map (\<lambda>(h, d). (h, if h = g then d\<lparr>pp_accept := LFG_ANSWER_DENY\<rparr> else d)) (lp_players p) in
        act_then (act_change (\<lambda>m. m\<lparr>ProposalsStore := om_put n (p\<lparr>lp_players := players\<rparr>) (ProposalsStore m)\<rparr>))
          (RemoveProposal w n LFG_UPDATETYPE_PROPOSAL_DECLINED))"
  proof (cases "find (\<lambda>(_, p). om_get (lp_players p) g \<noteq> None) (ProposalsStore m)")
    case (Some np)
    obtain n p where np: "np = (n, p)" by (cases np)
    have "(n, p) \<in> set (ProposalsStore m)" using Some np by (auto simp: find_Some_iff in_set_conv_nth)
    from proposal_in_store [OF m this] have "prop_ok p" .
    then have "prop_ok (p\<lparr>lp_players := map (\<lambda>(h, d). (h, if h = g then d\<lparr>pp_accept := LFG_ANSWER_DENY\<rparr> else d)) (lp_players p)\<rparr>)"
      by (rule prop_ok_players [where f = "\<lambda>h d. if h = g then d\<lparr>pp_accept := LFG_ANSWER_DENY\<rparr> else d"]) simp_all
    then show ?thesis
      unfolding Some np Let_def option.case prod.case by (intro keeps_intros ok_intros)
  qed (simp add: keeps_send)
qed

lemma LeaveLfg_keeps [keeps_intros]: "keeps mgr_ok (LeaveLfg w g)"
  unfolding LeaveLfg_def
proof (rule keeps_read)
  fix m
  have "keeps mgr_ok (act_seq
      [act_change (at_queue i (RemoveFromQueue g)), act_change (SetState g LFG_STATE_NONE),
       act_each (\<lambda>p. act_then (act_change (SetState p LFG_STATE_NONE)) (SendLfgUpdateParty w p d)) ps])" for i g d ps
    unfolding mgr_ok_def by (intro keeps_intros ok_intros)
  moreover have "keeps mgr_ok (act_seq
      [act_change (at_queue i (RemoveFromQueue g)), SendLfgUpdatePlayer w g d, act_change (SetState g LFG_STATE_NONE)])" for i g d
    unfolding mgr_ok_def by (intro keeps_intros ok_intros)
  moreover have "keeps mgr_ok (leave_proposal w g)" "keeps mgr_ok (act_change (SetState g s) :: lfg_act)" for g s
    unfolding mgr_ok_def by (intro leave_proposal_keeps keeps_intros ok_intros)+
  moreover have "keeps mgr_ok (act_if b (UpdateRoleCheck w g 0 PLAYER_ROLE_NONE))" "keeps mgr_ok (act_seq [] :: lfg_act)" for b g
    by (intro keeps_intros)+
  ultimately show "keeps mgr_ok (let gguid = (if IS_GROUP_GUID g then g else GetGroup m g) in
       case GetState m g of
         LFG_STATE_QUEUED \<Rightarrow>
           (if gguid \<noteq> 0
            then act_seq
              [act_change (at_queue (GetQueue m gguid) (RemoveFromQueue gguid)),
               act_change (SetState gguid LFG_STATE_NONE),
               act_each (\<lambda>p. act_then (act_change (SetState p LFG_STATE_NONE))
                   (SendLfgUpdateParty w p (update_data LFG_UPDATETYPE_REMOVED_FROM_QUEUE))) (GetPlayers m gguid)]
            else act_seq
              [act_change (at_queue (GetQueue m g) (RemoveFromQueue g)),
               SendLfgUpdatePlayer w g (update_data LFG_UPDATETYPE_REMOVED_FROM_QUEUE),
               act_change (SetState g LFG_STATE_NONE)])
       | LFG_STATE_ROLECHECK \<Rightarrow> act_if (gguid \<noteq> 0) (UpdateRoleCheck w gguid 0 PLAYER_ROLE_NONE)
       | LFG_STATE_PROPOSAL \<Rightarrow> leave_proposal w (if gguid = g then GetLeader m gguid else g)
       | LFG_STATE_NONE \<Rightarrow> act_seq []
       | LFG_STATE_RAIDBROWSER \<Rightarrow> act_seq []
       | _ \<Rightarrow> act_if (g \<noteq> gguid) (act_change (SetState g LFG_STATE_NONE)))"
    unfolding Let_def by (cases "GetState m g") (simp_all only: LfgState.case if_split keeps_if simp_thms)
qed

lemma if_enabled_keeps [keeps_intros]: "keeps I a \<Longrightarrow> keeps I (if_enabled a)"
  unfolding if_enabled_def by (intro keeps_intros)

lemma hook_keeps: "keeps mgr_ok (lfg_hook_act w h)"
proof (cases h)
  case (HookRemove gg lfg g mth k r d)
  have "keeps mgr_ok (act_change f :: lfg_act)" if "\<And>m. mgr_ok m \<Longrightarrow> mgr_ok (f m)" for f
    using that by (rule keeps_change)
  then have change: "keeps mgr_ok (act_change (SetGroup g 0) :: lfg_act)"
    "keeps mgr_ok (act_change (\<lambda>m. snd (RemovePlayerFromGroup gg g m)) :: lfg_act)"
    "keeps mgr_ok (act_change (\<lambda>m. snd (RemovePlayerFromGroup gg g (SetGroup g 0 m))) :: lfg_act)"
    by (simp_all add: mgr_ok_def ok_intros)
  have boot: "keeps mgr_ok (InitBoot w gg k g r)" unfolding mgr_ok_def by (rule InitBoot_keeps)
  show ?thesis
    unfolding HookRemove lfg_hook_act.simps OnRemoveMember_def Let_def
    by (auto intro!: keeps_intros change boot split: option.split)
next
  case (HookAdd gg l g)
  show ?thesis
    unfolding HookAdd lfg_hook_act.simps OnAddMember_def Let_def
    by (auto intro!: keeps_intros simp: mgr_ok_def ok_intros simp del: act_seq.simps intro: LeaveLfg_keeps [unfolded mgr_ok_def])
next
  case (HookLogin g grp t)
  show ?thesis
    unfolding HookLogin lfg_hook_act.simps OnLogin_def mgr_ok_def
    by (intro keeps_intros) (auto split: option.split intro!: ok_intros)
next
  case (HookMap g mp df grp)
  show ?thesis
    unfolding HookMap lfg_hook_act.simps OnMapChanged_def
    by (intro keeps_read keeps_cond) (auto split: option.split prod.split intro!: keeps_intros)
next
  case (HookDisband gg)
  show ?thesis
    unfolding HookDisband lfg_hook_act.simps OnDisband_def mgr_ok_def by (intro keeps_intros)
qed (auto simp: OnLogout_def OnChangeLeader_def OnInviteMember_def mgr_ok_def ok_intros simp del: act_seq.simps
    intro!: keeps_intros LeaveLfg_keeps [unfolded mgr_ok_def])

text \<open>The group system keeps the invariant, since it acts through the hooks.\<close>

lemma formed_ok: "hooks_only w gs \<Longrightarrow> mgr_ok m \<Longrightarrow> gs_form gs p ps m = Some (g, m', e) \<Longrightarrow> mgr_ok m'"
  unfolding hooks_only_def using hook_run_keeps [of w m m' mgr_ok] hook_keeps by blast

lemma kick_keeps: "hooks_only w gs \<Longrightarrow> keeps mgr_ok (gs_kick gs gg g)"
  unfolding hooks_only_def using hook_run_keeps [of w _ _ mgr_ok] hook_keeps by (intro keepsI) blast

section \<open>Answers and votes\<close>

lemma UpdateBoot_keeps [keeps_intros]:
  assumes "hooks_only w gs"
  shows "keeps mgr_ok (UpdateBoot w gs g a)"
proof -
  have change: "keeps mgr_ok (act_change (put_boot gg b) :: lfg_act)" "keeps mgr_ok (act_change (erase_boot gg) :: lfg_act)"
    "keeps mgr_ok (act_change (SetState gg s))" "keeps mgr_ok (act_change (DecreaseKicksLeft gg))" for gg b s
    unfolding mgr_ok_def by (simp_all add: keeps_change ok_intros)
  have "keeps mgr_ok (end_vote w gs gg b)" for gg b
    unfolding end_vote_def by (intro keeps_intros change kick_keeps [OF assms])
  then show ?thesis
    unfolding UpdateBoot_def Let_def by (auto intro!: keeps_intros change split: option.split)
qed

text \<open>While the players of an accepted proposal are told, its entries may be out of order in its queue; then they are removed.\<close>

definition exempt :: "uint8 \<Rightarrow> uint64 set \<Rightarrow> uint8 \<Rightarrow> uint64 set" where
  "exempt i gs = (\<lambda>_. {})(i := gs)"

lemma queue_ok_mono: "queue_ok X q \<Longrightarrow> X \<subseteq> Y \<Longrightarrow> queue_ok Y q"
  unfolding queue_ok_def by blast

lemma mgr_ok_exempt: "mgr_ok m \<Longrightarrow> mgr_ok_but (exempt i gs) {} m"
  unfolding mgr_ok_def mgr_ok_but_def queues_ok_def using queue_ok_mono by blast

lemma accepted_player_keeps:
  assumes "proposal_entry x \<in> gs"
  shows "keeps (mgr_ok_but (exempt i gs) R) (accepted_player w i p b ty x)"
proof -
  obtain g d where x: "x = (g, d)" by (cases x)
  let ?I = "mgr_ok_but (exempt i gs) R"
  have e: "pp_group d \<noteq> 0 \<Longrightarrow> pp_group d \<in> gs" "pp_group d = 0 \<Longrightarrow> g \<in> gs" using assms by (simp_all add: x proposal_entry_def)
  have put: "?I (put_queue i (snd (GetJoinTime t h (queue_at m i))) m')" if "?I m" "?I m'" "h \<in> gs" for t h m m'
    using queue_at_ok [OF that(1), of i] that(3) by (intro put_queue_ok [OF that(2)] GetJoinTime_ok) (simp_all add: exempt_def)
  have wait: "keeps ?I (act_queue i (update_wait r t n))" for r t n
  proof (rule keepsI)
    fix m m' e
    assume m: "?I m" and run: "act_queue i (update_wait r t n) m = Some (m', e)"
    then obtain q where q: "update_wait r t n (queue_at m i) = Some q" "m' = put_queue i q m"
      by (auto simp: act_queue_def)
    show "?I m'" unfolding q(2) by (rule put_queue_ok [OF m update_wait_ok [OF queue_at_ok [OF m] q(1)]])
  qed
  show ?thesis
    unfolding x accepted_player_def Let_def prod.case case_prod_beta
    by (rule keeps_read, split list.split, intro conjI allI impI keeps_none keeps_seq_Cons keeps_seq_Nil keeps_if keeps_cond keeps_packets
        keeps_read keeps_change wait) (auto intro: put e data_ok)
qed

lemma accepted_players_keeps:
  "(\<forall>x \<in> set xs. proposal_entry x \<in> gs) \<Longrightarrow> keeps (mgr_ok_but (exempt i gs) R) (accepted_players w i p b ty xs)"
proof (induction xs arbitrary: ty)
  case (Cons x xs)
  then show ?case unfolding accepted_players.simps by (intro keeps_then accepted_player_keeps) simp_all
qed (simp add: keeps_send)

lemma set_om_put: "om_ok m \<Longrightarrow> x \<in> set (om_put k v m) \<longleftrightarrow> x = (k, v) \<or> x \<in> set m \<and> fst x \<noteq> k"
  by (cases x) (auto simp: om_set_iff om_ok_put om_get_put)

lemma remove_entries_ok:
  assumes "mgr_ok_but (exempt i (set gs)) {} m"
  shows "mgr_ok (at_queue i (fold RemoveFromQueue gs) m)"
proof -
  have ok: "om_ok (QueuesStore m)" and qs: "\<forall>x \<in> set (QueuesStore m). queue_ok (exempt i (set gs) (fst x)) (snd x)"
    using assms by (simp_all add: mgr_ok_but_def queues_ok_def)
  have "queue_ok {} (fold RemoveFromQueue gs (queue_at m i))"
    using queue_at_ok [OF assms, of i] by (intro fold_remove_exempt) (simp add: exempt_def)
  then have "queues_ok (\<lambda>_. {}) (om_put i (fold RemoveFromQueue gs (queue_at m i)) (QueuesStore m))"
    using qs by (fastforce simp: queues_ok_def set_om_put [OF ok] om_ok_put [OF ok] exempt_def split: if_splits)
  then show ?thesis using assms by (simp add: mgr_ok_def mgr_ok_but_def at_queue_def put_queue_def)
qed

lemma MakeNewGroup_keeps:
  assumes "hooks_only w gs"
  shows "keeps mgr_ok (MakeNewGroup w gs p)"
proof (rule keepsI)
  fix m m' e
  assume m: "mgr_ok m" and run: "MakeNewGroup w gs p m = Some (m', e)"
  then obtain dungeon g m1 e1 e2 where form: "gs_form gs p (leader_first p) m = Some (g, m1, e1)"
    and rest: "group_formed w gs dungeon g (playersToTeleport p m) m1 = Some (m', e2)"
    by (auto simp: MakeNewGroup_def split: option.splits)
  have "keeps mgr_ok (group_formed w gs dungeon g ps)" for ps
    unfolding group_formed_def SaveToDB_def mgr_ok_def by (intro keeps_intros ok_intros)
  from keeps_step [OF this formed_ok [OF assms m form] rest] show "mgr_ok m'" .
qed

lemma accepted_leads:
  assumes "prop_ok p" "hooks_only w gs" and q: "q = p\<lparr>lp_state := s\<rparr>"
  shows "leads mgr_ok (act_seq
      [act_change (\<lambda>m. m\<lparr>ProposalsStore := om_put n q (ProposalsStore m)\<rparr>),
       accepted_players w i q b ty (lp_players q),
       act_change (at_queue i (fold RemoveFromQueue (lp_queues q))),
       MakeNewGroup w gs q,
       act_change (erase_proposal n)]) mgr_ok"
proof -
  have ok: "prop_ok q" using assms(1) by (simp add: q prop_ok_def)
  let ?I = "mgr_ok_but (exempt i (set (lp_queues q))) {}"
  have "leads mgr_ok (act_change (\<lambda>m. m\<lparr>ProposalsStore := om_put n q (ProposalsStore m)\<rparr>) :: lfg_act) ?I"
    by (rule leads_change) (intro put_proposal_ok [OF _ ok] mgr_ok_exempt)
  moreover have "leads ?I (accepted_players w i q b ty (lp_players q)) ?I"
    using ok by (intro leads_keeps accepted_players_keeps) (simp add: prop_ok_def)
  moreover have "leads ?I (act_change (at_queue i (fold RemoveFromQueue (lp_queues q))) :: lfg_act) mgr_ok"
    by (rule leads_change) (rule remove_entries_ok)
  moreover have "leads mgr_ok (MakeNewGroup w gs q) mgr_ok"
    by (rule leads_keeps [OF MakeNewGroup_keeps [OF assms(2)]])
  moreover have "leads mgr_ok (act_change (erase_proposal n) :: lfg_act) mgr_ok"
    by (rule leads_change) (simp add: mgr_ok_def erase_proposal_ok)
  ultimately show ?thesis by (meson leads_seq leads_nil)
qed

lemma UpdateProposal_keeps:
  assumes "hooks_only w gs"
  shows "keeps mgr_ok (UpdateProposal w gs n g a)"
  unfolding UpdateProposal_def
proof (rule keeps_read, goal_cases)
  case (1 m)
  show ?case
  proof (cases "om_get (ProposalsStore m) n")
    case (Some old)
    show ?thesis
    proof (cases "om_get (lp_players old) g")
      case found: (Some d)
      let ?p = "\<lambda>a. old\<lparr>lp_players := om_put g (d\<lparr>pp_accept := a\<rparr>) (lp_players old)\<rparr>"
      have ok: "prop_ok (?p a)" for a
        by (rule answered_ok [OF proposal_found [OF 1 [unfolded mgr_ok_def] Some] found])
      have store: "keeps mgr_ok (act_change (\<lambda>m. m\<lparr>ProposalsStore := om_put n (?p a) (ProposalsStore m)\<rparr>) :: lfg_act)" for a
        unfolding mgr_ok_def by (intro keeps_change put_proposal_ok ok)
      have remove: "keeps mgr_ok (RemoveProposal w n ty)" for ty unfolding mgr_ok_def by (rule RemoveProposal_keeps)
      have success: "keeps mgr_ok (act_seq
          [act_change (\<lambda>m. m\<lparr>ProposalsStore := om_put n ((?p a)\<lparr>lp_state := s\<rparr>) (ProposalsStore m)\<rparr>),
           accepted_players w i ((?p a)\<lparr>lp_state := s\<rparr>) b ty (lp_players ((?p a)\<lparr>lp_state := s\<rparr>)),
           act_change (at_queue i (fold RemoveFromQueue (lp_queues ((?p a)\<lparr>lp_state := s\<rparr>)))),
           MakeNewGroup w gs ((?p a)\<lparr>lp_state := s\<rparr>),
           act_change (erase_proposal n)])" for a s i b ty
        using accepted_leads [OF ok assms refl] by (simp add: keeps_def leads_def del: act_seq.simps)
      show ?thesis
        unfolding Some found option.case Let_def
        by (intro keeps_then keeps_cond keeps_each keeps_packets store remove success)
    qed (simp add: Some keeps_send)
  qed (simp add: keeps_send)
qed

section \<open>Joining\<close>

lemma drop_locked_ok: "os_ok (fst acc) \<Longrightarrow> os_ok (fst (drop_locked g locks acc))"
  by (induction g locks acc rule: drop_locked.induct) (auto simp: Let_def os_ok_erase)

lemma compatible_loop_ok: "os_ok (fst acc) \<Longrightarrow> os_ok (fst (compatible_loop locked gs acc))"
proof (induction locked gs acc rule: compatible_loop.induct)
  case (2 locked g gs ds lm)
  then show ?case using drop_locked_ok [of "(ds, lm)"] by simp
qed simp

lemma GetDungeonsByRandom_ok: "mgr_ok_but X R m \<Longrightarrow> os_ok (GetDungeonsByRandom m d)"
  by (auto simp: GetDungeonsByRandom_def Let_def mgr_ok_but_def cached_ok_def split: option.split dest!: om_get_in_set)

lemma join_conditions_ok:
  assumes "mgr_ok_but X R m" "os_ok ds" "join_conditions w m pl grp ds = (LFG_JOIN_OK, ds', lock, r, raid)"
  shows "os_ok ds' \<and> ds' \<noteq> []"
  using assms GetDungeonsByRandom_ok [OF assms(1)] compatible_loop_ok
  by (auto simp: join_conditions_def GetCompatibleDungeons_def Let_def case_prod_beta split: if_splits)

definition group_members :: "LfgGroup \<Rightarrow> uint64 list" where
  "group_members g = map pl_guid (concat (map (\<lambda>x. case x of Some p \<Rightarrow> [p] | None \<Rightarrow> []) (lg_members g)))"

definition open_checks :: "LfgGroup option \<Rightarrow> (uint64, LfgRoleCheck) omap \<Rightarrow> bool" where
  "open_checks grp rcs \<longleftrightarrow> (\<forall>g rc. grp = Some g \<longrightarrow> om_get rcs (lg_guid g) = Some rc \<longrightarrow> set (om_keys (rc_roles rc)) \<subseteq> set (group_members g))"

text \<open>What the group system promises when a group joins: its guid is one of a group, it has at most forty members, the one
  who asks is one of them, and so is everybody in a role check of the group that is still open.\<close>

definition join_pre :: "LFGMgr \<Rightarrow> LfgPlayer \<Rightarrow> LfgGroup option \<Rightarrow> LfgDungeonSet \<Rightarrow> bool" where
  "join_pre m player grp dungeons \<longleftrightarrow> os_ok dungeons \<and> open_checks grp (RoleChecksStore m) \<and>
     (case grp of None \<Rightarrow> True
      | Some g \<Rightarrow> IS_GROUP_GUID (lg_guid g) \<and> length (lg_members g) \<le> 40 \<and> pl_guid player \<in> set (group_members g))"

lemma om_ok_length: "om_ok m \<Longrightarrow> length m = card (set (om_keys m))"
  using distinct_card [of "om_keys m"] by (simp add: om_ok_def strict_sorted_iff) (simp add: om_keys_def)

lemma group_members_length: "length (group_members g) \<le> length (lg_members g)"
proof -
  have "length (concat (map (\<lambda>x. case x of Some p \<Rightarrow> [p] | None \<Rightarrow> []) xs)) \<le> length xs" for xs :: "LfgPlayer option list"
    by (induction xs) (auto split: option.split)
  then show ?thesis by (simp add: group_members_def)
qed

lemma fold_put_zero:
  "om_ok m \<Longrightarrow> om_ok (fold (\<lambda>p. om_put p x) ps m) \<and> set (om_keys (fold (\<lambda>p. om_put p x) ps m)) = set ps \<union> set (om_keys m)"
  by (induction ps arbitrary: m) (auto simp: om_ok_put)

text \<open>Operations that leave the role checks alone.\<close>

lemma role_checks_simps [simp]:
  "RoleChecksStore (SetState g s m) = RoleChecksStore m" "RoleChecksStore (SetSelectedDungeons g ds m) = RoleChecksStore m"
  "RoleChecksStore (SetComment g c m) = RoleChecksStore m" "RoleChecksStore (at_queue i f m) = RoleChecksStore m"
  by (simp_all add: SetState_def SetSelectedDungeons_def SetComment_def on_player_def on_group_def at_queue_def put_queue_def)

lemma join_group_leads:
  assumes grp: "IS_GROUP_GUID (lg_guid g)" "length (lg_members g) \<le> 40" "pl_guid player \<in> set (group_members g)"
    and ds: "os_ok ds" "ds \<noteq> []"
  shows "leads (\<lambda>m. mgr_ok m \<and> open_checks (Some g) (RoleChecksStore m))
    (join_group w player g roles ds r cont comment) mgr_ok" (is "leads ?P _ _")
  unfolding join_group_def
proof (rule leads_read, goal_cases)
  case (1 m)
  define roles0 where "roles0 = (case om_get (RoleChecksStore m) (lg_guid g) of Some rc \<Rightarrow> rc_roles rc | None \<Rightarrow> [])"
  define rc where "rc = \<lparr>rc_cancelTime = lw_now w + LFG_TIME_ROLECHECK, rc_roles = fold (\<lambda>p. om_put p 0) (group_members g) roles0,
    rc_state = LFG_ROLECHECK_INITIALITING, rc_dungeons = ds, rc_rDungeonId = r, rc_leader = pl_guid player\<rparr>"
  let ?J = "\<lambda>m. mgr_ok m \<and> om_get (RoleChecksStore m) (lg_guid g) = Some rc"
  have "om_ok roles0 \<and> set (om_keys roles0) \<subseteq> set (group_members g)"
    using 1 role_check_found [of m "lg_guid g"] by (auto simp: roles0_def check_ok_def open_checks_def split: option.split)
  then have keys: "om_ok (rc_roles rc)" "set (om_keys (rc_roles rc)) = set (group_members g)"
    using fold_put_zero [of roles0 0 "group_members g"] by (auto simp: rc_def)
  have "length (rc_roles rc) \<le> 40"
    using om_ok_length [OF keys(1)] card_length [of "group_members g"] group_members_length [of g] grp(2) unfolding keys(2) by linarith
  then have ok: "check_ok (lg_guid g) rc" using grp(1) ds keys(1) by (simp add: check_ok_def) (simp add: rc_def)
  have "leads ?P (act_change (\<lambda>m. m\<lparr>RoleChecksStore := om_put (lg_guid g) rc (RoleChecksStore m)\<rparr>) :: lfg_act) ?J"
    by (rule leads_change) (use put_role_check_ok [OF _ ok] in \<open>simp add: mgr_ok_def om_get_put\<close>)
  moreover have "leads ?J (act_change (SetState (lg_guid g) LFG_STATE_ROLECHECK) :: lfg_act) ?J"
    by (rule leads_change) (simp add: mgr_ok_def ok_intros)
  moreover have "leads ?J (act_each (\<lambda>p. act_seq
      [act_send (\<lambda>_. [UpdateParty p d]), act_change (SetState p LFG_STATE_ROLECHECK),
       act_if (\<not> cont) (act_change (SetSelectedDungeons p ds'))]) ps) ?J" for d ds' ps
    by (intro leads_keeps keeps_each keeps_seq_Cons keeps_seq_Nil keeps_send keeps_if keeps_change) (simp_all add: mgr_ok_def ok_intros)
  moreover have "leads ?J (UpdateRoleCheck w (lg_guid g) (pl_guid player) roles) mgr_ok"
    unfolding leads_def
  proof (intro allI impI)
    fix m m' e
    assume J: "?J m" and run: "UpdateRoleCheck w (lg_guid g) (pl_guid player) roles m = Some (m', e)"
    show "mgr_ok m'" by (rule UpdateRoleCheck_ok [OF _ run]) (use J keys(2) grp(3) in \<open>auto simp: has_room_def\<close>)
  qed
  ultimately show ?case
    unfolding Let_def group_members_def [symmetric] roles0_def [symmetric] rc_def [symmetric] by (meson leads_seq leads_nil)
qed

lemma join_alone_keeps:
  assumes "os_ok ds" "ds \<noteq> []"
  shows "keeps mgr_ok (join_alone w player roles ds r jd comment)"
proof -
  have "queue_ok X (AddQueueData g t ds [(g, roles)] q)" if "queue_ok X q" for X g t q
    by (rule AddQueueData_ok [OF that]) (use assms in \<open>simp_all add: entry_ok_def LfgQueueData_init_def\<close>)
  then show ?thesis
    unfolding join_alone_def Let_def mgr_ok_def by (intro keeps_intros ok_intros)
qed

lemma leads_send: "(\<And>m. P m \<Longrightarrow> Q m) \<Longrightarrow> leads P (act_send f) Q"
  by (simp add: leads_def act_send_def)

lemma leads_pre: "leads P a Q \<Longrightarrow> (\<And>m. P' m \<Longrightarrow> P m) \<Longrightarrow> leads P' a Q"
  unfolding leads_def by blast

lemma JoinLfg_leads:
  assumes ds: "os_ok ds"
    and grp: "\<And>g. grp = Some g \<Longrightarrow> IS_GROUP_GUID (lg_guid g) \<and> length (lg_members g) \<le> 40 \<and> pl_guid player \<in> set (group_members g)"
  shows "leads (\<lambda>m. mgr_ok m \<and> open_checks grp (RoleChecksStore m)) (JoinLfg w player grp roles ds comment) mgr_ok" (is "leads ?P _ _")
proof (cases "ds = []")
  case True
  then show ?thesis unfolding JoinLfg_def by (simp, intro leads_send) blast
next
  case False
  have queue: "leads ?P (act_if b (act_change (at_queue i (RemoveFromQueue g))) :: lfg_act) ?P" for b i g
    by (intro leads_keeps keeps_if keeps_change) (simp add: mgr_ok_def ok_intros)
  have comment: "leads ?P (act_change (SetComment g comment) :: lfg_act) ?P" for g
    by (rule leads_change) (simp add: mgr_ok_def ok_intros)
  have enter: "leads ?P (case grp of Some g \<Rightarrow> join_group w player g roles ds' r cont comment
      | None \<Rightarrow> join_alone w player roles ds' r jd comment) mgr_ok" if "os_ok ds' \<and> ds' \<noteq> []" for ds' r cont jd
  proof (cases grp)
    case None
    have "leads mgr_ok (join_alone w player roles ds' r jd comment) mgr_ok"
      using that by (intro leads_keeps join_alone_keeps) simp_all
    then show ?thesis using None by (auto elim: leads_pre)
  next
    case (Some g)
    then show ?thesis using leads_pre [OF join_group_leads [of g player ds']] grp [OF Some] that by simp
  qed
  have rest: "leads ?P (act_read (\<lambda>m.
      let (result, dungeons, lockmap, rDungeonId, isRaid) = join_conditions w m player grp ds';
          joinData = \<lparr>jr_result = result, jr_state = LFG_ROLECHECK_DEFAULT,
                      jr_lockmap = (if result \<noteq> LFG_JOIN_OK \<and> dungeons \<noteq> [] then [] else lockmap)\<rparr> in
      if result \<noteq> LFG_JOIN_OK then act_send (\<lambda>_. [JoinResult (pl_guid player) joinData])
      else act_then (act_change (SetComment (pl_guid player) comment))
        (if isRaid then act_seq []
         else case grp of
           Some g \<Rightarrow> join_group w player g roles dungeons rDungeonId cont comment
         | None \<Rightarrow> join_alone w player roles dungeons rDungeonId joinData comment))) mgr_ok" if ds': "os_ok ds'" for ds' cont
  proof (rule leads_read, goal_cases)
    case (1 m)
    obtain result ds2 lock r raid where c: "join_conditions w m player grp ds' = (result, ds2, lock, r, raid)"
      by (cases "join_conditions w m player grp ds'") auto
    have "os_ok ds2 \<and> ds2 \<noteq> []" if "result = LFG_JOIN_OK"
      using join_conditions_ok [OF conjunct1 [OF 1, unfolded mgr_ok_def] ds'] c that by blast
    then show ?case
      unfolding c Let_def prod.case by (auto intro!: leads_send leads_then [OF comment] enter simp: leads_nil)
  qed
  have "os_ok (if b then [d] else ds)" for b and d :: uint32 using ds by simp
  from rest [OF this] show ?thesis
    unfolding JoinLfg_def Let_def using False queue by (simp add: leads_read leads_then del: act_seq.simps) (blast intro: leads_read leads_then)
qed

lemma JoinLfg_ok:
  assumes "mgr_ok m" "join_pre m player grp ds" "JoinLfg w player grp roles ds comment m = Some (m', e)"
  shows "mgr_ok m'"
  by (rule leadsD [OF JoinLfg_leads _ assms(3)]) (use assms(1,2) in \<open>auto simp: join_pre_def\<close>)

section \<open>The update, and all operations\<close>

lemma Update_keeps:
  assumes "hooks_only w gs"
  shows "keeps mgr_ok (Update w gs diff)"
proof -
  have check: "keeps mgr_ok (expire_role_check w x)" for x
    unfolding mgr_ok_def expire_role_check_def Let_def case_prod_beta by (intro keeps_intros ok_intros)
  have proposal: "keeps mgr_ok (expire_proposal w x)" for x
    unfolding mgr_ok_def expire_proposal_def case_prod_beta by (intro keeps_intros)
  have boot: "keeps mgr_ok (expire_boot w x)" for x
    unfolding mgr_ok_def expire_boot_def Let_def case_prod_beta by (intro keeps_intros ok_intros)
  have player: "keeps mgr_ok (begin_player w p g)" for p g
    unfolding mgr_ok_def begin_player_def Let_def by (intro keeps_intros keeps_cond ok_intros)
  have start: "keeps mgr_ok (begin_new_proposals w gs n)" for n
    unfolding begin_new_proposals_def begin_proposal_def case_prod_beta
    by (intro keeps_read keeps_if keeps_each keeps_then player UpdateProposal_keeps [OF assms])
  have status: "keeps mgr_ok (send_status w i)" for i
  proof (rule keepsI)
    fix m m' e
    assume m: "mgr_ok m" and run: "send_status w i m = Some (m', e)"
    then obtain q sent where q: "UpdateQueueTimers (lw_now w) (queue_at m i) = Some (q, sent)"
      and rest: "act_each (\<lambda>(g, data). SendLfgQueueStatus w g data) sent (put_queue i q m) = Some (m', e)"
      by (auto simp: send_status_def split: option.splits)
    have "mgr_ok (put_queue i q m)"
      using m UpdateQueueTimers_ok [OF queue_at_ok q] unfolding mgr_ok_def by (auto intro: put_queue_ok)
    moreover have "keeps mgr_ok (act_each (\<lambda>(g, data). SendLfgQueueStatus w g data) sent)"
      unfolding case_prod_beta by (intro keeps_intros)
    ultimately show "mgr_ok m'" using rest keeps_step [of mgr_ok] by metis
  qed
  have timer: "keeps mgr_ok (act_change (\<lambda>m. m\<lparr>m_QueueTimer := t m\<rparr>) :: lfg_act)" for t
    unfolding mgr_ok_def by (intro keeps_change ok_intros)
  show ?thesis
    unfolding Update_def
    by (intro keeps_read keeps_if keeps_seq_Cons keeps_seq_Nil keeps_each keeps_then keeps_cond check proposal boot start status timer
        find_in_queue_keeps)
qed

lemma FinishDungeon_keeps: "keeps (mgr_ok_but X R) (FinishDungeon fin g d)"
  unfolding FinishDungeon_def finish_player_def Let_def by (intro keeps_intros ok_intros)

text \<open>A run of the server: each operation with the world and the group system it finds, on a manager that has not yet
  dereferenced the end of a container.\<close>

definition lfg_step :: "LfgWorld \<times> LfgGroupSystem \<times> lfg_op \<Rightarrow> LFGMgr option \<Rightarrow> LFGMgr option" where
  "lfg_step = (\<lambda>(w, gs, op) s. Option.bind s (\<lambda>m. map_option fst (lfg_op_act w gs op m)))"

text \<open>The group system acts through the hooks; a group joins as \<open>join_pre\<close> says; a role is sent by a player of the check,
  or while there is room.\<close>

fun op_pre :: "lfg_op \<Rightarrow> LFGMgr \<Rightarrow> bool" where
  "op_pre (OpJoin player grp roles dungeons comment) m \<longleftrightarrow> join_pre m player grp dungeons"
| "op_pre (OpRole gguid guid roles) m \<longleftrightarrow> (\<forall>rc. om_get (RoleChecksStore m) gguid = Some rc \<longrightarrow> has_room guid rc)"
| "op_pre _ m \<longleftrightarrow> True"

definition lfg_pre :: "LfgWorld \<times> LfgGroupSystem \<times> lfg_op \<Rightarrow> LFGMgr option \<Rightarrow> bool" where
  "lfg_pre = (\<lambda>(w, gs, op) s. hooks_only w gs \<and> (\<forall>m. s = Some m \<longrightarrow> op_pre op m))"

definition lfg_inv :: "LFGMgr option \<Rightarrow> bool" where
  "lfg_inv s \<longleftrightarrow> (\<forall>m. s = Some m \<longrightarrow> mgr_ok m)"

lemma op_keeps:
  assumes "mgr_ok m" "hooks_only w gs" "op_pre op m" "lfg_op_act w gs op m = Some (m', e)"
  shows "mgr_ok m'"
proof (cases op)
  case (OpJoin player grp roles ds comment)
  then show ?thesis using JoinLfg_ok assms by simp
next
  case (OpRole gguid guid roles)
  then show ?thesis using UpdateRoleCheck_ok [of m w gguid guid roles] assms by simp
next
  case (OpAnswer n g a)
  then show ?thesis using keeps_step [OF UpdateProposal_keeps [OF assms(2)]] assms by simp
next
  case (OpUpdate d)
  then show ?thesis using keeps_step [OF Update_keeps [OF assms(2)]] assms by simp
next
  case (OpVote g a)
  then show ?thesis using keeps_step [OF UpdateBoot_keeps [OF assms(2)]] assms by simp
next
  case (OpLeave g)
  then show ?thesis using keeps_step [OF LeaveLfg_keeps] assms by simp
next
  case (OpHook h)
  then show ?thesis using keeps_step [OF hook_keeps] assms by simp
next
  case (OpFinish fin g d)
  then show ?thesis using keeps_step [OF FinishDungeon_keeps [where X = "\<lambda>_. {}" and R = "{}"]] assms by (simp add: mgr_ok_def)
qed (use assms in \<open>auto simp: act_change_def mgr_ok_def intro!: ok_intros\<close>)

interpretation manager: guarded_machine lfg_step lfg_pre lfg_inv
proof
  fix s x
  assume inv: "lfg_inv s" and pre: "lfg_pre x s"
  obtain w gs op where x: "x = (w, gs, op)" by (cases x)
  show "lfg_inv (lfg_step x s)"
    using inv pre op_keeps [of _ w gs op] by (auto simp: lfg_inv_def lfg_pre_def lfg_step_def x bind_eq_Some_conv)
qed

lemma reachable_ok:
  assumes "manager.run (Some (LFGMgr_new options)) ops (Some m)"
  shows "mgr_ok m"
  using manager.run_inv [OF assms] mgr_ok_new by (simp add: lfg_inv_def)

section \<open>What holds in every reachable manager\<close>

text \<open>(C21) The states that a player or group can be sent back to: whatever the players do, the remembered state is none, in a
  dungeon or dungeon finished, a player or group in one of these states has it remembered, and \<open>RestoreState\<close>
  returns to it.\<close>

theorem lfg_restorable_states:
  assumes "manager.run (Some (LFGMgr_new options)) ops (Some m)"
  shows "GetOldState m guid \<in> {LFG_STATE_NONE, LFG_STATE_DUNGEON, LFG_STATE_FINISHED_DUNGEON} \<and>
    (GetState m guid \<in> {LFG_STATE_NONE, LFG_STATE_DUNGEON, LFG_STATE_FINISHED_DUNGEON} \<longrightarrow> GetOldState m guid = GetState m guid) \<and>
    GetState (RestoreState guid m) guid = GetOldState m guid"
proof -
  have "states_ok (GetOldState m guid) (GetState m guid)"
    using reachable_ok [OF assms] by (simp add: mgr_ok_def mgr_ok_but_def players_ok_def groups_ok_def GetState_def GetOldState_def)
  then show ?thesis
    by (auto simp: states_ok_def restorable_def GetState_def GetOldState_def RestoreState_def on_player_def on_group_def
        GD_RestoreState_def PD_RestoreState_def Let_def)
qed

text \<open>(C13) Whatever packets, hooks and updates arrive, the parts of the manager fit together: every entry of a queue has
  players and dungeons, and a player who queued alone is the only one of his entry; an open role check
  belongs to a group, has dungeons and waits for answers; every player of a proposal came from one of the
  entries that the proposal will remove or put back; and every proposal that a search in a queue makes is valid.\<close>

theorem lfg_manager_invariant:
  assumes "manager.run (Some (LFGMgr_new options)) ops (Some m)"
  shows "(\<forall>i q g d. om_get (QueuesStore m) i = Some q \<longrightarrow> om_get (QueueDataStore q) g = Some d \<longrightarrow>
      qd_dungeons d \<noteq> [] \<and> qd_roles d \<noteq> [] \<and> length (qd_roles d) \<le> 40 \<and> (\<not> IS_GROUP_GUID g \<longrightarrow> om_keys (qd_roles d) = [g])) \<and>
    (\<forall>gguid rc. om_get (RoleChecksStore m) gguid = Some rc \<longrightarrow>
      IS_GROUP_GUID gguid \<and> rc_dungeons rc \<noteq> [] \<and> rc_state rc = LFG_ROLECHECK_INITIALITING) \<and>
    (\<forall>n p. om_get (ProposalsStore m) n = Some p \<longrightarrow>
      lp_players p \<noteq> [] \<and> (\<forall>x \<in> set (lp_players p). proposal_entry x \<in> set (lp_queues p))) \<and>
    (\<forall>w i n s. FindGroups (queue_env w m) \<lparr>mt_queue = queue_at m i, mt_proposals = [], mt_draws = m_draws m\<rparr> = Some (n, s) \<longrightarrow>
      (\<forall>p \<in> set (mt_proposals s). proposal_valid (queue_env w m) (queue_at m i) p))"
proof (intro conjI)
  note ok = reachable_ok [OF assms]
  note but = ok [unfolded mgr_ok_def]
  show "\<forall>i q g d. om_get (QueuesStore m) i = Some q \<longrightarrow> om_get (QueueDataStore q) g = Some d \<longrightarrow>
      qd_dungeons d \<noteq> [] \<and> qd_roles d \<noteq> [] \<and> length (qd_roles d) \<le> 40 \<and> (\<not> IS_GROUP_GUID g \<longrightarrow> om_keys (qd_roles d) = [g])"
    using queue_at_ok [OF but] unfolding queue_ok_def by (auto simp: queue_at_def entry_ok_def) (metis option.simps(5))+
  show "\<forall>gguid rc. om_get (RoleChecksStore m) gguid = Some rc \<longrightarrow>
      IS_GROUP_GUID gguid \<and> rc_dungeons rc \<noteq> [] \<and> rc_state rc = LFG_ROLECHECK_INITIALITING"
    using role_check_found [OF ok] by (simp add: check_ok_def)
  show "\<forall>n p. om_get (ProposalsStore m) n = Some p \<longrightarrow>
      lp_players p \<noteq> [] \<and> (\<forall>x \<in> set (lp_players p). proposal_entry x \<in> set (lp_queues p))"
    using proposal_found [OF but] by (simp add: prop_ok_def)
  show "\<forall>w i n s. FindGroups (queue_env w m) \<lparr>mt_queue = queue_at m i, mt_proposals = [], mt_draws = m_draws m\<rparr> = Some (n, s) \<longrightarrow>
      (\<forall>p \<in> set (mt_proposals s). proposal_valid (queue_env w m) (queue_at m i) p)"
  proof (intro allI impI)
    fix w i n s
    assume run: "FindGroups (queue_env w m) \<lparr>mt_queue = queue_at m i, mt_proposals = [], mt_draws = m_draws m\<rparr> = Some (n, s)"
    have "search_ok (queue_env w m) (queue_at m i) [] \<lparr>mt_queue = queue_at m i, mt_proposals = [], mt_draws = m_draws m\<rparr>"
      using queue_at_ok [OF but, of i] by (simp add: search_ok_def queue_ok_all)
    from valid_search.groups_keeps [OF this run [unfolded FindGroups_def]]
    show "\<forall>p \<in> set (mt_proposals s). proposal_valid (queue_env w m) (queue_at m i) p"
      by (auto simp: search_ok_def)
  qed
qed

text \<open>A run: a dungeon is loaded, five players join alone, and the update finds their group.\<close>

definition sample_player :: "uint64 \<Rightarrow> LfgPlayer" where
  "sample_player g = \<lparr>pl_guid = g, pl_level = 20, pl_expansion = 2, pl_alliance = True, pl_canJoin = True, pl_inBattleground = False,
     pl_aura = (\<lambda>_. False), pl_disabledMap = (\<lambda>_. False), pl_boundInstance = (\<lambda>_ _. False), pl_itemLevel = 0,
     pl_achieved = (\<lambda>_. False), pl_questRewarded = (\<lambda>_. False), pl_hasItem = (\<lambda>_. False)\<rparr>"

definition sample_world :: LfgWorld where
  "sample_world = \<lparr>lw_now = 1000, lw_Connected = (\<lambda>_. True), lw_IgnoreList = (\<lambda>_ _. False), lw_urand = (\<lambda>n lo hi. hi), lw_twoSide = True,
     lw_HolidayActive = (\<lambda>_. False), lw_FindPlayer = (\<lambda>g. Some (sample_player g)), lw_AccessRequirement = (\<lambda>_ _. None)\<rparr>"

definition sample_groups :: LfgGroupSystem where
  "sample_groups = \<lparr>gs_form = (\<lambda>p ps m. map_option (\<lambda>(m, e). (0x1F50000000000001, m, e))
       (lfg_hook_act sample_world (HookForming 0x1F50000000000001) m)),
     gs_kick = (\<lambda>gguid guid. lfg_hook_act sample_world (HookRemove gguid True guid GROUP_REMOVEMETHOD_KICK_LFG 0 [] None)),
     gs_exists = (\<lambda>_. True), gs_dbStoreId = (\<lambda>_. 1)\<rparr>"

definition sample_op :: "lfg_op \<Rightarrow> LfgWorld \<times> LfgGroupSystem \<times> lfg_op" where
  "sample_op op = (sample_world, sample_groups, op)"

definition sample_join :: "uint64 \<Rightarrow> uint8 \<Rightarrow> LfgWorld \<times> LfgGroupSystem \<times> lfg_op" where
  "sample_join g role = sample_op (OpJoin (sample_player g) None role [10] [])"

definition sample_dungeon :: "LfgWorld \<times> LfgGroupSystem \<times> lfg_op" where
  "sample_dungeon = sample_op (OpDungeons False [\<lparr>le_ID = 10, le_map = 36, le_type = 1, le_expansion = 0, le_grouptype = 1, le_minlevel = 15,
     le_maxlevel = 25, le_difficulty = 0, le_flags = 0\<rparr>] [(10, 1, 1, 1, 0)] (\<lambda>_. None))"

definition sample_ops :: "(LfgWorld \<times> LfgGroupSystem \<times> lfg_op) list" where
  "sample_ops = [sample_dungeon, sample_join 1 PLAYER_ROLE_TANK, sample_join 2 PLAYER_ROLE_HEALER, sample_join 3 PLAYER_ROLE_DAMAGE,
     sample_join 4 PLAYER_ROLE_DAMAGE, sample_join 5 PLAYER_ROLE_DAMAGE, sample_op (OpUpdate 1)]"

lemma sample_hooks: "hooks_only sample_world sample_groups"
  unfolding hooks_only_def sample_groups_def
  by (auto intro: hook_run.intros simp del: lfg_hook_act.simps)

lemma fold_run: "\<forall>x \<in> set ops. \<forall>s. lfg_pre x s \<Longrightarrow> manager.run s ops (fold lfg_step ops s)"
  by (induction ops arbitrary: s) (auto intro: manager.run_nil manager.run_cons)

lemma sample_pre: "lfg_pre (sample_join g r) s" "lfg_pre sample_dungeon s" "lfg_pre (sample_op (OpUpdate d)) s"
  by (simp_all add: lfg_pre_def sample_join_def sample_op_def sample_dungeon_def sample_hooks join_pre_def open_checks_def)

lemma sample_run: "manager.run (Some (LFGMgr_new 3)) sample_ops (fold lfg_step sample_ops (Some (LFGMgr_new 3)))"
  by (rule fold_run) (auto simp: sample_ops_def intro: sample_pre)

lemma sample_state:
  "\<exists>m. fold lfg_step sample_ops (Some (LFGMgr_new 3)) = Some m \<and> map (GetState m) [1, 2, 6] = [LFG_STATE_PROPOSAL, LFG_STATE_PROPOSAL, LFG_STATE_NONE] \<and>
     map (\<lambda>(n, p). (n, lp_queues p)) (ProposalsStore m) = [(2, [5, 1, 2, 3, 4])]"
proof -
  have "map_option (\<lambda>m. (map (GetState m) [1, 2, 6], map (\<lambda>(n, p). (n, lp_queues p)) (ProposalsStore m)))
      (fold lfg_step sample_ops (Some (LFGMgr_new 3))) =
    Some ([LFG_STATE_PROPOSAL, LFG_STATE_PROPOSAL, LFG_STATE_NONE], [(2, [5, 1, 2, 3, 4])])"
    by code_simp
  then show ?thesis by auto
qed

theorem lfg_restorable_states_witness:
  "\<exists>m. manager.run (Some (LFGMgr_new 3)) sample_ops (Some m) \<and> GetState m 1 = LFG_STATE_PROPOSAL \<and>
     GetState (RestoreState 1 m) 1 \<in> {LFG_STATE_NONE, LFG_STATE_DUNGEON, LFG_STATE_FINISHED_DUNGEON} \<and> GetOldState m 6 = LFG_STATE_NONE"
proof -
  obtain m where m: "fold lfg_step sample_ops (Some (LFGMgr_new 3)) = Some m" "GetState m 1 = LFG_STATE_PROPOSAL" "GetState m 6 = LFG_STATE_NONE"
    using sample_state by auto
  note run = sample_run [unfolded m(1)]
  show ?thesis
    using lfg_restorable_states [OF run, of 1] lfg_restorable_states [OF run, of 6] run m by auto
qed

theorem lfg_manager_invariant_witness:
  "\<exists>m p. manager.run (Some (LFGMgr_new 3)) sample_ops (Some m) \<and> om_get (ProposalsStore m) 2 = Some p \<and> lp_players p \<noteq> [] \<and>
     (\<forall>x \<in> set (lp_players p). proposal_entry x \<in> {1, 2, 3, 4, 5})"
proof -
  obtain m where m: "fold lfg_step sample_ops (Some (LFGMgr_new 3)) = Some m"
    "map (\<lambda>(n, p). (n, lp_queues p)) (ProposalsStore m) = [(2, [5, 1, 2, 3, 4])]"
    using sample_state by auto
  then obtain p where p: "ProposalsStore m = [(2, p)]" "lp_queues p = [5, 1, 2, 3, 4]" by auto
  note run = sample_run [unfolded m(1)]
  have "om_get (ProposalsStore m) 2 = Some p" by (simp add: p(1))
  moreover from this have "lp_players p \<noteq> [] \<and> (\<forall>x \<in> set (lp_players p). proposal_entry x \<in> set (lp_queues p))"
    using lfg_manager_invariant [OF run] by blast
  moreover have "set (lp_queues p) = {1, 2, 3, 4, 5}" unfolding p(2) by auto
  ultimately show ?thesis using run by auto
qed

section \<open>Where a container is empty\<close>

lemma returns_to_player [returns_intros]: "returns (to_player w guid ef)"
  by (simp add: to_player_def returns_basic)

lemma returns_packets [returns_intros]:
  "returns (SendLfgRoleChosen w g p r)" "returns (SendLfgRoleCheckUpdate w g rc)" "returns (SendLfgUpdatePlayer w g d)"
  "returns (SendLfgUpdateParty w g d)" "returns (SendLfgJoinResult w g j)" "returns (SendLfgBootProposalUpdate w g b)"
  "returns (SendLfgUpdateProposal w g q)" "returns (SendLfgQueueStatus w g s)"
  by (simp_all add: packets returns_to_player)

lemma removed_player_returns: "returns (removed_player w p ty rs x)"
  unfolding removed_player_def Let_def case_prod_beta by (intro returns_intros)

lemma RemoveProposal_returns:
  assumes "om_get (ProposalsStore m) n = Some p" "lp_players p \<noteq> []"
  shows "RemoveProposal w n ty m \<noteq> None"
proof -
  obtain g d xs where "lp_players (failed_proposal ty p) = (g, d) # xs"
    using assms(2) by (cases "lp_players p") (auto simp: failed_proposal_def)
  then have "returns (act_seq
      [act_change (\<lambda>m. m\<lparr>ProposalsStore := om_put n (failed_proposal ty p) (ProposalsStore m)\<rparr>),
       act_each (removed_player w (failed_proposal ty p) ty rs) (lp_players (failed_proposal ty p)),
       (case lp_players (failed_proposal ty p) of
          [] \<Rightarrow> (\<lambda>_. None)
        | (first, _) # _ \<Rightarrow> act_read (\<lambda>m. act_change (at_queue (GetQueue m first) (\<lambda>q.
            fold AddToQueue (filter (\<lambda>g. \<not> os_mem rs g) (lp_queues (failed_proposal ty p))) (fold RemoveFromQueue rs q))))),
       act_change (erase_proposal n)])" for rs
    by (intro returns_intros removed_player_returns) (simp add: returns_basic)
  then show ?thesis
    unfolding RemoveProposal_def act_read_def [of "\<lambda>m. case om_get (ProposalsStore m) n of None \<Rightarrow> _ m | Some old \<Rightarrow> _ m old"]
    by (simp add: act_read_def [of _ m] assms(1) Let_def returns_def)
qed

lemma timers_return: "(\<forall>x \<in> set ds. qd_dungeons (snd x) \<noteq> []) \<Longrightarrow> timers_loop t ds q \<noteq> None"
proof (induction t ds q rule: timers_loop.induct)
  case (2 t g d ds q)
  then obtain x xs where x: "qd_dungeons d = x # xs" by (cases "qd_dungeons d") auto
  show ?case using "2.IH" [OF x refl refl refl refl] "2.prems" by (simp add: x Let_def)
qed simp

lemma leave_proposal_returns:
  assumes "mgr_ok_but X R m"
  shows "leave_proposal w g m \<noteq> None"
proof (cases "find (\<lambda>(_, p). om_get (lp_players p) g \<noteq> None) (ProposalsStore m)")
  case (Some np)
  obtain n p where np: "np = (n, p)" by (cases np)
  let ?p = "p\<lparr>lp_players := map (\<lambda>(h, d). (h, if h = g then d\<lparr>pp_accept := LFG_ANSWER_DENY\<rparr> else d)) (lp_players p)\<rparr>"
  let ?m = "m\<lparr>ProposalsStore := om_put n ?p (ProposalsStore m)\<rparr>"
  have "(n, p) \<in> set (ProposalsStore m)" using Some np by (auto simp: find_Some_iff in_set_conv_nth)
  from proposal_in_store [OF assms this] have "RemoveProposal w n LFG_UPDATETYPE_PROPOSAL_DECLINED ?m \<noteq> None"
    by (intro RemoveProposal_returns [of _ _ ?p]) (simp_all add: om_get_put prop_ok_def)
  then show ?thesis
    using Some np by (auto simp: leave_proposal_def act_read_def act_then_def act_change_def)
qed (simp add: leave_proposal_def act_read_def act_send_def)

lemma UpdateRoleCheck_returns: "returns (UpdateRoleCheck w gguid guid roles)"
proof -
  have member: "returns (role_check_member w rc b g r ds x)" for rc b g r ds x
    by (cases x; cases "rc_state rc") (auto simp: role_check_member_def intro!: returns_intros)
  show ?thesis
    unfolding UpdateRoleCheck_def Let_def by (auto split: option.split intro!: returns_intros member)
qed

text \<open>(C22) In every reachable manager no request to leave, no expiry or refusal of a proposal, no answer to a role check
  and no update of the queue timers dereferences the end of a container.\<close>

theorem lfg_leaving_safe:
  assumes "manager.run (Some (LFGMgr_new options)) ops (Some m)"
  shows "LeaveLfg w guid m \<noteq> None \<and> UpdateRoleCheck w gguid guid roles m \<noteq> None \<and> UpdateQueueTimers t (queue_at m i) \<noteq> None \<and>
    (om_get (ProposalsStore m) n \<noteq> None \<longrightarrow> RemoveProposal w n ty m \<noteq> None)"
proof (intro conjI impI)
  note ok = reachable_ok [OF assms]
  note but = ok [unfolded mgr_ok_def]
  have check: "UpdateRoleCheck w g g' r m' \<noteq> None" for w g g' r m'
    using UpdateRoleCheck_returns unfolding returns_def by blast
  then show "UpdateRoleCheck w gguid guid roles m \<noteq> None" .
  have "returns (act_seq
      [act_change (at_queue i (RemoveFromQueue g)), act_change (SetState g LFG_STATE_NONE),
       act_each (\<lambda>p. act_then (act_change (SetState p LFG_STATE_NONE)) (SendLfgUpdateParty w p d)) ps])" for i g d ps
    by (intro returns_intros)
  moreover have "returns (act_seq
      [act_change (at_queue i (RemoveFromQueue g)), SendLfgUpdatePlayer w g d, act_change (SetState g LFG_STATE_NONE)])" for i g d
    by (intro returns_intros)
  moreover have "returns (act_if b (act_change f) :: lfg_act)" "returns (act_if b (UpdateRoleCheck w g 0 PLAYER_ROLE_NONE))"
    "returns (act_seq [] :: lfg_act)" for b f g
    by (intro returns_intros UpdateRoleCheck_returns)+
  ultimately show "LeaveLfg w guid m \<noteq> None"
    using leave_proposal_returns [OF but] unfolding LeaveLfg_def Let_def returns_def
    by (subst act_read_def, cases "GetState m guid") (simp_all del: act_seq.simps)
  show "UpdateQueueTimers t (queue_at m i) \<noteq> None"
    unfolding UpdateQueueTimers_def
  proof (rule timers_return)
    have "queue_ok {} (queue_at m i)" by (rule queue_at_ok [OF but])
    then show "\<forall>x \<in> set (QueueDataStore (queue_at m i)). qd_dungeons (snd x) \<noteq> []"
      by (auto simp: queue_ok_def om_set_iff entry_ok_def)
  qed
  show "RemoveProposal w n ty m \<noteq> None" if "om_get (ProposalsStore m) n \<noteq> None"
    using that RemoveProposal_returns proposal_found [OF but, of n] by (fastforce simp: prop_ok_def)
qed

theorem lfg_leaving_safe_witness:
  "\<exists>m. manager.run (Some (LFGMgr_new 3)) sample_ops (Some m) \<and> GetState m 1 = LFG_STATE_PROPOSAL \<and> LeaveLfg sample_world 1 m \<noteq> None \<and>
     RemoveProposal sample_world 2 LFG_UPDATETYPE_PROPOSAL_FAILED m \<noteq> None"
proof -
  obtain m where m: "fold lfg_step sample_ops (Some (LFGMgr_new 3)) = Some m" "GetState m 1 = LFG_STATE_PROPOSAL"
    "map (\<lambda>(n, p). (n, lp_queues p)) (ProposalsStore m) = [(2, [5, 1, 2, 3, 4])]"
    using sample_state by auto
  then obtain p where p: "ProposalsStore m = [(2, p)]" by auto
  note run = sample_run [unfolded m(1)]
  show ?thesis
    using lfg_leaving_safe [OF run, of sample_world 1 0 0 0 0 2 LFG_UPDATETYPE_PROPOSAL_FAILED] run m(2) by (auto simp: p)
qed

text \<open>(C23) Accepting a proposal can dereference the end of an empty set: a player whose proposal is open joins a group that is
  then disbanded, which clears his selected dungeons but leaves the proposal, and when the last player
  accepts, \<open>UpdateProposal\<close> takes the first selected dungeon of each.\<close>

theorem lfg_empty_selection:
  "\<exists>ops m w gs n guid p g. manager.run (Some (LFGMgr_new 3)) ops (Some m) \<and> hooks_only w gs \<and> om_get (ProposalsStore m) n = Some p \<and>
     g \<in> set (om_keys (lp_players p)) \<and> GetSelectedDungeons m g = [] \<and> UpdateProposal w gs n guid True m = None"
proof -
  let ?ops = "sample_ops @ map sample_op ([OpHook (HookAdd 0x1F50000000000002 9 1), OpHook (HookDisband 0x1F50000000000002)] @
    map (\<lambda>g. OpAnswer 2 g True) [1, 2, 3, 4])"
  have "lfg_pre (sample_op op) s" if "op_pre op = (\<lambda>_. True)" for op s
    using that by (simp add: lfg_pre_def sample_op_def sample_hooks)
  then have run: "manager.run (Some (LFGMgr_new 3)) ?ops (fold lfg_step ?ops (Some (LFGMgr_new 3)))"
    by (intro fold_run) (auto simp: sample_ops_def fun_eq_iff intro: sample_pre)
  have "map_option (\<lambda>m. (map_option (om_keys \<circ> lp_players) (om_get (ProposalsStore m) 2), GetSelectedDungeons m 1,
      UpdateProposal sample_world sample_groups 2 5 True m = None)) (fold lfg_step ?ops (Some (LFGMgr_new 3))) = Some (Some [1, 2, 3, 4, 5], [], True)"
    by code_simp
  then show ?thesis using run sample_hooks by fastforce
qed

end
