(* ===== verification/LootRoll.thy ===== *)
theory LootRoll
  imports Action WorldPacket ObjectDefines
begin

text \<open>
  Loot rolls of a group (\<open>Groups/Group.cpp\<close>, \<open>Groups/Group.h\<close>) on the loot of \<open>Loot/LootMgr.h\<close>: opening rolls for the
  items over the threshold, counting votes, drawing the winner, ending the rolls when the timer of the corpse
  expires, and the departure of a member.  The rolls of the group are the vector \<open>RollId\<close>; loots are objects in a
  store, and a roll refers to its loot by a reference that the loot cuts when it is cleared.  An action is \<open>None\<close>
  where the code leaves a vector, dereferences a null pointer or hits an \<open>ASSERT\<close>.
\<close>

section \<open>Data\<close>

datatype RollVote = PASS | NEED | GREED | DISENCHANT | NOT_EMITED_YET | NOT_VALID

fun vote_value :: "RollVote \<Rightarrow> uint8" where
  "vote_value PASS = 0"
| "vote_value NEED = 1"
| "vote_value GREED = 2"
| "vote_value DISENCHANT = 3"
| "vote_value NOT_EMITED_YET = 4"
| "vote_value NOT_VALID = 5"

abbreviation ROLL_PASS :: uint8 where "ROLL_PASS \<equiv> 0"
abbreviation ROLL_NEED :: uint8 where "ROLL_NEED \<equiv> 1"
abbreviation ROLL_GREED :: uint8 where "ROLL_GREED \<equiv> 2"
abbreviation ROLL_DISENCHANT :: uint8 where "ROLL_DISENCHANT \<equiv> 3"
abbreviation MAX_ROLL_TYPE :: uint8 where "MAX_ROLL_TYPE \<equiv> 4"

abbreviation ROLL_FLAG_TYPE_NEED :: uint8 where "ROLL_FLAG_TYPE_NEED \<equiv> 0x02"
abbreviation ROLL_FLAG_TYPE_DISENCHANT :: uint8 where "ROLL_FLAG_TYPE_DISENCHANT \<equiv> 0x08"
abbreviation ROLL_ALL_TYPE_NO_DISENCHANT :: uint8 where "ROLL_ALL_TYPE_NO_DISENCHANT \<equiv> 0x07"

abbreviation SMSG_LOOT_ALL_PASSED :: uint16 where "SMSG_LOOT_ALL_PASSED \<equiv> 0x29E"
abbreviation SMSG_LOOT_ROLL_WON :: uint16 where "SMSG_LOOT_ROLL_WON \<equiv> 0x29F"
abbreviation SMSG_LOOT_START_ROLL :: uint16 where "SMSG_LOOT_START_ROLL \<equiv> 0x2A1"
abbreviation SMSG_LOOT_ROLL :: uint16 where "SMSG_LOOT_ROLL \<equiv> 0x2A2"
abbreviation SMSG_LOOT_MASTER_LIST :: uint16 where "SMSG_LOOT_MASTER_LIST \<equiv> 0x2A4"

abbreviation LOOT_NONE :: uint8 where "LOOT_NONE \<equiv> 0"
abbreviation LOOT_CORPSE :: uint8 where "LOOT_CORPSE \<equiv> 1"
abbreviation LOOT_SKINNING :: uint8 where "LOOT_SKINNING \<equiv> 6"
abbreviation EQUIP_ERR_OK :: uint8 where "EQUIP_ERR_OK \<equiv> 0"

datatype LootMethod = FREE_FOR_ALL | ROUND_ROBIN | MASTER_LOOT | GROUP_LOOT | NEED_BEFORE_GREED

text \<open>An item of a loot, and the entry of a loot template that it comes from (an entry for an item, not a reference to
  another template).  Conditions are named by numbers; they are asked through \<open>AllowedForPlayer\<close> below.\<close>

record LootItem =
  li_itemid :: uint32
  li_randomSuffix :: uint32
  li_randomPropertyId :: uint32
  li_conditions :: "uint32 list"
  allowedGUIDs :: "uint32 list"
  li_count :: uint8
  is_looted :: bool
  is_blocked :: bool
  freeforall :: bool
  is_underthreshold :: bool
  is_counted :: bool
  needs_quest :: bool
  follow_loot_rules :: bool
  canSave :: bool

record LootStoreItem =
  ls_itemid :: uint32
  ls_mincount :: uint32
  ls_needs_quest :: bool
  ls_maxcount :: uint8
  ls_conditions :: "uint32 list"

record Loot =
  loot_items :: "LootItem list"
  quest_items :: "LootItem list"
  gold :: uint32
  unlootedCount :: uint8
  roundRobinPlayer :: uint64
  loot_type :: uint8

record Roll =
  itemGUID :: uint64
  itemid :: uint32
  itemRandomPropId :: uint32
  itemRandomSuffix :: uint32
  itemCount :: uint8
  playerVote :: "(uint64, RollVote) omap"
  totalPlayersRolling :: uint8
  totalNeed :: uint8
  totalGreed :: uint8
  totalPass :: uint8
  itemSlot :: uint8
  rollVoteMask :: uint8
  roll_target :: "nat option"

definition Roll_new :: "uint64 \<Rightarrow> LootItem \<Rightarrow> Roll" where
  "Roll_new guid li =
     \<lparr>itemGUID = guid, itemid = li_itemid li, itemRandomPropId = li_randomPropertyId li,
      itemRandomSuffix = li_randomSuffix li, itemCount = li_count li, playerVote = [], totalPlayersRolling = 0,
      totalNeed = 0, totalGreed = 0, totalPass = 0, itemSlot = 0, rollVoteMask = ROLL_ALL_TYPE_NO_DISENCHANT,
      roll_target = None\<rparr>"

record ItemTemplate =
  it_Quality :: uint32
  it_DisenchantID :: uint32
  it_RequiredDisenchantSkill :: uint32
  it_Flags :: uint32
  it_Flags2 :: uint32
  it_FlagsCu :: uint32
  it_Stackable :: int

abbreviation ITEM_PROTO_FLAG_PARTY_LOOT :: uint32 where "ITEM_PROTO_FLAG_PARTY_LOOT \<equiv> 0x800"
abbreviation ITEM_FLAGS_CU_FOLLOW_LOOT_RULES :: uint32 where "ITEM_FLAGS_CU_FOLLOW_LOOT_RULES \<equiv> 4"
abbreviation MAX_NR_LOOT_ITEMS :: nat where "MAX_NR_LOOT_ITEMS \<equiv> 16"
abbreviation MAX_NR_QUEST_ITEMS :: nat where "MAX_NR_QUEST_ITEMS \<equiv> 32"

definition GetMaxStackSize :: "ItemTemplate \<Rightarrow> uint32" where
  "GetMaxStackSize proto =
     (if it_Stackable proto = 2147483647 \<or> it_Stackable proto \<le> 0 then 0x7FFFFFFF - 1 else of_int (it_Stackable proto))"

abbreviation ITEM_FLAGS_EXTRA_NEED_ROLL_DISABLED :: uint32 where "ITEM_FLAGS_EXTRA_NEED_ROLL_DISABLED \<equiv> 0x100"

text \<open>The rolls of a group, the loots of the world, the counter of item GUIDs, and how many random numbers were drawn
  and inventories asked so far.\<close>

record RollState =
  RollId :: "Roll list"
  loots :: "nat \<Rightarrow> Loot option"
  hiItemGuid :: uint32
  drawn :: nat

datatype roll_effect =
    SendTo uint64 WorldPacket
  | Criteria uint64 uint32 uint32 uint32
  | NotifyItemRemoved nat uint8
  | StoreNewItem uint64 uint32 uint32 "uint32 list"
  | SendEquipError uint64 uint8 uint32
  | AutoStoreLoot uint64 uint32
  | SendItemRetrievalMail uint64 uint32 uint8
  | GroupLootTimer uint32 uint32

type_synonym roll_act = "(RollState, roll_effect) act"

text \<open>What the rolls ask of players, of the group and of the world.  The answers about inventories and the random
  numbers depend on the moment they are asked.\<close>

record RollEnv =
  re_FindPlayer :: "uint64 \<Rightarrow> bool"
  re_FindConnectedPlayer :: "uint64 \<Rightarrow> bool"
  re_FindMap :: "uint64 \<Rightarrow> nat option"
  re_urand :: "nat \<Rightarrow> uint32 \<Rightarrow> uint32 \<Rightarrow> uint32"
  re_CanStoreNewItem :: "nat \<Rightarrow> uint64 \<Rightarrow> uint32 \<Rightarrow> uint8 \<Rightarrow> uint8"
  re_GenerateEnchSuffixFactor :: "nat \<Rightarrow> uint32 \<Rightarrow> uint32"
  re_GenerateItemRandomPropertyId :: "nat \<Rightarrow> uint32 \<Rightarrow> uint32"
  re_GetItemTemplate :: "uint32 \<Rightarrow> ItemTemplate option"
  re_DisenchantLoot :: "nat \<Rightarrow> uint32 \<Rightarrow> uint64 \<Rightarrow> (uint32 \<times> uint8) list"
  re_AllowedForPlayer :: "LootItem \<Rightarrow> uint64 \<Rightarrow> bool"
  re_near :: "uint64 \<Rightarrow> bool"
  re_inWorld :: "uint64 \<Rightarrow> bool"
  re_PassOnGroupLoot :: "uint64 \<Rightarrow> bool"
  re_CanRollForItemInLFG :: "uint64 \<Rightarrow> ItemTemplate option \<Rightarrow> uint8"
  re_members :: "uint64 list"
  re_lootThreshold :: uint32
  re_maxEnchantingLevel :: uint32
  re_lowGuid :: uint32
  re_mapId :: uint32
  re_hasTimer :: bool

section \<open>Loots\<close>

definition on_loot :: "nat \<Rightarrow> (Loot \<Rightarrow> Loot) \<Rightarrow> RollState \<Rightarrow> RollState" where
  "on_loot l f s = s\<lparr>loots := (loots s)(l := map_option f (loots s l))\<rparr>"

definition undefined_act :: roll_act where
  "undefined_act s = None"

definition with_loot :: "nat \<Rightarrow> (Loot \<Rightarrow> roll_act) \<Rightarrow> roll_act" where
  "with_loot l f = act_read (\<lambda>s. case loots s l of None \<Rightarrow> undefined_act | Some L \<Rightarrow> f L)"

text \<open>The item of a slot: the quest items follow the other items.\<close>

definition roll_item :: "Loot \<Rightarrow> uint8 \<Rightarrow> LootItem option" where
  "roll_item L slot =
     (let i = unat slot; n = length (loot_items L) in
      if n \<le> i then (if i - n < length (quest_items L) then Some (quest_items L ! (i - n)) else None)
      else Some (loot_items L ! i))"

definition on_roll_item :: "uint8 \<Rightarrow> (LootItem \<Rightarrow> LootItem) \<Rightarrow> Loot \<Rightarrow> Loot" where
  "on_roll_item slot f L =
     (let i = unat slot; n = length (loot_items L) in
      if n \<le> i then L\<lparr>quest_items := (quest_items L)[i - n := f (quest_items L ! (i - n))]\<rparr>
      else L\<lparr>loot_items := (loot_items L)[i := f (loot_items L ! i)]\<rparr>)"

definition invalidate :: "nat \<Rightarrow> Roll \<Rightarrow> Roll" where
  "invalidate l r = (if roll_target r = Some l then r\<lparr>roll_target := None\<rparr> else r)"

definition Loot_clear :: "nat \<Rightarrow> roll_act" where
  "Loot_clear l = act_change (\<lambda>s. (on_loot l (\<lambda>L. L\<lparr>loot_items := [], quest_items := [], gold := 0, unlootedCount := 0,
       roundRobinPlayer := 0, loot_type := LOOT_NONE\<rparr>) s)\<lparr>RollId := map (invalidate l) (RollId s)\<rparr>)"

definition Loot_new :: Loot where
  "Loot_new = \<lparr>loot_items = [], quest_items = [], gold = 0, unlootedCount = 0, roundRobinPlayer = 0, loot_type = LOOT_CORPSE\<rparr>"

definition LootItem_new :: "RollEnv \<Rightarrow> nat \<Rightarrow> LootStoreItem \<Rightarrow> LootItem" where
  "LootItem_new env d li =
     (let proto = re_GetItemTemplate env (ls_itemid li);
          proto_flag = (\<lambda>sel f. case proto of None \<Rightarrow> False | Some p \<Rightarrow> has_flag (sel p) f)
      in \<lparr>li_itemid = ls_itemid li, li_randomSuffix = re_GenerateEnchSuffixFactor env d (ls_itemid li),
          li_randomPropertyId = re_GenerateItemRandomPropertyId env d (ls_itemid li), li_conditions = ls_conditions li,
          allowedGUIDs = [], li_count = 0, is_looted = False, is_blocked = False,
          freeforall = proto_flag it_Flags ITEM_PROTO_FLAG_PARTY_LOOT, is_underthreshold = False, is_counted = False,
          needs_quest = ls_needs_quest li, follow_loot_rules = proto_flag it_FlagsCu ITEM_FLAGS_CU_FOLLOW_LOOT_RULES,
          canSave = True\<rparr>)"

text \<open>A drop is cut into stacks while there is room.\<close>

fun add_stacks :: "RollEnv \<Rightarrow> LootStoreItem \<Rightarrow> uint32 \<Rightarrow> nat \<Rightarrow> nat \<Rightarrow> uint32 \<Rightarrow> nat \<Rightarrow> LootItem list \<Rightarrow> LootItem list" where
  "add_stacks env li maxStack limit 0 count d xs = xs"
| "add_stacks env li maxStack limit (Suc k) count d xs =
     (if length xs < limit
      then add_stacks env li maxStack limit k (count - maxStack) (Suc d)
             (xs @ [(LootItem_new env d li)\<lparr>li_count := ucast (min count maxStack)\<rparr>])
      else xs)"

definition add_drop :: "RollEnv \<Rightarrow> LootStoreItem \<Rightarrow> ItemTemplate \<Rightarrow> uint32 \<Rightarrow> nat \<Rightarrow> Loot \<Rightarrow> nat \<times> Loot" where
  "add_drop env li proto count d L =
     (let maxStack = GetMaxStackSize proto;
          stacks = unat (count div maxStack) + (if count mod maxStack \<noteq> 0 then 1 else 0);
          lootItems = (if ls_needs_quest li then quest_items L else loot_items L);
          limit = (if ls_needs_quest li then MAX_NR_QUEST_ITEMS else MAX_NR_LOOT_ITEMS);
          lootItems' = add_stacks env li maxStack limit stacks count d lootItems;
          added = length lootItems' - length lootItems;
          L = (if ls_needs_quest li then L\<lparr>quest_items := lootItems'\<rparr> else L\<lparr>loot_items := lootItems'\<rparr>)
      in (added,
          if \<not> ls_needs_quest li \<and> ls_conditions li = [] \<and> \<not> has_flag (it_Flags proto) ITEM_PROTO_FLAG_PARTY_LOOT
          then L\<lparr>unlootedCount := unlootedCount L + of_nat added\<rparr> else L))"

definition AddItem :: "RollEnv \<Rightarrow> nat \<Rightarrow> LootStoreItem \<Rightarrow> roll_act" where
  "AddItem env l li = with_loot l (\<lambda>L. act_read (\<lambda>s.
     case re_GetItemTemplate env (ls_itemid li) of
       None \<Rightarrow> act_seq []
     | Some proto \<Rightarrow>
         let count = re_urand env (drawn s) (ls_mincount li) (ucast (ls_maxcount li)) in
         act_then
           (act_change (on_loot l (\<lambda>L. snd (add_drop env li proto count (Suc (drawn s)) L))))
           (act_change (\<lambda>t. t\<lparr>drawn := Suc (drawn s) + fst (add_drop env li proto count (Suc (drawn s)) L)\<rparr>))))"

text \<open>A creature killed by a group: its loot is cleared, the entries that dropped are added, the looter whose turn it is
  owns it, and items below the threshold are marked.  Which entries drop is decided by the loot templates; the
  lists of items only some players see are not kept.\<close>

definition mark_underthreshold :: "RollEnv \<Rightarrow> LootItem \<Rightarrow> LootItem" where
  "mark_underthreshold env i =
     (case re_GetItemTemplate env (li_itemid i) of
        None \<Rightarrow> i
      | Some proto \<Rightarrow> if it_Quality proto < re_lootThreshold env then i\<lparr>is_underthreshold := True\<rparr> else i)"

definition kill_creature :: "RollEnv \<Rightarrow> nat \<Rightarrow> uint64 \<Rightarrow> LootStoreItem list \<Rightarrow> roll_act" where
  "kill_creature env l lootOwner dropped = with_loot l (\<lambda>_. act_seq
     [Loot_clear l,
      act_each (AddItem env l) dropped,
      act_change (on_loot l (\<lambda>L. L\<lparr>roundRobinPlayer := lootOwner,
        loot_items := map (mark_underthreshold env) (loot_items L)\<rparr>))])"

definition GenerateItemGuid :: "(uint64 \<Rightarrow> roll_act) \<Rightarrow> roll_act" where
  "GenerateItemGuid k = act_read (\<lambda>s.
     if hiItemGuid s < 0xFFFFFFFE
     then act_then (act_change (\<lambda>s. s\<lparr>hiItemGuid := hiItemGuid s + 1\<rparr>)) (k (MAKE_NEW_GUID (hiItemGuid s) 0 HIGHGUID_ITEM))
     else undefined_act)"

section \<open>Packets\<close>

text \<open>To the voters that are connected and whose vote passes the test, in the order of their GUIDs.\<close>

definition to_voters :: "RollEnv \<Rightarrow> (RollVote \<Rightarrow> bool) \<Rightarrow> Roll \<Rightarrow> WorldPacket \<Rightarrow> roll_effect list" where
  "to_voters env P r p = map (\<lambda>(g, v). SendTo g p) (filter (\<lambda>(g, v). re_FindConnectedPlayer env g \<and> P v) (playerVote r))"

definition start_roll_packet :: "uint32 \<Rightarrow> uint32 \<Rightarrow> uint8 \<Rightarrow> Roll \<Rightarrow> WorldPacket" where
  "start_roll_packet countDown mapid voteMask r = stream
     [U64 (itemGUID r), U32 mapid, U32 (ucast (itemSlot r)), U32 (itemid r), U32 (itemRandomSuffix r),
      U32 (itemRandomPropId r), U32 (ucast (itemCount r)), U32 countDown, U8 voteMask] (WorldPacket_init SMSG_LOOT_START_ROLL)"

definition SendLootStartRoll :: "RollEnv \<Rightarrow> uint32 \<Rightarrow> uint32 \<Rightarrow> Roll \<Rightarrow> roll_effect list" where
  "SendLootStartRoll env countDown mapid r =
     to_voters env (\<lambda>v. v = NOT_EMITED_YET) r (start_roll_packet countDown mapid (rollVoteMask r) r)"

definition SendLootStartRollToPlayer :: "uint32 \<Rightarrow> uint32 \<Rightarrow> uint64 \<Rightarrow> bool \<Rightarrow> Roll \<Rightarrow> roll_effect list" where
  "SendLootStartRollToPlayer countDown mapId p canNeed r =
     [SendTo p (start_roll_packet countDown mapId
       (if canNeed then rollVoteMask r else rollVoteMask r AND NOT ROLL_FLAG_TYPE_NEED) r)]"

definition loot_roll_packet :: "uint64 \<Rightarrow> uint64 \<Rightarrow> uint8 \<Rightarrow> uint8 \<Rightarrow> Roll \<Rightarrow> WorldPacket" where
  "loot_roll_packet sourceGuid targetGuid rollNumber rollType r = stream
     [U64 sourceGuid, U32 (ucast (itemSlot r)), U64 targetGuid, U32 (itemid r), U32 (itemRandomSuffix r),
      U32 (itemRandomPropId r), U8 rollNumber, U8 rollType, U8 0] (WorldPacket_init SMSG_LOOT_ROLL)"

definition SendLootRoll :: "RollEnv \<Rightarrow> uint64 \<Rightarrow> uint64 \<Rightarrow> uint8 \<Rightarrow> uint8 \<Rightarrow> Roll \<Rightarrow> roll_effect list" where
  "SendLootRoll env sourceGuid targetGuid rollNumber rollType r =
     to_voters env (\<lambda>v. v \<noteq> NOT_VALID) r (loot_roll_packet sourceGuid targetGuid rollNumber rollType r)"

definition roll_won_packet :: "uint64 \<Rightarrow> uint64 \<Rightarrow> uint8 \<Rightarrow> uint8 \<Rightarrow> Roll \<Rightarrow> WorldPacket" where
  "roll_won_packet sourceGuid targetGuid rollNumber rollType r = stream
     [U64 sourceGuid, U32 (ucast (itemSlot r)), U32 (itemid r), U32 (itemRandomSuffix r), U32 (itemRandomPropId r),
      U64 targetGuid, U8 rollNumber, U8 rollType] (WorldPacket_init SMSG_LOOT_ROLL_WON)"

definition SendLootRollWon :: "RollEnv \<Rightarrow> uint64 \<Rightarrow> uint64 \<Rightarrow> uint8 \<Rightarrow> uint8 \<Rightarrow> Roll \<Rightarrow> roll_effect list" where
  "SendLootRollWon env sourceGuid targetGuid rollNumber rollType r =
     to_voters env (\<lambda>v. v \<noteq> NOT_VALID) r (roll_won_packet sourceGuid targetGuid rollNumber rollType r)"

definition SendLootAllPassed :: "RollEnv \<Rightarrow> Roll \<Rightarrow> roll_effect list" where
  "SendLootAllPassed env r = to_voters env (\<lambda>v. v \<noteq> NOT_VALID) r (stream
     [U64 (itemGUID r), U32 (ucast (itemSlot r)), U32 (itemid r), U32 (itemRandomPropId r), U32 (itemRandomSuffix r)]
     (WorldPacket_init SMSG_LOOT_ALL_PASSED))"

section \<open>Opening rolls\<close>

text \<open>A member near the looted object who may have the item joins the roll; with \<open>autoPass\<close> the members who pass on
  group loot do so at once.\<close>

definition join_roll :: "RollEnv \<Rightarrow> bool \<Rightarrow> LootItem \<Rightarrow> uint64 \<Rightarrow> Roll \<Rightarrow> Roll" where
  "join_roll env autoPass item m r =
     (if re_AllowedForPlayer env item m \<and> re_near env m
      then let r = r\<lparr>totalPlayersRolling := totalPlayersRolling r + 1\<rparr> in
        if autoPass \<and> re_PassOnGroupLoot env m
        then r\<lparr>playerVote := om_put m PASS (playerVote r), totalPass := totalPass r + 1\<rparr>
        else r\<lparr>playerVote := om_put m NOT_EMITED_YET (playerVote r)\<rparr>
      else r)"

definition collect_votes :: "RollEnv \<Rightarrow> bool \<Rightarrow> LootItem \<Rightarrow> uint64 \<Rightarrow> Roll" where
  "collect_votes env autoPass item guid = fold (join_roll env autoPass item) (re_members env) (Roll_new guid item)"

definition block_item :: "nat \<Rightarrow> uint8 \<Rightarrow> roll_act" where
  "block_item l slot = with_loot l (\<lambda>L.
     if unat slot < length (loot_items L)
     then act_change (on_loot l (on_roll_item slot (\<lambda>i. i\<lparr>is_blocked := True\<rparr>)))
     else undefined_act)"

definition block_quest_item :: "nat \<Rightarrow> uint8 \<Rightarrow> roll_act" where
  "block_quest_item l slot = with_loot l (\<lambda>L.
     if length (loot_items L) \<le> unat slot \<and> unat slot - length (loot_items L) < length (quest_items L)
     then act_change (on_loot l (on_roll_item slot (\<lambda>i. i\<lparr>is_blocked := True\<rparr>)))
     else undefined_act)"

text \<open>\<open>RollId.push_back\<close> and the timer of the looted creature or object.\<close>

definition push_roll :: "RollEnv \<Rightarrow> Roll \<Rightarrow> roll_act" where
  "push_roll env r = act_then (act_change (\<lambda>s. s\<lparr>RollId := RollId s @ [r]\<rparr>))
     (act_send (\<lambda>_. if re_hasTimer env then [GroupLootTimer 60000 (re_lowGuid env)] else []))"

definition disenchant_mask :: "RollEnv \<Rightarrow> ItemTemplate \<Rightarrow> uint8 \<Rightarrow> uint8" where
  "disenchant_mask env proto m =
     (if it_DisenchantID proto \<noteq> 0 \<and> it_RequiredDisenchantSkill proto \<le> re_maxEnchantingLevel env
      then m OR ROLL_FLAG_TYPE_DISENCHANT else m)"

definition auto_passes :: "RollEnv \<Rightarrow> Roll \<Rightarrow> roll_effect list" where
  "auto_passes env r = concat (map (\<lambda>(g, v). if re_FindConnectedPlayer env g \<and> v = PASS
     then SendLootRoll env (itemGUID r) g 128 ROLL_PASS r else []) (playerVote r))"

definition open_group_roll :: "RollEnv \<Rightarrow> nat \<Rightarrow> uint8 \<Rightarrow> LootItem \<Rightarrow> ItemTemplate \<Rightarrow> uint64 \<Rightarrow> roll_act" where
  "open_group_roll env l slot item proto guid =
     (let r = collect_votes env True item guid in
      act_if (0 < totalPlayersRolling r)
        (let r = r\<lparr>roll_target := Some l, itemSlot := slot, rollVoteMask := disenchant_mask env proto (rollVoteMask r)\<rparr> in
         act_seq [block_item l slot,
           act_send (\<lambda>_. if totalPass r \<noteq> 0 then auto_passes env r else []),
           act_send (\<lambda>_. SendLootStartRoll env 60000 (re_mapId env) r),
           push_roll env r]))"

definition open_group_quest_roll :: "RollEnv \<Rightarrow> nat \<Rightarrow> uint8 \<Rightarrow> LootItem \<Rightarrow> uint64 \<Rightarrow> roll_act" where
  "open_group_quest_roll env l slot item guid =
     (let r = collect_votes env False item guid in
      act_if (0 < totalPlayersRolling r)
        (let r = r\<lparr>roll_target := Some l, itemSlot := slot\<rparr> in
         act_seq [block_quest_item l slot, act_send (\<lambda>_. SendLootStartRoll env 60000 (re_mapId env) r), push_roll env r]))"

definition set_underthreshold :: "nat \<Rightarrow> nat \<Rightarrow> roll_act" where
  "set_underthreshold l n = act_change (on_loot l (\<lambda>L. L\<lparr>loot_items := (loot_items L)[n := (loot_items L ! n)\<lparr>is_underthreshold := True\<rparr>]\<rparr>))"

definition group_loot_item :: "RollEnv \<Rightarrow> nat \<Rightarrow> nat \<Rightarrow> roll_act" where
  "group_loot_item env l n = with_loot l (\<lambda>L.
     let item = loot_items L ! n in
     act_if (\<not> freeforall item)
       (case re_GetItemTemplate env (li_itemid item) of
          None \<Rightarrow> act_seq []
        | Some proto \<Rightarrow>
            if re_lootThreshold env \<le> it_Quality proto
            then GenerateItemGuid (open_group_roll env l (of_nat n) item proto)
            else set_underthreshold l n))"

definition group_quest_item :: "RollEnv \<Rightarrow> nat \<Rightarrow> nat \<Rightarrow> roll_act" where
  "group_quest_item env l n = with_loot l (\<lambda>L.
     let item = quest_items L ! n in
     act_if (follow_loot_rules item)
       (case re_GetItemTemplate env (li_itemid item) of
          None \<Rightarrow> act_seq []
        | Some proto \<Rightarrow> GenerateItemGuid (open_group_quest_roll env l (of_nat (length (loot_items L) + n)) item)))"

definition GroupLoot :: "RollEnv \<Rightarrow> nat \<Rightarrow> roll_act" where
  "GroupLoot env l = with_loot l (\<lambda>L. act_then
     (act_each (group_loot_item env l) [0..<length (loot_items L)])
     (act_each (group_quest_item env l) [0..<length (quest_items L)]))"

text \<open>Need before greed: a member who cannot use the item is not offered the need vote.\<close>

definition start_rolls :: "RollEnv \<Rightarrow> ItemTemplate option \<Rightarrow> Roll \<Rightarrow> roll_effect list" where
  "start_rolls env proto r = concat (map (\<lambda>(g, v).
     if re_FindConnectedPlayer env g
     then (if v = PASS then SendLootRoll env (itemGUID r) g 128 ROLL_PASS r
           else SendLootStartRollToPlayer 60000 (re_mapId env) g (re_CanRollForItemInLFG env g proto = EQUIP_ERR_OK) r)
     else []) (playerVote r))"

definition need_mask :: "ItemTemplate \<Rightarrow> uint8 \<Rightarrow> uint8" where
  "need_mask proto m = (if has_flag (it_Flags2 proto) ITEM_FLAGS_EXTRA_NEED_ROLL_DISABLED then m AND NOT ROLL_FLAG_TYPE_NEED else m)"

definition open_need_roll :: "RollEnv \<Rightarrow> nat \<Rightarrow> uint8 \<Rightarrow> LootItem \<Rightarrow> ItemTemplate \<Rightarrow> uint64 \<Rightarrow> roll_act" where
  "open_need_roll env l slot item proto guid =
     (let r = collect_votes env True item guid in
      act_if (0 < totalPlayersRolling r)
        (let r = r\<lparr>roll_target := Some l, itemSlot := slot,
             rollVoteMask := need_mask proto (disenchant_mask env proto (rollVoteMask r))\<rparr> in
         act_seq [block_item l slot, act_send (\<lambda>_. start_rolls env (Some proto) r), push_roll env r]))"

definition open_need_quest_roll :: "RollEnv \<Rightarrow> nat \<Rightarrow> uint8 \<Rightarrow> LootItem \<Rightarrow> ItemTemplate option \<Rightarrow> uint64 \<Rightarrow> roll_act" where
  "open_need_quest_roll env l slot item proto guid =
     (let r = collect_votes env False item guid in
      act_if (0 < totalPlayersRolling r)
        (let r = r\<lparr>roll_target := Some l, itemSlot := slot\<rparr> in
         act_seq [block_quest_item l slot, act_send (\<lambda>_. start_rolls env proto r), push_roll env r]))"

definition need_loot_item :: "RollEnv \<Rightarrow> nat \<Rightarrow> nat \<Rightarrow> roll_act" where
  "need_loot_item env l n = with_loot l (\<lambda>L.
     let item = loot_items L ! n in
     act_if (\<not> freeforall item)
       (case re_GetItemTemplate env (li_itemid item) of
          None \<Rightarrow> undefined_act
        | Some proto \<Rightarrow>
            if re_lootThreshold env \<le> it_Quality proto
            then GenerateItemGuid (open_need_roll env l (of_nat n) item proto)
            else set_underthreshold l n))"

definition need_quest_item :: "RollEnv \<Rightarrow> nat \<Rightarrow> nat \<Rightarrow> roll_act" where
  "need_quest_item env l n = with_loot l (\<lambda>L.
     let item = quest_items L ! n in
     act_if (follow_loot_rules item)
       (GenerateItemGuid (open_need_quest_roll env l (of_nat (length (loot_items L) + n)) item
          (re_GetItemTemplate env (li_itemid item)))))"

definition NeedBeforeGreed :: "RollEnv \<Rightarrow> nat \<Rightarrow> roll_act" where
  "NeedBeforeGreed env l = with_loot l (\<lambda>L. act_then
     (act_each (need_loot_item env l) [0..<length (loot_items L)])
     (act_each (need_quest_item env l) [0..<length (quest_items L)]))"

definition block_for_master :: "LootItem \<Rightarrow> LootItem" where
  "block_for_master i = i\<lparr>is_blocked := \<not> is_underthreshold i\<rparr>"

definition MasterLoot :: "RollEnv \<Rightarrow> nat \<Rightarrow> roll_act" where
  "MasterLoot env l = with_loot l (\<lambda>L. act_then
     (act_change (on_loot l (\<lambda>L. L\<lparr>
        loot_items := map (\<lambda>i. if freeforall i then i else block_for_master i) (loot_items L),
        quest_items := map (\<lambda>i. if follow_loot_rules i then block_for_master i else i) (quest_items L)\<rparr>)))
     (act_send (\<lambda>_.
        let looters = filter (\<lambda>g. re_inWorld env g \<and> re_near env g) (re_members env);
            p = stream (U8 (of_nat (length looters)) # map U64 looters) (WorldPacket_init SMSG_LOOT_MASTER_LIST)
        in map (\<lambda>g. SendTo g p) (filter (re_near env) (re_members env)))))"

text \<open>Opening a corpse (a request of the kind \<open>LOOT_CORPSE\<close>): the first time, the loot method of the recipient's group
  decides; afterwards the kind of the loot is set.\<close>

definition open_corpse :: "RollEnv \<Rightarrow> LootMethod option \<Rightarrow> nat \<Rightarrow> roll_act" where
  "open_corpse env lm l = with_loot l (\<lambda>L. act_then
     (act_if (loot_type L = LOOT_NONE)
       (case lm of
          Some GROUP_LOOT \<Rightarrow> GroupLoot env l
        | Some NEED_BEFORE_GREED \<Rightarrow> NeedBeforeGreed env l
        | Some MASTER_LOOT \<Rightarrow> MasterLoot env l
        | _ \<Rightarrow> act_seq []))
     (act_change (on_loot l (\<lambda>L. L\<lparr>loot_type := if loot_type L = LOOT_SKINNING then LOOT_SKINNING else LOOT_CORPSE\<rparr>))))"

section \<open>Counting a roll\<close>

text \<open>One pass over the votes: a voter who is gone, or not on the allowed map, is taken off the total; the others draw
  a number each, and the first of the highest numbers is kept.\<close>

record Contest =
  ct_total :: uint8
  ct_maxresul :: uint8
  ct_maxguid :: uint64
  ct_rollvote :: RollVote
  ct_drawn :: nat
  ct_sent :: "roll_effect list"

definition can_win :: "RollEnv \<Rightarrow> nat option \<Rightarrow> uint64 \<Rightarrow> bool" where
  "can_win env allowedMap g \<longleftrightarrow> re_FindPlayer env g \<and> (allowedMap \<noteq> None \<longrightarrow> re_FindMap env g = allowedMap)"

definition draw :: "RollEnv \<Rightarrow> Roll \<Rightarrow> uint64 \<Rightarrow> RollVote \<Rightarrow> Contest \<Rightarrow> Contest" where
  "draw env r g v c =
     (let randomN = ucast (re_urand env (ct_drawn c) 1 100) :: uint8;
          c = c\<lparr>ct_drawn := Suc (ct_drawn c), ct_sent := ct_sent c @ SendLootRoll env 0 g randomN (vote_value v) r\<rparr> in
      if ct_maxresul c < randomN then c\<lparr>ct_maxguid := g, ct_maxresul := randomN, ct_rollvote := v\<rparr> else c)"

fun contest_loop :: "RollEnv \<Rightarrow> nat option \<Rightarrow> Roll \<Rightarrow> (RollVote \<Rightarrow> bool) \<Rightarrow> (uint64 \<times> RollVote) list \<Rightarrow> Contest \<Rightarrow> Contest" where
  "contest_loop env allowedMap r P [] c = c"
| "contest_loop env allowedMap r P ((g, v) # vs) c =
     contest_loop env allowedMap r P vs
       (if \<not> P v then c
        else if \<not> can_win env allowedMap g then c\<lparr>ct_total := ct_total c - 1\<rparr>
        else draw env r g v c)"

definition contest :: "RollEnv \<Rightarrow> nat option \<Rightarrow> Roll \<Rightarrow> (RollVote \<Rightarrow> bool) \<Rightarrow> uint8 \<Rightarrow> nat \<Rightarrow> Contest" where
  "contest env allowedMap r P tot d = contest_loop env allowedMap r P (playerVote r)
     \<lparr>ct_total = tot, ct_maxresul = 0, ct_maxguid = 0, ct_rollvote = NOT_VALID, ct_drawn = d, ct_sent = []\<rparr>"

definition need_contest :: "RollEnv \<Rightarrow> nat option \<Rightarrow> Roll \<Rightarrow> nat \<Rightarrow> Contest" where
  "need_contest env allowedMap r d = contest env allowedMap r (\<lambda>v. v = NEED) (totalNeed r) d"

definition greed_contest :: "RollEnv \<Rightarrow> nat option \<Rightarrow> Roll \<Rightarrow> nat \<Rightarrow> Contest" where
  "greed_contest env allowedMap r d = contest env allowedMap r (\<lambda>v. v = GREED \<or> v = DISENCHANT) (totalGreed r) d"

definition ask_inventory :: "RollEnv \<Rightarrow> uint64 \<Rightarrow> uint32 \<Rightarrow> uint8 \<Rightarrow> (uint8 \<Rightarrow> roll_act) \<Rightarrow> roll_act" where
  "ask_inventory env guid item count k = act_read (\<lambda>s.
     act_then (act_change (\<lambda>s. s\<lparr>drawn := Suc (drawn s)\<rparr>)) (k (re_CanStoreNewItem env (drawn s) guid item count)))"

definition with_roll_item :: "nat \<Rightarrow> Roll \<Rightarrow> (LootItem \<Rightarrow> roll_act) \<Rightarrow> roll_act" where
  "with_roll_item l r f = with_loot l (\<lambda>L. case roll_item L (itemSlot r) of None \<Rightarrow> undefined_act | Some i \<Rightarrow> f i)"

text \<open>The item leaves the loot.\<close>

definition take_item :: "nat \<Rightarrow> Roll \<Rightarrow> roll_act" where
  "take_item l r = act_seq
     [act_change (on_loot l (on_roll_item (itemSlot r) (\<lambda>i. i\<lparr>is_looted := True\<rparr>))),
      act_send (\<lambda>_. [NotifyItemRemoved l (itemSlot r)]),
      act_change (on_loot l (\<lambda>L. L\<lparr>unlootedCount := unlootedCount L - 1\<rparr>))]"

definition unblock_item :: "nat \<Rightarrow> Roll \<Rightarrow> roll_act" where
  "unblock_item l r = act_change (on_loot l (on_roll_item (itemSlot r) (\<lambda>i. i\<lparr>is_blocked := False\<rparr>)))"

definition store_won_item :: "RollEnv \<Rightarrow> nat \<Rightarrow> Roll \<Rightarrow> uint64 \<Rightarrow> LootItem \<Rightarrow> roll_act" where
  "store_won_item env l r guid i = ask_inventory env guid (itemid r) (li_count i) (\<lambda>msg.
     if msg = EQUIP_ERR_OK
     then act_then (take_item l r) (act_send (\<lambda>_. [StoreNewItem guid (itemid r) (li_randomPropertyId i) (allowedGUIDs i)]))
     else act_then (unblock_item l r) (act_send (\<lambda>_. [SendEquipError guid msg (itemid r)])))"

definition disenchant_won_item :: "RollEnv \<Rightarrow> nat \<Rightarrow> Roll \<Rightarrow> uint64 \<Rightarrow> LootItem \<Rightarrow> roll_act" where
  "disenchant_won_item env l r guid i = act_then (take_item l r)
     (act_then (act_send (\<lambda>_. [Criteria guid 29 13262 0]))
       (ask_inventory env guid (itemid r) (li_count i) (\<lambda>msg.
          case re_GetItemTemplate env (itemid r) of
            None \<Rightarrow> undefined_act
          | Some proto \<Rightarrow>
              act_send (\<lambda>s. if msg = EQUIP_ERR_OK then [AutoStoreLoot guid (it_DisenchantID proto)]
                else concat (map (\<lambda>(item, count). [SendEquipError guid msg item, SendItemRetrievalMail guid item count])
                       (re_DisenchantLoot env (drawn s) (it_DisenchantID proto) guid))))))"

definition after_contest :: "Contest \<Rightarrow> roll_act \<Rightarrow> roll_act" where
  "after_contest c won = act_then (\<lambda>s. Some (s\<lparr>drawn := ct_drawn c\<rparr>, ct_sent c)) (act_if (ct_maxguid c \<noteq> 0) won)"

definition need_won :: "RollEnv \<Rightarrow> nat \<Rightarrow> Roll \<Rightarrow> Contest \<Rightarrow> roll_act" where
  "need_won env l r c = act_then (act_send (\<lambda>_. SendLootRollWon env 0 (ct_maxguid c) (ct_maxresul c) ROLL_NEED r))
     (act_if (re_FindConnectedPlayer env (ct_maxguid c))
       (act_then (act_send (\<lambda>_. [Criteria (ct_maxguid c) 50 (itemid r) (ucast (ct_maxresul c))]))
         (with_roll_item l r (store_won_item env l r (ct_maxguid c)))))"

definition greed_won :: "RollEnv \<Rightarrow> nat \<Rightarrow> Roll \<Rightarrow> Contest \<Rightarrow> roll_act" where
  "greed_won env l r c = act_then (act_send (\<lambda>_. SendLootRollWon env 0 (ct_maxguid c) (ct_maxresul c) (vote_value (ct_rollvote c)) r))
     (act_if (re_FindConnectedPlayer env (ct_maxguid c))
       (act_then (act_send (\<lambda>_. [Criteria (ct_maxguid c) 51 (itemid r) (ucast (ct_maxresul c))]))
         (with_roll_item l r (\<lambda>i.
            if ct_rollvote c = GREED then store_won_item env l r (ct_maxguid c) i
            else act_if (ct_rollvote c = DISENCHANT) (disenchant_won_item env l r (ct_maxguid c) i)))))"

definition has_need :: "Roll \<Rightarrow> bool" where
  "has_need r \<longleftrightarrow> 0 < totalNeed r \<and> playerVote r \<noteq> []"

definition has_greed :: "Roll \<Rightarrow> bool" where
  "has_greed r \<longleftrightarrow> totalNeed r = 0 \<and> 0 < totalGreed r \<and> playerVote r \<noteq> []"

text \<open>The totals after a pass: without a winner they are reset.\<close>

definition after_need :: "RollEnv \<Rightarrow> nat option \<Rightarrow> nat \<Rightarrow> Roll \<Rightarrow> Roll" where
  "after_need env allowedMap d r =
     (if has_need r
      then let c = need_contest env allowedMap r d in r\<lparr>totalNeed := if ct_maxguid c \<noteq> 0 then ct_total c else 0\<rparr>
      else r)"

definition after_greed :: "RollEnv \<Rightarrow> nat option \<Rightarrow> nat \<Rightarrow> Roll \<Rightarrow> Roll" where
  "after_greed env allowedMap d r =
     (if has_greed r
      then let c = greed_contest env allowedMap r d in r\<lparr>totalGreed := if ct_maxguid c \<noteq> 0 then ct_total c else 0\<rparr>
      else r)"

definition need_phase :: "RollEnv \<Rightarrow> nat option \<Rightarrow> nat \<Rightarrow> Roll \<Rightarrow> roll_act" where
  "need_phase env allowedMap l r = act_if (has_need r) (act_read (\<lambda>s.
     let c = need_contest env allowedMap r (drawn s) in after_contest c (need_won env l r c)))"

definition greed_phase :: "RollEnv \<Rightarrow> nat option \<Rightarrow> nat \<Rightarrow> Roll \<Rightarrow> roll_act" where
  "greed_phase env allowedMap l r = act_if (has_greed r) (act_read (\<lambda>s.
     let c = greed_contest env allowedMap r (drawn s) in after_contest c (greed_won env l r c)))"

definition passed_phase :: "RollEnv \<Rightarrow> nat \<Rightarrow> Roll \<Rightarrow> roll_act" where
  "passed_phase env l r = act_if (totalNeed r = 0 \<and> totalGreed r = 0)
     (act_then (act_send (\<lambda>_. SendLootAllPassed env r)) (with_roll_item l r (\<lambda>_. unblock_item l r)))"

definition erase_roll :: "nat \<Rightarrow> RollState \<Rightarrow> RollState" where
  "erase_roll i s = s\<lparr>RollId := take i (RollId s) @ drop (Suc i) (RollId s)\<rparr>"

definition settle_roll :: "RollEnv \<Rightarrow> nat option \<Rightarrow> nat \<Rightarrow> Roll \<Rightarrow> roll_act" where
  "settle_roll env allowedMap l r = act_read (\<lambda>s0.
     let r1 = after_need env allowedMap (drawn s0) r in
     act_then (need_phase env allowedMap l r) (act_read (\<lambda>s1.
       let r2 = after_greed env allowedMap (drawn s1) r1 in
       act_then (greed_phase env allowedMap l r1) (passed_phase env l r2))))"

definition CountTheRoll :: "RollEnv \<Rightarrow> nat \<Rightarrow> nat option \<Rightarrow> roll_act" where
  "CountTheRoll env i allowedMap = act_read (\<lambda>s.
     if i < length (RollId s)
     then let r = RollId s ! i in
       case roll_target r of
         None \<Rightarrow> act_change (erase_roll i)
       | Some l \<Rightarrow> act_then (settle_roll env allowedMap l r) (act_change (erase_roll i))
     else undefined_act)"

section \<open>Votes\<close>

fun find_roll :: "uint64 \<Rightarrow> Roll list \<Rightarrow> nat \<Rightarrow> nat option" where
  "find_roll guid [] i = None"
| "find_roll guid (r # rs) i =
     (if itemGUID r = guid \<and> roll_target r \<noteq> None then Some i else find_roll guid rs (Suc i))"

definition GetRoll :: "RollState \<Rightarrow> uint64 \<Rightarrow> nat option" where
  "GetRoll s guid = find_roll guid (RollId s) 0"

definition cast_vote :: "uint64 \<Rightarrow> uint8 \<Rightarrow> Roll \<Rightarrow> Roll" where
  "cast_vote playerGUID choice r =
     (if choice = ROLL_PASS then r\<lparr>totalPass := totalPass r + 1, playerVote := om_put playerGUID PASS (playerVote r)\<rparr>
      else if choice = ROLL_NEED then r\<lparr>totalNeed := totalNeed r + 1, playerVote := om_put playerGUID NEED (playerVote r)\<rparr>
      else if choice = ROLL_GREED then r\<lparr>totalGreed := totalGreed r + 1, playerVote := om_put playerGUID GREED (playerVote r)\<rparr>
      else if choice = ROLL_DISENCHANT then r\<lparr>totalGreed := totalGreed r + 1, playerVote := om_put playerGUID DISENCHANT (playerVote r)\<rparr>
      else r)"

definition announce_vote :: "RollEnv \<Rightarrow> uint64 \<Rightarrow> uint8 \<Rightarrow> Roll \<Rightarrow> roll_effect list" where
  "announce_vote env playerGUID choice r =
     (if choice = ROLL_NEED then SendLootRoll env 0 playerGUID 0 0 r
      else if choice = ROLL_PASS \<or> choice = ROLL_GREED \<or> choice = ROLL_DISENCHANT then SendLootRoll env 0 playerGUID 128 choice r
      else [])"

definition all_voted :: "Roll \<Rightarrow> bool" where
  "all_voted r \<longleftrightarrow> unat (totalPlayersRolling r) \<le> unat (totalPass r) + unat (totalNeed r) + unat (totalGreed r)"

definition CountRollVote :: "RollEnv \<Rightarrow> uint64 \<Rightarrow> uint64 \<Rightarrow> uint8 \<Rightarrow> roll_act" where
  "CountRollVote env playerGUID guid choice = act_read (\<lambda>s.
     case GetRoll s guid of
       None \<Rightarrow> act_seq []
     | Some i \<Rightarrow>
         let r = RollId s ! i in
         if om_get (playerVote r) playerGUID = None then act_seq []
         else case roll_target r of
             None \<Rightarrow> act_seq []
           | Some l \<Rightarrow> with_loot l (\<lambda>L.
               act_if (loot_items L \<noteq> [])
                 (act_seq
                   [act_send (\<lambda>_. announce_vote env playerGUID choice r),
                    act_change (\<lambda>s. s\<lparr>RollId := (RollId s)[i := cast_vote playerGUID choice r]\<rparr>),
                    act_if (all_voted (cast_vote playerGUID choice r)) (CountTheRoll env i None)])))"

section \<open>Rolls and loots apart\<close>

text \<open>Settling a roll changes loots and the counter of random numbers only.\<close>

lemma keeps_undefined [keeps_intros]: "keeps I undefined_act"
  by (simp add: keeps_def undefined_act_def)

lemma keeps_with_loot [keeps_intros]: "(\<And>L. keeps I (f L)) \<Longrightarrow> keeps I (with_loot l f)"
  unfolding with_loot_def by (rule keeps_read) (simp add: keeps_undefined split: option.split)

lemma keeps_with_roll_item [keeps_intros]: "(\<And>i. keeps I (f i)) \<Longrightarrow> keeps I (with_roll_item l r f)"
  unfolding with_roll_item_def by (rule keeps_with_loot) (simp add: keeps_undefined split: option.split)

lemma keeps_cond_act [keeps_intros]: "(b \<Longrightarrow> keeps I a) \<Longrightarrow> (\<not> b \<Longrightarrow> keeps I a') \<Longrightarrow> keeps I (if b then a else a')"
  by simp

lemma RollId_on_loot [simp]: "RollId (on_loot l f s) = RollId s" "drawn (on_loot l f s) = drawn s"
  by (simp_all add: on_loot_def)

lemma settle_roll_RollId: "keeps (\<lambda>s. RollId s = rs) (settle_roll env am l r)"
proof -
  have take: "keeps (\<lambda>s. RollId s = rs) (take_item l r)" for r
    unfolding take_item_def by (intro keeps_intros) simp_all
  have ask: "keeps (\<lambda>s. RollId s = rs) (ask_inventory env g i n k)" if "\<And>msg. keeps (\<lambda>s. RollId s = rs) (k msg)" for g i n k
    unfolding ask_inventory_def by (intro keeps_intros that) simp_all
  have store: "keeps (\<lambda>s. RollId s = rs) (store_won_item env l r g i)" for r g i
    unfolding store_won_item_def unblock_item_def by (intro ask keeps_intros take) simp_all
  have dis: "keeps (\<lambda>s. RollId s = rs) (disenchant_won_item env l r g i)" for r g i
    unfolding disenchant_won_item_def
    by (intro keeps_intros take ask) (simp add: keeps_undefined keeps_send split: option.split)
  have after: "keeps (\<lambda>s. RollId s = rs) (after_contest c a)" if "keeps (\<lambda>s. RollId s = rs) a" for c a
    unfolding after_contest_def by (intro keeps_intros that) (simp add: keeps_def)
  show ?thesis
    unfolding settle_roll_def need_phase_def greed_phase_def passed_phase_def need_won_def greed_won_def unblock_item_def Let_def
    by (intro keeps_intros after store dis) simp_all
qed

lemma CountTheRoll_RollId:
  assumes "CountTheRoll env i am s = Some (s', e)"
  shows "i < length (RollId s) \<and> RollId s' = take i (RollId s) @ drop (Suc i) (RollId s)"
proof -
  note run = assms [unfolded CountTheRoll_def, THEN act_readD]
  have i: "i < length (RollId s)" using run by (cases "i < length (RollId s)") (simp_all add: undefined_act_def)
  show ?thesis
  proof (cases "roll_target (RollId s ! i)")
    case None
    with run i show ?thesis by (auto simp: act_change_def erase_roll_def)
  next
    case (Some l)
    with run i obtain s1 e1 where s1: "settle_roll env am l (RollId s ! i) s = Some (s1, e1)" "s' = erase_roll i s1"
      by (auto elim!: act_then_Some simp: act_change_def)
    have "RollId s1 = RollId s" by (rule keeps_step [OF settle_roll_RollId refl s1(1)])
    with s1(2) i show ?thesis by (simp add: erase_roll_def)
  qed
qed

lemma CountTheRoll_shorter: "CountTheRoll env i am s = Some (s', e) \<Longrightarrow> length (RollId s') < length (RollId s)"
  by (drule CountTheRoll_RollId) auto

section \<open>The end of the rolls\<close>

text \<open>When the timer of the corpse expires: from the start again after each counted roll.\<close>

function end_loop :: "RollEnv \<Rightarrow> nat \<Rightarrow> nat option \<Rightarrow> nat \<Rightarrow> roll_act" where
  "end_loop env l allowedMap i s =
     (if i < length (RollId s)
      then if roll_target (RollId s ! i) = Some l
        then case CountTheRoll env i allowedMap s of
            None \<Rightarrow> None
          | Some (s', e) \<Rightarrow> map_option (\<lambda>(t, e'). (t, e @ e')) (end_loop env l allowedMap 0 s')
        else end_loop env l allowedMap (Suc i) s
      else Some (s, []))"
  by pat_completeness auto
termination
  by (relation "measures [\<lambda>(env, l, am, i, s). length (RollId s), \<lambda>(env, l, am, i, s). length (RollId s) - i]")
    (auto dest: CountTheRoll_shorter)

declare end_loop.simps [simp del]

definition EndRoll :: "RollEnv \<Rightarrow> nat \<Rightarrow> nat option \<Rightarrow> roll_act" where
  "EndRoll env l allowedMap = end_loop env l allowedMap 0"

section \<open>A member leaves\<close>

definition withdraw_vote :: "uint64 \<Rightarrow> RollVote \<Rightarrow> Roll \<Rightarrow> Roll" where
  "withdraw_vote guid v r =
     (let r = (if v = GREED \<or> v = DISENCHANT then r\<lparr>totalGreed := totalGreed r - 1\<rparr>
               else if v = NEED then r\<lparr>totalNeed := totalNeed r - 1\<rparr>
               else if v = PASS then r\<lparr>totalPass := totalPass r - 1\<rparr>
               else r);
          r = (if v \<noteq> NOT_VALID then r\<lparr>totalPlayersRolling := totalPlayersRolling r - 1\<rparr> else r)
      in r\<lparr>playerVote := om_erase guid (playerVote r)\<rparr>)"

lemma CountRollVote_length: "CountRollVote env g guid ch s = Some (s', e) \<Longrightarrow> length (RollId s') \<le> length (RollId s)"
proof -
  assume run: "CountRollVote env g guid ch s = Some (s', e)"
  have "leads (\<lambda>s. length (RollId s) \<le> n) (CountTheRoll env i None) (\<lambda>s. length (RollId s) \<le> n)" for n i
    unfolding leads_def using CountTheRoll_shorter by fastforce
  then have "keeps (\<lambda>s. length (RollId s) \<le> n) (CountTheRoll env i None)" for n i
    by (simp add: keeps_def leads_def)
  then have "keeps (\<lambda>s. length (RollId s) \<le> n) (CountRollVote env g guid ch)" for n
    unfolding CountRollVote_def Let_def
    by (intro keeps_read) (auto split: option.split intro!: keeps_intros)
  from keeps_step [OF this _ run] show ?thesis by blast
qed

text \<open>The loop of \<open>RemoveMember\<close> over the rolls.\<close>

function leave_loop :: "RollEnv \<Rightarrow> uint64 \<Rightarrow> nat \<Rightarrow> roll_act" where
  "leave_loop env guid i s =
     (if i < length (RollId s)
      then let r = RollId s ! i in
        case om_get (playerVote r) guid of
          None \<Rightarrow> leave_loop env guid (Suc i) s
        | Some v \<Rightarrow>
            (case CountRollVote env guid (itemGUID r) MAX_ROLL_TYPE (s\<lparr>RollId := (RollId s)[i := withdraw_vote guid v r]\<rparr>) of
               None \<Rightarrow> None
             | Some (s', e) \<Rightarrow> map_option (\<lambda>(t, e'). (t, e @ e')) (leave_loop env guid (Suc i) s'))
      else Some (s, []))"
  by pat_completeness auto
termination
proof (relation "measure (\<lambda>(env, guid, i, s). length (RollId s) - i)", goal_cases)
  case (3 env guid i s r v x s' e)
  with CountRollVote_length show ?case by fastforce
qed auto

declare leave_loop.simps [simp del]

definition LeaveRolls :: "RollEnv \<Rightarrow> uint64 \<Rightarrow> roll_act" where
  "LeaveRolls env guid = leave_loop env guid 0"

end
