(* ===== verification/LootRollInv.thy ===== *)
theory LootRollInv
  imports LootRoll
begin

text \<open>
  What the loot rolls guarantee over all sequences of operations: an item that dropped once is handed out at most
  once, the highest number among the best votes wins, and when the timer of a corpse expires all its rolls end.
  The conservation of items is a potential argument: every action pays for the items it hands out with items
  that are still in the loot.
\<close>

section \<open>Items that are still in a loot\<close>

definition open_item :: "RollState \<Rightarrow> nat \<Rightarrow> uint8 \<Rightarrow> nat" where
  "open_item s l slot =
     (case loots s l of
        None \<Rightarrow> 0
      | Some L \<Rightarrow> (case roll_item L slot of None \<Rightarrow> 0 | Some i \<Rightarrow> if is_looted i then 0 else 1))"

lemma roll_item_on_roll_item:
  "roll_item (on_roll_item slot f L) slot' = (if slot' = slot then map_option f (roll_item L slot) else roll_item L slot')"
proof -
  define i j where ij: "i = unat slot" "j = unat slot'"
  have eq: "slot' = slot \<longleftrightarrow> j = i" by (simp add: ij word_unat_eq_iff)
  show ?thesis
    unfolding eq roll_item_def on_roll_item_def Let_def ij [symmetric]
    by (cases "length (loot_items L) \<le> i"; cases "length (loot_items L) \<le> j") (simp_all add: nth_list_update)
qed

lemma on_roll_item_simps [simp]:
  "loot_type (on_roll_item slot f L) = loot_type L"
  "length (loot_items (on_roll_item slot f L)) = length (loot_items L)"
  "length (quest_items (on_roll_item slot f L)) = length (quest_items L)"
  by (simp_all add: on_roll_item_def Let_def)

lemma on_loot_simps [simp]: "loots (on_loot l f s) k = (if k = l then map_option f (loots s l) else loots s k)"
  by (simp add: on_loot_def)

lemma open_item_same:
  assumes "\<And>L. loots s l = Some L \<Longrightarrow> map_option is_looted (roll_item (f L) slot) = map_option is_looted (roll_item L slot)"
  shows "open_item (on_loot l f s) l slot = open_item s l slot"
proof (cases "loots s l")
  case (Some L)
  from assms [OF Some] show ?thesis
    by (cases "roll_item L slot"; cases "roll_item (f L) slot") (simp_all add: open_item_def Some)
qed (simp add: open_item_def)

lemma open_item_other: "l' \<noteq> l \<Longrightarrow> open_item (on_loot l f s) l' slot = open_item s l' slot"
  by (simp add: open_item_def)

lemma open_item_le: "open_item s l slot \<le> 1"
  by (simp add: open_item_def split: option.split)

text \<open>Changing anything but \<open>is_looted\<close> of an item.\<close>

lemma open_item_flag:
  assumes "\<And>i. is_looted (f i) = is_looted i"
  shows "open_item (on_loot l (on_roll_item slot f) s) l' slot' = open_item s l' slot'"
proof (cases "l' = l")
  case True
  have "map_option is_looted (roll_item (on_roll_item slot f L) slot') = map_option is_looted (roll_item L slot')" for L
    by (simp add: roll_item_on_roll_item option.map_comp comp_def assms)
  then show ?thesis using True open_item_same by blast
qed (simp add: open_item_other)

section \<open>Actions that pay for what they hand out\<close>

definition spends :: "(RollState \<Rightarrow> bool) \<Rightarrow> roll_act \<Rightarrow> (RollState \<Rightarrow> bool) \<Rightarrow> bool" where
  "spends P a Q \<longleftrightarrow> (\<forall>s s' e. P s \<longrightarrow> a s = Some (s', e) \<longrightarrow>
     Q s' \<and> (\<forall>l slot. count_list e (NotifyItemRemoved l slot) + open_item s' l slot \<le> open_item s l slot))"

lemma spendsI:
  assumes "\<And>s s' e. P s \<Longrightarrow> a s = Some (s', e) \<Longrightarrow> Q s'"
    and "\<And>s s' e l slot. P s \<Longrightarrow> a s = Some (s', e) \<Longrightarrow>
      count_list e (NotifyItemRemoved l slot) + open_item s' l slot \<le> open_item s l slot"
  shows "spends P a Q"
  using assms unfolding spends_def by blast

lemma spendsD:
  assumes "spends P a Q" "P s" "a s = Some (s', e)"
  shows "Q s'" "count_list e (NotifyItemRemoved l slot) + open_item s' l slot \<le> open_item s l slot"
  using assms unfolding spends_def by blast+

lemma spends_then:
  assumes "spends P a Q" "spends Q b R"
  shows "spends P (act_then a b) R"
proof (rule spendsI)
  fix s s' e l slot
  assume P: "P s" and run: "act_then a b s = Some (s', e)"
  from run obtain s1 e1 e2 where s1: "a s = Some (s1, e1)" "b s1 = Some (s', e2)" "e = e1 @ e2" by (rule act_then_Some)
  note 1 = spendsD [OF assms(1) P s1(1)]
  note 2 = spendsD [OF assms(2) 1(1) s1(2)]
  show "R s'" by (rule 2(1))
  show "count_list e (NotifyItemRemoved l slot) + open_item s' l slot \<le> open_item s l slot"
    using 1(2) [of l slot] 2(2) [of l slot] by (simp add: s1(3))
qed

lemma spends_read: "(\<And>s. P s \<Longrightarrow> spends (\<lambda>t. t = s) (f s) Q) \<Longrightarrow> spends P (act_read f) Q"
  unfolding spends_def act_read_def by blast

lemma spends_weaken: "spends P a Q \<Longrightarrow> (\<And>s. P' s \<Longrightarrow> P s) \<Longrightarrow> (\<And>s. Q s \<Longrightarrow> Q' s) \<Longrightarrow> spends P' a Q'"
  unfolding spends_def by blast

lemma spends_send: "(\<And>s l slot. P s \<Longrightarrow> NotifyItemRemoved l slot \<notin> set (f s)) \<Longrightarrow> spends P (act_send f) P"
  by (rule spendsI) (auto simp: act_send_def count_list_0_iff)

lemma spends_change:
  assumes "\<And>s. P s \<Longrightarrow> Q (f s)" and "\<And>s l slot. P s \<Longrightarrow> open_item (f s) l slot \<le> open_item s l slot"
  shows "spends P (act_change f) Q"
  using assms by (auto simp: spends_def act_change_def)

lemma spends_if: "(b \<Longrightarrow> spends P a Q) \<Longrightarrow> (\<not> b \<Longrightarrow> spends P (act_send (\<lambda>_. [])) Q) \<Longrightarrow> spends P (act_if b a) Q"
  by (simp add: act_if_def)

lemma spends_skip: "(\<And>s. P s \<Longrightarrow> Q s) \<Longrightarrow> spends P (act_send (\<lambda>_. [])) Q"
  by (auto simp: spends_def act_send_def)

lemma spends_undefined: "spends P undefined_act Q"
  by (simp add: spends_def undefined_act_def)

lemma spends_none: "spends P (\<lambda>_. None) Q"
  by (simp add: spends_def)

lemma spends_each: "(\<And>x. x \<in> set xs \<Longrightarrow> spends P (f x) P) \<Longrightarrow> spends P (act_each f xs) P"
proof (induction xs)
  case Nil show ?case by (simp add: spends_skip)
next
  case (Cons x xs)
  have "spends P (f x) P" "spends P (act_each f xs) P" using Cons by simp_all
  then show ?case by (simp add: spends_then)
qed

text \<open>A loop over positions, with a condition for each of them.\<close>

lemma spends_upto:
  assumes "\<And>n. a \<le> n \<Longrightarrow> n < b \<Longrightarrow> spends (P n) (f n) (P (Suc n))" and "a \<le> b"
  shows "spends (P a) (act_each f [a..<b]) (P b)"
  using assms
proof (induction "b - a" arbitrary: a)
  case 0
  then have "a = b" by simp
  then show ?case by (simp add: spends_skip)
next
  case (Suc k)
  then have "a < b" by simp
  then have "[a..<b] = a # [Suc a..<b]" by (rule upt_conv_Cons)
  moreover have "spends (P (Suc a)) (act_each f [Suc a..<b]) (P b)" using Suc by simp
  ultimately show ?case using Suc.prems(1) [of a] \<open>a < b\<close> by (simp add: spends_then)
qed

lemma spends_with_loot:
  assumes "\<And>s L. P s \<Longrightarrow> loots s l = Some L \<Longrightarrow> spends (\<lambda>t. t = s) (f L) Q"
  shows "spends P (with_loot l f) Q"
  unfolding with_loot_def by (rule spends_read) (simp add: assms spends_undefined split: option.split)

section \<open>The totals of a roll\<close>

abbreviation wants :: "RollVote \<Rightarrow> bool" where
  "wants v \<equiv> v = GREED \<or> v = DISENCHANT"

definition votes_total :: "Roll \<Rightarrow> nat" where
  "votes_total r = unat (totalPass r) + unat (totalNeed r) + unat (totalGreed r)"

text \<open>The totals are at least the numbers of such votes (a player who votes again is counted again), and never
  come near the end of their eight bits.\<close>

definition roll_ok :: "Roll \<Rightarrow> bool" where
  "roll_ok r \<longleftrightarrow> om_ok (playerVote r) \<and> 0 \<notin> set (om_keys (playerVote r)) \<and>
     om_count (\<lambda>v. v = NEED) (playerVote r) \<le> unat (totalNeed r) \<and>
     om_count wants (playerVote r) \<le> unat (totalGreed r) \<and>
     om_count (\<lambda>v. v = PASS) (playerVote r) \<le> unat (totalPass r) \<and>
     om_count (\<lambda>v. v = NOT_VALID) (playerVote r) = 0 \<and>
     om_count (\<lambda>_. True) (playerVote r) \<le> unat (totalPlayersRolling r) \<and>
     votes_total r \<le> 254 \<and> unat (totalPlayersRolling r) \<le> 254"

lemma uint8_inc: "unat (x :: uint8) \<le> 254 \<Longrightarrow> unat (x + 1) = Suc (unat x)"
  by (simp add: unat_word_ariths)

lemma uint8_dec: "0 < unat (x :: uint8) \<Longrightarrow> unat (x - 1) = unat x - 1"
  by (metis One_nat_def Suc_leI unat_1 unat_sub word_le_nat_alt)

lemma om_count_put_le: "om_count P (om_put k v m) \<le> (if P v then Suc (om_count P m) else om_count P m)"
  by (induction k v m rule: om_put.induct) auto

lemma om_count_erase:
  "om_get m k = Some v \<Longrightarrow> om_count P m = (if P v then Suc (om_count P (om_erase k m)) else om_count P (om_erase k m))"
  by (induction k m rule: om_erase.induct) (auto split: if_splits)

lemma Roll_new_ok: "roll_ok (Roll_new guid i)"
  by (simp add: roll_ok_def Roll_new_def votes_total_def)

text \<open>Casting a vote keeps the totals unless the roll ends with it.\<close>

lemma cast_vote_ok:
  assumes ok: "roll_ok r" and voter: "om_get (playerVote r) g \<noteq> None" and more: "\<not> all_voted (cast_vote g ch r)"
  shows "roll_ok (cast_vote g ch r)"
proof -
  have sum: "votes_total r \<le> 254" using ok by (simp add: roll_ok_def)
  then have inc: "unat (totalPass r + 1) = Suc (unat (totalPass r))" "unat (totalNeed r + 1) = Suc (unat (totalNeed r))"
    "unat (totalGreed r + 1) = Suc (unat (totalGreed r))"
    by (simp_all add: votes_total_def uint8_inc)
  have keys: "insert g (set (om_keys (playerVote r))) = set (om_keys (playerVote r))" "om_ok (playerVote r)"
    using ok voter om_get_dom [of "playerVote r" g] by (auto simp: roll_ok_def)
  obtain w where w: "om_get (playerVote r) g = Some w" using voter by blast
  have old: "om_count P (om_put g v (playerVote r)) \<le> om_count P (playerVote r) + (if P v then 1 else 0)" for P v
    using om_count_put_old [OF keys(2) w, of P v] by simp
  have every: "om_count (\<lambda>_. True) (om_put g v (playerVote r)) = om_count (\<lambda>_. True) (playerVote r)" for v
    using om_count_put_old [OF keys(2) w, of "\<lambda>_. True" v] by simp
  have total: "votes_total (cast_vote g ch r) \<le> 254"
    using more ok by (simp add: all_voted_def votes_total_def roll_ok_def cast_vote_def split: if_splits)
  have counts: "om_count (\<lambda>v. v = NEED) (om_put g v (playerVote r)) \<le> unat (totalNeed r) + (if v = NEED then 1 else 0)"
    "om_count wants (om_put g v (playerVote r)) \<le> unat (totalGreed r) + (if wants v then 1 else 0)"
    "om_count (\<lambda>v. v = PASS) (om_put g v (playerVote r)) \<le> unat (totalPass r) + (if v = PASS then 1 else 0)"
    "om_count (\<lambda>v. v = NOT_VALID) (om_put g v (playerVote r)) \<le> (if v = NOT_VALID then 1 else 0)" for v
    using ok old [of "\<lambda>v. v = NEED" v] old [of wants v] old [of "\<lambda>v. v = PASS" v] old [of "\<lambda>v. v = NOT_VALID" v]
    unfolding roll_ok_def by linarith+
  show ?thesis
    using ok total counts [of NEED] counts [of GREED] counts [of DISENCHANT] counts [of PASS]
    unfolding roll_ok_def cast_vote_def by (simp add: inc every keys om_ok_put)
qed

lemma withdraw_vote_ok:
  assumes ok: "roll_ok r" and v: "om_get (playerVote r) g = Some v"
  shows "roll_ok (withdraw_vote g v r)"
proof -
  have count: "om_count P (playerVote r) = (if P v then Suc (om_count P (om_erase g (playerVote r))) else om_count P (om_erase g (playerVote r)))" for P
    by (rule om_count_erase [OF v])
  have "v \<noteq> NOT_VALID" "0 < unat (totalPlayersRolling r)" "v = NEED \<Longrightarrow> 0 < unat (totalNeed r)"
    "wants v \<Longrightarrow> 0 < unat (totalGreed r)" "v = PASS \<Longrightarrow> 0 < unat (totalPass r)"
    using ok by (auto simp: roll_ok_def count split: if_splits)
  then show ?thesis
    using ok om_keys_erase [of "playerVote r" g]
    unfolding roll_ok_def withdraw_vote_def Let_def count [of "\<lambda>v. v = NEED"] count [of wants] count [of "\<lambda>v. v = PASS"]
      count [of "\<lambda>v. v = NOT_VALID"] count [of "\<lambda>_. True"]
    by (cases v; simp add: om_ok_erase uint8_dec votes_total_def; linarith)
qed

text \<open>What counting a roll needs of its totals.\<close>

definition roll_fair :: "Roll \<Rightarrow> bool" where
  "roll_fair r \<longleftrightarrow> om_count (\<lambda>v. v = NEED) (playerVote r) \<le> unat (totalNeed r) \<and> om_count wants (playerVote r) \<le> unat (totalGreed r)"

lemma roll_ok_fair: "roll_ok r \<Longrightarrow> roll_fair r"
  by (simp add: roll_ok_def roll_fair_def)

lemma cast_vote_fair: "roll_ok r \<Longrightarrow> roll_fair (cast_vote g ch r)"
proof -
  assume ok: "roll_ok r"
  have inc: "unat (totalNeed r + 1) = Suc (unat (totalNeed r))" "unat (totalGreed r + 1) = Suc (unat (totalGreed r))"
    using ok by (simp_all add: roll_ok_def votes_total_def uint8_inc)
  have counts: "om_count (\<lambda>v. v = NEED) (om_put g v (playerVote r)) \<le> unat (totalNeed r) + (if v = NEED then 1 else 0)"
    "om_count wants (om_put g v (playerVote r)) \<le> unat (totalGreed r) + (if wants v then 1 else 0)" for v
    using ok om_count_put_le [of "\<lambda>v. v = NEED" g v "playerVote r"] om_count_put_le [of wants g v "playerVote r"]
    unfolding roll_ok_def by (cases v; simp; linarith)+
  show ?thesis
    using ok counts [of NEED] counts [of GREED] counts [of DISENCHANT] counts [of PASS]
    by (simp add: roll_ok_def roll_fair_def cast_vote_def inc)
qed

text \<open>A new roll has at most one vote for each member.\<close>

lemma join_roll_ok:
  assumes ok: "roll_ok r" and room: "unat (totalPlayersRolling r) < n" "votes_total r < n" and n: "n \<le> 254" and g: "g \<noteq> 0"
  shows "roll_ok (join_roll env ap i g r) \<and> unat (totalPlayersRolling (join_roll env ap i g r)) \<le> n \<and> votes_total (join_roll env ap i g r) \<le> n"
proof -
  have inc: "unat (totalPlayersRolling r + 1) = Suc (unat (totalPlayersRolling r))" "unat (totalPass r + 1) = Suc (unat (totalPass r))"
    using room n by (simp_all add: uint8_inc votes_total_def)
  note le = om_count_put_le [of _ g _ "playerVote r"]
  have counts: "om_count (\<lambda>v. v = NEED) (om_put g v (playerVote r)) \<le> om_count (\<lambda>v. v = NEED) (playerVote r)"
    "om_count wants (om_put g v (playerVote r)) \<le> om_count wants (playerVote r)"
    "om_count (\<lambda>v. v = NOT_VALID) (om_put g v (playerVote r)) \<le> om_count (\<lambda>v. v = NOT_VALID) (playerVote r)"
    if "v = PASS \<or> v = NOT_EMITED_YET" for v
    using le [of "\<lambda>v. v = NEED" v] le [of wants v] le [of "\<lambda>v. v = NOT_VALID" v] that by auto
  have "om_count (\<lambda>v. v = PASS) (om_put g PASS (playerVote r)) \<le> Suc (om_count (\<lambda>v. v = PASS) (playerVote r))"
    "om_count (\<lambda>v. v = PASS) (om_put g NOT_EMITED_YET (playerVote r)) \<le> om_count (\<lambda>v. v = PASS) (playerVote r)"
    "om_count (\<lambda>_. True) (om_put g v (playerVote r)) \<le> Suc (om_count (\<lambda>_. True) (playerVote r))" for v
    using le [of "\<lambda>v. v = PASS" PASS] le [of "\<lambda>v. v = PASS" NOT_EMITED_YET] le [of "\<lambda>_. True" v] by auto
  with counts [of PASS] counts [of NOT_EMITED_YET] show ?thesis
    using ok room n g unfolding roll_ok_def join_roll_def Let_def votes_total_def
    by (auto simp: inc om_ok_put intro: order_trans)
qed

lemma collect_votes_ok:
  assumes "length (re_members env) \<le> 254" "0 \<notin> set (re_members env)"
  shows "roll_ok (collect_votes env ap i guid)"
proof -
  have "roll_ok (fold (join_roll env ap i) ms r)"
    if "roll_ok r" "unat (totalPlayersRolling r) + length ms \<le> 254" "votes_total r + length ms \<le> 254" "0 \<notin> set ms" for ms r
    using that
  proof (induction ms arbitrary: r)
    case (Cons m ms)
    let ?n = "254 - length ms" and ?r = "join_roll env ap i m r"
    have "roll_ok ?r \<and> unat (totalPlayersRolling ?r) \<le> ?n \<and> votes_total ?r \<le> ?n"
      using Cons.prems by (intro join_roll_ok) simp_all
    then show ?case using Cons.prems by (auto intro: Cons.IH)
  qed simp
  then show ?thesis
    using assms Roll_new_ok by (simp add: collect_votes_def) (simp add: Roll_new_def votes_total_def)
qed

section \<open>Drawing numbers\<close>

definition absent :: "RollEnv \<Rightarrow> nat option \<Rightarrow> (RollVote \<Rightarrow> bool) \<Rightarrow> (uint64 \<times> RollVote) list \<Rightarrow> nat" where
  "absent env am P vs = length (filter (\<lambda>(g, v). P v \<and> \<not> can_win env am g) vs)"

lemma draw_simps [simp]: "ct_total (draw env r g v c) = ct_total c" "ct_drawn (draw env r g v c) = Suc (ct_drawn c)"
  by (simp_all add: draw_def Let_def)

lemma contest_loop_total: "ct_total (contest_loop env am r P vs c) = ct_total c - of_nat (absent env am P vs)"
  by (induction env am r P vs c rule: contest_loop.induct) (simp_all add: absent_def)

lemma contest_loop_winner:
  "ct_maxguid (contest_loop env am r P vs c) \<noteq> ct_maxguid c \<Longrightarrow>
   \<exists>(g, v) \<in> set vs. P v \<and> can_win env am g"
  by (induction env am r P vs c rule: contest_loop.induct) (auto split: if_splits)

lemma absent_less:
  assumes "\<exists>(g, v) \<in> set vs. P v \<and> can_win env am g"
  shows "absent env am P vs < om_count P vs"
proof -
  have "om_count P vs = absent env am P vs + length (filter (\<lambda>(g, v). P v \<and> can_win env am g) vs)"
    by (induction vs) (auto simp: absent_def)
  moreover have "filter (\<lambda>(g, v). P v \<and> can_win env am g) vs \<noteq> []" using assms by (auto simp: filter_empty_conv)
  ultimately show ?thesis by simp
qed

text \<open>When somebody wins, the total stays positive, so that the next kind of votes is not counted.\<close>

lemma winner_total:
  assumes count: "om_count P (playerVote r) \<le> unat tot" and won: "ct_maxguid (contest env am r P tot d) \<noteq> 0"
  shows "ct_total (contest env am r P tot d) \<noteq> 0"
proof -
  have "\<exists>(g, v) \<in> set (playerVote r). P v \<and> can_win env am g"
    using won contest_loop_winner [of env am r P "playerVote r"] unfolding contest_def by fastforce
  then have less: "absent env am P (playerVote r) < unat tot"
    using absent_less [of "playerVote r" P env am] count by linarith
  then have "unat (of_nat (absent env am P (playerVote r)) :: uint8) = absent env am P (playerVote r)"
    using unsigned_less [of tot, where 'a = nat] by (simp add: unat_of_nat take_bit_eq_mod)
  with less have "tot \<noteq> of_nat (absent env am P (playerVote r))" by auto
  then show ?thesis by (simp add: contest_def contest_loop_total)
qed

lemma to_voters_packets: "NotifyItemRemoved l slot \<notin> set (to_voters env P r p)"
  by (auto simp: to_voters_def)

lemmas roll_packets = SendLootRoll_def SendLootRollWon_def SendLootAllPassed_def SendLootStartRoll_def to_voters_packets

lemma contest_loop_sent:
  "NotifyItemRemoved l slot \<notin> set (ct_sent c) \<Longrightarrow> NotifyItemRemoved l slot \<notin> set (ct_sent (contest_loop env am r P vs c))"
  by (induction env am r P vs c rule: contest_loop.induct) (simp_all add: draw_def Let_def roll_packets)

lemma contest_sent: "NotifyItemRemoved l slot \<notin> set (ct_sent (contest env am r P tot d))"
  unfolding contest_def by (rule contest_loop_sent) simp

lemma after_need_won:
  assumes "roll_fair r" "has_need r" "ct_maxguid (need_contest env am r d) \<noteq> 0"
  shows "totalNeed (after_need env am d r) \<noteq> 0"
  using assms winner_total [of "\<lambda>v. v = NEED" r "totalNeed r" env am d]
  by (simp add: after_need_def need_contest_def Let_def roll_fair_def)

lemma after_greed_won:
  assumes "om_count wants (playerVote r) \<le> unat (totalGreed r)" "has_greed r" "ct_maxguid (greed_contest env am r d) \<noteq> 0"
  shows "totalGreed (after_greed env am d r) \<noteq> 0"
  using assms winner_total [of wants r "totalGreed r" env am d]
  by (simp add: after_greed_def greed_contest_def Let_def)

section \<open>The invariant of rolls and loots\<close>

definition settled :: "RollState \<Rightarrow> nat \<Rightarrow> bool" where
  "settled s l \<longleftrightarrow> (case loots s l of None \<Rightarrow> False | Some L \<Rightarrow> loot_type L \<noteq> LOOT_NONE)"

definition loot_fresh :: "Loot \<Rightarrow> bool" where
  "loot_fresh L \<longleftrightarrow> (loot_type L = LOOT_NONE \<longrightarrow>
     (\<forall>i \<in> set (loot_items L) \<union> set (quest_items L). \<not> is_looted i) \<and> length (loot_items L) + length (quest_items L) \<le> 255)"

definition live :: "Roll list \<Rightarrow> (nat \<times> uint8) list" where
  "live rs = map (\<lambda>r. (the (roll_target r), itemSlot r)) (filter (\<lambda>r. roll_target r \<noteq> None) rs)"

text \<open>Every valid roll is for an item still in its loot, no two rolls for the same; a loot that was not opened has all
  its items and, but for those being opened, no roll.\<close>

definition inv_of :: "nat set \<Rightarrow> Roll list \<Rightarrow> RollState \<Rightarrow> bool" where
  "inv_of X rs s \<longleftrightarrow>
     (\<forall>r \<in> set rs. roll_ok r \<and>
       (\<forall>l. roll_target r = Some l \<longrightarrow> open_item s l (itemSlot r) = 1 \<and> (l \<notin> X \<longrightarrow> settled s l))) \<and>
     distinct (live rs) \<and> (\<forall>l L. loots s l = Some L \<longrightarrow> loot_fresh L)"

lemma live_in: "r \<in> set rs \<Longrightarrow> roll_target r = Some l \<Longrightarrow> (l, itemSlot r) \<in> set (live rs)"
  by (force simp: live_def)

lemma inv_of_change:
  assumes "inv_of X rs s"
    and "\<And>l slot. (l, slot) \<in> set (live rs) \<Longrightarrow> open_item s' l slot = open_item s l slot"
    and "\<And>l. settled s l \<Longrightarrow> settled s' l"
    and "\<And>l L. loots s' l = Some L \<Longrightarrow> loot_fresh L"
  shows "inv_of X rs s'"
  using assms live_in [of _ rs] unfolding inv_of_def by metis

lemma inv_of_same_loots: "inv_of X rs s \<Longrightarrow> loots s' = loots s \<Longrightarrow> inv_of X rs s'"
  by (simp add: inv_of_def open_item_def settled_def)

text \<open>Counting a roll is done while the other rolls are as they were.\<close>

definition apart :: "Roll list \<Rightarrow> nat \<Rightarrow> uint8 \<Rightarrow> RollState \<Rightarrow> bool" where
  "apart rs l slot s \<longleftrightarrow> inv_of {} rs s \<and> settled s l \<and> (l, slot) \<notin> set (live rs)"

definition apart_open :: "Roll list \<Rightarrow> nat \<Rightarrow> uint8 \<Rightarrow> RollState \<Rightarrow> bool" where
  "apart_open rs l slot s \<longleftrightarrow> apart rs l slot s \<and> open_item s l slot = 1"

lemma settled_on_loot: "(\<And>L. loot_type (f L) = loot_type L) \<Longrightarrow> settled (on_loot l f s) l' = settled s l'"
  by (simp add: settled_def split: option.split)

lemma apart_on_loot:
  assumes "apart rs l slot s" and f: "\<And>L. loot_type (f L) = loot_type L"
    and other: "\<And>L slot'. slot' \<noteq> slot \<Longrightarrow> map_option is_looted (roll_item (f L) slot') = map_option is_looted (roll_item L slot')"
  shows "apart rs l slot (on_loot l f s)"
proof -
  have inv: "inv_of {} rs s" "settled s l" "(l, slot) \<notin> set (live rs)" using assms(1) by (simp_all add: apart_def)
  have "open_item (on_loot l f s) l' slot' = open_item s l' slot'" if "(l', slot') \<in> set (live rs)" for l' slot'
  proof (cases "l' = l")
    case True
    with that inv(3) have "slot' \<noteq> slot" by blast
    then show ?thesis unfolding True by (intro open_item_same other)
  qed (simp add: open_item_other)
  moreover have "loot_fresh L" if "loots (on_loot l f s) l' = Some L" for l' L
    using that inv(1,2) f by (auto simp: inv_of_def settled_def loot_fresh_def split: if_splits)
  ultimately have "inv_of {} rs (on_loot l f s)" by (intro inv_of_change [OF inv(1)]) (simp_all add: settled_on_loot f)
  then show ?thesis using inv by (simp add: apart_def settled_on_loot f)
qed

lemma take_item_spends: "spends (apart_open rs l (itemSlot r)) (take_item l r) (apart rs l (itemSlot r))"
proof (rule spendsI)
  fix s s' e l' slot'
  let ?g = "on_loot l (on_roll_item (itemSlot r) (\<lambda>i. i\<lparr>is_looted := True\<rparr>))"
    and ?h = "on_loot l (\<lambda>L. L\<lparr>unlootedCount := unlootedCount L - 1\<rparr>)"
  assume P: "apart_open rs l (itemSlot r) s" and "take_item l r s = Some (s', e)"
  then have s': "s' = ?h (?g s)" "e = [NotifyItemRemoved l (itemSlot r)]"
    by (auto simp: take_item_def act_then_def act_change_def act_send_def)
  have h: "roll_item (L\<lparr>unlootedCount := x\<rparr>) slot = roll_item L slot" for L x slot by (simp add: roll_item_def Let_def)
  have "apart rs l (itemSlot r) (?g s)"
    using P by (intro apart_on_loot) (simp_all add: apart_open_def roll_item_on_roll_item)
  then show "apart rs l (itemSlot r) s'" unfolding s'(1) by (rule apart_on_loot) (simp_all add: h)
  have "open_item (?h t) a b = open_item t a b" for t a b
    using open_item_same [of t l _ b] open_item_other by (cases "a = l") (simp_all add: h)
  moreover have "open_item (?g s) l (itemSlot r) = 0"
    by (simp add: open_item_def roll_item_on_roll_item split: option.split)
  moreover have "open_item (?g s) l' slot' = open_item s l' slot'" if "(l', slot') \<noteq> (l, itemSlot r)"
    using that by (cases "l' = l") (simp_all add: open_item_other open_item_same roll_item_on_roll_item)
  ultimately show "count_list e (NotifyItemRemoved l' slot') + open_item s' l' slot' \<le> open_item s l' slot'"
    using P unfolding s' by (cases "(l', slot') = (l, itemSlot r)") (auto simp: apart_open_def)
qed

section \<open>Counting keeps the invariant\<close>

lemma apart_drawn: "apart rs l slot (s\<lparr>drawn := n\<rparr>) = apart rs l slot s" "apart_open rs l slot (s\<lparr>drawn := n\<rparr>) = apart_open rs l slot s"
  by (simp_all add: apart_open_def apart_def inv_of_def open_item_def settled_def)

lemma open_item_drawn [simp]: "open_item (s\<lparr>drawn := n\<rparr>) l slot = open_item s l slot"
  by (simp add: open_item_def)

lemma apart_open_apart: "apart_open rs l slot s \<Longrightarrow> apart rs l slot s"
  by (simp add: apart_open_def)

lemma unblock_spends:
  "spends (apart_open rs l (itemSlot r)) (unblock_item l r) (apart rs l (itemSlot r))"
proof -
  have "apart rs l (itemSlot r) (on_loot l (on_roll_item (itemSlot r) (\<lambda>i. i\<lparr>is_blocked := False\<rparr>)) s)"
    if "apart_open rs l (itemSlot r) s" for s
    using that by (intro apart_on_loot apart_open_apart) (simp_all add: roll_item_on_roll_item)
  then show ?thesis unfolding unblock_item_def by (rule spends_change) (assumption, rule eq_refl, rule open_item_flag, simp)
qed

lemma send_spends: "(\<And>s l slot. NotifyItemRemoved l slot \<notin> set (f s)) \<Longrightarrow> spends P (act_send f) P"
  by (rule spends_send) simp

lemma ask_spends:
  assumes "\<And>msg. spends (apart_open rs l slot) (k msg) Q"
  shows "spends (apart_open rs l slot) (ask_inventory env g i n k) Q"
  unfolding ask_inventory_def
proof (rule spends_read)
  fix s assume "apart_open rs l slot s"
  then have "spends (\<lambda>t. t = s) (act_change (\<lambda>s. s\<lparr>drawn := Suc (drawn s)\<rparr>)) (apart_open rs l slot)"
    by (intro spends_change) (auto simp: apart_drawn)
  then show "spends (\<lambda>t. t = s) (act_then (act_change (\<lambda>s. s\<lparr>drawn := Suc (drawn s)\<rparr>)) (k (re_CanStoreNewItem env (drawn s) g i n))) Q"
    by (rule spends_then) (rule assms)
qed

lemma ask_apart_spends:
  assumes "\<And>msg. spends (apart rs l slot) (k msg) (apart rs l slot)"
  shows "spends (apart rs l slot) (ask_inventory env g i n k) (apart rs l slot)"
  unfolding ask_inventory_def
proof (rule spends_read)
  fix s assume "apart rs l slot s"
  then have "spends (\<lambda>t. t = s) (act_change (\<lambda>s. s\<lparr>drawn := Suc (drawn s)\<rparr>)) (apart rs l slot)"
    by (intro spends_change) (auto simp: apart_drawn)
  then show "spends (\<lambda>t. t = s) (act_then (act_change (\<lambda>s. s\<lparr>drawn := Suc (drawn s)\<rparr>)) (k (re_CanStoreNewItem env (drawn s) g i n)))
      (apart rs l slot)"
    by (rule spends_then) (rule assms)
qed

lemma store_spends: "spends (apart_open rs l (itemSlot r)) (store_won_item env l r g i) (apart rs l (itemSlot r))"
proof -
  have "spends (apart_open rs l (itemSlot r)) (act_then (take_item l r) (act_send (\<lambda>_. [StoreNewItem g a b c]))) (apart rs l (itemSlot r))" for a b c
    by (rule spends_then [OF take_item_spends]) (rule send_spends, simp)
  moreover have "spends (apart_open rs l (itemSlot r)) (act_then (unblock_item l r) (act_send (\<lambda>_. [SendEquipError g a b]))) (apart rs l (itemSlot r))" for a b
    by (rule spends_then [OF unblock_spends]) (rule send_spends, simp)
  ultimately show ?thesis unfolding store_won_item_def by (intro ask_spends) simp
qed

lemma disenchant_spends: "spends (apart_open rs l (itemSlot r)) (disenchant_won_item env l r g i) (apart rs l (itemSlot r))"
  unfolding disenchant_won_item_def
  by (intro spends_then [OF take_item_spends] spends_then [OF send_spends] ask_apart_spends)
    (auto simp: spends_undefined split: option.split if_splits intro!: send_spends)

lemma item_spends:
  assumes "\<And>i. spends P (f i) Q"
  shows "spends P (with_roll_item l r f) Q"
  unfolding with_roll_item_def
  by (rule spends_with_loot) (auto simp: spends_undefined split: option.split intro: spends_weaken [OF assms])

lemma won_spends:
  assumes "\<And>i. spends (apart_open rs l slot) (f i) (apart rs l slot)"
  shows "spends (apart_open rs l slot)
    (act_then (act_send (\<lambda>_. SendLootRollWon env a b c d r))
      (act_if p (act_then (act_send (\<lambda>_. [Criteria x y z u])) (with_roll_item l r f)))) (apart rs l slot)"
  by (intro spends_then [OF send_spends] spends_if item_spends assms spends_skip)
    (auto simp: roll_packets dest: apart_open_apart)

lemma need_won_spends: "spends (apart_open rs l (itemSlot r)) (need_won env l r c) (apart rs l (itemSlot r))"
  unfolding need_won_def by (rule won_spends) (rule store_spends)

lemma greed_won_spends: "spends (apart_open rs l (itemSlot r)) (greed_won env l r c) (apart rs l (itemSlot r))"
proof -
  have "spends (apart_open rs l (itemSlot r)) (act_if (ct_rollvote c = DISENCHANT) (disenchant_won_item env l r g i)) (apart rs l (itemSlot r))" for g i
    by (intro spends_if disenchant_spends spends_skip) (rule apart_open_apart)
  then show ?thesis unfolding greed_won_def by (intro won_spends) (simp add: store_spends)
qed

text \<open>A pass with a winner may hand out the item; a pass without leaves it.\<close>

lemma after_contest_spends:
  assumes sent: "\<And>l slot. NotifyItemRemoved l slot \<notin> set (ct_sent c)"
    and won: "ct_maxguid c \<noteq> 0 \<Longrightarrow> spends (apart_open rs l slot) w (apart rs l slot)"
  shows "spends (apart_open rs l slot) (after_contest c w) (if ct_maxguid c \<noteq> 0 then apart rs l slot else apart_open rs l slot)"
proof -
  have "spends (apart_open rs l slot) (\<lambda>s. Some (s\<lparr>drawn := ct_drawn c\<rparr>, ct_sent c)) (apart_open rs l slot)"
    by (rule spendsI) (auto simp: apart_drawn count_list_0_iff sent)
  then show ?thesis unfolding after_contest_def
    by (rule spends_then) (auto intro!: spends_if spends_skip won)
qed

lemma spends_at: "spends P a Q \<Longrightarrow> P s \<Longrightarrow> spends (\<lambda>t. t = s) a Q"
  by (auto simp: spends_def)

lemma spends_read_at: "spends (\<lambda>t. t = s) (f s) Q \<Longrightarrow> spends (\<lambda>t. t = s) (act_read f) Q"
  by (simp add: spends_def act_read_def)

lemma need_phase_spends:
  assumes s: "apart_open rs l (itemSlot r) s"
  shows "spends (\<lambda>t. t = s) (need_phase env am l r)
    (if has_need r \<and> ct_maxguid (need_contest env am r (drawn s)) \<noteq> 0 then apart rs l (itemSlot r) else apart_open rs l (itemSlot r))"
proof (cases "has_need r")
  case True
  define c where "c = need_contest env am r (drawn s)"
  have "spends (apart_open rs l (itemSlot r)) (after_contest c (need_won env l r c))
      (if ct_maxguid c \<noteq> 0 then apart rs l (itemSlot r) else apart_open rs l (itemSlot r))"
    unfolding c_def need_contest_def by (intro after_contest_spends contest_sent need_won_spends)
  from spends_at [OF this s] have "spends (\<lambda>t. t = s) (act_read (\<lambda>s. let c = need_contest env am r (drawn s) in after_contest c (need_won env l r c)))
      (if ct_maxguid c \<noteq> 0 then apart rs l (itemSlot r) else apart_open rs l (itemSlot r))"
    by (intro spends_read_at) (simp add: c_def Let_def)
  then show ?thesis by (simp add: need_phase_def act_if_def True c_def)
next
  case False
  have "spends (\<lambda>t. t = s) (act_send (\<lambda>_. [])) (apart_open rs l (itemSlot r))" by (rule spends_skip) (simp add: s)
  then show ?thesis by (simp add: need_phase_def act_if_def False)
qed

lemma greed_phase_spends:
  assumes s: "apart_open rs l (itemSlot r) s"
  shows "spends (\<lambda>t. t = s) (greed_phase env am l r)
    (if has_greed r \<and> ct_maxguid (greed_contest env am r (drawn s)) \<noteq> 0 then apart rs l (itemSlot r) else apart_open rs l (itemSlot r))"
proof (cases "has_greed r")
  case True
  define c where "c = greed_contest env am r (drawn s)"
  have "spends (apart_open rs l (itemSlot r)) (after_contest c (greed_won env l r c))
      (if ct_maxguid c \<noteq> 0 then apart rs l (itemSlot r) else apart_open rs l (itemSlot r))"
    unfolding c_def greed_contest_def by (intro after_contest_spends contest_sent greed_won_spends)
  from spends_at [OF this s] have "spends (\<lambda>t. t = s) (act_read (\<lambda>s. let c = greed_contest env am r (drawn s) in after_contest c (greed_won env l r c)))
      (if ct_maxguid c \<noteq> 0 then apart rs l (itemSlot r) else apart_open rs l (itemSlot r))"
    by (intro spends_read_at) (simp add: c_def Let_def)
  then show ?thesis by (simp add: greed_phase_def act_if_def True c_def)
next
  case False
  have "spends (\<lambda>t. t = s) (act_send (\<lambda>_. [])) (apart_open rs l (itemSlot r))" by (rule spends_skip) (simp add: s)
  then show ?thesis by (simp add: greed_phase_def act_if_def False)
qed

lemma passed_phase_spends: "spends (apart_open rs l (itemSlot r)) (passed_phase env l r) (apart rs l (itemSlot r))"
  unfolding passed_phase_def
  by (intro spends_if spends_then [OF send_spends] item_spends unblock_spends spends_skip)
    (auto simp: roll_packets dest: apart_open_apart)

lemma after_greed_simps [simp]: "itemSlot (after_greed env am d r) = itemSlot r" "totalNeed (after_greed env am d r) = totalNeed r"
  by (simp_all add: after_greed_def Let_def)

lemma greed_rest_spends:
  assumes count: "om_count wants (playerVote r) \<le> unat (totalGreed r)"
  shows "spends (apart_open rs l (itemSlot r)) (act_read (\<lambda>s1.
    let r2 = after_greed env am (drawn s1) r in act_then (greed_phase env am l r) (passed_phase env l r2))) (apart rs l (itemSlot r))"
proof (rule spends_read, unfold Let_def)
  fix s assume s: "apart_open rs l (itemSlot r) s"
  let ?won = "has_greed r \<and> ct_maxguid (greed_contest env am r (drawn s)) \<noteq> 0"
  let ?r = "after_greed env am (drawn s) r"
  have "passed_phase env l ?r = act_send (\<lambda>_. [])" if ?won
    using after_greed_won [OF count] that by (simp add: passed_phase_def act_if_def)
  moreover have "spends (apart_open rs l (itemSlot r)) (passed_phase env l ?r) (apart rs l (itemSlot r))"
    using passed_phase_spends [of rs l ?r] by simp
  ultimately have "spends (if ?won then apart rs l (itemSlot r) else apart_open rs l (itemSlot r)) (passed_phase env l ?r) (apart rs l (itemSlot r))"
    by (simp add: spends_skip)
  from spends_then [OF greed_phase_spends [OF s] this]
  show "spends (\<lambda>t. t = s) (act_then (greed_phase env am l r) (passed_phase env l ?r)) (apart rs l (itemSlot r))" .
qed

lemma settle_roll_spends:
  assumes ok: "roll_fair r"
  shows "spends (apart_open rs l (itemSlot r)) (settle_roll env am l r) (apart rs l (itemSlot r))"
  unfolding settle_roll_def
proof (rule spends_read, unfold Let_def [of "after_need env am _ r"])
  fix s assume s: "apart_open rs l (itemSlot r) s"
  define r1 where "r1 = after_need env am (drawn s) r"
  let ?rest = "act_read (\<lambda>s1. let r2 = after_greed env am (drawn s1) r1 in act_then (greed_phase env am l r1) (passed_phase env l r2))"
  let ?won = "has_need r \<and> ct_maxguid (need_contest env am r (drawn s)) \<noteq> 0"
  have r1: "itemSlot r1 = itemSlot r" "totalGreed r1 = totalGreed r" "playerVote r1 = playerVote r"
    by (simp_all add: r1_def after_need_def Let_def)
  have "?rest = act_read (\<lambda>_. act_then (act_send (\<lambda>_. [])) (act_send (\<lambda>_. [])))" if ?won
  proof -
    have "totalNeed r1 \<noteq> 0" unfolding r1_def using after_need_won [OF ok] that by simp
    then have "greed_phase env am l r1 = act_send (\<lambda>_. [])" "passed_phase env l (after_greed env am d r1) = act_send (\<lambda>_. [])" for d
      by (simp_all add: greed_phase_def passed_phase_def act_if_def has_greed_def)
    then show ?thesis by (simp add: Let_def)
  qed
  moreover have "spends (apart rs l (itemSlot r)) (act_read (\<lambda>_. act_then (act_send (\<lambda>_. [])) (act_send (\<lambda>_. [])))) (apart rs l (itemSlot r))"
    by (rule spendsI) (auto simp: act_read_def act_then_def act_send_def)
  moreover have "spends (apart_open rs l (itemSlot r)) ?rest (apart rs l (itemSlot r))"
    using greed_rest_spends [of r1 rs l] ok unfolding r1 by (simp add: roll_fair_def)
  ultimately have "spends (if ?won then apart rs l (itemSlot r) else apart_open rs l (itemSlot r)) ?rest (apart rs l (itemSlot r))"
    by simp
  from spends_then [OF need_phase_spends [OF s] this]
  show "spends (\<lambda>t. t = s) (act_then (need_phase env am l r) (act_read (\<lambda>s1.
       let r2 = after_greed env am (drawn s1) (after_need env am (drawn s) r) in
       act_then (greed_phase env am l (after_need env am (drawn s) r)) (passed_phase env l r2)))) (apart rs l (itemSlot r))"
    unfolding r1_def .
qed

text \<open>The rolls without the one at a position.\<close>

definition others :: "nat \<Rightarrow> Roll list \<Rightarrow> Roll list" where
  "others i rs = take i rs @ drop (Suc i) rs"

lemma live_simps [simp]:
  "live [] = []" "live (r # rs) = (case roll_target r of None \<Rightarrow> live rs | Some l \<Rightarrow> (l, itemSlot r) # live rs)"
  "live (rs @ rs') = live rs @ live rs'"
  by (auto simp: live_def split: option.split)

definition countable_roll :: "nat \<Rightarrow> RollState \<Rightarrow> bool" where
  "countable_roll i s \<longleftrightarrow> i < length (RollId s) \<and> inv_of {} (others i (RollId s)) s \<and> roll_fair (RollId s ! i) \<and>
     (\<forall>l. roll_target (RollId s ! i) = Some l \<longrightarrow> apart_open (others i (RollId s)) l (itemSlot (RollId s ! i)) s)"

definition rolls_inv :: "RollState \<Rightarrow> bool" where
  "rolls_inv s \<longleftrightarrow> inv_of {} (RollId s) s"

lemma inv_of_split:
  assumes inv: "inv_of {} rs s" and i: "i < length rs"
  shows "roll_ok (rs ! i)" "inv_of {} (others i rs) s"
    "roll_target (rs ! i) = Some l \<Longrightarrow> apart_open (others i rs) l (itemSlot (rs ! i)) s"
proof -
  have rs: "rs = take i rs @ rs ! i # drop (Suc i) rs" by (rule id_take_nth_drop [OF i])
  have mem: "rs ! i \<in> set rs" using i by simp
  then show "roll_ok (rs ! i)" using inv by (simp add: inv_of_def)
  have "distinct (live (take i rs @ rs ! i # drop (Suc i) rs))" using inv rs by (simp add: inv_of_def)
  then have d: "distinct (live (others i rs))"
    "\<And>l. roll_target (rs ! i) = Some l \<Longrightarrow> (l, itemSlot (rs ! i)) \<notin> set (live (others i rs))"
    by (auto simp: others_def split: option.splits)
  have "set (others i rs) \<subseteq> set rs" by (auto simp: others_def dest: in_set_takeD in_set_dropD)
  then show "inv_of {} (others i rs) s" using inv d(1) unfolding inv_of_def by blast
  then show "apart_open (others i rs) l (itemSlot (rs ! i)) s" if "roll_target (rs ! i) = Some l"
    using that d(2) inv mem unfolding apart_open_def apart_def inv_of_def by blast
qed

lemma countable_rollI: "rolls_inv s \<Longrightarrow> i < length (RollId s) \<Longrightarrow> countable_roll i s"
  unfolding rolls_inv_def countable_roll_def using inv_of_split [of "RollId s" s i] roll_ok_fair by blast

lemma CountTheRoll_spends: "spends (countable_roll i) (CountTheRoll env i am) rolls_inv"
  unfolding CountTheRoll_def
proof (rule spends_read)
  fix s assume s: "countable_roll i s"
  let ?rs = "others i (RollId s)" and ?r = "RollId s ! i"
  have i: "i < length (RollId s)" and inv: "inv_of {} ?rs s" and fair: "roll_fair ?r"
    and at: "\<And>l. roll_target ?r = Some l \<Longrightarrow> apart_open ?rs l (itemSlot ?r) s"
    using s by (simp_all add: countable_roll_def)
  have erase: "rolls_inv (erase_roll i t)" if "inv_of {} ?rs t" "RollId t = RollId s" for t
    using that by (simp add: rolls_inv_def erase_roll_def others_def inv_of_def open_item_def settled_def)
  have same: "open_item (erase_roll i t) l slot = open_item t l slot" for t l slot by (simp add: erase_roll_def open_item_def)
  have "spends (\<lambda>t. t = s) (act_then (settle_roll env am l ?r) (act_change (erase_roll i))) rolls_inv" if l: "roll_target ?r = Some l" for l
  proof -
    have "spends (\<lambda>t. t = s) (settle_roll env am l ?r) (apart ?rs l (itemSlot ?r))"
      by (rule spends_at [OF settle_roll_spends [OF fair] at [OF l]])
    moreover have "keeps (\<lambda>t. RollId t = RollId s) (settle_roll env am l ?r)" by (rule settle_roll_RollId)
    ultimately have "spends (\<lambda>t. t = s) (settle_roll env am l ?r) (\<lambda>t. inv_of {} ?rs t \<and> RollId t = RollId s)"
      unfolding spends_def keeps_def apart_def by blast
    then show ?thesis by (rule spends_then) (auto intro!: spends_change erase simp: same)
  qed
  moreover have "spends (\<lambda>t. t = s) (act_change (erase_roll i)) rolls_inv"
    by (rule spends_change) (auto simp: same intro: erase inv)
  ultimately show "spends (\<lambda>t. t = s) (if i < length (RollId s) then let r = RollId s ! i in
       case roll_target r of None \<Rightarrow> act_change (erase_roll i)
       | Some l \<Rightarrow> act_then (settle_roll env am l r) (act_change (erase_roll i)) else undefined_act) rolls_inv"
    using i by (auto simp: Let_def split: option.split)
qed

section \<open>Votes, the timer and departures\<close>

lemma find_roll_at: "find_roll guid rs k = Some i \<Longrightarrow>
    k \<le> i \<and> i < k + length rs \<and> itemGUID (rs ! (i - k)) = guid \<and> roll_target (rs ! (i - k)) \<noteq> None"
  by (induction guid rs k rule: find_roll.induct) (auto split: if_splits simp: nth_Cons' Suc_diff_le less_eq_Suc_le)

lemma GetRoll_at: "GetRoll s guid = Some i \<Longrightarrow>
    i < length (RollId s) \<and> itemGUID (RollId s ! i) = guid \<and> roll_target (RollId s ! i) \<noteq> None"
  unfolding GetRoll_def by (drule find_roll_at) simp

lemma live_update:
  assumes "i < length rs" "roll_target r' = roll_target (rs ! i)" "itemSlot r' = itemSlot (rs ! i)"
  shows "live (rs[i := r']) = live rs"
proof -
  have "live (rs[i := r']) = live (take i rs @ r' # drop (Suc i) rs)" by (simp add: upd_conv_take_nth_drop assms(1))
  also have "\<dots> = live (take i rs @ rs ! i # drop (Suc i) rs)" by (simp add: assms(2,3) split: option.split)
  finally show ?thesis by (simp flip: id_take_nth_drop [OF assms(1)])
qed

lemma inv_of_update:
  assumes "inv_of X rs s" "i < length rs" "roll_target r' = roll_target (rs ! i)" "itemSlot r' = itemSlot (rs ! i)" "roll_ok r'"
  shows "inv_of X (rs[i := r']) s"
proof -
  have "roll_ok r \<and> (\<forall>l. roll_target r = Some l \<longrightarrow> open_item s l (itemSlot r) = 1 \<and> (l \<notin> X \<longrightarrow> settled s l))"
    if "r \<in> set (rs[i := r'])" for r
  proof (cases "r = r'")
    case True
    have "rs ! i \<in> set rs" using assms(2) by simp
    then show ?thesis using True assms unfolding inv_of_def by metis
  next
    case False
    then have "r \<in> set rs" using that set_update_subset_insert [of rs i r'] by blast
    then show ?thesis using assms(1) unfolding inv_of_def by blast
  qed
  then show ?thesis using assms(1) live_update [OF assms(2-4)] by (simp add: inv_of_def)
qed

lemma cast_vote_same [simp]: "roll_target (cast_vote g ch r) = roll_target r" "itemSlot (cast_vote g ch r) = itemSlot r"
  by (simp_all add: cast_vote_def)

lemma withdraw_vote_same [simp]: "roll_target (withdraw_vote g v r) = roll_target r" "itemSlot (withdraw_vote g v r) = itemSlot r"
  "itemGUID (withdraw_vote g v r) = itemGUID r"
  by (simp_all add: withdraw_vote_def Let_def)

definition set_roll :: "nat \<Rightarrow> Roll \<Rightarrow> RollState \<Rightarrow> RollState" where
  "set_roll i r s = s\<lparr>RollId := (RollId s)[i := r]\<rparr>"

lemma set_roll_simps [simp]: "RollId (set_roll i r s) = (RollId s)[i := r]" "open_item (set_roll i r s) l slot = open_item s l slot"
  "inv_of X rs (set_roll i r s) = inv_of X rs s" "settled (set_roll i r s) l = settled s l"
  by (simp_all add: set_roll_def inv_of_def open_item_def settled_def)

lemma CountRollVote_spends: "spends rolls_inv (CountRollVote env g guid ch) rolls_inv"
  unfolding CountRollVote_def
proof (rule spends_read)
  fix s assume s: "rolls_inv s"
  have skip: "spends (\<lambda>t. t = s) (act_seq []) rolls_inv" unfolding act_seq.simps by (rule spends_skip) (simp add: s)
  show "spends (\<lambda>t. t = s) (case GetRoll s guid of None \<Rightarrow> act_seq []
     | Some i \<Rightarrow> let r = RollId s ! i in
         if om_get (playerVote r) g = None then act_seq []
         else case roll_target r of None \<Rightarrow> act_seq []
           | Some l \<Rightarrow> with_loot l (\<lambda>L. act_if (loot_items L \<noteq> [])
                 (act_seq [act_send (\<lambda>_. announce_vote env g ch r),
                    act_change (\<lambda>s. s\<lparr>RollId := (RollId s)[i := cast_vote g ch r]\<rparr>),
                    act_if (all_voted (cast_vote g ch r)) (CountTheRoll env i None)]))) rolls_inv"
  proof (cases "GetRoll s guid")
    case (Some i)
    let ?r = "RollId s ! i"
    let ?r' = "cast_vote g ch ?r"
    have i: "i < length (RollId s)" using GetRoll_at [OF Some] by simp
    have "spends (\<lambda>t. t = s) (act_seq [act_send (\<lambda>_. announce_vote env g ch ?r),
        act_change (\<lambda>s. s\<lparr>RollId := (RollId s)[i := ?r']\<rparr>), act_if (all_voted ?r') (CountTheRoll env i None)]) rolls_inv"
      if voter: "om_get (playerVote ?r) g \<noteq> None"
    proof -
      have r: "roll_ok ?r" using inv_of_split(1) s i unfolding rolls_inv_def by blast
      have "countable_roll i (set_roll i ?r' s)"
        using countable_rollI [OF s i] i cast_vote_fair [OF r]
        by (simp add: countable_roll_def others_def apart_open_def apart_def)
      then have count: "spends (\<lambda>t. t = set_roll i ?r' s) (CountTheRoll env i None) rolls_inv"
        by (rule spends_at [OF CountTheRoll_spends])
      have "rolls_inv (set_roll i ?r' s)" if "\<not> all_voted ?r'"
        using s i cast_vote_ok [OF r voter that] by (simp add: rolls_inv_def inv_of_update)
      then have "spends (\<lambda>t. t = set_roll i ?r' s) (act_if (all_voted ?r') (CountTheRoll env i None)) rolls_inv"
        by (intro spends_if count spends_skip) simp_all
      then have rest: "spends (\<lambda>t. t = set_roll i ?r' s) (act_then (act_if (all_voted ?r') (CountTheRoll env i None)) (act_send (\<lambda>_. []))) rolls_inv"
        by (rule spends_then) (rule spends_skip)
      have "spends (\<lambda>t. t = s) (act_change (\<lambda>s. s\<lparr>RollId := (RollId s)[i := ?r']\<rparr>)) (\<lambda>t. t = set_roll i ?r' s)"
        by (rule spends_change) (simp_all add: set_roll_def open_item_def)
      from spends_then [OF this rest] show ?thesis
        unfolding act_seq.simps by (rule spends_then [OF send_spends, rotated]) (auto simp: announce_vote_def roll_packets split: if_splits)
    qed
    then show ?thesis
      using skip s Some by (auto simp: Let_def split: option.split intro!: spends_with_loot spends_if spends_skip)
  qed (simp add: skip del: act_seq.simps)
qed

text \<open>The loops over the rolls, run by run.\<close>

definition pays :: "RollState \<Rightarrow> RollState \<Rightarrow> roll_effect list \<Rightarrow> bool" where
  "pays s s' e \<longleftrightarrow> (\<forall>l slot. count_list e (NotifyItemRemoved l slot) + open_item s' l slot \<le> open_item s l slot)"

lemma pays_refl: "pays s s []"
  by (simp add: pays_def)

lemma pays_trans:
  assumes "pays s s1 e1" "pays s1 s' e2"
  shows "pays s s' (e1 @ e2)"
  unfolding pays_def
proof (intro allI)
  fix l slot
  from assms have "count_list e1 (NotifyItemRemoved l slot) + open_item s1 l slot \<le> open_item s l slot"
    "count_list e2 (NotifyItemRemoved l slot) + open_item s' l slot \<le> open_item s1 l slot"
    by (simp_all add: pays_def)
  then show "count_list (e1 @ e2) (NotifyItemRemoved l slot) + open_item s' l slot \<le> open_item s l slot" by simp
qed

lemma spends_iff: "spends P a Q \<longleftrightarrow> (\<forall>s s' e. P s \<longrightarrow> a s = Some (s', e) \<longrightarrow> Q s' \<and> pays s s' e)"
  by (simp add: spends_def pays_def)

lemma end_loop_spends: "spends rolls_inv (end_loop env l am i) rolls_inv"
proof -
  have "end_loop env l am i s = Some (s', e) \<Longrightarrow> rolls_inv s \<Longrightarrow> rolls_inv s' \<and> pays s s' e" for s s' e
  proof (induction env l am i s arbitrary: s' e rule: end_loop.induct)
    case (1 env l am i s)
    show ?case
    proof (cases "i < length (RollId s) \<and> roll_target (RollId s ! i) = Some l")
      case True
      then obtain s1 e1 e2 where s1: "CountTheRoll env i am s = Some (s1, e1)" "end_loop env l am 0 s1 = Some (s', e2)" "e = e1 @ e2"
        using "1.prems"(1) by (subst (asm) end_loop.simps) (auto split: option.splits)
      have "rolls_inv s1 \<and> pays s s1 e1"
        using CountTheRoll_spends countable_rollI [OF "1.prems"(2)] True s1(1) unfolding spends_iff by blast
      moreover have "rolls_inv s' \<and> pays s1 s' e2" using 1 True s1 calculation by blast
      ultimately show ?thesis using s1(3) pays_trans by blast
    next
      case False
      then show ?thesis
        using 1 by (cases "i < length (RollId s)") (simp_all add: end_loop.simps [of env l am i s] pays_refl)
    qed
  qed
  then show ?thesis by (simp add: spends_iff)
qed

lemma leave_loop_spends: "spends rolls_inv (leave_loop env g i) rolls_inv"
proof -
  have "leave_loop env g i s = Some (s', e) \<Longrightarrow> rolls_inv s \<Longrightarrow> rolls_inv s' \<and> pays s s' e" for s s' e
  proof (induction env g i s arbitrary: s' e rule: leave_loop.induct)
    case (1 env g i s)
    show ?case
    proof (cases "i < length (RollId s)")
      case i: True
      show ?thesis
      proof (cases "om_get (playerVote (RollId s ! i)) g")
        case None
        then show ?thesis using 1 i by (simp add: leave_loop.simps [of env g i s])
      next
        case (Some v)
        let ?s = "set_roll i (withdraw_vote g v (RollId s ! i)) s"
        obtain s1 e1 e2 where s1: "CountRollVote env g (itemGUID (RollId s ! i)) MAX_ROLL_TYPE ?s = Some (s1, e1)"
          "leave_loop env g (Suc i) s1 = Some (s', e2)" "e = e1 @ e2"
          using "1.prems"(1) i Some by (auto simp: set_roll_def Let_def leave_loop.simps [of env g i s] split: option.splits)
        have "roll_ok (RollId s ! i)" using inv_of_split(1) "1.prems"(2) i unfolding rolls_inv_def by blast
        then have "rolls_inv ?s"
          using "1.prems"(2) i withdraw_vote_ok [OF _ Some] by (simp add: rolls_inv_def inv_of_update)
        then have "rolls_inv s1 \<and> pays ?s s1 e1" using CountRollVote_spends s1(1) unfolding spends_iff by blast
        moreover have "rolls_inv s' \<and> pays s1 s' e2"
          using "1.IH"(2) [OF i refl Some] s1 calculation by (simp add: set_roll_def)
        moreover have "pays s ?s []" by (simp add: pays_def)
        ultimately show ?thesis
          using s1(3) pays_trans [of s ?s "[]" s1 e1] pays_trans [of s s1 e1 s' e2] by simp
      qed
    next
      case False
      then show ?thesis using "1.prems" by (simp add: leave_loop.simps [of env g i s] pays_refl)
    qed
  qed
  then show ?thesis by (simp add: spends_iff)
qed

section \<open>Opening a loot\<close>

text \<open>Changes of a loot that leave its kind and what was taken from it.\<close>

definition same_flags :: "(Loot \<Rightarrow> Loot) \<Rightarrow> bool" where
  "same_flags f \<longleftrightarrow> (\<forall>L. loot_type (f L) = loot_type L \<and> map is_looted (loot_items (f L)) = map is_looted (loot_items L) \<and>
     map is_looted (quest_items (f L)) = map is_looted (quest_items L))"

lemma roll_item_looted:
  "map_option is_looted (roll_item L slot) =
     (let i = unat slot; xs = map is_looted (loot_items L); ys = map is_looted (quest_items L) in
      if length xs \<le> i then (if i - length xs < length ys then Some (ys ! (i - length xs)) else None) else Some (xs ! i))"
  by (simp add: roll_item_def Let_def)

lemma same_flags_item: "same_flags f \<Longrightarrow> map_option is_looted (roll_item (f L) slot) = map_option is_looted (roll_item L slot)"
  by (simp add: roll_item_looted same_flags_def)

lemma same_flags_open: "same_flags f \<Longrightarrow> open_item (on_loot l f s) l' slot = open_item s l' slot"
  by (cases "l' = l") (simp_all add: open_item_other open_item_same same_flags_item)

lemma same_flags_fresh: "same_flags f \<Longrightarrow> loot_fresh (f L) = loot_fresh L"
proof -
  assume f: "same_flags f"
  have "(\<forall>i \<in> set xs. \<not> is_looted i) \<longleftrightarrow> True \<notin> set (map is_looted xs)" for xs :: "LootItem list" by auto
  moreover have "length xs = length (map is_looted xs)" for xs :: "LootItem list" by simp
  ultimately show ?thesis using f unfolding loot_fresh_def same_flags_def ball_Un by metis
qed

lemma same_flags_settled: "same_flags f \<Longrightarrow> settled (on_loot l f s) l' = settled s l'"
  by (rule settled_on_loot) (simp add: same_flags_def)

lemma map_update_same: "(\<And>x. g (f x) = g x) \<Longrightarrow> map g (xs[k := f (xs ! k)]) = map g xs"
  by (cases "k < length xs") (simp_all add: map_update list_update_same_conv list_update_beyond)

lemma same_flags_on_roll_item: "(\<And>i. is_looted (f i) = is_looted i) \<Longrightarrow> same_flags (on_roll_item slot f)"
  by (simp add: same_flags_def on_roll_item_def Let_def map_update_same)

definition being_opened :: "nat \<Rightarrow> nat \<Rightarrow> nat \<Rightarrow> nat \<Rightarrow> RollState \<Rightarrow> bool" where
  "being_opened l a b n s \<longleftrightarrow> inv_of {l} (RollId s) s \<and>
     (\<exists>L. loots s l = Some L \<and> loot_type L = LOOT_NONE \<and> length (loot_items L) = a \<and> length (quest_items L) = b) \<and>
     (\<forall>r \<in> set (RollId s). roll_target r = Some l \<longrightarrow> unat (itemSlot r) < n)"

lemma opening_change:
  assumes "being_opened l a b n s" "same_flags f" "n \<le> m"
  shows "being_opened l a b m (on_loot l f s)"
proof -
  from assms(1) obtain L where L: "loots s l = Some L" "loot_type L = LOOT_NONE" "length (loot_items L) = a" "length (quest_items L) = b"
    by (auto simp: being_opened_def)
  have fresh: "\<And>k K. loots s k = Some K \<Longrightarrow> loot_fresh K" using assms(1) by (simp add: being_opened_def inv_of_def)
  have fresh': "loot_fresh L'" if "loots (on_loot l f s) l' = Some L'" for l' L'
  proof (cases "l' = l")
    case True
    with that have "L' = f L" by (simp add: L(1))
    then show ?thesis by (simp add: same_flags_fresh [OF assms(2)] fresh [OF L(1)])
  next
    case False
    with that have "loots s l' = Some L'" by simp
    then show ?thesis by (rule fresh)
  qed
  have "inv_of {l} (RollId s) s" using assms(1) by (simp add: being_opened_def)
  then have "inv_of {l} (RollId s) (on_loot l f s)"
    by (rule inv_of_change) (simp_all only: same_flags_open [OF assms(2)] same_flags_settled [OF assms(2)] fresh')
  moreover have "loot_type (f L) = LOOT_NONE" "length (loot_items (f L)) = a" "length (quest_items (f L)) = b"
    using assms(2) L unfolding same_flags_def by (metis length_map)+
  ultimately show ?thesis using assms(1,3) L by (auto simp: being_opened_def dest: less_le_trans)
qed

lemma opening_later: "being_opened l a b n s \<Longrightarrow> n \<le> m \<Longrightarrow> being_opened l a b m s"
  by (auto simp: being_opened_def dest: less_le_trans)

lemma change_spends:
  assumes "same_flags f"
  shows "spends (being_opened l a b n) (act_change (on_loot l f)) (being_opened l a b n)"
  by (rule spends_change) (simp_all add: opening_change assms same_flags_open)

lemma block_spends:
  "spends (being_opened l a b n) (block_item l slot) (being_opened l a b n)"
  "spends (being_opened l a b n) (block_quest_item l slot) (being_opened l a b n)"
proof -
  have f: "same_flags (on_roll_item slot (\<lambda>i. i\<lparr>is_blocked := True\<rparr>))" by (rule same_flags_on_roll_item) simp
  show "spends (being_opened l a b n) (block_item l slot) (being_opened l a b n)"
    "spends (being_opened l a b n) (block_quest_item l slot) (being_opened l a b n)"
    unfolding block_item_def block_quest_item_def
    by (auto intro!: spends_with_loot spends_undefined spends_at [OF change_spends [OF f]])
qed

text \<open>The item of the next slot is in the loot and no roll is for it.\<close>

lemma opening_push:
  assumes s: "being_opened l a b n s" and n: "n < a + b" "a + b \<le> 255" and r: "roll_ok r" "roll_target r = Some l" "itemSlot r = of_nat n"
  shows "being_opened l a b (Suc n) (s\<lparr>RollId := RollId s @ [r]\<rparr>)"
proof -
  from s obtain L where L: "loots s l = Some L" "loot_type L = LOOT_NONE" "length (loot_items L) = a" "length (quest_items L) = b"
    by (auto simp: being_opened_def)
  have unat: "unat (of_nat n :: uint8) = n" using n by (simp add: unat_of_nat take_bit_eq_mod)
  have "loot_fresh L" using s L(1) by (auto simp: being_opened_def inv_of_def)
  then have "\<exists>i. roll_item L (of_nat n) = Some i \<and> \<not> is_looted i"
    using L n by (auto simp: loot_fresh_def roll_item_def unat Let_def)
  then have one: "open_item s l (of_nat n) = 1" by (auto simp: open_item_def L)
  have "(l, of_nat n) \<notin> set (live (RollId s))"
    using s unat unfolding being_opened_def live_def by fastforce
  then have "inv_of {l} (RollId s @ [r]) s"
    using s r one by (auto simp: being_opened_def inv_of_def)
  then have "inv_of {l} (RollId s @ [r]) (s\<lparr>RollId := RollId s @ [r]\<rparr>)" by (rule inv_of_same_loots) simp
  then show ?thesis using s r L unat by (auto simp: being_opened_def)
qed

lemma push_spends:
  assumes "n < a + b" "a + b \<le> 255" "roll_ok r" "roll_target r = Some l" "itemSlot r = of_nat n"
  shows "spends (being_opened l a b n) (push_roll env r) (being_opened l a b (Suc n))"
proof -
  have "spends (being_opened l a b n) (act_change (\<lambda>s. s\<lparr>RollId := RollId s @ [r]\<rparr>)) (being_opened l a b (Suc n))"
    by (rule spends_change) (simp add: opening_push assms, simp add: open_item_def)
  then show ?thesis unfolding push_roll_def by (rule spends_then) (rule send_spends, simp)
qed

lemma guid_spends:
  assumes "\<And>guid. spends (being_opened l a b n) (k guid) Q"
  shows "spends (being_opened l a b n) (GenerateItemGuid k) Q"
  unfolding GenerateItemGuid_def
proof (rule spends_read)
  fix s assume s: "being_opened l a b n s"
  have "spends (\<lambda>t. t = s) (act_change (\<lambda>s. s\<lparr>hiItemGuid := hiItemGuid s + 1\<rparr>)) (being_opened l a b n)"
    by (rule spends_change) (use s in \<open>auto simp: being_opened_def inv_of_def open_item_def settled_def\<close>)
  then have "spends (\<lambda>t. t = s) (act_then (act_change (\<lambda>s. s\<lparr>hiItemGuid := hiItemGuid s + 1\<rparr>)) (k guid)) Q" for guid
    by (rule spends_then) (rule assms)
  then show "spends (\<lambda>t. t = s) (if hiItemGuid s < 0xFFFFFFFE
     then act_then (act_change (\<lambda>s. s\<lparr>hiItemGuid := hiItemGuid s + 1\<rparr>)) (k (MAKE_NEW_GUID (hiItemGuid s) 0 HIGHGUID_ITEM))
     else undefined_act) Q"
    by (simp add: spends_undefined)
qed

text \<open>The members who may vote have GUIDs, and there are fewer than 255 of them.\<close>

definition env_ok :: "RollEnv \<Rightarrow> bool" where
  "env_ok env \<longleftrightarrow> length (re_members env) \<le> 254 \<and> 0 \<notin> set (re_members env)"

lemma roll_ok_more [simp]:
  "roll_ok (r\<lparr>roll_target := t\<rparr>) = roll_ok r" "roll_ok (r\<lparr>itemSlot := i\<rparr>) = roll_ok r" "roll_ok (r\<lparr>rollVoteMask := m\<rparr>) = roll_ok r"
  by (simp_all add: roll_ok_def votes_total_def)

text \<open>Blocking the item, announcing the roll and appending it.\<close>

lemma open_roll_spends:
  assumes "spends (being_opened l a b n) blk (being_opened l a b n)" "\<And>l' slot'. NotifyItemRemoved l' slot' \<notin> set e" 
    and "n < a + b" "a + b \<le> 255" "roll_ok r" "roll_target r = Some l" "itemSlot r = of_nat n"
  shows "spends (being_opened l a b n) (act_then blk (act_then (act_send (\<lambda>_. e)) (act_then (push_roll env r) (act_send (\<lambda>_. []))))) (being_opened l a b (Suc n))"
  by (intro spends_then [OF assms(1)] spends_then [OF send_spends] spends_then [OF push_spends] spends_skip) (simp_all add: assms)

lemma open_group_roll_spends:
  assumes "env_ok env" "n < a + b" "a + b \<le> 255"
  shows "spends (being_opened l a b n) (open_group_roll env l (of_nat n) i p guid) (being_opened l a b (Suc n))"
proof -
  have "NotifyItemRemoved l' slot' \<notin> set (auto_passes env r)" for l' slot' r by (auto simp: auto_passes_def roll_packets split: if_splits)
  then show ?thesis
    unfolding open_group_roll_def Let_def act_seq.simps using assms
    by (intro spends_if spends_then [OF block_spends(1)] spends_then [OF send_spends] spends_then [OF push_spends] spends_skip)
      (auto simp: roll_packets collect_votes_ok env_ok_def intro: opening_later split: if_splits)
qed

lemma open_group_quest_roll_spends:
  assumes "env_ok env" "n < a + b" "a + b \<le> 255"
  shows "spends (being_opened l a b n) (open_group_quest_roll env l (of_nat n) i guid) (being_opened l a b (Suc n))"
  unfolding open_group_quest_roll_def Let_def act_seq.simps using assms
  by (intro spends_if open_roll_spends block_spends(2) spends_skip)
    (auto simp: roll_packets collect_votes_ok env_ok_def intro: opening_later)

lemma start_rolls_packets: "NotifyItemRemoved l slot \<notin> set (start_rolls env p r)"
  by (auto simp: start_rolls_def SendLootStartRollToPlayer_def roll_packets split: if_splits)

lemma open_need_roll_spends:
  assumes "env_ok env" "n < a + b" "a + b \<le> 255"
  shows "spends (being_opened l a b n) (open_need_roll env l (of_nat n) i p guid) (being_opened l a b (Suc n))"
    and "spends (being_opened l a b n) (open_need_quest_roll env l (of_nat n) i q guid) (being_opened l a b (Suc n))"
  unfolding open_need_roll_def open_need_quest_roll_def Let_def act_seq.simps using assms
  by (intro spends_if open_roll_spends block_spends spends_skip;
      simp add: start_rolls_packets collect_votes_ok env_ok_def opening_later)+

lemma underthreshold_spends: "spends (being_opened l a b n) (set_underthreshold l k) (being_opened l a b (Suc n))"
proof -
  have "same_flags (\<lambda>L. L\<lparr>loot_items := (loot_items L)[k := (loot_items L ! k)\<lparr>is_underthreshold := True\<rparr>]\<rparr>)"
    using map_update_same [of is_looted "\<lambda>i :: LootItem. i\<lparr>is_underthreshold := True\<rparr>"] by (simp add: same_flags_def)
  from spends_weaken [OF change_spends [OF this]] show ?thesis
    unfolding set_underthreshold_def by (blast intro: opening_later le_SucI)
qed

lemma opened_lengths: "being_opened l a b n s \<Longrightarrow> loots s l = Some L \<Longrightarrow> length (loot_items L) = a \<and> length (quest_items L) = b"
  by (simp add: being_opened_def)

lemma skip_item: "spends (being_opened l a b n) (act_send (\<lambda>_. [])) (being_opened l a b (Suc n))"
  by (rule spends_skip) (erule opening_later, simp)

lemma loot_item_spends:
  assumes "env_ok env" "n < a" "a + b \<le> 255"
  shows "spends (being_opened l a b n) (group_loot_item env l n) (being_opened l a b (Suc n))"
    and "spends (being_opened l a b n) (need_loot_item env l n) (being_opened l a b (Suc n))"
proof -
  have n: "n < a + b" using assms(2) by simp
  have "spends (being_opened l a b n) (GenerateItemGuid (open_group_roll env l (of_nat n) i p)) (being_opened l a b (Suc n))"
    "spends (being_opened l a b n) (GenerateItemGuid (open_need_roll env l (of_nat n) i p)) (being_opened l a b (Suc n))" for i p
    by (intro guid_spends open_group_roll_spends open_need_roll_spends assms n)+
  then show "spends (being_opened l a b n) (group_loot_item env l n) (being_opened l a b (Suc n))"
    "spends (being_opened l a b n) (need_loot_item env l n) (being_opened l a b (Suc n))"
    unfolding group_loot_item_def need_loot_item_def Let_def
    by (auto simp: underthreshold_spends spends_undefined skip_item split: option.split
        intro!: spends_with_loot spends_if elim!: spends_at [rotated])
qed

lemma quest_item_spends:
  assumes "env_ok env" "n < b" "a + b \<le> 255"
  shows "spends (being_opened l a b (a + n)) (group_quest_item env l n) (being_opened l a b (a + Suc n))"
    and "spends (being_opened l a b (a + n)) (need_quest_item env l n) (being_opened l a b (a + Suc n))"
proof -
  have n: "a + n < a + b" using assms(2) by simp
  have rolls: "spends (being_opened l a b (a + n)) (GenerateItemGuid (open_group_quest_roll env l (of_nat (a + n)) i)) (being_opened l a b (Suc (a + n)))"
    "spends (being_opened l a b (a + n)) (GenerateItemGuid (open_need_quest_roll env l (of_nat (a + n)) i p)) (being_opened l a b (Suc (a + n)))" for i p
    by (intro guid_spends open_group_quest_roll_spends open_need_roll_spends assms n)+
  show "spends (being_opened l a b (a + n)) (group_quest_item env l n) (being_opened l a b (a + Suc n))"
    unfolding group_quest_item_def Let_def add_Suc_right
  proof (rule spends_with_loot)
    fix s L assume s: "being_opened l a b (a + n) s" "loots s l = Some L"
    show "spends (\<lambda>t. t = s) (act_if (follow_loot_rules (quest_items L ! n)) (case re_GetItemTemplate env (li_itemid (quest_items L ! n)) of
          None \<Rightarrow> act_seq []
        | Some proto \<Rightarrow> GenerateItemGuid (open_group_quest_roll env l (of_nat (length (loot_items L) + n)) (quest_items L ! n)))) (being_opened l a b (Suc (a + n)))"
      unfolding opened_lengths [OF s, THEN conjunct1]
      by (rule spends_at [of "being_opened l a b (a + n)", OF _ s(1)]) (auto simp: skip_item rolls split: option.split intro!: spends_if simp del: of_nat_add)
  qed
  show "spends (being_opened l a b (a + n)) (need_quest_item env l n) (being_opened l a b (a + Suc n))"
    unfolding need_quest_item_def Let_def add_Suc_right
  proof (rule spends_with_loot)
    fix s L assume s: "being_opened l a b (a + n) s" "loots s l = Some L"
    show "spends (\<lambda>t. t = s) (act_if (follow_loot_rules (quest_items L ! n)) (GenerateItemGuid (open_need_quest_roll env l (of_nat (length (loot_items L) + n))
        (quest_items L ! n) (re_GetItemTemplate env (li_itemid (quest_items L ! n)))))) (being_opened l a b (Suc (a + n)))"
      unfolding opened_lengths [OF s, THEN conjunct1]
      by (rule spends_at [of "being_opened l a b (a + n)", OF _ s(1)]) (intro spends_if rolls skip_item)
  qed
qed

lemma loot_loops_spend:
  assumes "env_ok env" "a + b \<le> 255"
  shows "spends (being_opened l a b 0) (GroupLoot env l) (being_opened l a b (a + b))"
    and "spends (being_opened l a b 0) (NeedBeforeGreed env l) (being_opened l a b (a + b))"
proof -
  have items: "spends (being_opened l a b 0) (act_each (group_loot_item env l) [0..<a]) (being_opened l a b a)"
    "spends (being_opened l a b 0) (act_each (need_loot_item env l) [0..<a]) (being_opened l a b a)"
    by (rule spends_upto; simp add: loot_item_spends assms)+
  have quests: "spends (being_opened l a b (a + 0)) (act_each (group_quest_item env l) [0..<b]) (being_opened l a b (a + b))"
    "spends (being_opened l a b (a + 0)) (act_each (need_quest_item env l) [0..<b]) (being_opened l a b (a + b))"
    by (rule spends_upto [of 0 b "\<lambda>n. being_opened l a b (a + n)"]; simp add: quest_item_spends assms del: add_Suc_right)+
  have both: "spends (\<lambda>t. t = s) (act_then (act_each (group_loot_item env l) [0..<a]) (act_each (group_quest_item env l) [0..<b])) (being_opened l a b (a + b))"
    "spends (\<lambda>t. t = s) (act_then (act_each (need_loot_item env l) [0..<a]) (act_each (need_quest_item env l) [0..<b])) (being_opened l a b (a + b))"
    if "being_opened l a b 0 s" for s
    using that items quests by (auto intro: spends_then spends_at)
  show "spends (being_opened l a b 0) (GroupLoot env l) (being_opened l a b (a + b))"
    "spends (being_opened l a b 0) (NeedBeforeGreed env l) (being_opened l a b (a + b))"
    unfolding GroupLoot_def NeedBeforeGreed_def by (rule spends_with_loot; simp add: opened_lengths both)+
qed

lemma MasterLoot_spends: "spends (being_opened l a b n) (MasterLoot env l) (being_opened l a b n)"
proof -
  let ?f = "\<lambda>L. L\<lparr>loot_items := map (\<lambda>i. if freeforall i then i else block_for_master i) (loot_items L),
        quest_items := map (\<lambda>i. if follow_loot_rules i then block_for_master i else i) (quest_items L)\<rparr>"
  have f: "same_flags ?f" by (simp add: same_flags_def block_for_master_def)
  show ?thesis unfolding MasterLoot_def
    by (rule spends_with_loot, rule spends_at [of "being_opened l a b n"])
      (auto simp: Let_def intro!: spends_then [OF change_spends [OF f]] send_spends)
qed

lemma opened_corpse:
  assumes "inv_of {l} (RollId s) s" "loots s l = Some L"
  shows "rolls_inv (on_loot l (\<lambda>L. L\<lparr>loot_type := if loot_type L = LOOT_SKINNING then LOOT_SKINNING else LOOT_CORPSE\<rparr>) s)"
    (is "rolls_inv (on_loot l ?f s)")
proof -
  have item: "roll_item (L\<lparr>loot_type := x\<rparr>) slot = roll_item L slot" for L x slot by (simp add: roll_item_def Let_def)
  have same: "open_item (on_loot l ?f s) l' slot = open_item s l' slot" for l' slot
    by (cases "l' = l") (simp_all add: open_item_other open_item_same item)
  have set: "settled (on_loot l ?f s) l" "settled s l' \<Longrightarrow> settled (on_loot l ?f s) l'" for l'
    using assms(2) by (auto simp: settled_def split: option.splits)
  have "loot_fresh L'" if "loots (on_loot l ?f s) l' = Some L'" for l' L'
  proof (cases "l' = l")
    case True
    with that assms(2) have "loot_type L' \<noteq> LOOT_NONE" by (auto split: if_splits)
    then show ?thesis by (simp add: loot_fresh_def)
  next
    case False
    with that assms(1) show ?thesis unfolding inv_of_def on_loot_simps by metis
  qed
  then show ?thesis
    using assms(1) set unfolding rolls_inv_def inv_of_def RollId_on_loot same by blast
qed

lemma no_rolls_yet:
  assumes "rolls_inv s" "loots s l = Some L" "loot_type L = LOOT_NONE"
  shows "being_opened l (length (loot_items L)) (length (quest_items L)) 0 s"
    "length (loot_items L) + length (quest_items L) \<le> 255"
proof -
  have not: "\<not> settled s l" using assms by (simp add: settled_def)
  then have "roll_target r \<noteq> Some l" if "r \<in> set (RollId s)" for r
    using that assms(1) unfolding rolls_inv_def inv_of_def by blast
  moreover have "inv_of {l} (RollId s) s" using assms(1) unfolding rolls_inv_def inv_of_def by blast
  ultimately show "being_opened l (length (loot_items L)) (length (quest_items L)) 0 s"
    using assms(2,3) by (auto simp: being_opened_def)
  have "loot_fresh L" using assms(1,2) unfolding rolls_inv_def inv_of_def by blast
  then show "length (loot_items L) + length (quest_items L) \<le> 255" using assms(3) by (simp add: loot_fresh_def)
qed

lemma open_corpse_spends:
  assumes env: "env_ok env"
  shows "spends rolls_inv (open_corpse env lm l) rolls_inv"
  unfolding open_corpse_def
proof (rule spends_with_loot)
  fix s L assume s: "rolls_inv s" "loots s l = Some L"
  let ?f = "\<lambda>L. L\<lparr>loot_type := if loot_type L = LOOT_SKINNING then LOOT_SKINNING else LOOT_CORPSE\<rparr>"
  let ?act = "act_if (loot_type L = LOOT_NONE) (case lm of Some GROUP_LOOT \<Rightarrow> GroupLoot env l | Some NEED_BEFORE_GREED \<Rightarrow> NeedBeforeGreed env l
        | Some MASTER_LOOT \<Rightarrow> MasterLoot env l | _ \<Rightarrow> act_seq [])"
  let ?P = "\<lambda>s. inv_of {l} (RollId s) s \<and> loots s l \<noteq> None"
  have item: "roll_item (L\<lparr>loot_type := x\<rparr>) slot = roll_item L slot" for L x slot by (simp add: roll_item_def Let_def)
  have fin: "spends ?P (act_change (on_loot l ?f)) rolls_inv"
  proof (rule spends_change)
    show "rolls_inv (on_loot l ?f s)" if "?P s" for s using that opened_corpse by blast
    show "open_item (on_loot l ?f s) l' slot \<le> open_item s l' slot" for s l' slot
      by (cases "l' = l") (simp_all add: open_item_other open_item_same item)
  qed
  have weak: "being_opened l a b n t \<Longrightarrow> ?P t" for a b n t by (auto simp: being_opened_def)
  have "spends (\<lambda>t. t = s) ?act ?P"
  proof (cases "loot_type L = LOOT_NONE")
    case True
    note op = no_rolls_yet [OF s True]
    note loops = loot_loops_spend [OF env op(2), THEN spends_at, OF op(1)] MasterLoot_spends [THEN spends_at, OF op(1)]
    have "spends (\<lambda>t. t = s) (act_seq []) ?P" unfolding act_seq.simps by (rule spends_skip) (use op(1) weak in blast)
    moreover have "spends (\<lambda>t. t = s) (GroupLoot env l) ?P" "spends (\<lambda>t. t = s) (NeedBeforeGreed env l) ?P" "spends (\<lambda>t. t = s) (MasterLoot env l) ?P"
      by (rule spends_weaken [OF loops(1) _ weak] spends_weaken [OF loops(2) _ weak] spends_weaken [OF loops(3) _ weak]; assumption)+
    ultimately show ?thesis by (simp add: act_if_def True split: option.split LootMethod.split)
  next
    case False
    have "inv_of {l} (RollId s) s" using s(1) unfolding rolls_inv_def inv_of_def by blast
    then have "?P s" using s(2) by simp
    then show ?thesis by (auto simp: act_if_def False intro!: spends_skip)
  qed
  from spends_then [OF this fin] show "spends (\<lambda>t. t = s) (act_then ?act (act_change (on_loot l ?f))) rolls_inv" .
qed

section \<open>Clearing and filling a loot\<close>

lemma invalidate_simps [simp]: "roll_ok (invalidate l r) = roll_ok r" "itemSlot (invalidate l r) = itemSlot r"
  "roll_target (invalidate l r) = (if roll_target r = Some l then None else roll_target r)"
  by (simp_all add: invalidate_def)

lemma live_invalidate: "live (map (invalidate l) rs) = filter (\<lambda>x. fst x \<noteq> l) (live rs)"
  by (induction rs) (auto split: option.split)

text \<open>What a cleared loot leaves: no roll refers to it any more.\<close>

lemma rolls_inv_replace:
  assumes s: "rolls_inv s" and L: "\<And>L. M = Some L \<Longrightarrow> loot_fresh L"
  shows "rolls_inv (s\<lparr>loots := (loots s)(l := M), RollId := map (invalidate l) (RollId s)\<rparr>)" (is "rolls_inv ?s")
proof -
  have "open_item ?s k slot = open_item s k slot \<and> settled ?s k = settled s k" if "k \<noteq> l" for k slot
    using that by (simp add: open_item_def settled_def)
  moreover have "distinct (live (map (invalidate l) (RollId s)))"
    using s by (simp add: live_invalidate rolls_inv_def inv_of_def)
  ultimately show ?thesis
    using s L unfolding rolls_inv_def inv_of_def by (auto split: if_splits)
qed

lemma Loot_clear_spends: "spends rolls_inv (Loot_clear l) rolls_inv"
  unfolding Loot_clear_def
proof (rule spends_change)
  fix s k slot
  let ?f = "\<lambda>L :: Loot. L\<lparr>loot_items := [], quest_items := [], gold := 0, unlootedCount := 0, roundRobinPlayer := 0, loot_type := LOOT_NONE\<rparr>"
  assume "rolls_inv s"
  then have "rolls_inv (s\<lparr>loots := (loots s)(l := map_option ?f (loots s l)), RollId := map (invalidate l) (RollId s)\<rparr>)"
    by (rule rolls_inv_replace) (auto simp: loot_fresh_def)
  then show "rolls_inv ((on_loot l ?f s)\<lparr>RollId := map (invalidate l) (RollId s)\<rparr>)" by (simp add: on_loot_def)
  show "open_item ((on_loot l ?f s)\<lparr>RollId := map (invalidate l) (RollId s)\<rparr>) k slot \<le> open_item s k slot"
    by (auto simp: open_item_def roll_item_def Let_def split: option.split)
qed

text \<open>A kill leaves a loot with new items only, and cuts the rolls on the old one.\<close>

definition refilled :: "nat \<Rightarrow> RollState \<Rightarrow> RollState \<Rightarrow> bool" where
  "refilled l s s' \<longleftrightarrow> RollId s' = map (invalidate l) (RollId s) \<and> (\<forall>k. k \<noteq> l \<longrightarrow> loots s' k = loots s k) \<and>
     (\<forall>L. loots s' l = Some L \<longrightarrow> loot_type L = LOOT_NONE \<and> length (loot_items L) \<le> MAX_NR_LOOT_ITEMS \<and>
       length (quest_items L) \<le> MAX_NR_QUEST_ITEMS \<and> (\<forall>i \<in> set (loot_items L) \<union> set (quest_items L). \<not> is_looted i))"

lemma refilled_inv:
  assumes "rolls_inv s" "refilled l s s'"
  shows "rolls_inv s'"
proof -
  have "loot_fresh L" if "loots s' l = Some L" for L using assms(2) that by (auto simp: refilled_def loot_fresh_def)
  from rolls_inv_replace [OF assms(1) this] have "rolls_inv (s\<lparr>loots := (loots s)(l := loots s' l), RollId := map (invalidate l) (RollId s)\<rparr>)" .
  moreover have "(loots s)(l := loots s' l) = loots s'" using assms(2) by (auto simp: refilled_def fun_eq_iff)
  ultimately show ?thesis
    using assms(2) by (simp add: rolls_inv_def inv_of_def refilled_def open_item_def settled_def)
qed

lemma add_stacks_ok:
  "length xs \<le> limit \<Longrightarrow> \<forall>i \<in> set xs. \<not> is_looted i \<Longrightarrow>
   length (add_stacks env li ms limit k n d xs) \<le> limit \<and> (\<forall>i \<in> set (add_stacks env li ms limit k n d xs). \<not> is_looted i)"
  by (induction env li ms limit k n d xs rule: add_stacks.induct) (simp_all add: LootItem_new_def Let_def)

definition new_loot :: "Loot \<Rightarrow> bool" where
  "new_loot L \<longleftrightarrow> loot_type L = LOOT_NONE \<and> length (loot_items L) \<le> MAX_NR_LOOT_ITEMS \<and>
     length (quest_items L) \<le> MAX_NR_QUEST_ITEMS \<and> (\<forall>i \<in> set (loot_items L) \<union> set (quest_items L). \<not> is_looted i)"

lemma refilled_on_loot: "refilled l s t \<Longrightarrow> (\<And>L. new_loot L \<Longrightarrow> new_loot (f L)) \<Longrightarrow> refilled l s (on_loot l f t)"
  by (auto simp: refilled_def new_loot_def [symmetric])

lemma add_drop_new:
  assumes "new_loot L"
  shows "new_loot (snd (add_drop env li proto n d L))"
proof -
  let ?lim = "if ls_needs_quest li then MAX_NR_QUEST_ITEMS else MAX_NR_LOOT_ITEMS"
    and ?xs = "if ls_needs_quest li then quest_items L else loot_items L"
  define ys where "ys = add_stacks env li (GetMaxStackSize proto) ?lim
    (unat (n div GetMaxStackSize proto) + (if n mod GetMaxStackSize proto \<noteq> 0 then 1 else 0)) n d ?xs"
  have "length ?xs \<le> ?lim" "\<forall>i \<in> set ?xs. \<not> is_looted i" using assms by (auto simp: new_loot_def)
  then have ys: "length ys \<le> ?lim" "\<forall>i \<in> set ys. \<not> is_looted i" unfolding ys_def using add_stacks_ok by blast+
  have new: "new_loot (M\<lparr>unlootedCount := x\<rparr>) = new_loot M" for M x by (simp add: new_loot_def)
  have "new_loot (if ls_needs_quest li then L\<lparr>quest_items := ys\<rparr> else L\<lparr>loot_items := ys\<rparr>)"
    using ys assms by (cases "ls_needs_quest li") (simp_all add: new_loot_def ball_Un)
  then show ?thesis unfolding add_drop_def Let_def ys_def [symmetric] snd_conv by (cases "ls_needs_quest li") (simp_all add: new)
qed

lemma AddItem_refilled: "keeps (refilled l s) (AddItem env l li)"
proof -
  have "keeps (refilled l s) (act_change (on_loot l (\<lambda>L. snd (add_drop env li proto n d L))) :: roll_act)" for proto n d
    by (intro keeps_change refilled_on_loot add_drop_new)
  moreover have "keeps (refilled l s) (act_change (\<lambda>t. t\<lparr>drawn := n\<rparr>) :: roll_act)" for n
    by (rule keeps_change) (simp add: refilled_def)
  ultimately show ?thesis
    unfolding AddItem_def Let_def
    by (intro keeps_with_loot keeps_read) (simp add: keeps_send keeps_then split: option.split)
qed

lemma mark_underthreshold_looted [simp]: "is_looted (mark_underthreshold env i) = is_looted i"
  by (simp add: mark_underthreshold_def split: option.split)

lemma kill_refilled:
  assumes "kill_creature env l g lis s = Some (s', e)"
  shows "refilled l s s'"
proof -
  have "leads (\<lambda>t. t = s) (Loot_clear l) (refilled l s)"
    by (auto simp: leads_def Loot_clear_def act_change_def refilled_def)
  moreover have "leads (refilled l s) (act_each (AddItem env l) lis) (refilled l s)"
    by (intro leads_keeps keeps_each AddItem_refilled)
  moreover have "leads (refilled l s) (act_change (on_loot l (\<lambda>L. L\<lparr>roundRobinPlayer := g,
        loot_items := map (mark_underthreshold env) (loot_items L)\<rparr>)) :: roll_act) (refilled l s)"
    by (intro leads_change refilled_on_loot) (auto simp: new_loot_def)
  ultimately have "leads (\<lambda>t. t = s) (act_seq [Loot_clear l, act_each (AddItem env l) lis,
      act_change (on_loot l (\<lambda>L. L\<lparr>roundRobinPlayer := g, loot_items := map (mark_underthreshold env) (loot_items L)\<rparr>))]) (refilled l s)"
    by (meson leads_seq leads_nil)
  then show ?thesis
    using assms by (auto simp: kill_creature_def with_loot_def act_read_def undefined_act_def split: option.splits dest: leadsD)
qed

section \<open>What is given was removed\<close>

text \<open>An item is stored, or disenchanted, only after it was taken out of its loot.\<close>

fun is_given :: "roll_effect \<Rightarrow> bool" where
  "is_given (StoreNewItem _ _ _ _) = True"
| "is_given (AutoStoreLoot _ _) = True"
| "is_given _ = False"

fun is_removed :: "roll_effect \<Rightarrow> bool" where
  "is_removed (NotifyItemRemoved _ _) = True"
| "is_removed _ = False"

definition given :: "roll_effect list \<Rightarrow> nat" where
  "given e = length (filter is_given e)"

definition removed :: "roll_effect list \<Rightarrow> nat" where
  "removed e = length (filter is_removed e)"

lemma given_append [simp]: "given (e @ e') = given e + given e'" "removed (e @ e') = removed e + removed e'"
  by (simp_all add: given_def removed_def)

definition backed :: "nat \<Rightarrow> roll_act \<Rightarrow> bool" where
  "backed n a \<longleftrightarrow> (\<forall>s s' e. a s = Some (s', e) \<longrightarrow> given e \<le> removed e + n)"

named_theorems backed_intros \<open>rules for what actions give\<close>

lemma backed_then [backed_intros]:
  assumes "backed 0 a" "backed 0 b"
  shows "backed 0 (act_then a b)"
  unfolding backed_def
proof (intro allI impI)
  fix s s' e assume "act_then a b s = Some (s', e)"
  then obtain s1 e1 e2 where "a s = Some (s1, e1)" "b s1 = Some (s', e2)" "e = e1 @ e2" by (rule act_then_Some)
  with assms show "given e \<le> removed e + 0" by (fastforce simp: backed_def)
qed

lemma backed_pair:
  assumes "\<And>s s' e. a s = Some (s', e) \<Longrightarrow> given e + 1 \<le> removed e" "backed 1 b"
  shows "backed 0 (act_then a b)"
  unfolding backed_def
proof (intro allI impI)
  fix s s' e assume "act_then a b s = Some (s', e)"
  then obtain s1 e1 e2 where "a s = Some (s1, e1)" "b s1 = Some (s', e2)" "e = e1 @ e2" by (rule act_then_Some)
  with assms show "given e \<le> removed e + 0" by (fastforce simp: backed_def)
qed

lemma backed_basic [backed_intros]:
  "backed n (act_change f)" "backed n undefined_act" "(\<And>s. backed n (h s)) \<Longrightarrow> backed n (act_read h)"
  "(\<And>L. backed n (k L)) \<Longrightarrow> backed n (with_loot l k)" "(\<And>i. backed n (m i)) \<Longrightarrow> backed n (with_roll_item l r m)"
  by (auto simp: backed_def act_change_def undefined_act_def act_read_def with_loot_def with_roll_item_def given_def split: option.splits)

lemma backed_send: "(\<And>s. given (f s) \<le> n) \<Longrightarrow> backed n (act_send f)"
  by (auto simp: backed_def act_send_def intro: trans_le_add2)

lemma backed_if [backed_intros]: "(b \<Longrightarrow> backed n a) \<Longrightarrow> backed n (act_if b a)"
  by (simp add: act_if_def backed_send given_def)

lemma backed_seq [backed_intros]: "backed 0 (act_seq [])" "backed 0 a \<Longrightarrow> backed 0 (act_seq as) \<Longrightarrow> backed 0 (act_seq (a # as))"
  by (simp_all add: backed_send backed_then given_def)

lemma backed_each [backed_intros]: "(\<And>x. backed 0 (f x)) \<Longrightarrow> backed 0 (act_each f xs)"
  by (induction xs) (simp_all add: backed_send backed_then given_def)

lemma backed_cond [backed_intros]: "(b \<Longrightarrow> backed n a) \<Longrightarrow> (\<not> b \<Longrightarrow> backed n a') \<Longrightarrow> backed n (if b then a else a')"
  by simp

lemma backed_option [backed_intros]: "backed n a \<Longrightarrow> (\<And>x. backed n (f x)) \<Longrightarrow> backed n (case m of None \<Rightarrow> a | Some x \<Rightarrow> f x)"
  by (simp split: option.split)

lemma backed_ask:
  assumes "\<And>msg. backed n (k msg)"
  shows "backed n (ask_inventory env g i c k)"
  unfolding backed_def ask_inventory_def
proof (intro allI impI)
  fix s s' e
  assume "act_read (\<lambda>s. act_then (act_change (\<lambda>s. s\<lparr>drawn := Suc (drawn s)\<rparr>)) (k (re_CanStoreNewItem env (drawn s) g i c))) s = Some (s', e)"
  then obtain s1 where "k (re_CanStoreNewItem env (drawn s) g i c) s1 = Some (s', e)"
    by (auto simp: act_read_def act_change_def elim!: act_then_Some)
  with assms show "given e \<le> removed e + n" by (auto simp: backed_def)
qed

lemma given_packets [simp]: "given (to_voters env P r p) = 0"
  by (auto simp: given_def to_voters_def filter_empty_conv)

lemma given_concat: "(\<And>x. x \<in> set xs \<Longrightarrow> given (f x) = 0) \<Longrightarrow> given (concat (map f xs)) = 0"
  by (induction xs) (simp_all add: given_def)

lemma given_nothing [simp]: "given [] = 0" "given [Criteria a b c d] = 0" "given [SendEquipError g m i] = 0" "given [SendTo g p] = 0"
  "given [GroupLootTimer x y] = 0"
  by (simp_all add: given_def)

lemma given_sent [simp]: "given (SendLootRoll env a b c d r) = 0" "given (SendLootRollWon env a b c d r) = 0"
  "given (SendLootAllPassed env r) = 0" "given (SendLootStartRoll env x y r) = 0" "given (announce_vote env g ch r) = 0"
  by (simp_all add: roll_packets announce_vote_def)

lemma given_started [simp]: "given (auto_passes env r) = 0" "given (start_rolls env p r) = 0"
  unfolding auto_passes_def start_rolls_def SendLootStartRollToPlayer_def by (rule given_concat; auto)+

lemma contest_given [simp]: "given (ct_sent (contest env am r P tot d)) = 0"
proof -
  have "given (ct_sent (contest_loop env am r P vs c)) = given (ct_sent c)" for vs c
    by (induction env am r P vs c rule: contest_loop.induct) (simp_all add: draw_def Let_def)
  then show ?thesis by (simp add: contest_def given_def)
qed

lemma take_item_gives: "take_item l r s = Some (s', e) \<Longrightarrow> given e + 1 \<le> removed e"
  by (auto simp: take_item_def act_then_def act_change_def act_send_def given_def removed_def)

lemma won_backed: "backed 0 (store_won_item env l r g i)" "backed 0 (disenchant_won_item env l r g i)"
proof -
  have "backed 0 (act_then (take_item l r) (act_send (\<lambda>_. [StoreNewItem g a b c])))" for a b c
    by (rule backed_pair [OF take_item_gives]) (simp_all add: backed_send given_def)
  then show "backed 0 (store_won_item env l r g i)"
    unfolding store_won_item_def unblock_item_def
    by (intro backed_ask backed_cond) (simp_all add: backed_then backed_basic backed_send)
  have "given (concat (map (\<lambda>(item, count). [SendEquipError g msg item, SendItemRetrievalMail g item count]) xs)) = 0" for msg xs
    by (rule given_concat) (auto simp: given_def)
  then have "backed 1 (ask_inventory env g a b (\<lambda>msg. case re_GetItemTemplate env (itemid r) of None \<Rightarrow> undefined_act
          | Some proto \<Rightarrow> act_send (\<lambda>s. if msg = EQUIP_ERR_OK then [AutoStoreLoot g (it_DisenchantID proto)]
                else concat (map (\<lambda>(item, count). [SendEquipError g msg item, SendItemRetrievalMail g item count])
                       (re_DisenchantLoot env (drawn s) (it_DisenchantID proto) g)))))" for a b
    by (intro backed_ask backed_intros backed_send) (auto simp: given_def)
  moreover have "backed 1 (act_then (act_send (\<lambda>_. [Criteria g a b c])) k)" if "backed 1 k" for a b c k
    unfolding backed_def
  proof (intro allI impI)
    fix s s' e assume "act_then (act_send (\<lambda>_. [Criteria g a b c])) k s = Some (s', e)"
    then obtain e2 where "k s = Some (s', e2)" "e = Criteria g a b c # e2" by (auto simp: act_send_def elim!: act_then_Some)
    with that show "given e \<le> removed e + 1" by (auto simp: backed_def given_def removed_def)
  qed
  ultimately show "backed 0 (disenchant_won_item env l r g i)"
    unfolding disenchant_won_item_def by (intro backed_pair [OF take_item_gives]) simp_all
qed

lemma settle_backed: "backed 0 (settle_roll env am l r)"
proof -
  have won: "backed 0 (need_won env l r c)" "backed 0 (greed_won env l r c)" for r c
    unfolding need_won_def greed_won_def
    by (intro backed_basic backed_then backed_if backed_cond won_backed backed_send; simp)+
  have after: "backed 0 (after_contest (need_contest env am r d) w)" "backed 0 (after_contest (greed_contest env am r d) w)" if "backed 0 w" for r d w
    unfolding after_contest_def by (intro backed_then backed_if that; simp add: backed_def need_contest_def greed_contest_def)+
  have "backed 0 (need_phase env am l r)" "backed 0 (greed_phase env am l r)" "backed 0 (passed_phase env l r)" for r
    unfolding need_phase_def greed_phase_def passed_phase_def unblock_item_def Let_def
    by (intro backed_if backed_basic after won backed_then backed_send; simp)+
  then show ?thesis unfolding settle_roll_def Let_def by (intro backed_basic backed_then)
qed

lemma CountTheRoll_backed: "backed 0 (CountTheRoll env i am)"
  unfolding CountTheRoll_def Let_def by (intro backed_basic backed_cond backed_option backed_then settle_backed)

lemma CountRollVote_backed: "backed 0 (CountRollVote env g guid ch)"
  unfolding CountRollVote_def Let_def
  by (intro backed_basic backed_cond backed_option backed_if backed_seq CountTheRoll_backed backed_send) simp

lemma backed_append:
  assumes "backed 0 a" "a s = Some (s1, e1)" "given e2 \<le> removed e2"
  shows "given (e1 @ e2) \<le> removed (e1 @ e2)"
proof -
  have "given e1 \<le> removed e1" using assms(1,2) unfolding backed_def by fastforce
  then show ?thesis using assms(3) by simp
qed

lemma end_loop_backed: "backed 0 (end_loop env l am i)"
proof -
  have "end_loop env l am i s = Some (s', e) \<Longrightarrow> given e \<le> removed e" for s s' e
  proof (induction env l am i s arbitrary: s' e rule: end_loop.induct)
    case (1 env l am i s)
    then show ?case
      by (auto simp: end_loop.simps [of env l am i s] split: if_splits option.splits intro: backed_append [OF CountTheRoll_backed])
  qed
  then show ?thesis by (auto simp: backed_def)
qed

lemma leave_loop_backed: "backed 0 (leave_loop env g i)"
proof -
  have "leave_loop env g i s = Some (s', e) \<Longrightarrow> given e \<le> removed e" for s s' e
  proof (induction env g i s arbitrary: s' e rule: leave_loop.induct)
    case (1 env g i s)
    then show ?case
      by (auto simp: leave_loop.simps [of env g i s] Let_def split: if_splits option.splits intro: backed_append [OF CountRollVote_backed])
  qed
  then show ?thesis by (auto simp: backed_def)
qed

lemma opening_backed: "backed 0 (open_corpse env lm l)" "backed 0 (kill_creature env l g lis)" "backed 0 (Loot_clear l)"
proof -
  have blk: "backed 0 (block_item l slot)" "backed 0 (block_quest_item l slot)" "backed 0 (push_roll env r)" "backed 0 (set_underthreshold l n)" for slot r n
    unfolding block_item_def block_quest_item_def push_roll_def set_underthreshold_def
    by (intro backed_basic backed_cond backed_then backed_send; simp)+
  have rolls: "backed 0 (open_group_roll env l slot i p guid)" "backed 0 (open_group_quest_roll env l slot i guid)"
    "backed 0 (open_need_roll env l slot i p guid)" "backed 0 (open_need_quest_roll env l slot i q guid)" for slot i p q guid
    unfolding open_group_roll_def open_group_quest_roll_def open_need_roll_def open_need_quest_roll_def Let_def
    by (intro backed_if backed_seq blk backed_send; simp)+
  have guid: "backed 0 (GenerateItemGuid k)" if "\<And>g. backed 0 (k g)" for k
    unfolding GenerateItemGuid_def by (intro backed_basic backed_cond backed_then that)
  have items: "backed 0 (group_loot_item env l n)" "backed 0 (need_loot_item env l n)" "backed 0 (group_quest_item env l n)" "backed 0 (need_quest_item env l n)" for n
    unfolding group_loot_item_def need_loot_item_def group_quest_item_def need_quest_item_def Let_def
    by (intro backed_basic backed_if backed_option backed_cond guid rolls blk backed_seq)+
  have "backed 0 (MasterLoot env l)"
    unfolding MasterLoot_def Let_def by (intro backed_basic backed_then backed_send) (simp add: given_def filter_empty_conv)
  moreover have "backed 0 (GroupLoot env l)" "backed 0 (NeedBeforeGreed env l)"
    unfolding GroupLoot_def NeedBeforeGreed_def by (intro backed_basic backed_then backed_each items)+
  moreover have "backed 0 (act_seq [])" by (rule backed_seq)
  ultimately have "backed 0 (case lm of Some GROUP_LOOT \<Rightarrow> GroupLoot env l | Some NEED_BEFORE_GREED \<Rightarrow> NeedBeforeGreed env l
        | Some MASTER_LOOT \<Rightarrow> MasterLoot env l | _ \<Rightarrow> act_seq [])"
    by (simp split: option.split LootMethod.split del: act_seq.simps)
  then show "backed 0 (open_corpse env lm l)" unfolding open_corpse_def by (intro backed_basic backed_then backed_if)
  show "backed 0 (Loot_clear l)" unfolding Loot_clear_def by (rule backed_basic)
  then show "backed 0 (kill_creature env l g lis)"
    unfolding kill_creature_def AddItem_def Let_def by (intro backed_basic backed_seq backed_each backed_option backed_then)
qed

end
