(* ===== verification/LootRollRuns.thy ===== *)
theory LootRollRuns
  imports LootRollInv
begin

text \<open>
  The loot rolls as a machine: the operations the world calls, in any order, from a group without rolls and a
  world without loots.  The properties of the rolls are stated for the states such runs reach.
\<close>

section \<open>The operations\<close>

datatype roll_op =
    OpNew nat
  | OpKill RollEnv nat uint64 "LootStoreItem list"
  | OpOpen RollEnv "LootMethod option" nat
  | OpVote RollEnv uint64 uint64 uint8
  | OpTimer RollEnv nat "nat option"
  | OpLeave RollEnv uint64
  | OpClear nat

definition create_loot :: "nat \<Rightarrow> roll_act" where
  "create_loot l = act_read (\<lambda>s. act_if (loots s l = None) (act_change (\<lambda>s. s\<lparr>loots := (loots s)(l := Some Loot_new)\<rparr>)))"

fun roll_op_act :: "roll_op \<Rightarrow> roll_act" where
  "roll_op_act (OpNew l) = create_loot l"
| "roll_op_act (OpKill env l lootOwner dropped) = kill_creature env l lootOwner dropped"
| "roll_op_act (OpOpen env lm l) = open_corpse env lm l"
| "roll_op_act (OpVote env g guid choice) = CountRollVote env g guid choice"
| "roll_op_act (OpTimer env l allowedMap) = EndRoll env l allowedMap"
| "roll_op_act (OpLeave env g) = LeaveRolls env g"
| "roll_op_act (OpClear l) = Loot_clear l"

definition RollState_new :: "uint32 \<Rightarrow> RollState" where
  "RollState_new low = \<lparr>RollId = [], loots = (\<lambda>_. None), hiItemGuid = low, drawn = 0\<rparr>"

text \<open>The state of a run: \<open>None\<close> after undefined behaviour, otherwise the state and everything sent so far.\<close>

type_synonym roll_run = "(RollState \<times> roll_effect list) option"

definition roll_step :: "roll_op \<Rightarrow> roll_run \<Rightarrow> roll_run" where
  "roll_step x st = (case st of None \<Rightarrow> None | Some (s, log) \<Rightarrow> map_option (\<lambda>(s', e). (s', log @ e)) (roll_op_act x s))"

definition roll_pre :: "roll_op \<Rightarrow> roll_run \<Rightarrow> bool" where
  "roll_pre x st \<longleftrightarrow> (case x of OpOpen env _ _ \<Rightarrow> env_ok env | _ \<Rightarrow> True)"

definition roll_run_ok :: "roll_run \<Rightarrow> bool" where
  "roll_run_ok st \<longleftrightarrow> (case st of None \<Rightarrow> True | Some (s, log) \<Rightarrow> rolls_inv s \<and> given log \<le> removed log)"

fun kills :: "nat \<Rightarrow> roll_op \<Rightarrow> nat" where
  "kills l (OpKill _ k _ _) = (if k = l then 1 else 0)"
| "kills l _ = 0"

lemma create_loot_spends: "spends rolls_inv (create_loot l) rolls_inv"
  unfolding create_loot_def
proof (rule spends_read)
  fix s assume s: "rolls_inv s"
  have none: "roll_item Loot_new slot = None" for slot by (simp add: roll_item_def Loot_new_def)
  have "rolls_inv (s\<lparr>loots := (loots s)(l := Some Loot_new)\<rparr>)" (is "rolls_inv ?s") if l: "loots s l = None"
  proof -
    have inv: "inv_of {} (RollId s) s" using s by (simp add: rolls_inv_def)
    have other: "open_item ?s k slot = open_item s k slot" if "(k, slot) \<in> set (live (RollId s))" for k slot
    proof -
      have "open_item s k slot = 1" using inv that by (auto simp: inv_of_def live_def)
      then have "k \<noteq> l" by (auto simp: open_item_def l)
      then show ?thesis by (simp add: open_item_def)
    qed
    have fresh: "loot_fresh L" if "loots ?s k = Some L" for k L
    proof (cases "k = l")
      case True
      with that show ?thesis by (auto simp: loot_fresh_def Loot_new_def)
    next
      case False
      with that inv show ?thesis by (simp add: inv_of_def)
    qed
    have "settled ?s k" if "settled s k" for k using that l by (auto simp: settled_def split: option.splits)
    from inv_of_change [OF inv other this fresh] show ?thesis by (simp add: rolls_inv_def)
  qed
  moreover have "open_item (s\<lparr>loots := (loots s)(l := Some Loot_new)\<rparr>) k slot \<le> open_item s k slot" for k slot
    by (simp add: open_item_def none)
  ultimately show "spends (\<lambda>t. t = s) (act_if (loots s l = None) (act_change (\<lambda>s. s\<lparr>loots := (loots s)(l := Some Loot_new)\<rparr>))) rolls_inv"
    using s by (auto intro!: spends_if spends_change spends_skip)
qed

lemma op_pays:
  assumes "rolls_inv s" "roll_pre x st" "roll_op_act x s = Some (s', e)"
  shows "rolls_inv s' \<and> given e \<le> removed e \<and>
    (\<forall>l slot. count_list e (NotifyItemRemoved l slot) + open_item s' l slot \<le> open_item s l slot + kills l x)"
proof (cases x)
  case (OpKill env l g lis)
  then have run: "kill_creature env l g lis s = Some (s', e)" using assms(3) by simp
  have r: "refilled l s s'" by (rule kill_refilled [OF run])
  have "e = []"
  proof -
    have "\<forall>s s' e. act_each (AddItem env l) xs s = Some (s', e) \<longrightarrow> e = []" for xs
      by (induction xs) (auto simp: act_send_def AddItem_def with_loot_def act_read_def act_change_def act_then_def undefined_act_def Let_def split: option.splits)
    then show ?thesis
      using run by (auto simp: kill_creature_def with_loot_def act_read_def undefined_act_def Loot_clear_def act_change_def act_send_def
          split: option.splits elim!: act_then_Some)
  qed
  moreover have "open_item s' k slot \<le> open_item s k slot + (if l = k then 1 else 0)" for k slot
    using r open_item_le [of s' k slot] by (auto simp: refilled_def open_item_def)
  ultimately show ?thesis using refilled_inv [OF assms(1) r] by (simp add: OpKill given_def)
next
  case (OpOpen env lm l)
  have "spends rolls_inv (open_corpse env lm l) rolls_inv"
    using assms(2) by (intro open_corpse_spends) (simp add: roll_pre_def OpOpen)
  then show ?thesis using assms opening_backed(1) [of env lm l] by (fastforce simp: OpOpen spends_def backed_def)
next
  case (OpNew l)
  have "backed 0 (create_loot l)" unfolding create_loot_def by (intro backed_basic backed_if)
  then show ?thesis using assms create_loot_spends [of l] by (fastforce simp: OpNew spends_def backed_def)
next
  case (OpVote env g guid ch)
  then show ?thesis using assms CountRollVote_spends CountRollVote_backed by (fastforce simp: spends_def backed_def)
next
  case (OpTimer env l am)
  then show ?thesis using assms end_loop_spends end_loop_backed by (fastforce simp: spends_def backed_def EndRoll_def)
next
  case (OpLeave env g)
  then show ?thesis using assms leave_loop_spends leave_loop_backed by (fastforce simp: spends_def backed_def LeaveRolls_def)
next
  case (OpClear l)
  then show ?thesis using assms Loot_clear_spends opening_backed(3) by (fastforce simp: spends_def backed_def)
qed

interpretation rolls: guarded_machine roll_step roll_pre roll_run_ok
proof
  fix st x
  assume "roll_run_ok st" "roll_pre x st"
  then show "roll_run_ok (roll_step x st)"
    using op_pays [of _ x st] by (fastforce simp: roll_run_ok_def roll_step_def split: option.splits)
qed

lemma reachable_rolls:
  assumes "rolls.run (Some (RollState_new low, [])) ops (Some (s, log))"
  shows "rolls_inv s" "given log \<le> removed log"
proof -
  have "roll_run_ok (Some (RollState_new low, []))"
    by (simp add: roll_run_ok_def RollState_new_def rolls_inv_def inv_of_def given_def)
  from rolls.run_inv [OF assms this] show "rolls_inv s" "given log \<le> removed log" by (simp_all add: roll_run_ok_def)
qed

lemma run_pays:
  assumes "rolls.run st ops st'" "st = Some (s, log)" "st' = Some (s', log')" "rolls_inv s"
  shows "count_list log' (NotifyItemRemoved l slot) + open_item s' l slot \<le>
    count_list log (NotifyItemRemoved l slot) + open_item s l slot + sum_list (map (kills l) ops)"
  using assms
proof (induction arbitrary: s log rule: rolls.run.induct)
  case (run_nil st)
  then show ?case by simp
next
  case (run_cons x st ops st')
  show ?case
  proof (cases "roll_op_act x s")
    case None
    then have "roll_step x st = None" by (simp add: roll_step_def run_cons.prems(1))
    moreover have "st' = None" if "rolls.run u us st'" "u = None" for u us
      using that by (induction rule: rolls.run.induct) (simp_all add: roll_step_def)
    ultimately show ?thesis using run_cons.hyps(2) run_cons.prems(2) by blast
  next
    case (Some res)
    then obtain s1 e where s1: "roll_op_act x s = Some (s1, e)" by (cases res) simp
    then have step: "roll_step x st = Some (s1, log @ e)" by (simp add: roll_step_def run_cons.prems(1))
    note pay = op_pays [OF run_cons.prems(3) run_cons.hyps(1) s1]
    have "count_list log' (NotifyItemRemoved l slot) + open_item s' l slot \<le>
        count_list (log @ e) (NotifyItemRemoved l slot) + open_item s1 l slot + sum_list (map (kills l) ops)"
      using run_cons.IH [OF step run_cons.prems(2)] pay by blast
    moreover have "count_list e (NotifyItemRemoved l slot) + open_item s1 l slot \<le> open_item s l slot + kills l x" using pay by blast
    ultimately show ?thesis by simp
  qed
qed

text \<open>(C10) An item that dropped is handed out at most once: over every sequence of kills, openings, votes, expired timers,
  departures and cleared loots, the item in a slot of a loot is removed from it at most as often as the loot was
  filled, and never more items are stored or disenchanted by winners than were removed.\<close>

theorem loot_awarded_once:
  assumes "rolls.run (Some (RollState_new low, [])) ops (Some (s, log))"
  shows "count_list log (NotifyItemRemoved l slot) \<le> sum_list (map (kills l) ops) \<and> given log \<le> removed log"
proof -
  have "open_item (RollState_new low) l slot = 0" by (simp add: open_item_def RollState_new_def)
  moreover have "rolls_inv (RollState_new low)" by (simp add: RollState_new_def rolls_inv_def inv_of_def)
  ultimately have "count_list log (NotifyItemRemoved l slot) \<le> sum_list (map (kills l) ops)"
    using run_pays [OF assms refl refl, of l slot] by simp
  then show ?thesis using reachable_rolls(2) [OF assms] by simp
qed

section \<open>The timer ends every roll\<close>

text \<open>The item a roll is for can be found.\<close>

definition has_item :: "nat \<Rightarrow> uint8 \<Rightarrow> RollState \<Rightarrow> bool" where
  "has_item l slot s \<longleftrightarrow> (\<exists>L i. loots s l = Some L \<and> roll_item L slot = Some i)"

lemma has_item_drawn [simp]: "has_item l slot (s\<lparr>drawn := n\<rparr>) = has_item l slot s"
  by (simp add: has_item_def)

lemma has_item_on_roll_item: "has_item l slot s \<Longrightarrow> has_item l slot (on_loot l (on_roll_item slot f) s)"
  by (auto simp: has_item_def roll_item_on_roll_item)

lemma has_item_unlooted: "has_item l slot s \<Longrightarrow> has_item l slot (on_loot l (\<lambda>L. L\<lparr>unlootedCount := x L\<rparr>) s)"
  by (auto simp: has_item_def roll_item_def Let_def)

lemma item_succeeds:
  assumes "\<And>i. succeeds (has_item l (itemSlot r)) (f i)"
  shows "succeeds (has_item l (itemSlot r)) (with_roll_item l r f)"
  using assms unfolding succeeds_def with_roll_item_def with_loot_def act_read_def has_item_def by fastforce

lemma ask_succeeds: "(\<And>msg. succeeds (has_item l slot) (k msg)) \<Longrightarrow> succeeds (has_item l slot) (ask_inventory env g i n k)"
  unfolding ask_inventory_def by (intro succeeds_intros) simp_all

lemma settle_succeeds:
  assumes proto: "re_GetItemTemplate env (itemid r) \<noteq> None"
  shows "succeeds (has_item l (itemSlot r)) (settle_roll env am l r)"
proof -
  let ?I = "has_item l (itemSlot r)"
  define like where "like r' \<longleftrightarrow> itemSlot r' = itemSlot r \<and> itemid r' = itemid r" for r' :: Roll
  have take: "succeeds ?I (take_item l r')" "succeeds ?I (unblock_item l r')" if "like r'" for r'
    using that unfolding take_item_def unblock_item_def like_def
    by (auto intro!: succeeds_intros has_item_on_roll_item has_item_unlooted)
  have store: "succeeds ?I (store_won_item env l r' g i)" if "like r'" for r' g i
    unfolding store_won_item_def by (intro ask_succeeds succeeds_intros take that)
  have dis: "succeeds ?I (disenchant_won_item env l r' g i)" if "like r'" for r' g i
    unfolding disenchant_won_item_def using proto that
    by (intro succeeds_intros take ask_succeeds) (auto simp: like_def succeeds_send)
  have won: "succeeds ?I (need_won env l r' c)" "succeeds ?I (greed_won env l r' c)" if "like r'" for r' c
  proof -
    have item: "succeeds ?I (with_roll_item l r' f)" if "\<And>i. succeeds ?I (f i)" for f
      using that item_succeeds [of l r' f] \<open>like r'\<close> by (simp add: like_def)
    show "succeeds ?I (need_won env l r' c)" "succeeds ?I (greed_won env l r' c)"
      unfolding need_won_def greed_won_def by (intro succeeds_intros item store dis that)+
  qed
  have after: "succeeds ?I (after_contest c w)" if "succeeds ?I w" for c w
    unfolding after_contest_def by (intro succeeds_then succeeds_if that) (simp add: succeeds_def)
  have "succeeds ?I (need_phase env am l r')" "succeeds ?I (greed_phase env am l r')" "succeeds ?I (passed_phase env l r')" if "like r'" for r'
    using that item_succeeds [of l r'] take(2) [OF that]
    unfolding need_phase_def greed_phase_def passed_phase_def Let_def
    by (auto intro!: succeeds_intros after won simp: like_def)
  moreover have "like r" "like (after_need env am d r)" "like (after_greed env am d' (after_need env am d r))" for d d'
    by (simp_all add: like_def after_need_def after_greed_def Let_def)
  ultimately show ?thesis unfolding settle_roll_def Let_def by (intro succeeds_intros) simp_all
qed

lemma CountTheRoll_returns:
  assumes "rolls_inv s" "i < length (RollId s)" "re_GetItemTemplate env (itemid (RollId s ! i)) \<noteq> None"
  shows "\<exists>s' e. CountTheRoll env i am s = Some (s', e)"
proof (cases "roll_target (RollId s ! i)")
  case None
  then show ?thesis using assms(2) by (simp add: CountTheRoll_def act_read_def act_change_def)
next
  case (Some l)
  have "open_item s l (itemSlot (RollId s ! i)) = 1"
    using inv_of_split(3) [OF assms(1) [unfolded rolls_inv_def] assms(2) Some] by (simp add: apart_open_def)
  then have "has_item l (itemSlot (RollId s ! i)) s" by (auto simp: open_item_def has_item_def split: option.splits)
  from succeedsD [OF settle_succeeds [OF assms(3)] this] obtain s1 e1 where "settle_roll env am l (RollId s ! i) s = Some (s1, e1)" by blast
  then show ?thesis using assms(2) Some by (simp add: CountTheRoll_def act_read_def act_change_def act_then_def)
qed

lemma filter_others: "i < length rs \<Longrightarrow> \<not> P (rs ! i) \<Longrightarrow> filter P (others i rs) = filter P rs"
  by (subst (2) id_take_nth_drop [of i rs]) (simp_all add: others_def)

lemma end_loop_result:
  assumes "rolls_inv s" "\<forall>j < i. j < length (RollId s) \<longrightarrow> roll_target (RollId s ! j) \<noteq> Some l"
    "\<forall>r \<in> set (RollId s). re_GetItemTemplate env (itemid r) \<noteq> None"
  shows "\<exists>s' e. end_loop env l am i s = Some (s', e) \<and> RollId s' = filter (\<lambda>r. roll_target r \<noteq> Some l) (RollId s)"
  using assms
proof (induction env l am i s rule: end_loop.induct)
  case (1 env l am i s)
  consider (count) "i < length (RollId s)" "roll_target (RollId s ! i) = Some l"
    | (step) "i < length (RollId s)" "roll_target (RollId s ! i) \<noteq> Some l" | (fin) "\<not> i < length (RollId s)" by blast
  then show ?case
  proof cases
    case count
    from CountTheRoll_returns [OF "1.prems"(1) count(1)] "1.prems"(3) count(1)
    obtain s1 e1 where s1: "CountTheRoll env i am s = Some (s1, e1)" by fastforce
    have ids: "RollId s1 = others i (RollId s)" using CountTheRoll_RollId [OF s1] by (simp add: others_def)
    have "rolls_inv s1" using spendsD(1) [OF CountTheRoll_spends countable_rollI [OF "1.prems"(1) count(1)] s1] .
    moreover have "\<forall>r \<in> set (RollId s1). re_GetItemTemplate env (itemid r) \<noteq> None"
      using "1.prems"(3) unfolding ids others_def by (auto dest: in_set_takeD in_set_dropD)
    ultimately obtain s' e where "end_loop env l am 0 s1 = Some (s', e)" "RollId s' = filter (\<lambda>r. roll_target r \<noteq> Some l) (RollId s1)"
      using "1.IH"(1) [OF count s1 refl] by auto
    then show ?thesis
      using count s1 filter_others [OF count(1), of "\<lambda>r. roll_target r \<noteq> Some l"] by (simp add: end_loop.simps [of env l am i s] ids)
  next
    case step
    have "\<forall>j < Suc i. j < length (RollId s) \<longrightarrow> roll_target (RollId s ! j) \<noteq> Some l"
      using "1.prems"(2) step(2) by (auto simp: less_Suc_eq)
    then show ?thesis using 1 step by (simp add: end_loop.simps [of env l am i s])
  next
    case fin
    have "roll_target r \<noteq> Some l" if "r \<in> set (RollId s)" for r
      using that "1.prems"(2) fin by (metis in_set_conv_nth less_le_trans not_less)
    then show ?thesis using fin by (simp add: end_loop.simps [of env l am i s] filter_id_conv)
  qed
qed

text \<open>(C12) When the timer of a looted object expires, counting its rolls comes to an end without undefined behaviour in
  every reachable state in which the items have templates; afterwards no roll refers to that loot, and the other
  rolls are as they were and in their order.\<close>

theorem roll_timer_settles:
  assumes "rolls.run (Some (RollState_new low, [])) ops (Some (s, log))"
    and "\<forall>r \<in> set (RollId s). re_GetItemTemplate env (itemid r) \<noteq> None"
  shows "\<exists>s' e. EndRoll env l am s = Some (s', e) \<and> RollId s' = filter (\<lambda>r. roll_target r \<noteq> Some l) (RollId s)"
  unfolding EndRoll_def by (rule end_loop_result) (simp_all add: reachable_rolls [OF assms(1)] assms(2))

section \<open>Who wins\<close>

text \<open>The reference: the voters of a kind who can win draw one number each, in the order of their GUIDs, and the first of the
  highest numbers wins; need comes before greed and disenchant.\<close>

definition candidates :: "RollEnv \<Rightarrow> nat option \<Rightarrow> (RollVote \<Rightarrow> bool) \<Rightarrow> (uint64 \<times> RollVote) list \<Rightarrow> (uint64 \<times> RollVote) list" where
  "candidates env am P vs = filter (\<lambda>(g, v). P v \<and> can_win env am g) vs"

fun draws :: "RollEnv \<Rightarrow> nat \<Rightarrow> (uint64 \<times> RollVote) list \<Rightarrow> (uint64 \<times> RollVote \<times> uint8) list" where
  "draws env d [] = []"
| "draws env d ((g, v) # xs) = (g, v, ucast (re_urand env d 1 100)) # draws env (Suc d) xs"

definition number :: "uint64 \<times> RollVote \<times> uint8 \<Rightarrow> uint8" where
  "number x = snd (snd x)"

definition best :: "(uint64 \<times> RollVote \<times> uint8) list \<Rightarrow> (uint64 \<times> RollVote \<times> uint8) option" where
  "best xs = find (\<lambda>x. \<forall>y \<in> set xs. number y \<le> number x) xs"

definition decide :: "RollEnv \<Rightarrow> nat option \<Rightarrow> Roll \<Rightarrow> nat \<Rightarrow> (uint64 \<times> RollVote \<times> uint8) option" where
  "decide env am r d =
     (case best (draws env d (candidates env am (\<lambda>v. v = NEED) (playerVote r))) of
        Some w \<Rightarrow> Some w
      | None \<Rightarrow> best (draws env d (candidates env am wants (playerVote r))))"

text \<open>The pass of the code keeps the leader so far.\<close>

fun leader :: "(uint64 \<times> RollVote \<times> uint8) list \<Rightarrow> uint64 \<times> RollVote \<times> uint8 \<Rightarrow> uint64 \<times> RollVote \<times> uint8" where
  "leader [] a = a"
| "leader (x # xs) a = leader xs (if number a < number x then x else a)"

definition standing :: "Contest \<Rightarrow> uint64 \<times> RollVote \<times> uint8" where
  "standing c = (ct_maxguid c, ct_rollvote c, ct_maxresul c)"

lemma contest_loop_leader:
  "standing (contest_loop env am r P vs c) = leader (draws env (ct_drawn c) (candidates env am P vs)) (standing c)"
proof (induction env am r P vs c rule: contest_loop.induct)
  case (2 env am r P g v vs c)
  show ?case
  proof (cases "P v \<and> can_win env am g")
    case True
    then have "candidates env am P ((g, v) # vs) = (g, v) # candidates env am P vs" by (simp add: candidates_def)
    moreover have "standing (draw env r g v c) =
        (if number (standing c) < ucast (re_urand env (ct_drawn c) 1 100) then (g, v, ucast (re_urand env (ct_drawn c) 1 100)) else standing c)"
      by (simp add: draw_def standing_def number_def Let_def)
    ultimately show ?thesis using 2 True by (simp add: number_def)
  next
    case False
    then have "candidates env am P ((g, v) # vs) = candidates env am P vs" by (auto simp: candidates_def)
    with 2 False show ?thesis by (auto simp: standing_def)
  qed
qed (simp add: candidates_def)

lemma find_leader: "find (\<lambda>x. \<forall>y \<in> set (a # xs). number y \<le> number x) (a # xs) = Some (leader xs a)"
proof (induction xs arbitrary: a)
  case (Cons x xs)
  let ?M = "\<lambda>ys z. \<forall>y \<in> set ys. number y \<le> number z"
  show ?case
  proof (cases "number a < number x")
    case True
    then have "?M (a # x # xs) z = ?M (x # xs) z" for z by (auto dest: less_le_trans)
    with True Cons.IH [of x] show ?thesis by (auto dest: leD)
  next
    case False
    then have "number x \<le> number a" by simp
    then have same: "?M (a # x # xs) z = ?M (a # xs) z" for z by (auto dest: order_trans)
    moreover have "\<not> ?M (a # xs) x" if "\<not> ?M (a # xs) a"
      using that \<open>number x \<le> number a\<close> by (auto dest: order_trans)
    ultimately show ?thesis using Cons.IH [of a] False by (auto split: if_splits)
  qed
qed simp

lemma best_leader:
  assumes "\<And>x. x \<in> set xs \<Longrightarrow> 0 < number x" "xs \<noteq> []"
  shows "best xs = Some (leader xs (0, NOT_VALID, 0))"
proof -
  let ?a = "(0, NOT_VALID, 0) :: uint64 \<times> RollVote \<times> uint8"
  obtain x where x: "x \<in> set xs" using assms(2) by (cases xs) auto
  have zero: "number ?a = 0" by (simp add: number_def)
  then have "\<not> number x \<le> number ?a" using assms(1) [OF x] by simp
  then have "find (\<lambda>x. \<forall>y \<in> set (?a # xs). number y \<le> number x) (?a # xs) = find (\<lambda>x. \<forall>y \<in> set xs. number y \<le> number x) xs"
    using x zero by (auto intro: find_cong)
  then show ?thesis using find_leader [of ?a xs] by (simp add: best_def)
qed

definition fair_dice :: "RollEnv \<Rightarrow> bool" where
  "fair_dice env \<longleftrightarrow> (\<forall>d. 1 \<le> re_urand env d 1 100 \<and> re_urand env d 1 100 \<le> 100)"

lemma draws_positive: "fair_dice env \<Longrightarrow> x \<in> set (draws env d xs) \<Longrightarrow> 0 < number x"
proof (induction env d xs rule: draws.induct)
  case (2 env d g v xs)
  have "1 \<le> unat (re_urand env d 1 100)" "unat (re_urand env d 1 100) \<le> 100"
    using 2(2) by (simp_all add: fair_dice_def word_le_nat_alt)
  then have "0 < unat (ucast (re_urand env d 1 100) :: uint8)" by (simp add: unsigned_ucast_eq take_bit_eq_mod)
  then have "0 < (ucast (re_urand env d 1 100) :: uint8)" by (simp add: word_less_nat_alt)
  with 2 show ?case by (auto simp: number_def)
qed simp

lemma draws_empty [simp]: "draws env d xs = [] \<longleftrightarrow> xs = []"
  by (cases xs) auto

lemma draws_in: "(g, v, n) \<in> set (draws env d xs) \<Longrightarrow> (g, v) \<in> set xs"
  by (induction env d xs rule: draws.induct) auto

lemma contest_best:
  assumes "fair_dice env"
  shows "standing (contest env am r P tot d) =
    (case best (draws env d (candidates env am P (playerVote r))) of None \<Rightarrow> (0, NOT_VALID, 0) | Some w \<Rightarrow> w)"
proof -
  have "standing (contest env am r P tot d) = leader (draws env d (candidates env am P (playerVote r))) (0, NOT_VALID, 0)"
    by (simp add: contest_def contest_loop_leader) (simp add: standing_def)
  moreover have "best (draws env d (candidates env am P (playerVote r))) = None" if "candidates env am P (playerVote r) = []"
    using that by (simp add: best_def)
  ultimately show ?thesis
    using best_leader [of "draws env d (candidates env am P (playerVote r))"] draws_positive [OF assms]
    by (cases "candidates env am P (playerVote r) = []") simp_all
qed

lemma best_in: "best xs = Some w \<Longrightarrow> w \<in> set xs"
  by (auto simp: best_def find_Some_iff)

lemma best_None: "fair_dice env \<Longrightarrow> best (draws env d xs) = None \<longleftrightarrow> xs = []"
  using best_leader [of "draws env d xs"] draws_positive [of env _ d xs] by (cases "xs = []") (auto simp: best_def)

section \<open>What the players are told and who receives the item\<close>

fun announces :: "roll_effect \<Rightarrow> bool" where
  "announces (SendTo g p) = (m_opcode p = SMSG_LOOT_ROLL_WON \<or> m_opcode p = SMSG_LOOT_ALL_PASSED)"
| "announces _ = False"

fun receiver :: "roll_effect \<Rightarrow> uint64 option" where
  "receiver (StoreNewItem g _ _ _) = Some g"
| "receiver (AutoStoreLoot g _) = Some g"
| "receiver (SendItemRetrievalMail g _ _) = Some g"
| "receiver _ = None"

definition gifts :: "roll_effect list \<Rightarrow> roll_effect list" where
  "gifts e = filter (\<lambda>x. receiver x \<noteq> None) e"

lemma gifts_simps [simp]: "gifts [] = []" "gifts (e @ e') = gifts e @ gifts e'"
  "gifts (x # e) = (case receiver x of None \<Rightarrow> gifts e | Some _ \<Rightarrow> x # gifts e)"
  by (simp_all add: gifts_def split: option.split)

text \<open>The item a roll is for.\<close>

definition slot_item :: "nat \<Rightarrow> Roll \<Rightarrow> RollState \<Rightarrow> LootItem option" where
  "slot_item l r s = Option.bind (loots s l) (\<lambda>L. roll_item L (itemSlot r))"

lemma slot_item_simps [simp]:
  "slot_item l r (on_loot l (on_roll_item (itemSlot r) f) s) = map_option f (slot_item l r s)"
  "slot_item l r (on_loot l (\<lambda>L. L\<lparr>unlootedCount := x L\<rparr>) s) = slot_item l r s"
  "slot_item l r (s\<lparr>drawn := n\<rparr>) = slot_item l r s"
  "slot_item l r (erase_roll i s) = slot_item l r s"
  "slot_item l (r\<lparr>totalNeed := a\<rparr>) s = slot_item l r s"
  "slot_item l (r\<lparr>totalGreed := b\<rparr>) s = slot_item l r s"
proof -
  have "roll_item (L\<lparr>unlootedCount := y\<rparr>) k = roll_item L k" for L y k by (simp add: roll_item_def Let_def)
  then show "slot_item l r (on_loot l (\<lambda>L. L\<lparr>unlootedCount := x L\<rparr>) s) = slot_item l r s"
    by (cases "loots s l") (simp_all add: slot_item_def)
  show "slot_item l r (on_loot l (on_roll_item (itemSlot r) f) s) = map_option f (slot_item l r s)"
    by (cases "loots s l") (simp_all add: slot_item_def roll_item_on_roll_item)
qed (simp_all add: slot_item_def erase_roll_def)

text \<open>The reference for what the winner gets, and for the item in the loot afterwards.  A winner who is not connected gets
  nothing and the item stays as it is.  After need and greed a winner with room in his bags gets the item, which
  leaves the loot; without room it is only unblocked.  After disenchant the item leaves the loot, and the
  materials go into the bags or, without room, into the mail.  The question about the room is the \<open>d\<close>-th.\<close>

definition prize :: "RollEnv \<Rightarrow> Roll \<Rightarrow> uint64 \<Rightarrow> RollVote \<Rightarrow> nat \<Rightarrow> LootItem \<Rightarrow> roll_effect list \<times> LootItem" where
  "prize env r g v d i =
     (let room = (re_CanStoreNewItem env d g (itemid r) (li_count i) = EQUIP_ERR_OK) in
      if \<not> re_FindConnectedPlayer env g then ([], i)
      else if v = DISENCHANT then
        (case re_GetItemTemplate env (itemid r) of
           None \<Rightarrow> []
         | Some proto \<Rightarrow>
             (if room then [AutoStoreLoot g (it_DisenchantID proto)]
              else map (\<lambda>(item, count). SendItemRetrievalMail g item count) (re_DisenchantLoot env (Suc d) (it_DisenchantID proto) g)),
         i\<lparr>is_looted := True\<rparr>)
      else if room then ([StoreNewItem g (itemid r) (li_randomPropertyId i) (allowedGUIDs i)], i\<lparr>is_looted := True\<rparr>)
      else ([], i\<lparr>is_blocked := False\<rparr>))"

lemma prize_totals [simp]: "prize env (r\<lparr>totalNeed := a\<rparr>) = prize env r"
  by (rule ext)+ (simp add: prize_def Let_def)

lemma to_voters_receiver [simp]: "x \<in> set (to_voters env P r p) \<Longrightarrow> receiver x = None"
  by (auto simp: to_voters_def)

lemma to_voters_announces:
  "filter announces (to_voters env P r p) = (if m_opcode p = SMSG_LOOT_ROLL_WON \<or> m_opcode p = SMSG_LOOT_ALL_PASSED then to_voters env P r p else [])"
  by (auto simp: to_voters_def filter_empty_conv intro!: filter_True)

lemma packets_announce [simp]:
  "filter announces (SendLootRoll env a b c d r) = []"
  "filter announces (SendLootRollWon env a b c d r) = SendLootRollWon env a b c d r"
  "filter announces (SendLootAllPassed env r) = SendLootAllPassed env r"
  by (simp_all add: SendLootRoll_def SendLootRollWon_def SendLootAllPassed_def to_voters_announces loot_roll_packet_def roll_won_packet_def
      stream_def WorldPacket_init_def)

lemma packets_receiver [simp]:
  "x \<in> set (SendLootRoll env a b c d r) \<Longrightarrow> receiver x = None"
  "x \<in> set (SendLootRollWon env a b c d r) \<Longrightarrow> receiver x = None"
  "x \<in> set (SendLootAllPassed env r) \<Longrightarrow> receiver x = None"
  unfolding SendLootRoll_def SendLootRollWon_def SendLootAllPassed_def by (rule to_voters_receiver, assumption)+

definition quiet :: "roll_effect list \<Rightarrow> bool" where
  "quiet e \<longleftrightarrow> filter announces e = [] \<and> (\<forall>x \<in> set e. receiver x = None)"

lemma quiet_append [simp]: "quiet (e @ e') \<longleftrightarrow> quiet e \<and> quiet e'"
  by (auto simp: quiet_def)

lemma quiet_roll [simp]: "quiet []" "quiet (SendLootRoll env a b c d r)"
  by (simp_all add: quiet_def)

lemma contest_quiet: "quiet (ct_sent (contest env am r P tot d))"
proof -
  have "quiet (ct_sent c) \<Longrightarrow> quiet (ct_sent (contest_loop env am r P vs c))" for vs c
    by (induction env am r P vs c rule: contest_loop.induct) (simp_all add: draw_def Let_def)
  then show ?thesis by (simp add: contest_def)
qed

text \<open>What each action gives and leaves.\<close>

definition gives :: "nat \<Rightarrow> Roll \<Rightarrow> RollState \<Rightarrow> roll_effect list \<Rightarrow> roll_effect list \<times> LootItem \<Rightarrow> bool" where
  "gives l r s' e p \<longleftrightarrow> gifts e = fst p \<and> slot_item l r s' = Some (snd p)"

lemmas act_defs = act_then_def act_change_def act_send_def act_read_def

lemma store_result:
  assumes "store_won_item env l r g i s = Some (s', e)" "slot_item l r s = Some i"
  shows "filter announces e = [] \<and> gives l r s' e
    (if re_CanStoreNewItem env (drawn s) g (itemid r) (li_count i) = EQUIP_ERR_OK
     then ([StoreNewItem g (itemid r) (li_randomPropertyId i) (allowedGUIDs i)], i\<lparr>is_looted := True\<rparr>)
     else ([], i\<lparr>is_blocked := False\<rparr>))"
  using assms
  by (auto simp: store_won_item_def ask_inventory_def take_item_def unblock_item_def act_defs gives_def split: if_splits)

lemma mails:
  "filter announces (concat (map (\<lambda>(item, count). [SendEquipError g msg item, SendItemRetrievalMail g item count]) xs)) = []"
  "gifts (concat (map (\<lambda>(item, count). [SendEquipError g msg item, SendItemRetrievalMail g item count]) xs)) =
     map (\<lambda>(item, count). SendItemRetrievalMail g item count) xs"
  by (induction xs) auto

lemma disenchant_result:
  assumes "disenchant_won_item env l r g i s = Some (s', e)" "slot_item l r s = Some i" "re_FindConnectedPlayer env g"
  shows "filter announces e = [] \<and> gives l r s' e (prize env r g DISENCHANT (drawn s) i)"
  using assms
  by (auto simp: disenchant_won_item_def ask_inventory_def take_item_def act_defs gives_def prize_def mails undefined_act_def
      split: option.splits if_splits)

lemma slot_item_found: "slot_item l r s = Some i \<Longrightarrow> with_roll_item l r f s = f i s"
  by (auto simp: slot_item_def with_roll_item_def with_loot_def act_read_def split: option.splits bind_splits)

lemma gifts_packets [simp]: "gifts (SendLootRollWon env a b c d r) = []" "gifts (SendLootAllPassed env r) = []"
  by (auto simp: gifts_def filter_empty_conv)

lemma need_won_result:
  assumes "need_won env l r c s = Some (s', e)" "slot_item l r s = Some i"
  shows "filter announces e = SendLootRollWon env 0 (ct_maxguid c) (ct_maxresul c) ROLL_NEED r \<and>
    gives l r s' e (prize env r (ct_maxguid c) NEED (drawn s) i)"
proof (cases "re_FindConnectedPlayer env (ct_maxguid c)")
  case True
  then obtain e' where e: "store_won_item env l r (ct_maxguid c) i s = Some (s', e')"
      "e = SendLootRollWon env 0 (ct_maxguid c) (ct_maxresul c) ROLL_NEED r @ [Criteria (ct_maxguid c) 50 (itemid r) (ucast (ct_maxresul c))] @ e'"
    using assms by (auto simp: need_won_def act_if_def act_send_def slot_item_found elim!: act_then_Some)
  from store_result [OF e(1) assms(2)] show ?thesis
    using True by (auto simp: e(2) gives_def prize_def Let_def)
next
  case False
  then show ?thesis
    using assms by (auto simp: need_won_def act_if_def act_defs gives_def prize_def Let_def)
qed

lemma greed_won_result:
  assumes "greed_won env l r c s = Some (s', e)" "slot_item l r s = Some i" "ct_rollvote c = GREED \<or> ct_rollvote c = DISENCHANT"
  shows "filter announces e = SendLootRollWon env 0 (ct_maxguid c) (ct_maxresul c) (vote_value (ct_rollvote c)) r \<and>
    gives l r s' e (prize env r (ct_maxguid c) (ct_rollvote c) (drawn s) i)"
proof (cases "re_FindConnectedPlayer env (ct_maxguid c)")
  case True
  let ?w = "if ct_rollvote c = GREED then store_won_item env l r (ct_maxguid c) i else disenchant_won_item env l r (ct_maxguid c) i"
  obtain e' where e: "?w s = Some (s', e')"
      "e = SendLootRollWon env 0 (ct_maxguid c) (ct_maxresul c) (vote_value (ct_rollvote c)) r @
        [Criteria (ct_maxguid c) 51 (itemid r) (ucast (ct_maxresul c))] @ e'"
    using assms True by (auto simp: greed_won_def act_if_def act_send_def slot_item_found elim!: act_then_Some split: if_splits)
  have "filter announces e' = [] \<and> gives l r s' e' (prize env r (ct_maxguid c) (ct_rollvote c) (drawn s) i)"
  proof (cases "ct_rollvote c = GREED")
    case greed: True
    then show ?thesis using store_result [of env l r "ct_maxguid c" i s s' e'] e(1) assms(2) True by (simp add: prize_def Let_def)
  next
    case False
    then show ?thesis using disenchant_result [of env l r "ct_maxguid c" i s s' e'] e(1) assms(2,3) True by simp
  qed
  then show ?thesis by (simp add: e(2) gives_def)
next
  case False
  then show ?thesis
    using assms by (auto simp: greed_won_def act_if_def act_defs gives_def prize_def Let_def)
qed

text \<open>A pass with candidates ends with its winner; a pass without does nothing.\<close>

lemma quiet_gifts: "quiet e \<Longrightarrow> filter announces e = [] \<and> gifts e = []"
  by (auto simp: quiet_def gifts_def filter_empty_conv)

lemma phase_result:
  assumes "after_contest c w s = Some (s', e)" "quiet (ct_sent c)" "ct_maxguid c \<noteq> 0"
  obtains e' where "w (s\<lparr>drawn := ct_drawn c\<rparr>) = Some (s', e')" "filter announces e = filter announces e'" "gifts e = gifts e'"
proof -
  obtain e' where e: "w (s\<lparr>drawn := ct_drawn c\<rparr>) = Some (s', e')" "e = ct_sent c @ e'"
    using assms(1,3) by (auto simp: after_contest_def act_if_def elim!: act_then_Some)
  then show ?thesis using quiet_gifts [OF assms(2)] that by simp
qed

lemma contest_drawn: "ct_drawn (contest env am r P tot d) = d + length (candidates env am P (playerVote r))"
proof -
  have "ct_drawn (contest_loop env am r P vs c) = ct_drawn c + length (candidates env am P vs)" for vs c
    by (induction env am r P vs c rule: contest_loop.induct) (auto simp: candidates_def draw_def Let_def)
  then show ?thesis by (simp add: contest_def)
qed

lemma no_candidates_loop:
  "candidates env am P vs = [] \<Longrightarrow>
   ct_sent (contest_loop env am r P vs c) = ct_sent c \<and> ct_drawn (contest_loop env am r P vs c) = ct_drawn c \<and>
   ct_maxguid (contest_loop env am r P vs c) = ct_maxguid c"
  by (induction env am r P vs c rule: contest_loop.induct) (auto simp: candidates_def)

lemma no_candidates:
  assumes "candidates env am P (playerVote r) = []"
  shows "after_contest (contest env am r P tot (drawn s)) w s = Some (s, [])"
  using no_candidates_loop [OF assms, of r] by (simp add: contest_def after_contest_def act_then_def act_if_def act_send_def)

lemma no_candidates_guid: "candidates env am P (playerVote r) = [] \<Longrightarrow> ct_maxguid (contest env am r P tot d) = 0"
  using no_candidates_loop by (simp add: contest_def)

lemma candidates_count: "candidates env am P vs \<noteq> [] \<Longrightarrow> 0 < om_count P vs"
  by (force simp: candidates_def om_count_def filter_empty_conv)

lemma candidates_guid:
  assumes "best (draws env d (candidates env am P (playerVote r))) = Some (g, v, n)" "0 \<notin> set (om_keys (playerVote r))"
  shows "g \<noteq> 0" "P v"
proof -
  have "(g, v) \<in> set (candidates env am P (playerVote r))" using assms(1) best_in draws_in by blast
  then have gv: "(g, v) \<in> set (playerVote r)" "P v" by (auto simp: candidates_def)
  then have "g \<in> set (om_keys (playerVote r))" unfolding om_keys_def by force
  then show "g \<noteq> 0" "P v" using assms(2) gv by auto
qed

lemma AllPassed_totals: "SendLootAllPassed env (r\<lparr>totalNeed := a\<rparr>) = SendLootAllPassed env r"
  "SendLootAllPassed env (r\<lparr>totalGreed := b\<rparr>) = SendLootAllPassed env r"
  by (simp_all add: SendLootAllPassed_def to_voters_def)

lemma Won_totals: "SendLootRollWon env a b c d (r\<lparr>totalNeed := n\<rparr>) = SendLootRollWon env a b c d r"
  by (simp add: SendLootRollWon_def to_voters_def roll_won_packet_def)

text \<open>The players who drew numbers in the pass that decided, and the result of a roll: what is announced, what is given, and the
  item afterwards.\<close>

definition contenders :: "RollEnv \<Rightarrow> nat option \<Rightarrow> Roll \<Rightarrow> (uint64 \<times> RollVote) list" where
  "contenders env am r =
     (let needs = candidates env am (\<lambda>v. v = NEED) (playerVote r) in
      if needs \<noteq> [] then needs else candidates env am wants (playerVote r))"

definition roll_result :: "RollEnv \<Rightarrow> nat \<Rightarrow> Roll \<Rightarrow> nat \<Rightarrow> LootItem \<Rightarrow> (uint64 \<times> RollVote \<times> uint8) option \<Rightarrow>
    RollState \<Rightarrow> roll_effect list \<Rightarrow> bool" where
  "roll_result env l r d i w s' e \<longleftrightarrow>
     (case w of
        None \<Rightarrow> filter announces e = SendLootAllPassed env r \<and> gifts e = [] \<and>
          (playerVote r \<noteq> [] \<longrightarrow> slot_item l r s' = Some (i\<lparr>is_blocked := False\<rparr>))
      | Some (g, v, n) \<Rightarrow> filter announces e = SendLootRollWon env 0 g n (vote_value v) r \<and>
          gifts e = fst (prize env r g v d i) \<and> slot_item l r s' = Some (snd (prize env r g v d i)))"

lemma passed_result:
  assumes "passed_phase env l r s = Some (s', e)" "totalNeed r = 0" "totalGreed r = 0" "slot_item l r s = Some i"
  shows "filter announces e = SendLootAllPassed env r \<and> gifts e = [] \<and> slot_item l r s' = Some (i\<lparr>is_blocked := False\<rparr>)"
  using assms by (auto simp: passed_phase_def act_if_def act_send_def unblock_item_def act_change_def slot_item_found elim!: act_then_Some)

text \<open>The greed pass and what follows, after a need pass without a winner.\<close>

lemma greed_decides:
  assumes fair: "om_count wants (playerVote r) \<le> unat (totalGreed r)" and dice: "fair_dice env"
    and keys: "0 \<notin> set (om_keys (playerVote r))" "playerVote r \<noteq> []" and need: "totalNeed r = 0" and item: "slot_item l r s = Some i"
    and run: "act_then (greed_phase env am l r) (passed_phase env l (after_greed env am (drawn s) r)) s = Some (s', e)"
  shows "roll_result env l r (drawn s + length (candidates env am wants (playerVote r))) i
    (best (draws env (drawn s) (candidates env am wants (playerVote r)))) s' e"
proof (cases "best (draws env (drawn s) (candidates env am wants (playerVote r)))")
  case None
  then have none: "candidates env am wants (playerVote r) = []" using best_None [OF dice] by blast
  let ?r = "after_greed env am (drawn s) r"
  have quiet: "greed_phase env am l r s = Some (s, [])"
    using no_candidates [OF none] by (simp add: greed_phase_def act_if_def act_read_def act_send_def Let_def greed_contest_def)
  have "totalGreed ?r = 0"
    using no_candidates_guid [OF none] need keys(2) by (auto simp: after_greed_def greed_contest_def Let_def has_greed_def word_gt_0)
  moreover have "totalNeed ?r = 0" "slot_item l ?r s = Some i" "SendLootAllPassed env ?r = SendLootAllPassed env r"
      "slot_item l ?r s' = slot_item l r s'"
    using need item by (simp_all add: after_greed_def Let_def AllPassed_totals)
  moreover have "passed_phase env l ?r s = Some (s', e)"
    using run quiet by (auto elim!: act_then_Some)
  ultimately show ?thesis using passed_result [of env l ?r s s' e i] None keys(2) by (simp add: roll_result_def)
next
  case (Some w)
  obtain g v n where w: "w = (g, v, n)" by (cases w)
  let ?c = "greed_contest env am r (drawn s)"
  have c: "standing ?c = (g, v, n)" using contest_best [OF dice, of am r wants] Some w by (simp add: greed_contest_def)
  have g: "ct_maxguid ?c = g" "ct_rollvote ?c = v" "ct_maxresul ?c = n" "g \<noteq> 0" "v = GREED \<or> v = DISENCHANT"
    using c candidates_guid [OF Some [unfolded w] keys(1)] by (simp_all add: standing_def)
  have "candidates env am wants (playerVote r) \<noteq> []" using Some by (auto simp: best_def)
  from candidates_count [OF this] have hg: "has_greed r"
    using fair need keys(2) by (auto simp: has_greed_def word_less_nat_alt)
  have silent: "passed_phase env l (after_greed env am (drawn s) r) = act_send (\<lambda>_. [])"
    using after_greed_won [OF fair hg] g by (simp add: passed_phase_def act_if_def)
  have "after_contest ?c (greed_won env l r ?c) s = Some (s', e)"
    using run hg silent by (auto simp: greed_phase_def act_if_def act_read_def Let_def act_send_def elim!: act_then_Some)
  then obtain e' where e': "greed_won env l r ?c (s\<lparr>drawn := ct_drawn ?c\<rparr>) = Some (s', e')"
      "filter announces e = filter announces e'" "gifts e = gifts e'"
    by (rule phase_result) (use g in \<open>simp_all add: greed_contest_def contest_quiet\<close>)
  show ?thesis
    using greed_won_result [OF e'(1), of i] item g w Some e'(2,3)
    by (simp add: roll_result_def gives_def greed_contest_def contest_drawn)
qed

lemma settle_decides:
  assumes fair: "roll_fair r" and dice: "fair_dice env" and keys: "0 \<notin> set (om_keys (playerVote r))" and item: "slot_item l r s = Some i"
    and run: "settle_roll env am l r s = Some (s', e)"
  shows "roll_result env l r (drawn s + length (contenders env am r)) i (decide env am r (drawn s)) s' e"
proof (cases "best (draws env (drawn s) (candidates env am (\<lambda>v. v = NEED) (playerVote r)))")
  case (Some w)
  obtain g v n where w: "w = (g, v, n)" by (cases w)
  let ?c = "need_contest env am r (drawn s)" and ?r = "after_need env am (drawn s) r"
  have c: "standing ?c = (g, v, n)" using contest_best [OF dice, of am r "\<lambda>v. v = NEED"] Some w by (simp add: need_contest_def)
  have g: "ct_maxguid ?c = g" "ct_maxresul ?c = n" "g \<noteq> 0" "v = NEED"
    using c candidates_guid [OF Some [unfolded w] keys] by (simp_all add: standing_def)
  have ne: "candidates env am (\<lambda>v. v = NEED) (playerVote r) \<noteq> []" using Some by (auto simp: best_def)
  then have "playerVote r \<noteq> []" by (auto simp: candidates_def)
  with candidates_count [OF ne] have hn: "has_need r"
    using fair by (auto simp: has_need_def roll_fair_def word_less_nat_alt)
  have "totalNeed ?r \<noteq> 0" using after_need_won [OF fair hn] g by simp
  then have silent: "greed_phase env am l ?r = act_send (\<lambda>_. [])" "passed_phase env l (after_greed env am d ?r) = act_send (\<lambda>_. [])" for d
    by (simp_all add: greed_phase_def passed_phase_def act_if_def has_greed_def)
  have "after_contest ?c (need_won env l r ?c) s = Some (s', e)"
    using run hn by (auto simp: settle_roll_def silent need_phase_def act_if_def act_read_def Let_def act_send_def elim!: act_then_Some)
  then obtain e' where e': "need_won env l r ?c (s\<lparr>drawn := ct_drawn ?c\<rparr>) = Some (s', e')"
      "filter announces e = filter announces e'" "gifts e = gifts e'"
    by (rule phase_result) (use g in \<open>simp_all add: need_contest_def contest_quiet\<close>)
  show ?thesis
    using need_won_result [OF e'(1), of i] item g w Some e'(2,3) ne
    by (simp add: roll_result_def decide_def contenders_def Let_def gives_def need_contest_def contest_drawn)
next
  case None
  then have none: "candidates env am (\<lambda>v. v = NEED) (playerVote r) = []" using best_None [OF dice] by blast
  let ?r = "after_need env am (drawn s) r"
  have quiet: "need_phase env am l r s = Some (s, [])"
    using no_candidates [OF none] by (simp add: need_phase_def act_if_def act_read_def act_send_def Let_def need_contest_def)
  have rest: "act_then (greed_phase env am l ?r) (passed_phase env l (after_greed env am (drawn s) ?r)) s = Some (s', e)"
    using run quiet by (auto simp: settle_roll_def act_read_def Let_def elim!: act_then_Some)
  have r: "playerVote ?r = playerVote r" "totalGreed ?r = totalGreed r" "slot_item l ?r = slot_item l r" "prize env ?r = prize env r"
    by (auto simp: after_need_def Let_def)
  have same: "SendLootAllPassed env ?r = SendLootAllPassed env r" "SendLootRollWon env a b c d ?r = SendLootRollWon env a b c d r" for a b c d
    by (simp_all add: after_need_def Let_def AllPassed_totals Won_totals)
  show ?thesis
  proof (cases "playerVote r = []")
    case True
    have all: "SendLootAllPassed env q = []" if "playerVote q = []" for q using that by (simp add: SendLootAllPassed_def to_voters_def)
    have "greed_phase env am l ?r = act_send (\<lambda>_. [])" "after_greed env am (drawn s) ?r = ?r"
      using True by (simp_all add: greed_phase_def act_if_def has_greed_def after_greed_def r)
    then have "passed_phase env l ?r s = Some (s', e)"
      using rest by (auto simp: act_send_def elim!: act_then_Some)
    then have "filter announces e = [] \<and> gifts e = [] \<and> slot_item l r s' \<noteq> None"
      using passed_result [of env l ?r s s' e i] item True all [of r] r(3) same(1)
      by (cases "totalNeed ?r = 0 \<and> totalGreed ?r = 0") (auto simp: passed_phase_def act_if_def act_send_def)
    moreover have "decide env am r (drawn s) = None" by (simp add: decide_def candidates_def True best_def)
    ultimately show ?thesis by (simp add: roll_result_def all [OF True] True)
  next
    case False
    have need: "totalNeed ?r = 0"
      using no_candidates_guid [OF none] False by (auto simp: after_need_def need_contest_def Let_def has_need_def word_gt_0)
    have "roll_result env l ?r (drawn s + length (candidates env am wants (playerVote r))) i
        (best (draws env (drawn s) (candidates env am wants (playerVote r)))) s' e"
      using greed_decides [of ?r env l s i am s' e] fair dice keys False need item rest by (simp add: r roll_fair_def)
    moreover have "roll_result env l ?r d i w s' e = roll_result env l r d i w s' e" for d w
      by (simp add: roll_result_def r same split: option.split prod.split)
    ultimately show ?thesis
      using None none by (simp add: decide_def contenders_def)
  qed
qed

text \<open>(C11) The outcome of counting a roll is the one of the reference: if anybody who may win voted need, the first of the
  highest numbers drawn by them wins, otherwise the first of the highest among greed and disenchant votes.  Exactly
  that winner is announced, and exactly what the reference \<open>prize\<close> says is given: a connected winner with room in
  his bags receives the item of need and greed votes, which is then marked looted; without room nothing is given
  and the item is unblocked; the winner of a disenchant vote receives the materials in his bags or by mail; a
  winner who is not connected receives nothing and the item stays as it is.  Without a winner everybody is told
  that all passed, nothing is given, and the item is unblocked if there is a vote left.\<close>

theorem roll_winner:
  assumes "rolls.run (Some (RollState_new low, [])) ops (Some (s, log))" and "fair_dice env"
    and "i < length (RollId s)" and "roll_target (RollId s ! i) = Some l" and "CountTheRoll env i am s = Some (s', e)"
  shows "\<exists>item. slot_item l (RollId s ! i) s = Some item \<and>
    (case decide env am (RollId s ! i) (drawn s) of
       None \<Rightarrow> filter announces e = SendLootAllPassed env (RollId s ! i) \<and> gifts e = [] \<and>
         (playerVote (RollId s ! i) \<noteq> [] \<longrightarrow> slot_item l (RollId s ! i) s' = Some (item\<lparr>is_blocked := False\<rparr>))
     | Some (g, v, n) \<Rightarrow>
         let won = prize env (RollId s ! i) g v (drawn s + length (contenders env am (RollId s ! i))) item in
         filter announces e = SendLootRollWon env 0 g n (vote_value v) (RollId s ! i) \<and>
         gifts e = fst won \<and> slot_item l (RollId s ! i) s' = Some (snd won))"
proof -
  let ?r = "RollId s ! i"
  have inv: "rolls_inv s" by (rule reachable_rolls(1) [OF assms(1)])
  have ok: "roll_ok ?r" using inv assms(3) unfolding rolls_inv_def by (rule inv_of_split)
  have "open_item s l (itemSlot ?r) = 1"
    using inv_of_split(3) [OF inv [unfolded rolls_inv_def] assms(3,4)] by (simp add: apart_open_def)
  then obtain item where item: "slot_item l ?r s = Some item"
    by (auto simp: open_item_def slot_item_def split: option.splits)
  obtain t where t: "settle_roll env am l ?r s = Some (t, e)" "s' = erase_roll i t"
    using assms(3-5) by (auto simp: CountTheRoll_def act_read_def act_change_def elim!: act_then_Some)
  from settle_decides [OF roll_ok_fair [OF ok] assms(2) _ item t(1)] ok item show ?thesis
    by (auto simp: roll_ok_def roll_result_def Let_def t(2) split: option.splits prod.splits)
qed

section \<open>Runs\<close>

text \<open>Two players near a corpse with one rare item.\<close>

definition sample_env :: RollEnv where
  "sample_env = \<lparr>re_FindPlayer = (\<lambda>_. True), re_FindConnectedPlayer = (\<lambda>_. True), re_FindMap = (\<lambda>_. Some 0),
     re_urand = (\<lambda>d a b. if d = 0 then 1 else of_nat (d mod 50) + 1), re_CanStoreNewItem = (\<lambda>_ _ _ _. EQUIP_ERR_OK),
     re_GenerateEnchSuffixFactor = (\<lambda>_ _. 0), re_GenerateItemRandomPropertyId = (\<lambda>_ _. 0),
     re_GetItemTemplate = (\<lambda>_. Some \<lparr>it_Quality = 3, it_DisenchantID = 7, it_RequiredDisenchantSkill = 300, it_Flags = 0, it_Flags2 = 0,
        it_FlagsCu = 4, it_Stackable = 1\<rparr>),
     re_DisenchantLoot = (\<lambda>_ _ _. []), re_AllowedForPlayer = (\<lambda>_ _. True), re_near = (\<lambda>_. True), re_inWorld = (\<lambda>_. True),
     re_PassOnGroupLoot = (\<lambda>_. False), re_CanRollForItemInLFG = (\<lambda>_ _. EQUIP_ERR_OK), re_members = [1, 2], re_lootThreshold = 2,
     re_maxEnchantingLevel = 0, re_lowGuid = 1, re_mapId = 0, re_hasTimer = True\<rparr>"

definition sample_drop :: "bool \<Rightarrow> LootStoreItem" where
  "sample_drop quest = \<lparr>ls_itemid = 50, ls_mincount = 1, ls_needs_quest = quest, ls_maxcount = 1, ls_conditions = []\<rparr>"

abbreviation sample_item :: uint64 where "sample_item \<equiv> 0x4000000000000001"

definition opened :: "roll_op list" where
  "opened = [OpNew 0, OpKill sample_env 0 1 [sample_drop False], OpOpen sample_env (Some GROUP_LOOT) 0]"

lemma sample_env_ok: "env_ok sample_env"
  by (simp add: env_ok_def sample_env_def)

lemma fold_rolls: "\<forall>x \<in> set ops. \<forall>st. roll_pre x st \<Longrightarrow> rolls.run st ops (fold roll_step ops st)"
  by (induction ops arbitrary: st) (auto intro: rolls.run_nil rolls.run_cons)

lemma opened_run:
  assumes "\<forall>x \<in> set ops. \<forall>st. roll_pre x st" "fold roll_step (opened @ ops) (Some (RollState_new 1, [])) = Some (s, log)"
  shows "rolls.run (Some (RollState_new 1, [])) (opened @ ops) (Some (s, log))"
proof -
  have "\<forall>x \<in> set (opened @ ops). \<forall>st. roll_pre x st" using assms(1) by (auto simp: opened_def roll_pre_def sample_env_ok)
  from fold_rolls [OF this] show ?thesis using assms(2) by (metis (no_types))
qed

definition summary :: "roll_run \<Rightarrow> (nat \<times> bool list \<times> nat \<times> uint64 option list) option" where
  "summary st = map_option (\<lambda>(s, log). (length (RollId s), map all_voted (RollId s), removed log, filter (\<lambda>x. x \<noteq> None) (map receiver log))) st"

definition both_need :: "roll_op list" where
  "both_need = [OpVote sample_env 1 sample_item ROLL_NEED, OpVote sample_env 2 sample_item ROLL_NEED]"

lemma sample_summary:
  "summary (fold roll_step opened (Some (RollState_new 1, []))) = Some (1, [False], 0, [])"
  "summary (fold roll_step (opened @ both_need) (Some (RollState_new 1, []))) = Some (0, [], 1, [Some 2])"
  by code_simp+

lemma summary_Some:
  assumes "summary st = Some (n, votes, m, got)"
  obtains s log where "st = Some (s, log)" "length (RollId s) = n" "map all_voted (RollId s) = votes" "removed log = m"
    "filter (\<lambda>x. x \<noteq> None) (map receiver log) = got"
  using assms by (auto simp: summary_def)

lemma opened_state:
  obtains s log where "fold roll_step opened (Some (RollState_new 1, [])) = Some (s, log)"
    "rolls.run (Some (RollState_new 1, [])) opened (Some (s, log))" "length (RollId s) = 1"
proof -
  obtain s log where st: "fold roll_step opened (Some (RollState_new 1, [])) = Some (s, log)" "length (RollId s) = 1"
    by (rule summary_Some [OF sample_summary(1)])
  then show ?thesis using opened_run [of "[]" s log] that by simp
qed

lemma loot_awarded_once_witness:
  "\<exists>s log. rolls.run (Some (RollState_new 1, [])) (opened @ both_need) (Some (s, log)) \<and> removed log = 1 \<and>
     count_list log (NotifyItemRemoved 0 0) \<le> 1 \<and> given log \<le> removed log"
proof -
  obtain s log where st: "fold roll_step (opened @ both_need) (Some (RollState_new 1, [])) = Some (s, log)" "removed log = 1"
    by (rule summary_Some [OF sample_summary(2)])
  have run: "rolls.run (Some (RollState_new 1, [])) (opened @ both_need) (Some (s, log))"
    by (rule opened_run [OF _ st(1)]) (simp add: both_need_def roll_pre_def)
  have "sum_list (map (kills 0) (opened @ both_need)) = 1" by (simp add: opened_def both_need_def)
  with loot_awarded_once [OF run, of 0 0] have "count_list log (NotifyItemRemoved 0 0) \<le> 1" "given log \<le> removed log" by simp_all
  with run st(2) show ?thesis by blast
qed

lemma roll_timer_settles_witness:
  "\<exists>s log s' e. rolls.run (Some (RollState_new 1, [])) opened (Some (s, log)) \<and> length (RollId s) = 1 \<and>
     EndRoll sample_env 0 None s = Some (s', e) \<and> RollId s' = filter (\<lambda>r. roll_target r \<noteq> Some 0) (RollId s)"
proof -
  obtain s log where st: "rolls.run (Some (RollState_new 1, [])) opened (Some (s, log))" "length (RollId s) = 1"
    by (rule opened_state)
  have "\<forall>r \<in> set (RollId s). re_GetItemTemplate sample_env (itemid r) \<noteq> None" by (simp add: sample_env_def)
  from roll_timer_settles [OF st(1) this, of 0 None] st show ?thesis by blast
qed

text \<open>The outcome of the roll opened by the sample, once the first player voted greed.\<close>

definition greedy :: "roll_op list" where
  "greedy = [OpVote sample_env 1 sample_item ROLL_GREED]"

definition counted :: "roll_run \<Rightarrow> (uint64 \<times> RollVote) option" where
  "counted st = (case st of
       Some (s, log) \<Rightarrow>
         if length (RollId s) = 1 \<and> roll_target (RollId s ! 0) = Some 0 \<and> map_option (\<lambda>_. ()) (CountTheRoll sample_env 0 None s) = Some ()
         then map_option (\<lambda>(g, v, n). (g, v)) (decide sample_env None (RollId s ! 0) (drawn s)) else None
     | None \<Rightarrow> None)"

lemma sample_counted: "counted (fold roll_step (opened @ greedy) (Some (RollState_new 1, []))) = Some (1, GREED)"
  by code_simp

lemma sample_dice: "fair_dice sample_env"
proof -
  have "unat (of_nat (d mod 50) + 1 :: uint32) = Suc (d mod 50)" for d
    using mod_less_divisor [of 50 d] by (simp add: unat_word_ariths unat_of_nat)
  then have "1 \<le> (of_nat (d mod 50) + 1 :: uint32) \<and> (of_nat (d mod 50) + 1 :: uint32) \<le> 100" for d
    using mod_less_divisor [of 50 d] by (simp add: word_le_nat_alt)
  then show ?thesis by (simp add: fair_dice_def sample_env_def)
qed

lemma roll_winner_witness:
  "\<exists>s log s' e n item. rolls.run (Some (RollState_new 1, [])) (opened @ greedy) (Some (s, log)) \<and> CountTheRoll sample_env 0 None s = Some (s', e) \<and>
     decide sample_env None (RollId s ! 0) (drawn s) = Some (1, GREED, n) \<and> slot_item 0 (RollId s ! 0) s = Some item \<and>
     filter announces e = SendLootRollWon sample_env 0 1 n (vote_value GREED) (RollId s ! 0) \<and>
     gifts e = [StoreNewItem 1 (itemid (RollId s ! 0)) (li_randomPropertyId item) (allowedGUIDs item)] \<and>
     slot_item 0 (RollId s ! 0) s' = Some (item\<lparr>is_looted := True\<rparr>)"
proof -
  obtain s log s' e n where st: "fold roll_step (opened @ greedy) (Some (RollState_new 1, [])) = Some (s, log)"
      "0 < length (RollId s)" "roll_target (RollId s ! 0) = Some 0" "CountTheRoll sample_env 0 None s = Some (s', e)"
      "decide sample_env None (RollId s ! 0) (drawn s) = Some (1, GREED, n)"
    using sample_counted by (fastforce simp: counted_def split: option.splits if_splits)
  have run: "rolls.run (Some (RollState_new 1, [])) (opened @ greedy) (Some (s, log))"
    by (rule opened_run [OF _ st(1)]) (simp add: greedy_def roll_pre_def)
  have prize: "prize sample_env r 1 GREED d item =
      ([StoreNewItem 1 (itemid r) (li_randomPropertyId item) (allowedGUIDs item)], item\<lparr>is_looted := True\<rparr>)" for r d item
    by (simp add: prize_def sample_env_def)
  from roll_winner [OF run sample_dice st(2-4)] run st(4, 5) show ?thesis by (auto simp: Let_def prize)
qed

section \<open>Findings\<close>

text \<open>A vote is counted again for a player who already voted: one player's two votes end the roll of two players, and the
  first player wins it before the second has voted.\<close>

lemma double_vote_decides:
  "summary (fold roll_step (opened @ [OpVote sample_env 1 sample_item ROLL_GREED, OpVote sample_env 1 sample_item ROLL_NEED]) (Some (RollState_new 1, []))) =
    Some (0, [], 1, [Some 1])"
  by code_simp

text \<open>The vote is not checked against the votes offered: disenchanting is accepted although the roll does not offer it.\<close>

lemma vote_mask_ignored:
  "(case fold roll_step opened (Some (RollState_new 1, [])) of Some (s, _) \<Rightarrow> map rollVoteMask (RollId s) | None \<Rightarrow> []) = [ROLL_ALL_TYPE_NO_DISENCHANT]"
  "map_option (\<lambda>(s, log). (RollId s = [], AutoStoreLoot 1 7 \<in> set log))
     (fold roll_step (opened @ [OpVote sample_env 1 sample_item ROLL_DISENCHANT, OpVote sample_env 2 sample_item ROLL_PASS]) (Some (RollState_new 1, []))) =
    Some (True, True)"
  by code_simp+

text \<open>When the last player who has not voted leaves the group, the roll has all its votes and is nevertheless not counted:
  \<open>CountRollVote\<close> looks for the vote that was just erased and returns.\<close>

lemma departure_keeps_finished_roll:
  "summary (fold roll_step (opened @ [OpVote sample_env 1 sample_item ROLL_NEED, OpLeave sample_env 2]) (Some (RollState_new 1, []))) =
    Some (1, [True], 0, [])"
  by code_simp

text \<open>When all members pass automatically, the roll is opened with all its votes and waits for the timer.\<close>

lemma auto_passed_roll_waits:
  "summary (fold roll_step [OpNew 0, OpKill sample_env 0 1 [sample_drop False], OpOpen (sample_env\<lparr>re_PassOnGroupLoot := \<lambda>_. True\<rparr>) (Some GROUP_LOOT) 0]
     (Some (RollState_new 1, []))) = Some (1, [True], 0, [])"
  by code_simp

text \<open>Votes on a quest item are dropped when the loot has no other items, whatever is voted.\<close>

lemma quest_votes_dropped:
  assumes "GetRoll s guid = Some i" "roll_target (RollId s ! i) = Some l" "loots s l = Some L" "loot_items L = []"
  shows "CountRollVote env g guid choice s = Some (s, [])"
  using assms by (simp add: CountRollVote_def act_read_def act_if_def with_loot_def act_send_def Let_def)

lemma quest_roll_sample:
  "summary (fold roll_step [OpNew 0, OpKill sample_env 0 1 [sample_drop True], OpOpen sample_env (Some GROUP_LOOT) 0,
     OpVote sample_env 1 sample_item ROLL_NEED, OpVote sample_env 2 sample_item ROLL_NEED] (Some (RollState_new 1, []))) = Some (1, [False], 0, [])"
  by code_simp

end
