(* ===== verification/Spec2Isabelle.thy ===== *)
theory Spec2Isabelle
  imports ByteBuffer WorldPacket RBAC UpdateMask Timer EventProcessor EventMap Util ObjectDefines Utf8 Channel ChannelMgr Reputation
    LinkedList LFG LFGQueue LFGSearch LFGMgr LFGMgrInv
    LootRoll LootRollInv LootRollRuns
begin

text \<open>
  A verification development for the TrinityCore game server (C++ sources under \<open>src/server\<close>).

  \<^bold>\<open>The program.\<close>  The world server reads packets of its clients into a \<open>ByteBuffer\<close>, dispatches them by
  opcode to handlers of \<open>WorldSession\<close>, which act on managers (channels, groups, accounts) and on the
  objects of the world, and answers with packets.  Time-driven work is kept in event queues and timers.
  The development models the components from the bytes of a packet up to the state of a manager.

  \<^bold>\<open>Prelude\<close>: integer types, C division, flag words; \<open>std::map\<close>, \<open>std::set\<close> and \<open>std::multimap\<close> as sorted
  lists, so that iteration order is that of the code; the locales \<open>kv_store\<close>, \<open>id_set\<close> (what clients rely on
  in maps and sets) and \<open>guarded_machine\<close> (from one step to whole runs), which the components interpret.

  \<^bold>\<open>ByteBuffer\<close> (\<open>shared/Packets/ByteBuffer.h\<close>, \<open>.cpp\<close>): the record of positions and storage, appending with
  its assertions, bounds-checked reads with \<open>size_t\<close> wrap-around, strings, packed GUIDs and times, vectors and
  maps.  The locale \<open>codec\<close> states that writing appends an encoding and reading takes it back; the locale
  \<open>safe_reader\<close> states that a read of any content stays within the buffer or throws.  \<open>codec\<close> is interpreted for
  integers, strings, packed GUIDs and containers of them, \<open>safe_reader\<close> for every stream operator that reads
  (integers, \<open>bool\<close>, \<open>float\<close>, \<open>double\<close>, strings, packed GUIDs and times, containers); the round trips and the safety
  of hostile input follow.  \<open>read_skip\<close> and \<open>read\<close> of a given number of bytes are safe below \<open>2 ^ 63\<close> bytes only.
  A string with an embedded zero byte is not read back as written.  Exceptions and failed assertions are values
  of \<open>bb_error\<close>.  The byte order is that of a little-endian host.

  \<^bold>\<open>WorldPacket\<close> (\<open>shared/Packets/WorldPacket.h\<close>): outgoing packets as opcode and typed fields, and the bytes
  they stream into a buffer (the class inherits \<open>ByteBuffer\<close>; a list of fields shows what was streamed and in which
  order, and \<open>packet_buffer\<close> turns it into the bytes).

  \<^bold>\<open>RBAC\<close> (\<open>game/Accounts/RBAC.h\<close>, \<open>RBAC.cpp\<close>, \<open>AccountMgr.cpp\<close>): permissions of an account.  The expansion along
  linked permissions is a loop over a work set, proved to terminate on cyclic tables and to compute
  reachability; the operations keep granted and denied permissions disjoint; two theorems show that
  denying a permission takes nothing away and that a changed level does not reach a session.

  \<^bold>\<open>UpdateMask\<close> (\<open>Entities/Object/Updates/UpdateMask.h\<close>), \<^bold>\<open>Timer\<close> (\<open>shared/Utilities/Timer.h\<close>), \<^bold>\<open>EventProcessor\<close>
  (\<open>shared/Utilities/EventProcessor.*\<close>), \<^bold>\<open>EventMap\<close> (the script scheduler in \<open>Util.h\<close>), \<^bold>\<open>Util\<close> (string helpers of
  \<open>Util.cpp\<close>), \<^bold>\<open>ObjectDefines\<close> (GUIDs), \<^bold>\<open>Utf8\<close> (wide strings, case folding, player names): the shared services.
  The main loop of \<open>EventProcessor::Update\<close> is a \<open>partial_function\<close>, since an event may keep it running for
  ever; the locale \<open>deferring_events\<close> names what an event must not do, and under it the loop is proved to end
  with nothing due.  The decoder of the utf8cpp library is a parameter.

  \<^bold>\<open>Channel\<close> (\<open>game/Chat/Channels/Channel.*\<close>): a chat channel with all its operations, the inline setters of
  the header included.  An operation returns the
  new channel and the ordered list of its effects (packets with their recipients, notifications of players,
  database statements); what it asks of the server is the record \<open>ChatEnv\<close>.  The invariant covers members,
  bans and ownership; further theorems cover authorisation, admission, kicking, the recipients of messages
  and the ban list in the database.

  \<^bold>\<open>ChannelMgr\<close> (\<open>ChannelMgr.cpp\<close>, \<open>game/Handlers/ChannelHandler.cpp\<close>): the two managers and the packet handlers, from
  the bytes of a request to the effects, and the ownership command of \<open>cs_message.cpp\<close>.  The server invariant holds
  after every sequence of requests in which nobody kicks himself (a theorem of \<open>Channel\<close> shows what happens then)
  and the ownership is not switched on in a channel that lost its owner while it was off (\<open>ownership_on_breaks\<close>).
  The state of the server is \<open>None\<close> once a name conversion has overflowed its buffer; \<open>Utf8\<close> has the exact condition.

  \<^bold>\<open>Reputation\<close> (\<open>game/Reputation/ReputationMgr.*\<close>): standings, ranks, flags and counters of a player, spill-over to
  related factions with single-precision rates (rationals rounded after every operation, theory \<open>Float32\<close>), packets, loading
  and saving.  Every operation is shown to be a sequence of updates of one faction (the relation \<open>touch\<close>); from
  that follow the exactness of the counters, that unsaved changes are always marked, and that saving and
  loading restores every reputation.  \<open>factions_ok\<close> states what is relied on in the faction table.  Where the code
  stops at a failed assertion or dereferences a null faction, the runs of the model go on, so that they include
  the real ones up to that point.

  \<^bold>\<open>LinkedList\<close> (\<open>shared/Dynamic/LinkedList.h\<close>, \<open>LinkedReference/*\<close>): the intrusive doubly linked list behind the
  references between objects, on an explicit heap from addresses to elements, so that aliasing and null
  pointers are visible.  The locale \<open>simulation\<close> is interpreted on the pointer operations and an abstract
  list; \<open>passive_source\<close> states what a class of references must do for \<open>clearReferences\<close> to end, and is
  interpreted for group references.

  \<^bold>\<open>LFG\<close> (\<open>game/DungeonFinding/LFG*.cpp\<close>): the data of players and groups in the dungeon finder and the
  backtracking assignment of roles \<open>CheckGroupRoles\<close>, which calls itself on the map it is changing; it is proved
  to end and to be exact.

  \<^bold>\<open>LFGQueue\<close>, \<^bold>\<open>LFGSearch\<close> (\<open>LFGQueue.h\<close>, \<open>LFGQueue.cpp\<close>): a queue with its cache of combinations, waiting times, and
  the search for groups.  \<open>FindNewGroups\<close> shares one list between its recursive calls and its loop; the nested
  recursion is proved to end.  The locales \<open>search_invariant\<close>, \<open>groups_invariant\<close> and \<open>total_search\<close> lift what one check
  of a combination keeps to the whole search; their interpretations give the validity of every proposal and
  that the search loses nobody, as long as no combination of guids in the queues is cached as a match or with
  outdated bad states (\<open>cache_ok\<close>); another theorem shows how a guid is lost otherwise.  What the queue asks of the
  manager is the record \<open>LfgEnv\<close>.

  \<^bold>\<open>LFGMgr\<close>, \<^bold>\<open>LFGMgrInv\<close> (\<open>LFGMgr.h\<close>, \<open>LFGMgr.cpp\<close>, \<open>LFGScripts.cpp\<close>): the manager and the hooks of the group system.  Every
  handler is an action from a manager to a new one with the packets it sends in their order; dereferencing
  the end of a container is \<open>None\<close>.  Players, the world and the group system are parameters.  The rules \<open>keeps\<close>
  and \<open>leads\<close> compose invariants over actions; the interpretation \<open>manager\<close> of \<open>guarded_machine\<close> gives the invariant of
  all runs (\<open>hooks_only\<close>: the group system changes the manager through its hooks; \<open>join_pre\<close>: what it promises
  of a group that joins; requests to join while a member of an open role check is offline, which the code refuses,
  are outside the runs), and with it the states that can be restored, the validity of every proposal found,
  and where no container is dereferenced behind its end; one theorem shows a run where it is.

  \<^bold>\<open>Action\<close>: state, ordered effects and undefined behaviour (\<open>None\<close>) of a stateful handler as one type of actions, with
  the rules \<open>keeps\<close>, \<open>leads\<close>, \<open>returns\<close> and \<open>succeeds\<close> that carry invariants and termination through a handler.  The
  dungeon finder and the loot rolls are written in it.

  \<^bold>\<open>LootRoll\<close>, \<^bold>\<open>LootRollInv\<close>, \<^bold>\<open>LootRollRuns\<close> (\<open>game/Groups/Group.cpp\<close>, the loot system; \<open>game/Loot/LootMgr.*\<close>): filling a loot,
  opening rolls by each loot method, votes, counting a roll, the timer of a corpse and the departure of a member.
  Loots live in a store and a roll refers to its loot until the loot is cleared.  The rule \<open>spends\<close> pays every removed item
  with an item that was open before, so that over all runs (interpretation \<open>rolls\<close> of \<open>guarded_machine\<close>) an item is
  handed out once; the timer is shown to end all its rolls, and counting a roll agrees with a reference that picks
  the winner in one line and says what he gets.  What the rolls ask of players, inventories and random numbers is the record \<open>RollEnv\<close>;
  \<open>env_ok\<close> says that group members are few and distinct, \<open>fair_dice\<close> that \<open>urand\<close> keeps its bounds.  The lists of items
  that only some players see, the money of a loot, and items taken by hand, are outside the model.

  \<^bold>\<open>Bounds.\<close>  No fuel is used: loops are structural, terminate by a measure, or are partial functions with a
  proof that they return.  The limit of 10,000,000 bytes is the assertion of \<open>ByteBuffer::append\<close>; the bound
  \<open>2 ^ 63\<close> on the millisecond clock of the event queue keeps a positive delay in the future.

  \<^bold>\<open>Not modelled.\<close>  Floating-point positions, sockets, database access (statements appear as effects), the
  object model of units and players, spells, maps, movement, scripts; of groups the membership, subgroups,
  invitations, target icons, the looter and instance binds.
\<close>

end
